(* ===== verification/Rust_Prelude.thy ===== *)
theory Rust_Prelude
  imports Main "HOL-Library.Sublist"
begin

section \<open>Prelude: the parts of the Rust standard library the sources use\<close>

text \<open>
  A Rust \<open>str\<close> is the sequence of its UTF-8 bytes, so it is modelled as a \<open>string\<close> whose
  characters are those bytes: \<open>len()\<close> is \<open>length\<close>, and the byte-wise searches below agree with
  \<open>str::contains\<close>, \<open>str::find\<close> and \<open>str::replace\<close> because no UTF-8 encoding occurs inside another
  one off a character boundary. What depends on characters (\<open>chars\<close>, \<open>trim\<close>,
  \<open>split_whitespace\<close>) goes through \<open>utf8_chars\<close>, which groups each lead byte with its continuation
  bytes. \<open>to_lowercase\<close> and \<open>to_uppercase\<close> act on the ASCII letters and leave every other byte
  alone: the Unicode case tables beyond ASCII are not modelled.

  The theory also holds the result type, decimal printing, the generic lemmas on lists and
  strings the components share, the collections of the development and the locale of
  labelled transition systems with an invariant.
\<close>

named_theorems str_simps \<open>characteristic equations of the string operations\<close>
named_theorems preserves \<open>preservation of component invariants by the operations\<close>

subsection \<open>Results\<close>

text \<open>Rust's \<open>Result\<close>: \<open>Ok\<close> carries the value, \<open>Err\<close> the error.\<close>

datatype ('a, 'e) result = Ok (ok_val: 'a) | Err (err_val: 'e)

fun is_ok :: "('a, 'e) result \<Rightarrow> bool" where
  "is_ok (Ok _) = True"
| "is_ok (Err _) = False"

fun res_bind :: "('a, 'e) result \<Rightarrow> ('a \<Rightarrow> ('b, 'e) result) \<Rightarrow> ('b, 'e) result" where
  "res_bind (Ok x) f = f x"
| "res_bind (Err e) f = Err e"

lemma res_bind_Ok_iff [simp]: "res_bind r f = Ok y \<longleftrightarrow> (\<exists>x. r = Ok x \<and> f x = Ok y)"
  by (cases r) auto

lemma res_bind_Err_iff: "res_bind r f = Err e \<longleftrightarrow> r = Err e \<or> (\<exists>x. r = Ok x \<and> f x = Err e)"
  by (cases r) auto

subsection \<open>Characters and case\<close>

definition is_cont_byte :: "char \<Rightarrow> bool" where
  "is_cont_byte c \<longleftrightarrow> 128 \<le> (of_char c :: nat) \<and> (of_char c :: nat) < 192"

function utf8_chars :: "string \<Rightarrow> string list" where
  "utf8_chars [] = []"
| "utf8_chars (c # s) = (c # takeWhile is_cont_byte s) # utf8_chars (dropWhile is_cont_byte s)"
  by pat_completeness auto
termination
  by (relation "measure length") (auto simp: le_imp_less_Suc length_dropWhile_le)

lemma concat_utf8_chars [simp]: "concat (utf8_chars s) = s"
  by (induction s rule: utf8_chars.induct) auto

lemma utf8_chars_not_Nil: "ch \<in> set (utf8_chars s) \<Longrightarrow> ch \<noteq> []"
  by (induction s rule: utf8_chars.induct) auto

lemma utf8_chars_append:
  "b = [] \<or> \<not> is_cont_byte (hd b) \<Longrightarrow> utf8_chars (a @ b) = utf8_chars a @ utf8_chars b"
proof (induction a rule: utf8_chars.induct)
  case (2 c s)
  have b: "takeWhile is_cont_byte b = []" "dropWhile is_cont_byte b = b" using 2(2) by (cases b; simp)+
  show ?case
  proof (cases "\<forall>x \<in> set s. is_cont_byte x")
    case True
    then have "takeWhile is_cont_byte (s @ b) = s" "dropWhile is_cont_byte (s @ b) = b"
      "takeWhile is_cont_byte s = s" "dropWhile is_cont_byte s = []" using b by (simp_all add: takeWhile_append2 takeWhile_eq_all_conv)
    then show ?thesis by (simp only: append_Cons utf8_chars.simps append_Nil)
  next
    case False
    then obtain x where "x \<in> set s" "\<not> is_cont_byte x" by blast
    then have "takeWhile is_cont_byte (s @ b) = takeWhile is_cont_byte s"
      "dropWhile is_cont_byte (s @ b) = dropWhile is_cont_byte s @ b" by (simp_all add: takeWhile_append1 dropWhile_append1)
    with 2 show ?thesis by simp
  qed
qed simp

lemma utf8_chars_ascii: "\<forall>c \<in> set w. \<not> is_cont_byte c \<Longrightarrow> utf8_chars w = map (\<lambda>c. [c]) w"
proof (induction w)
  case (Cons c w)
  then have "takeWhile is_cont_byte w = []" "dropWhile is_cont_byte w = w" by (cases w; simp)+
  with Cons show ?case by simp
qed simp

text \<open>\<open>char::is_whitespace\<close>: the Unicode White_Space property, in UTF-8.\<close>

definition white_chars :: "string list" where
  "white_chars =
     [[CHR 9], [CHR 10], [CHR 11], [CHR 12], [CHR 13], [CHR 32],
      [CHR 0xC2, CHR 0x85], [CHR 0xC2, CHR 0xA0], [CHR 0xE1, CHR 0x9A, CHR 0x80],
      [CHR 0xE2, CHR 0x80, CHR 0x80], [CHR 0xE2, CHR 0x80, CHR 0x81], [CHR 0xE2, CHR 0x80, CHR 0x82],
      [CHR 0xE2, CHR 0x80, CHR 0x83], [CHR 0xE2, CHR 0x80, CHR 0x84], [CHR 0xE2, CHR 0x80, CHR 0x85],
      [CHR 0xE2, CHR 0x80, CHR 0x86], [CHR 0xE2, CHR 0x80, CHR 0x87], [CHR 0xE2, CHR 0x80, CHR 0x88],
      [CHR 0xE2, CHR 0x80, CHR 0x89], [CHR 0xE2, CHR 0x80, CHR 0x8A], [CHR 0xE2, CHR 0x80, CHR 0xA8],
      [CHR 0xE2, CHR 0x80, CHR 0xA9], [CHR 0xE2, CHR 0x80, CHR 0xAF], [CHR 0xE2, CHR 0x81, CHR 0x9F],
      [CHR 0xE3, CHR 0x80, CHR 0x80]]"

definition is_white :: "string \<Rightarrow> bool" where
  "is_white ch \<longleftrightarrow> ch \<in> set white_chars"

definition is_digit :: "char \<Rightarrow> bool" where
  "is_digit c \<longleftrightarrow> 48 \<le> (of_char c :: nat) \<and> (of_char c :: nat) \<le> 57"

definition is_upper :: "char \<Rightarrow> bool" where
  "is_upper c \<longleftrightarrow> 65 \<le> (of_char c :: nat) \<and> (of_char c :: nat) \<le> 90"

definition is_lower :: "char \<Rightarrow> bool" where
  "is_lower c \<longleftrightarrow> 97 \<le> (of_char c :: nat) \<and> (of_char c :: nat) \<le> 122"

definition lower_char :: "char \<Rightarrow> char" where
  "lower_char c = (if is_upper c then char_of ((of_char c :: nat) + 32) else c)"

definition upper_char :: "char \<Rightarrow> char" where
  "upper_char c = (if is_lower c then char_of ((of_char c :: nat) - 32) else c)"

definition to_lowercase :: "string \<Rightarrow> string" where
  "to_lowercase s = map lower_char s"

definition to_uppercase :: "string \<Rightarrow> string" where
  "to_uppercase s = map upper_char s"

lemma not_upper_lower_char [simp]: "\<not> is_upper (lower_char c)"
  by (auto simp: lower_char_def is_upper_def of_char_of)

lemma lower_char_idem [simp]: "lower_char (lower_char c) = lower_char c"
  using not_upper_lower_char [of c] by (simp add: lower_char_def [of "lower_char c"])

lemma to_lowercase_idem [simp]: "to_lowercase (to_lowercase s) = to_lowercase s"
  by (simp add: to_lowercase_def)

lemma length_to_lowercase [simp]: "length (to_lowercase s) = length s"
  by (simp add: to_lowercase_def)

lemma to_lowercase_append [simp]: "to_lowercase (s @ t) = to_lowercase s @ to_lowercase t"
  by (simp add: to_lowercase_def)

lemma to_lowercase_no_upper: "c \<in> set (to_lowercase s) \<Longrightarrow> \<not> is_upper c"
  by (auto simp: to_lowercase_def)

text \<open>Characters outside ASCII that occur in the literals of the sources.\<close>

definition em_dash :: string where
  "em_dash = [CHR 0xE2, CHR 0x80, CHR 0x94]"

definition ellipsis :: string where
  "ellipsis = [CHR 0xE2, CHR 0x80, CHR 0xA6]"

definition sect_sign :: string where
  "sect_sign = [CHR 0xC2, CHR 0xA7]"

subsection \<open>Searching\<close>

abbreviation starts_with :: "string \<Rightarrow> string \<Rightarrow> bool" where
  "starts_with s p \<equiv> prefix p s"

abbreviation ends_with :: "string \<Rightarrow> string \<Rightarrow> bool" where
  "ends_with s p \<equiv> suffix p s"

fun str_contains :: "string \<Rightarrow> string \<Rightarrow> bool" where
  "str_contains [] p = (p = [])"
| "str_contains (c # s) p = (prefix p (c # s) \<or> str_contains s p)"

lemma str_contains_iff_sublist: "str_contains s p \<longleftrightarrow> sublist p s"
  by (induction s) (auto simp: sublist_Cons_right)

lemma str_contains_iff: "str_contains s p \<longleftrightarrow> (\<exists>a b. s = a @ p @ b)"
  by (simp add: str_contains_iff_sublist sublist_def)

lemma str_contains_set: "str_contains s p \<Longrightarrow> set p \<subseteq> set s"
  by (auto simp: str_contains_iff)

lemma str_contains_mono: "str_contains s p \<Longrightarrow> sublist s t \<Longrightarrow> str_contains t p"
  by (meson str_contains_iff_sublist sublist_order.order.trans)

text \<open>\<open>str::find\<close>: the byte offset of the first occurrence.\<close>

fun str_find :: "string \<Rightarrow> string \<Rightarrow> nat option" where
  "str_find [] p = (if p = [] then Some 0 else None)"
| "str_find (c # s) p = (if prefix p (c # s) then Some 0 else map_option Suc (str_find s p))"

lemma str_find_None_iff: "str_find s p = None \<longleftrightarrow> \<not> str_contains s p"
  by (induction s) auto

lemma str_find_Some:
  "str_find s p = Some i \<Longrightarrow> i \<le> length s \<and> prefix p (drop i s) \<and> (\<forall>j<i. \<not> prefix p (drop j s))"
proof (induction s arbitrary: i)
  case Nil
  then show ?case by (auto split: if_splits)
next
  case (Cons c s)
  show ?case
  proof (cases "prefix p (c # s)")
    case True
    with Cons.prems show ?thesis by simp
  next
    case False
    with Cons.prems obtain j where j: "str_find s p = Some j" "i = Suc j" by auto
    from Cons.IH [OF j(1)] False j(2) show ?thesis
      by (auto simp: less_Suc_eq_0_disj)
  qed
qed

subsection \<open>Replacing\<close>

text \<open>
  \<open>str::replace\<close>: the leftmost non-overlapping occurrences, from the left. An empty pattern
  matches at every character boundary.
\<close>

function replace_from :: "string \<Rightarrow> string \<Rightarrow> string \<Rightarrow> string" where
  "replace_from p r s =
     (if p = [] then s
      else if prefix p s then r @ replace_from p r (drop (length p) s)
      else (case s of [] \<Rightarrow> [] | c # s' \<Rightarrow> c # replace_from p r s'))"
  by pat_completeness auto
termination
proof (relation "measure (\<lambda>(p, r, s). length s)", goal_cases)
  case (2 p r s)
  then show ?case by (cases s; cases p) auto
qed auto

declare replace_from.simps [simp del]

definition str_replace :: "string \<Rightarrow> string \<Rightarrow> string \<Rightarrow> string" where
  "str_replace s p r =
     (if p = [] then r @ concat (map (\<lambda>ch. ch @ r) (utf8_chars s)) else replace_from p r s)"

lemma replace_from_Nil [simp]: "replace_from p r [] = []"
  by (simp add: replace_from.simps [of p r "[]"])

lemma replace_from_hit:
  "p \<noteq> [] \<Longrightarrow> replace_from p r (p @ s) = r @ replace_from p r s"
  by (simp add: replace_from.simps [of p r "p @ s"])

lemma replace_from_miss:
  "p \<noteq> [] \<Longrightarrow> \<not> prefix p (c # s) \<Longrightarrow> replace_from p r (c # s) = c # replace_from p r s"
  by (simp add: replace_from.simps [of p r "c # s"])

lemma replace_from_skip:
  "p \<noteq> [] \<Longrightarrow> (\<And>i. i < length l \<Longrightarrow> \<not> prefix p (drop i (l @ s)))
   \<Longrightarrow> replace_from p r (l @ s) = l @ replace_from p r s"
proof (induction l)
  case Nil
  then show ?case by simp
next
  case (Cons c l)
  from Cons.prems(2) [of 0] have miss: "\<not> prefix p (c # (l @ s))" by simp
  have "replace_from p r (l @ s) = l @ replace_from p r s"
  proof (rule Cons.IH [OF Cons.prems(1)])
    fix i
    assume "i < length l"
    with Cons.prems(2) [of "Suc i"] show "\<not> prefix p (drop i (l @ s))" by simp
  qed
  with Cons.prems(1) miss show ?case by (simp add: replace_from_miss)
qed

lemma replace_from_absent:
  assumes "p \<noteq> []" "\<not> str_contains s p"
  shows "replace_from p r s = s"
proof -
  have "\<not> prefix p (drop i (s @ []))" if "i < length s" for i
    using assms(2) that
    by (metis append.right_neutral append_take_drop_id prefix_def str_contains_iff)
  from replace_from_skip [OF assms(1) this] show ?thesis by simp
qed

lemma str_replace_absent: "p \<noteq> [] \<Longrightarrow> \<not> str_contains s p \<Longrightarrow> str_replace s p r = s"
  by (simp add: str_replace_def replace_from_absent)

subsection \<open>Splitting, trimming, joining\<close>

text \<open>\<open>str::split\<close> on a set of (ASCII) characters: every separator ends a piece, the last piece may be empty.\<close>

fun split_on :: "(char \<Rightarrow> bool) \<Rightarrow> string \<Rightarrow> string list" where
  "split_on P [] = [[]]"
| "split_on P (c # s) =
     (if P c then [] # split_on P s
      else (case split_on P s of [] \<Rightarrow> [[c]] | w # ws \<Rightarrow> (c # w) # ws))"

lemma split_on_not_Nil [simp]: "split_on P s \<noteq> []"
  by (induction s) (auto split: list.splits)

lemma split_on_no_sep: "w \<in> set (split_on P s) \<Longrightarrow> c \<in> set w \<Longrightarrow> \<not> P c"
proof (induction s arbitrary: w c)
  case Nil
  then show ?case by simp
next
  case (Cons x s)
  obtain v vs where sp: "split_on P s = v # vs" by (cases "split_on P s") auto
  from Cons.IH [of v] Cons.IH have "\<And>w c. w \<in> set (split_on P s) \<Longrightarrow> c \<in> set w \<Longrightarrow> \<not> P c"
    by blast
  with Cons.prems sp show ?case by (fastforce split: if_splits)
qed

lemma split_on_sep: "P c \<Longrightarrow> split_on P (a @ c # b) = split_on P a @ split_on P b"
proof (induction a)
  case (Cons x a)
  then show ?case
    using split_on_not_Nil [of P a] by (cases "split_on P a") auto
qed simp

lemma split_on_none: "(\<And>c. c \<in> set s \<Longrightarrow> \<not> P c) \<Longrightarrow> split_on P s = [s]"
  by (induction s) auto

lemma set_split_on: "c \<in> set s \<Longrightarrow> P c \<or> (\<exists>w \<in> set (split_on P s). c \<in> set w)"
proof (induction s)
  case (Cons x s)
  then show ?case by (cases "split_on P s") auto
qed simp

lemma length_split_on: "length s = sum_list (map length (split_on P s)) + (length (split_on P s) - 1)"
proof (induction s)
  case (Cons x s)
  then show ?case using split_on_not_Nil [of P s] by (cases "split_on P s") auto
qed simp

text \<open>\<open>str::split\<close> on a string.\<close>

function split_str :: "string \<Rightarrow> string \<Rightarrow> string list" where
  "split_str p s =
     (if p = [] then [] # utf8_chars s @ [[]]
      else case str_find s p of
             None \<Rightarrow> [s]
           | Some i \<Rightarrow> take i s # split_str p (drop (i + length p) s))"
  by pat_completeness auto
termination
proof (relation "measure (\<lambda>(p, s). length s)", goal_cases)
  case (2 p s i)
  from str_find_Some [OF 2(2)] have "prefix p (drop i s)" by simp
  then have "length p \<le> length s - i" using prefix_length_le by fastforce
  moreover from 2(1) have "0 < length p" by simp
  ultimately have "length s - (i + length p) < length s" by linarith
  then show ?case by simp
qed auto

declare split_str.simps [simp del]

text \<open>\<open>str::lines\<close>: pieces ended by \<open>\n\<close> or \<open>\r\n\<close>, no final empty piece.\<close>

definition strip_cr :: "string \<Rightarrow> string" where
  "strip_cr l = (if l \<noteq> [] \<and> last l = CHR 13 then butlast l else l)"

definition str_lines :: "string \<Rightarrow> string list" where
  "str_lines s =
     (let ps = split_on (\<lambda>c. c = CHR 10) s
      in map strip_cr (butlast ps) @ (if last ps = [] then [] else [last ps]))"

text \<open>\<open>str::trim\<close>, \<open>str::trim_start\<close> and \<open>str::split_whitespace\<close>.\<close>

definition trim_start :: "string \<Rightarrow> string" where
  "trim_start s = concat (dropWhile is_white (utf8_chars s))"

definition trim :: "string \<Rightarrow> string" where
  "trim s = concat (rev (dropWhile is_white (rev (dropWhile is_white (utf8_chars s)))))"

function words_of :: "string list \<Rightarrow> string list" where
  "words_of [] = []"
| "words_of (ch # chs) =
     (if is_white ch then words_of chs
      else (ch @ concat (takeWhile (\<lambda>x. \<not> is_white x) chs))
           # words_of (dropWhile (\<lambda>x. \<not> is_white x) chs))"
  by pat_completeness auto
termination
  by (relation "measure length") (auto simp: le_imp_less_Suc length_dropWhile_le)

definition split_whitespace :: "string \<Rightarrow> string list" where
  "split_whitespace s = words_of (utf8_chars s)"

fun str_join :: "string \<Rightarrow> string list \<Rightarrow> string" where
  "str_join sep [] = []"
| "str_join sep [x] = x"
| "str_join sep (x # xs) = x @ sep @ str_join sep xs"

text \<open>\<open>str::matches(p).count()\<close>: the number of leftmost non-overlapping occurrences.\<close>

definition match_count :: "string \<Rightarrow> string \<Rightarrow> nat" where
  "match_count s p = length (split_str p s) - 1"

text \<open>\<open>chars().take(n).collect()\<close> and \<open>chars().count()\<close>.\<close>

definition take_chars :: "nat \<Rightarrow> string \<Rightarrow> string" where
  "take_chars n s = concat (take n (utf8_chars s))"

definition char_count :: "string \<Rightarrow> nat" where
  "char_count s = length (utf8_chars s)"

subsection \<open>Iterators\<close>

text \<open>\<open>Iterator::position\<close>: the index of the first element satisfying the predicate.\<close>

fun position :: "('a \<Rightarrow> bool) \<Rightarrow> 'a list \<Rightarrow> nat option" where
  "position P [] = None"
| "position P (x # xs) = (if P x then Some 0 else map_option Suc (position P xs))"

lemma position_Some:
  "position P xs = Some i \<Longrightarrow> i < length xs \<and> P (xs ! i) \<and> (\<forall>j<i. \<not> P (xs ! j))"
proof (induction xs arbitrary: i)
  case Nil
  then show ?case by simp
next
  case (Cons x xs)
  then show ?case
    by (auto split: if_splits simp: less_Suc_eq_0_disj)
qed

lemma position_None_iff: "position P xs = None \<longleftrightarrow> (\<forall>x\<in>set xs. \<not> P x)"
  by (induction xs) auto

lemma position_distinct:
  assumes "distinct (map f xs)" "i < length xs"
  shows "position (\<lambda>x. f x = f (xs ! i)) xs = Some i"
proof (cases "position (\<lambda>x. f x = f (xs ! i)) xs")
  case None
  with assms(2) show ?thesis by (auto simp: position_None_iff)
next
  case (Some j)
  from position_Some [OF this] assms have "j = i"
    by (metis distinct_conv_nth length_map nth_map)
  with Some show ?thesis by simp
qed

subsection \<open>Decimal printing\<close>

definition digit_char :: "nat \<Rightarrow> char" where
  "digit_char d = char_of (48 + d)"

fun nat_str :: "nat \<Rightarrow> string" where
  "nat_str n = (if n < 10 then [digit_char n] else nat_str (n div 10) @ [digit_char (n mod 10)])"

declare nat_str.simps [simp del]

definition int_str :: "int \<Rightarrow> string" where
  "int_str i = (if i < 0 then ''-'' @ nat_str (nat (- i)) else nat_str (nat i))"

lemma of_digit_char: "d < 10 \<Longrightarrow> (of_char (digit_char d) :: nat) = 48 + d"
  by (simp add: digit_char_def of_char_of)

lemma digit_char_eq_iff: "d < 10 \<Longrightarrow> e < 10 \<Longrightarrow> digit_char d = digit_char e \<longleftrightarrow> d = e"
  by (metis add_left_cancel of_digit_char)

lemma is_digit_digit_char [simp]: "d < 10 \<Longrightarrow> is_digit (digit_char d)"
  by (simp add: is_digit_def of_digit_char)

lemma nat_str_not_Nil [simp]: "nat_str n \<noteq> []" and nat_str_not_Nil' [simp]: "[] \<noteq> nat_str n"
  by (subst nat_str.simps, simp)+

lemma nat_str_digits: "c \<in> set (nat_str n) \<Longrightarrow> is_digit c"
proof (induction n rule: nat_str.induct)
  case (1 n)
  then show ?case
    by (cases "n < 10") (auto simp: nat_str.simps [of n])
qed

lemma nat_str_eq_iff [simp]: "nat_str m = nat_str n \<longleftrightarrow> m = n"
proof (induction m arbitrary: n rule: nat_str.induct)
  case (1 m)
  show ?case
  proof (cases "m < 10")
    case True
    then show ?thesis
      by (cases "n < 10")
         (auto simp: nat_str.simps [of m] nat_str.simps [of n] digit_char_eq_iff
            dest: arg_cong [of _ _ length])
  next
    case False
    show ?thesis
    proof (cases "n < 10")
      case True
      with False show ?thesis by (simp add: nat_str.simps [of m] nat_str.simps [of n])
    next
      case n: False
      have "m div 10 = n div 10 \<and> m mod 10 = n mod 10 \<longleftrightarrow> m = n" by (metis mult_div_mod_eq)
      with False n 1 show ?thesis
        by (simp add: nat_str.simps [of m] nat_str.simps [of n] digit_char_eq_iff)
    qed
  qed
qed

subsection \<open>Decimal parsing and debug printing\<close>

text \<open>\<open>str::strip_prefix\<close>.\<close>

definition strip_prefix :: "string \<Rightarrow> string \<Rightarrow> string option" where
  "strip_prefix s p = (if starts_with s p then Some (drop (length p) s) else None)"

text \<open>Durations in nanoseconds; \<open>num_seconds\<close> truncates towards zero.\<close>

definition NANOS :: int where "NANOS = 1000000000"

definition num_seconds :: "int \<Rightarrow> int" where
  "num_seconds d = (if 0 \<le> d then d div NANOS else - ((- d) div NANOS))"

text \<open>\<open>str::split_once\<close> on an ASCII character.\<close>

definition split_once :: "char \<Rightarrow> string \<Rightarrow> (string \<times> string) option" where
  "split_once c s =
     (if c \<in> set s then Some (takeWhile (\<lambda>x. x \<noteq> c) s, tl (dropWhile (\<lambda>x. x \<noteq> c) s)) else None)"

lemma split_once_append: "c \<notin> set a \<Longrightarrow> split_once c (a @ c # b) = Some (a, b)"
  by (induction a) (auto simp: split_once_def)

text \<open>
  \<open>parse\<close> on an unsigned integer type with \<open>bound\<close> values: an optional plus sign, then at least
  one digit and nothing else, and no overflow.
\<close>

definition digits_value :: "string \<Rightarrow> nat" where
  "digits_value s = foldl (\<lambda>a c. 10 * a + (of_char c - 48)) 0 s"

definition parse_uint :: "nat \<Rightarrow> string \<Rightarrow> nat option" where
  "parse_uint bound s =
     (let t = (case s of [] \<Rightarrow> [] | c # r \<Rightarrow> if c = CHR ''+'' then r else s)
      in if t = [] \<or> \<not> list_all is_digit t then None
         else if digits_value t < bound then Some (digits_value t) else None)"

lemma digits_value_nat_str [simp]: "digits_value (nat_str n) = n"
proof (induction n rule: nat_str.induct)
  case (1 n)
  have "n = 10 * (n div 10) + n mod 10" by simp
  with 1 show ?case
    by (cases "n < 10") (simp_all add: nat_str.simps [of n] digits_value_def of_digit_char)
qed

lemma nat_str_no_plus: "nat_str n \<noteq> CHR ''+'' # r"
proof
  assume "nat_str n = CHR ''+'' # r"
  then have "is_digit (CHR ''+'')" using nat_str_digits [of "CHR ''+''" n] by simp
  then show False by (simp add: is_digit_def)
qed

lemma parse_uint_nat_str [simp]: "parse_uint b (nat_str n) = (if n < b then Some n else None)"
proof -
  have "(case nat_str n of [] \<Rightarrow> [] | c # r \<Rightarrow> if c = CHR ''+'' then r else nat_str n) = nat_str n"
    using nat_str_no_plus [of n] by (auto split: list.splits)
  moreover have "list_all is_digit (nat_str n)" by (auto simp: list_all_iff nat_str_digits)
  ultimately show ?thesis by (simp add: parse_uint_def)
qed

lemma parse_uint_bound: "parse_uint b s = Some n \<Longrightarrow> n < b"
  by (auto simp: parse_uint_def Let_def split: if_splits)

text \<open>The \<open>{:?}\<close> form of a string (non-ASCII characters print as they are).\<close>

definition hex_digit :: "nat \<Rightarrow> char" where
  "hex_digit d = (if d < 10 then digit_char d else char_of (87 + d))"

definition debug_char :: "char \<Rightarrow> string" where
  "debug_char c =
     (let n = (of_char c :: nat) in
      if n = 0 then [CHR 92, CHR ''0'']
      else if n = 9 then [CHR 92, CHR ''t'']
      else if n = 10 then [CHR 92, CHR ''n'']
      else if n = 13 then [CHR 92, CHR ''r'']
      else if n = 34 \<or> n = 92 then [CHR 92, c]
      else if n < 16 then [CHR 92, CHR ''u'', CHR 123, hex_digit n, CHR 125]
      else if n < 32 \<or> n = 127 then [CHR 92, CHR ''u'', CHR 123, hex_digit (n div 16), hex_digit (n mod 16), CHR 125]
      else [c])"

definition str_debug :: "string \<Rightarrow> string" where
  "str_debug s = [CHR 34] @ concat (map debug_char s) @ [CHR 34]"

subsection \<open>Labelled transition systems and invariants\<close>

inductive steps :: "('s \<Rightarrow> 'l \<Rightarrow> 's \<Rightarrow> bool) \<Rightarrow> 's \<Rightarrow> 'l list \<Rightarrow> 's \<Rightarrow> bool"
  for step :: "'s \<Rightarrow> 'l \<Rightarrow> 's \<Rightarrow> bool" where
  steps_nil: "steps step s [] s"
| steps_cons: "step s l t \<Longrightarrow> steps step t ls u \<Longrightarrow> steps step s (l # ls) u"

inductive_simps steps_Nil_iff [simp]: "steps step s [] t"
inductive_simps steps_Cons_iff: "steps step s (l # ls) u"

lemma steps_append: "steps step s (ls @ ks) u \<longleftrightarrow> (\<exists>t. steps step s ls t \<and> steps step t ks u)"
  by (induction ls arbitrary: s) (auto simp: steps_Cons_iff)

text \<open>
  The contract a stateful component offers: an initial state satisfying its invariant and
  operations that keep it. Every reachable state then satisfies it.
\<close>

locale invariant_system =
  fixes init :: "'s" and step :: "'s \<Rightarrow> 'l \<Rightarrow> 's \<Rightarrow> bool" and inv :: "'s \<Rightarrow> bool"
  assumes inv_init: "inv init"
    and inv_step: "inv s \<Longrightarrow> step s l t \<Longrightarrow> inv t"
begin

lemma inv_steps: "steps step s ls t \<Longrightarrow> inv s \<Longrightarrow> inv t"
  by (induction rule: steps.induct) (auto intro: inv_step)

lemma inv_reachable: "steps step init ls t \<Longrightarrow> inv t"
  by (rule inv_steps [OF _ inv_init])

end

text \<open>
  A component refines an abstract specification: its states map to abstract states, and each
  of its steps, taken in a state satisfying the invariant, maps to an abstract step or to none.
\<close>

locale refinement = invariant_system init step inv
  for init :: "'s" and step :: "'s \<Rightarrow> 'l \<Rightarrow> 's \<Rightarrow> bool" and inv :: "'s \<Rightarrow> bool" +
  fixes abs_init :: "'a" and abs_step :: "'a \<Rightarrow> 'm \<Rightarrow> 'a \<Rightarrow> bool" and abs :: "'s \<Rightarrow> 'a"
  assumes abs_of_init: "abs init = abs_init"
    and simulates: "inv s \<Longrightarrow> step s l t \<Longrightarrow> abs t = abs s \<or> (\<exists>m. abs_step (abs s) m (abs t))"
begin

lemma simulates_steps: "steps step s ls t \<Longrightarrow> inv s \<Longrightarrow> \<exists>ms. steps abs_step (abs s) ms (abs t)"
proof (induction rule: steps.induct)
  case (steps_nil s)
  show ?case by (rule exI [of _ "[]"]) simp
next
  case (steps_cons s l t ls u)
  from steps_cons.prems steps_cons.hyps(1) have "inv t" by (rule inv_step)
  with steps_cons.IH obtain ms where ms: "steps abs_step (abs t) ms (abs u)" by blast
  from simulates [OF steps_cons.prems steps_cons.hyps(1)] ms show ?case
    by (metis steps.steps_cons)
qed

lemma refines: "steps step init ls s \<Longrightarrow> \<exists>ms. steps abs_step abs_init ms (abs s)"
  using simulates_steps [OF _ inv_init] by (simp add: abs_of_init)

end

end
