(* ===== verification/Json_Value.thy ===== *)
theory Json_Value
  imports Rust_Prelude
begin

section \<open>JSON values as the sources match on them\<close>

text \<open>
  The documented enum of \<open>serde_json::Value\<close>, whose constructors the sources name, with its
  projections \<open>get\<close>, \<open>as_str\<close>, \<open>as_array\<close>, \<open>as_bool\<close> and \<open>as_u64\<close>. Objects are association lists; the
  numbers the sources build are integers. Printing and parsing of JSON text belong to that
  crate and appear as parameters where a component uses them.
\<close>

datatype json =
    JNull
  | JBool bool
  | JNumber int
  | JString string
  | JArray "json list"
  | JObject "(string \<times> json) list"

fun json_get :: "json \<Rightarrow> string \<Rightarrow> json option" where
  "json_get (JObject kvs) k = map_of kvs k"
| "json_get _ k = None"

fun json_as_str :: "json \<Rightarrow> string option" where
  "json_as_str (JString s) = Some s"
| "json_as_str _ = None"

fun json_as_array :: "json \<Rightarrow> json list option" where
  "json_as_array (JArray xs) = Some xs"
| "json_as_array _ = None"

fun json_as_bool :: "json \<Rightarrow> bool option" where
  "json_as_bool (JBool b) = Some b"
| "json_as_bool _ = None"

fun json_as_u64 :: "json \<Rightarrow> nat option" where
  "json_as_u64 (JNumber n) = (if 0 \<le> n \<and> n < 2 ^ 64 then Some (nat n) else None)"
| "json_as_u64 _ = None"

text \<open>The recurring \<open>v.get(k).and_then(|x| x.as_str())\<close>.\<close>

definition json_get_str :: "json \<Rightarrow> string \<Rightarrow> string option" where
  "json_get_str v k = Option.bind (json_get v k) json_as_str"

definition json_get_array :: "json \<Rightarrow> string \<Rightarrow> json list option" where
  "json_get_array v k = Option.bind (json_get v k) json_as_array"

end
