(* ===== verification/Plan_Graph.thy ===== *)
theory Plan_Graph
  imports Json_Value
begin

section \<open>Plans: parsing and Kahn layering (zen-agents/src/plan_task.rs)\<close>

text \<open>
  The structural half of \<open>plan.execute\<close>: the parser of model-drafted plans with its checks
  (task count, string fields, unique ids, known dependencies, failure edges, artifacts) and
  the layering of the dependency graph. The layering keeps the code's shape: a build pass
  filling \<open>indegree\<close> and \<open>dependents\<close>, then the \<open>while\<close> loop over the ready layer with its
  two inner loops. An index out of range and the underflow of \<open>indegree[d] -= 1\<close>, which
  panic in Rust, are the value \<open>None\<close>; that they never happen is proved, not assumed.
\<close>

subsection \<open>Data\<close>

definition MAX_PLAN_TASKS :: nat where
  "MAX_PLAN_TASKS = 12"

definition MAX_PLAN_LAYERS :: nat where
  "MAX_PLAN_LAYERS = 3"

datatype FailureAction = Skip | Retry | Halt

record PlanTaskSpec =
  task_id :: string
  task_agent :: string
  task_prompt :: string
  depends_on :: "string list"
  on_failure :: FailureAction
  artifact :: "string option"

record PlanSpec =
  plan_name :: "string option"
  plan_tasks :: "PlanTaskSpec list"

subsection \<open>Parsing\<close>

definition failure_action_parse :: "string \<Rightarrow> (FailureAction, string) result" where
  "failure_action_parse value =
     (if value = ''skip'' then Ok Skip
      else if value = ''retry'' then Ok Retry
      else if value = ''halt'' then Ok Halt
      else Err (''invalid on_failure `'' @ value @ ''` (expected retry|skip|halt)''))"

definition parse_failure_action :: "json \<Rightarrow> string \<Rightarrow> (FailureAction, string) result" where
  "parse_failure_action item i =
     (case json_get item ''on_failure'' of
        None \<Rightarrow> Ok Skip
      | Some JNull \<Rightarrow> Ok Skip
      | Some (JString value) \<Rightarrow>
          (case failure_action_parse value of
             Ok a \<Rightarrow> Ok a
           | Err e \<Rightarrow> Err (''task `'' @ i @ ''` has '' @ e))
      | Some _ \<Rightarrow> Err (''task `'' @ i @ ''` has a non-string `on_failure`''))"

definition parse_artifact :: "json \<Rightarrow> string \<Rightarrow> (string option, string) result" where
  "parse_artifact item i =
     (case json_get item ''artifact'' of
        None \<Rightarrow> Ok None
      | Some JNull \<Rightarrow> Ok None
      | Some (JString value) \<Rightarrow>
          (if trim value \<noteq> [] then Ok (Some value)
           else Err (''task `'' @ i @ ''` has an empty `artifact` path''))
      | Some _ \<Rightarrow> Err (''task `'' @ i @ ''` has a non-string `artifact` path''))"

fun parse_deps :: "string \<Rightarrow> json list \<Rightarrow> (string list, string) result" where
  "parse_deps i [] = Ok []"
| "parse_deps i (d # ds) =
     (case json_as_str d of
        None \<Rightarrow> Err (''task `'' @ i @ ''` has a non-string dependency'')
      | Some dep \<Rightarrow> res_bind (parse_deps i ds) (\<lambda>deps. Ok (dep # deps)))"

definition parse_task :: "json \<Rightarrow> (PlanTaskSpec, string) result" where
  "parse_task item =
     (case json_get_str item ''id'' of
        None \<Rightarrow> Err ''every plan task needs a string `id`''
      | Some i \<Rightarrow>
     (case json_get_str item ''agent'' of
        None \<Rightarrow> Err (''task `'' @ i @ ''` needs a string `agent`'')
      | Some agent \<Rightarrow>
     (case json_get_str item ''prompt'' of
        None \<Rightarrow> Err (''task `'' @ i @ ''` needs a string `prompt`'')
      | Some prompt \<Rightarrow>
          res_bind (case json_get_array item ''depends_on'' of
                      None \<Rightarrow> Ok []
                    | Some deps \<Rightarrow> parse_deps i deps) (\<lambda>deps.
          res_bind (parse_failure_action item i) (\<lambda>act.
          res_bind (parse_artifact item i) (\<lambda>art.
            Ok \<lparr>task_id = i, task_agent = agent, task_prompt = prompt, depends_on = deps,
                on_failure = act, artifact = art\<rparr>))))))"

fun parse_tasks :: "json list \<Rightarrow> (PlanTaskSpec list, string) result" where
  "parse_tasks [] = Ok []"
| "parse_tasks (item # items) =
     res_bind (parse_task item) (\<lambda>t. res_bind (parse_tasks items) (\<lambda>ts. Ok (t # ts)))"

fun check_known :: "string list \<Rightarrow> string \<Rightarrow> string list \<Rightarrow> (unit, string) result" where
  "check_known ids i [] = Ok ()"
| "check_known ids i (dep # deps) =
     (if dep \<notin> set ids then Err (''task `'' @ i @ ''` depends on unknown task `'' @ dep @ ''`'')
      else check_known ids i deps)"

fun check_ids :: "string list \<Rightarrow> PlanTaskSpec list \<Rightarrow> (unit, string) result" where
  "check_ids ids [] = Ok ()"
| "check_ids ids (t # ts) =
     (if task_id t \<in> set (map task_id ts) then Err (''duplicate task id `'' @ task_id t @ ''`'')
      else res_bind (check_known ids (task_id t) (depends_on t)) (\<lambda>_. check_ids ids ts))"

definition parse_plan :: "json \<Rightarrow> (PlanSpec, string) result" where
  "parse_plan args =
     (let name = json_get_str args ''name''
      in case json_get_array args ''tasks'' of
           None \<Rightarrow> Err ''plan.execute requires a `tasks` array''
         | Some arr \<Rightarrow>
             (if arr = [] then Err ''plan.execute requires at least one task''
              else if length arr > MAX_PLAN_TASKS
              then Err (''plan has '' @ nat_str (length arr) @ '' tasks; the cap is ''
                        @ nat_str MAX_PLAN_TASKS @ '' '' @ em_dash @ '' split into multiple plans'')
              else res_bind (parse_tasks arr) (\<lambda>tasks.
                   res_bind (check_ids (map task_id tasks) tasks) (\<lambda>_.
                     Ok \<lparr>plan_name = name, plan_tasks = tasks\<rparr>))))"

subsection \<open>Layering\<close>

definition index_of :: "PlanTaskSpec list \<Rightarrow> string \<Rightarrow> nat option" where
  "index_of ts i = position (\<lambda>t. task_id t = i) ts"

type_synonym graph = "nat list \<times> nat list list"  \<comment> \<open>\<open>indegree\<close> and \<open>dependents\<close>\<close>

fun build_deps :: "PlanTaskSpec list \<Rightarrow> nat \<Rightarrow> string \<Rightarrow> string list \<Rightarrow> graph \<Rightarrow> (graph, string) result" where
  "build_deps ts i tid [] g = Ok g"
| "build_deps ts i tid (dep # deps) (indegree, dependents) =
     (case index_of ts dep of
        None \<Rightarrow> Err (''task `'' @ tid @ ''` depends on unknown task `'' @ dep @ ''`'')
      | Some j \<Rightarrow>
          build_deps ts i tid deps (indegree[i := indegree ! i + 1],
                                    dependents[j := dependents ! j @ [i]]))"

fun build_graph :: "PlanTaskSpec list \<Rightarrow> nat \<Rightarrow> PlanTaskSpec list \<Rightarrow> graph \<Rightarrow> (graph, string) result" where
  "build_graph ts i [] g = Ok g"
| "build_graph ts i (t # rest) g =
     res_bind (build_deps ts i (task_id t) (depends_on t) g) (\<lambda>g'. build_graph ts (Suc i) rest g')"

fun release :: "nat list \<Rightarrow> nat list \<times> nat list \<Rightarrow> (nat list \<times> nat list) option" where
  "release [] st = Some st"
| "release (d # ds) (indegree, nxt) =
     (if d < length indegree \<and> 0 < indegree ! d
      then let k = indegree ! d - 1
           in release ds (indegree[d := k], if k = 0 then nxt @ [d] else nxt)
      else None)"

fun release_layer :: "nat list list \<Rightarrow> nat list \<Rightarrow> nat list \<times> nat list \<Rightarrow> (nat list \<times> nat list) option" where
  "release_layer dependents [] st = Some st"
| "release_layer dependents (i # is) st =
     (if i < length dependents
      then Option.bind (release (dependents ! i) st) (release_layer dependents is)
      else None)"

lemma release_sum:
  "release es (ind, nx) = Some (ind', nx') \<Longrightarrow>
     sum_list ind' + length nx' \<le> sum_list ind + length nx \<and> sum_list ind' \<le> sum_list ind"
proof (induction es arbitrary: ind nx)
  case Nil
  then show ?case by simp
next
  case (Cons d es)
  from Cons.prems have d: "d < length ind" "0 < ind ! d" by (auto split: if_splits)
  then have s: "Suc (sum_list (ind[d := ind ! d - 1])) = sum_list ind"
    using elem_le_sum_list [OF d(1)] by (simp add: sum_list_update)
  from Cons.prems d Cons.IH show ?case
    by (fastforce simp: Let_def s [symmetric] split: if_splits)
qed

lemma release_layer_sum:
  "release_layer dp is (ind, nx) = Some (ind', nx') \<Longrightarrow>
     sum_list ind' + length nx' \<le> sum_list ind + length nx \<and> sum_list ind' \<le> sum_list ind"
proof (induction "is" arbitrary: ind nx)
  case Nil
  then show ?case by simp
next
  case (Cons i "is")
  from Cons.prems obtain ind1 nx1 where r:
    "release (dp ! i) (ind, nx) = Some (ind1, nx1)"
    "release_layer dp is (ind1, nx1) = Some (ind', nx')"
    by (auto split: if_splits bind_splits)
  from release_sum [OF r(1)] Cons.IH [OF r(2)] show ?case by linarith
qed

function kahn_loop :: "nat list list \<Rightarrow> nat list \<Rightarrow> nat list \<Rightarrow> nat list list \<Rightarrow> nat
    \<Rightarrow> (nat list list \<times> nat) option" where
  "kahn_loop dependents indegree ready layers placed =
     (if ready = [] then Some (layers, placed)
      else case release_layer dependents ready (indegree, []) of
             None \<Rightarrow> None
           | Some (indegree', nxt) \<Rightarrow>
               kahn_loop dependents indegree' nxt (layers @ [ready]) (placed + length ready))"
  by pat_completeness auto
termination
  by (relation "measure (\<lambda>(dp, ind, ready, ls, p). 2 * sum_list ind + (if ready = [] then 0 else 1))")
     (auto dest!: release_layer_sum simp: neq_Nil_conv)

declare kahn_loop.simps [simp del]

definition cycle_error :: string where
  "cycle_error = ''plan contains a dependency cycle''"

definition depth_error :: "nat \<Rightarrow> string" where
  "depth_error k = ''plan spans '' @ nat_str k @ '' layers; the cap is '' @ nat_str MAX_PLAN_LAYERS
     @ '' '' @ em_dash @ '' restructure or split the plan''"

definition topological_layers :: "PlanSpec \<Rightarrow> (nat list list, string) result option" where
  "topological_layers plan =
     (let ts = plan_tasks plan; n = length ts
      in case build_graph ts 0 ts (replicate n 0, replicate n []) of
           Err e \<Rightarrow> Some (Err e)
         | Ok (indegree, dependents) \<Rightarrow>
             (case kahn_loop dependents indegree (filter (\<lambda>i. indegree ! i = 0) [0..<n]) [] 0 of
                None \<Rightarrow> None
              | Some (layers, placed) \<Rightarrow>
                  Some (if placed < n then Err cycle_error
                        else if length layers > MAX_PLAN_LAYERS
                        then Err (depth_error (length layers))
                        else Ok layers)))"

subsection \<open>The graph the build pass produces\<close>

text \<open>
  The edges of a plan, one per dependency reference (duplicates kept): \<open>(j, i)\<close> when task \<open>i\<close>
  depends on task \<open>j\<close>. The build pass turns an edge list into the two arrays.
\<close>

definition graph_of :: "nat \<Rightarrow> (nat \<times> nat) list \<Rightarrow> graph" where
  "graph_of n es =
     (map (\<lambda>i. length (filter (\<lambda>e. snd e = i) es)) [0..<n],
      map (\<lambda>j. map snd (filter (\<lambda>e. fst e = j) es)) [0..<n])"

definition task_edges :: "PlanTaskSpec list \<Rightarrow> nat \<Rightarrow> (nat \<times> nat) list" where
  "task_edges ts i = map (\<lambda>dep. (the (index_of ts dep), i)) (depends_on (ts ! i))"

definition plan_edges :: "PlanTaskSpec list \<Rightarrow> (nat \<times> nat) list" where
  "plan_edges ts = concat (map (task_edges ts) [0..<length ts])"

definition deps_known :: "PlanTaskSpec list \<Rightarrow> bool" where
  "deps_known ts \<longleftrightarrow> (\<forall>t\<in>set ts. set (depends_on t) \<subseteq> task_id ` set ts)"

lemma index_of_Some: "index_of ts d = Some j \<Longrightarrow> j < length ts \<and> task_id (ts ! j) = d"
  unfolding index_of_def by (drule position_Some) simp

lemma index_of_None_iff: "index_of ts d = None \<longleftrightarrow> d \<notin> task_id ` set ts"
  by (auto simp: index_of_def position_None_iff)

lemma graph_of_Nil: "graph_of n [] = (replicate n 0, replicate n [])"
  by (simp add: graph_of_def map_replicate_const)

lemma graph_of_snoc:
  assumes "i < n" "j < n"
  shows "(case graph_of n es of (ind, dp) \<Rightarrow> (ind[i := ind ! i + 1], dp[j := dp ! j @ [i]]))
         = graph_of n (es @ [(j, i)])"
  using assms by (auto simp: graph_of_def intro!: nth_equalityI simp: nth_list_update)

lemma build_deps_step:
  assumes "i < length ts" "index_of ts d = Some j"
  shows "build_deps ts i tid (d # deps) (graph_of (length ts) es)
         = build_deps ts i tid deps (graph_of (length ts) (es @ [(j, i)]))"
proof -
  obtain ind dp where g: "graph_of (length ts) es = (ind, dp)" by fastforce
  from index_of_Some [OF assms(2)] have "j < length ts" by simp
  from graph_of_snoc [OF assms(1) this, of es] g assms(2) show ?thesis by simp
qed

lemma build_deps_Ok:
  "i < length ts \<Longrightarrow> set deps \<subseteq> task_id ` set ts \<Longrightarrow>
   build_deps ts i tid deps (graph_of (length ts) es)
   = Ok (graph_of (length ts) (es @ map (\<lambda>dep. (the (index_of ts dep), i)) deps))"
proof (induction deps arbitrary: es)
  case Nil
  then show ?case by simp
next
  case (Cons d deps)
  then obtain j where j: "index_of ts d = Some j"
    by (metis index_of_None_iff list.set_intros(1) option.exhaust subsetD)
  have "build_deps ts i tid deps (graph_of (length ts) (es @ [(j, i)]))
        = Ok (graph_of (length ts) ((es @ [(j, i)]) @ map (\<lambda>dep. (the (index_of ts dep), i)) deps))"
    using Cons.prems by (intro Cons.IH) auto
  with j build_deps_step [OF Cons.prems(1) j] show ?case by simp
qed

lemma build_deps_Err:
  "i < length ts \<Longrightarrow> \<not> set deps \<subseteq> task_id ` set ts \<Longrightarrow>
   \<exists>e. build_deps ts i tid deps (graph_of (length ts) es) = Err e"
proof (induction deps arbitrary: es)
  case Nil
  then show ?case by simp
next
  case (Cons d deps)
  show ?case
  proof (cases "index_of ts d")
    case None
    then show ?thesis by (cases "graph_of (length ts) es") simp
  next
    case (Some j)
    then have "d \<in> task_id ` set ts" using index_of_None_iff [of ts d] by auto
    with Cons.prems have "\<not> set deps \<subseteq> task_id ` set ts" by auto
    from Cons.IH [OF Cons.prems(1) this] show ?thesis
      by (simp only: build_deps_step [OF Cons.prems(1) Some])
  qed
qed

lemma build_graph_Ok:
  "k + length rest = length ts \<Longrightarrow> rest = drop k ts \<Longrightarrow>
   \<forall>t\<in>set rest. set (depends_on t) \<subseteq> task_id ` set ts \<Longrightarrow>
   build_graph ts k rest (graph_of (length ts) es)
   = Ok (graph_of (length ts) (es @ concat (map (task_edges ts) [k..<length ts])))"
proof (induction rest arbitrary: k es)
  case Nil
  then show ?case by simp
next
  case (Cons t rest)
  from Cons.prems(2) have k: "k < length ts" by (metis drop_all leI list.distinct(1))
  from Cons_nth_drop_Suc [OF k] Cons.prems(2) have t: "t = ts ! k" and rest: "rest = drop (Suc k) ts"
    by (metis list.inject)+
  have "build_deps ts k (task_id t) (depends_on t) (graph_of (length ts) es)
        = Ok (graph_of (length ts) (es @ task_edges ts k))"
    using build_deps_Ok [OF k, of "depends_on t"] Cons.prems(3) t by (simp add: task_edges_def)
  moreover have "[k..<length ts] = k # [Suc k..<length ts]" using k by (simp add: upt_conv_Cons)
  ultimately show ?case
    using Cons.IH [of "Suc k" "es @ task_edges ts k"] Cons.prems(1,3) rest by simp
qed

lemma build_graph_Err:
  "k + length rest = length ts \<Longrightarrow> rest = drop k ts \<Longrightarrow>
   \<not> (\<forall>t\<in>set rest. set (depends_on t) \<subseteq> task_id ` set ts) \<Longrightarrow>
   \<exists>e. build_graph ts k rest (graph_of (length ts) es) = Err e"
proof (induction rest arbitrary: k es)
  case Nil
  then show ?case by simp
next
  case (Cons t rest)
  from Cons.prems(2) have k: "k < length ts" by (metis drop_all leI list.distinct(1))
  from Cons_nth_drop_Suc [OF k] Cons.prems(2) have rest: "rest = drop (Suc k) ts" by (metis list.inject)
  show ?case
  proof (cases "set (depends_on t) \<subseteq> task_id ` set ts")
    case False
    from build_deps_Err [OF k False] show ?thesis by (metis build_graph.simps(2) res_bind.simps(2))
  next
    case True
    with Cons.prems(3) have "\<not> (\<forall>t\<in>set rest. set (depends_on t) \<subseteq> task_id ` set ts)" by simp
    with Cons.IH [of "Suc k"] Cons.prems(1) rest show ?thesis
      by (simp add: build_deps_Ok [OF k True])
  qed
qed

lemma build_graph_plan:
  "deps_known ts \<Longrightarrow>
     build_graph ts 0 ts (replicate (length ts) 0, replicate (length ts) [])
     = Ok (graph_of (length ts) (plan_edges ts))"
  "\<not> deps_known ts \<Longrightarrow>
     \<exists>e. build_graph ts 0 ts (replicate (length ts) 0, replicate (length ts) []) = Err e"
  using build_graph_Ok [of 0 ts ts "[]"] build_graph_Err [of 0 ts ts "[]"]
  by (simp_all add: deps_known_def plan_edges_def graph_of_Nil)

lemma plan_edges_bounds:
  assumes "deps_known ts" "(j, i) \<in> set (plan_edges ts)"
  shows "j < length ts" "i < length ts"
proof -
  from assms(2) obtain dep where dep: "i < length ts" "dep \<in> set (depends_on (ts ! i))"
      "j = the (index_of ts dep)"
    by (auto simp: plan_edges_def task_edges_def)
  with assms(1) have "dep \<in> task_id ` set ts" by (auto simp: deps_known_def)
  then obtain k where "index_of ts dep = Some k" by (metis index_of_None_iff option.exhaust)
  with dep index_of_Some show "j < length ts" "i < length ts" by auto
qed

subsection \<open>The loop\<close>

text \<open>
  Releasing a list of edges whose multiplicities the counters cover never underflows, takes
  exactly those multiplicities off the counters and collects, once each, the nodes whose
  counter it brings to zero.
\<close>

lemma release_layer_concat:
  "\<forall>i\<in>set is. i < length dp \<Longrightarrow> release_layer dp is st = release (concat (map ((!) dp) is)) st"
proof (induction "is" arbitrary: st)
  case Nil
  then show ?case by simp
next
  case (Cons i "is")
  have app: "release (xs @ ys) st = Option.bind (release xs st) (release ys)" for xs ys st
    by (induction xs st rule: release.induct) (auto simp: Let_def)
  from Cons show ?case by (cases "release (dp ! i) st") (auto simp: app)
qed

lemma release_spec:
  "\<forall>d\<in>set es. d < length ind \<Longrightarrow> \<forall>d<length ind. count_list es d \<le> ind ! d \<Longrightarrow>
   \<exists>ind' nx'. release es (ind, nx) = Some (ind', nx @ nx') \<and> length ind' = length ind \<and>
     (\<forall>d<length ind. ind' ! d = ind ! d - count_list es d) \<and> distinct nx' \<and>
     set nx' = {d. d \<in> set es \<and> ind ! d = count_list es d}"
proof (induction es arbitrary: ind nx)
  case Nil
  then show ?case by simp
next
  case (Cons d es)
  from Cons.prems have d: "d < length ind" by simp
  with Cons.prems(2) have pos: "Suc (count_list es d) \<le> ind ! d" by fastforce
  let ?ind = "ind[d := ind ! d - 1]"
  let ?nx = "if ind ! d - 1 = 0 then nx @ [d] else nx"
  have "\<exists>ind' nx'. release es (?ind, ?nx) = Some (ind', ?nx @ nx') \<and> length ind' = length ?ind \<and>
     (\<forall>x<length ?ind. ind' ! x = ?ind ! x - count_list es x) \<and> distinct nx' \<and>
     set nx' = {x. x \<in> set es \<and> ?ind ! x = count_list es x}"
  proof (rule Cons.IH)
    show "\<forall>x\<in>set es. x < length ?ind" using Cons.prems(1) by simp
    show "\<forall>x<length ?ind. count_list es x \<le> ?ind ! x"
    proof (intro allI impI)
      fix x
      assume "x < length ?ind"
      with Cons.prems(2) have "count_list (d # es) x \<le> ind ! x" by simp
      with d show "count_list es x \<le> ?ind ! x"
        by (cases "x = d") (auto split: if_splits)
    qed
  qed
  then obtain ind' nx' where r: "release es (?ind, ?nx) = Some (ind', ?nx @ nx')"
      "length ind' = length ind" "\<forall>x<length ind. ind' ! x = ?ind ! x - count_list es x"
      "distinct nx'" "set nx' = {x. x \<in> set es \<and> ?ind ! x = count_list es x}" by auto
  let ?nn = "(if ind ! d - 1 = 0 then [d] else []) @ nx'"
  have rel: "release (d # es) (ind, nx) = Some (ind', nx @ ?nn)"
    using r(1) d pos by (auto simp: Let_def)
  have cnt: "\<forall>x<length ind. ind' ! x = ind ! x - count_list (d # es) x"
    using r(3) d by (auto simp: nth_list_update)
  have fresh: "d \<notin> set es" if "ind ! d - 1 = 0"
  proof -
    from that pos have "count_list es d = 0" by linarith
    then show ?thesis by (simp add: count_list_0_iff)
  qed
  from fresh r(4,5) have dist: "distinct ?nn" by auto
  have mem: "x \<in> set ?nn \<longleftrightarrow> x \<in> set (d # es) \<and> ind ! x = count_list (d # es) x" for x
  proof (cases "x = d")
    case True
    have c: "count_list es d = 0 \<longleftrightarrow> d \<notin> set es" by (simp add: count_list_0_iff)
    have n: "d \<in> set nx' \<longleftrightarrow> d \<in> set es \<and> ind ! d - 1 = count_list es d" using r(5) d by simp
    have "d \<in> set ?nn \<longleftrightarrow> ind ! d = Suc (count_list es d)"
    proof (cases "ind ! d - 1 = 0")
      case one: True
      with fresh c pos show ?thesis by simp
    next
      case False
      then have "d \<in> set ?nn \<longleftrightarrow> d \<in> set es \<and> ind ! d - 1 = count_list es d" using n by simp
      also have "\<dots> \<longleftrightarrow> ind ! d = Suc (count_list es d)" using False pos c by linarith
      finally show ?thesis .
    qed
    with True show ?thesis by simp
  next
    case False
    with r(5) d show ?thesis by auto
  qed
  show ?case
  proof (intro exI conjI)
    show "release (d # es) (ind, nx) = Some (ind', nx @ ?nn)" by (rule rel)
    show "set ?nn = {x. x \<in> set (d # es) \<and> ind ! x = count_list (d # es) x}" using mem by blast
  qed (rule r(2) cnt dist)+
qed

text \<open>
  What the loop keeps: the layers emitted and the ready list are distinct nodes, a counter is
  the number of edges from nodes not yet emitted, a node is emitted or ready exactly when its
  counter is zero, and every node comes strictly after its dependencies and directly after
  one of them.
\<close>

definition well_layered :: "(nat \<times> nat) list \<Rightarrow> nat list list \<Rightarrow> bool" where
  "well_layered es xs \<longleftrightarrow>
     (\<forall>k<length xs. \<forall>d\<in>set (xs ! k).
        (\<forall>j. (j, d) \<in> set es \<longrightarrow> j \<in> set (concat (take k xs))) \<and>
        (0 < k \<longrightarrow> (\<exists>j\<in>set (xs ! (k - 1)). (j, d) \<in> set es)))"

definition open_edges :: "(nat \<times> nat) list \<Rightarrow> nat set \<Rightarrow> nat \<Rightarrow> nat" where
  "open_edges es done d = length (filter (\<lambda>e. snd e = d \<and> fst e \<notin> done) es)"

definition kahn_inv :: "nat \<Rightarrow> (nat \<times> nat) list \<Rightarrow> nat list list \<Rightarrow> nat list \<Rightarrow> nat list \<Rightarrow> bool" where
  "kahn_inv n es ls ready ind \<longleftrightarrow>
     length ind = n \<and> distinct (concat ls @ ready) \<and> set (concat ls @ ready) \<subseteq> {..<n} \<and>
     (\<forall>d<n. ind ! d = open_edges es (set (concat ls)) d) \<and>
     (\<forall>d<n. d \<in> set (concat ls @ ready) \<longleftrightarrow> ind ! d = 0) \<and>
     well_layered es (ls @ [ready])"

lemma open_edges_0: "open_edges es done d = 0 \<longleftrightarrow> (\<forall>j. (j, d) \<in> set es \<longrightarrow> j \<in> done)"
  by (force simp: open_edges_def filter_empty_conv)

lemma open_edges_Un:
  "done \<inter> R = {} \<Longrightarrow> open_edges es (done \<union> R) d
     = open_edges es done d - length (filter (\<lambda>e. snd e = d \<and> fst e \<in> R) es)"
  "done \<inter> R = {} \<Longrightarrow> length (filter (\<lambda>e. snd e = d \<and> fst e \<in> R) es) \<le> open_edges es done d"
proof -
  assume dis: "done \<inter> R = {}"
  have "open_edges es done d
    = open_edges es (done \<union> R) d + length (filter (\<lambda>e. snd e = d \<and> fst e \<in> R) es)"
    unfolding open_edges_def using dis by (induction es) auto
  then show "open_edges es (done \<union> R) d
     = open_edges es done d - length (filter (\<lambda>e. snd e = d \<and> fst e \<in> R) es)"
    and "length (filter (\<lambda>e. snd e = d \<and> fst e \<in> R) es) \<le> open_edges es done d" by simp_all
qed

lemma count_released:
  "distinct ready \<Longrightarrow> set ready \<subseteq> {..<n} \<Longrightarrow>
   count_list (concat (map ((!) (snd (graph_of n es))) ready)) d
   = length (filter (\<lambda>e. snd e = d \<and> fst e \<in> set ready) es)"
proof (induction ready)
  case Nil
  then show ?case by simp
next
  case (Cons i ready)
  have "count_list (snd (graph_of n es) ! i) d = length (filter (\<lambda>e. snd e = d \<and> fst e = i) es)"
    using Cons.prems by (simp add: graph_of_def) (induction es, auto)
  moreover have "length (filter (\<lambda>e. snd e = d \<and> (fst e = i \<or> fst e \<in> set ready)) es)
      = length (filter (\<lambda>e. snd e = d \<and> fst e = i) es)
        + length (filter (\<lambda>e. snd e = d \<and> fst e \<in> set ready) es)"
    using Cons.prems(1) by (induction es) auto
  ultimately show ?case using Cons by simp
qed

lemma set_released:
  "set ready \<subseteq> {..<n} \<Longrightarrow>
   d \<in> set (concat (map ((!) (snd (graph_of n es))) ready)) \<longleftrightarrow> (\<exists>j\<in>set ready. (j, d) \<in> set es)"
  by (force simp: graph_of_def)

lemma well_layered_butlast:
  assumes "well_layered es (xs @ [r])"
  shows "well_layered es xs"
  unfolding well_layered_def
proof (intro allI impI ballI)
  fix k d
  assume k: "k < length xs" and "d \<in> set (xs ! k)"
  then have "k < length (xs @ [r])" "d \<in> set ((xs @ [r]) ! k)" by (simp_all add: nth_append)
  with assms have "(\<forall>j. (j, d) \<in> set es \<longrightarrow> j \<in> set (concat (take k (xs @ [r])))) \<and>
      (0 < k \<longrightarrow> (\<exists>j\<in>set ((xs @ [r]) ! (k - 1)). (j, d) \<in> set es))"
    unfolding well_layered_def by blast
  moreover have "(xs @ [r]) ! (k - 1) = xs ! (k - 1)" using k by (simp add: nth_append less_imp_diff_less)
  ultimately show "(\<forall>j. (j, d) \<in> set es \<longrightarrow> j \<in> set (concat (take k xs))) \<and>
      (0 < k \<longrightarrow> (\<exists>j\<in>set (xs ! (k - 1)). (j, d) \<in> set es))"
    using k by simp
qed

lemma well_layered_snoc:
  assumes "well_layered es xs"
    and "\<And>d. d \<in> set r \<Longrightarrow> \<forall>j. (j, d) \<in> set es \<longrightarrow> j \<in> set (concat xs)"
    and "\<And>d. d \<in> set r \<Longrightarrow> xs \<noteq> [] \<Longrightarrow> \<exists>j\<in>set (last xs). (j, d) \<in> set es"
  shows "well_layered es (xs @ [r])"
  unfolding well_layered_def
proof (intro allI impI ballI)
  fix k d
  assume k: "k < length (xs @ [r])" and d: "d \<in> set ((xs @ [r]) ! k)"
  show "(\<forall>j. (j, d) \<in> set es \<longrightarrow> j \<in> set (concat (take k (xs @ [r])))) \<and>
        (0 < k \<longrightarrow> (\<exists>j\<in>set ((xs @ [r]) ! (k - 1)). (j, d) \<in> set es))"
  proof (cases "k < length xs")
    case True
    with d have "d \<in> set (xs ! k)" by (simp add: nth_append)
    with assms(1) True show ?thesis by (auto simp: well_layered_def nth_append)
  next
    case False
    with k d have k': "k = length xs" and "d \<in> set r" by (auto simp: nth_append)
    with assms(2,3) [of d] show ?thesis
      by (cases xs rule: rev_cases) (auto simp: nth_append)
  qed
qed

lemma kahn_inv_step:
  assumes inv: "kahn_inv n es ls ready ind" and "ready \<noteq> []"
    and bnd: "\<forall>(j, i)\<in>set es. j < n \<and> i < n"
  obtains ind' nx where "release_layer (snd (graph_of n es)) ready (ind, []) = Some (ind', nx)"
    "kahn_inv n es (ls @ [ready]) nx ind'"
proof -
  let ?D = "snd (graph_of n es)" and ?R = "concat (map ((!) (snd (graph_of n es))) ready)"
  let ?L = "set (concat ls)"
  from inv have len: "length ind = n" and dist: "distinct ready" and sub: "set ready \<subseteq> {..<n}"
    and disj: "?L \<inter> set ready = {}" and cnt: "\<And>d. d < n \<Longrightarrow> ind ! d = open_edges es ?L d"
    and zero: "\<And>d. d < n \<Longrightarrow> d \<in> ?L \<or> d \<in> set ready \<longleftrightarrow> ind ! d = 0"
    and lay: "well_layered es (ls @ [ready])" by (auto simp: kahn_inv_def)
  note cr = count_released [OF dist sub]
  have "\<forall>d\<in>set ?R. d < length ind" using bnd len set_released [OF sub] by fastforce
  moreover have "\<forall>d<length ind. count_list ?R d \<le> ind ! d"
    using cnt len open_edges_Un(2) [OF disj] by (simp add: cr)
  ultimately obtain ind' nx where r: "release ?R (ind, []) = Some (ind', [] @ nx)" "length ind' = length ind"
      "\<forall>d<length ind. ind' ! d = ind ! d - count_list ?R d" "distinct nx"
      "set nx = {d. d \<in> set ?R \<and> ind ! d = count_list ?R d}"
    using release_spec [of ?R ind "[]"] by blast
  have rl: "release_layer ?D ready (ind, []) = Some (ind', nx)"
  proof -
    have "\<forall>i\<in>set ready. i < length ?D" using sub by (auto simp: graph_of_def)
    from release_layer_concat [OF this, of "(ind, [])"] r(1) show ?thesis by simp
  qed
  have cnt': "ind' ! d = open_edges es (?L \<union> set ready) d" if "d < n" for d
    using r(3) that len cnt [OF that] open_edges_Un(1) [OF disj, of es d] by (simp add: cr)
  have nx: "d \<in> set nx \<longleftrightarrow> d < n \<and> ind' ! d = 0 \<and> ind ! d \<noteq> 0" for d
  proof -
    have "d \<in> set ?R \<Longrightarrow> d < n" using bnd set_released [OF sub] by fastforce
    moreover have "d \<in> set ?R \<longleftrightarrow> count_list ?R d \<noteq> 0" by (simp add: count_list_0_iff)
    moreover have "d < n \<Longrightarrow> count_list ?R d \<le> ind ! d"
      using cnt open_edges_Un(2) [OF disj] by (simp add: cr)
    ultimately show ?thesis using r(3,5) len by auto
  qed
  have "kahn_inv n es (ls @ [ready]) nx ind'"
    unfolding kahn_inv_def
  proof (intro conjI allI impI)
    show "length ind' = n" using r(2) len by simp
    show "distinct (concat (ls @ [ready]) @ nx)"
      using inv r(4) nx zero by (auto simp: kahn_inv_def)
    show "set (concat (ls @ [ready]) @ nx) \<subseteq> {..<n}"
      using inv nx by (auto simp: kahn_inv_def)
    show "ind' ! d = open_edges es (set (concat (ls @ [ready]))) d" if "d < n" for d
      using cnt' [OF that] by simp
    show "d \<in> set (concat (ls @ [ready]) @ nx) \<longleftrightarrow> ind' ! d = 0" if "d < n" for d
      using nx [of d] zero [OF that] r(3) len that by auto
    show "well_layered es ((ls @ [ready]) @ [nx])"
    proof (rule well_layered_snoc [OF lay])
      fix d
      assume d: "d \<in> set nx"
      then have "open_edges es (?L \<union> set ready) d = 0" using nx cnt' by fastforce
      then show "\<forall>j. (j, d) \<in> set es \<longrightarrow> j \<in> set (concat (ls @ [ready]))"
        by (simp add: open_edges_0)
      from d r(5) have "d \<in> set ?R" by simp
      then show "\<exists>j\<in>set (last (ls @ [ready])). (j, d) \<in> set es"
        using set_released [OF sub] by auto
    qed
  qed
  with rl that show ?thesis by blast
qed

lemma kahn_loop_spec:
  "kahn_inv n es ls ready ind \<Longrightarrow> \<forall>(j, i)\<in>set es. j < n \<and> i < n \<Longrightarrow>
   \<exists>ls' ind'. kahn_loop (snd (graph_of n es)) ind ready ls (length (concat ls))
     = Some (ls', length (concat ls')) \<and> kahn_inv n es ls' [] ind'"
proof (induction "snd (graph_of n es)" ind ready ls "length (concat ls)" rule: kahn_loop.induct)
  case (1 ind ready ls)
  show ?case
  proof (cases "ready = []")
    case True
    with 1(2) show ?thesis by (auto simp: kahn_loop.simps [of _ ind "[]"])
  next
    case False
    from kahn_inv_step [OF 1(2) False 1(3)] obtain ind' nx where
      r: "release_layer (snd (graph_of n es)) ready (ind, []) = Some (ind', nx)"
      and inv: "kahn_inv n es (ls @ [ready]) nx ind'" .
    from 1(1) [OF False r refl _ inv 1(3)] False r show ?thesis
      by (simp add: kahn_loop.simps [of _ ind ready])
  qed
qed

subsection \<open>Correctness of the layering\<close>

text \<open>The dependency relation of a plan: \<open>(j, i)\<close> when task \<open>i\<close> names task \<open>j\<close> in \<open>depends_on\<close>.\<close>

definition depends_rel :: "PlanTaskSpec list \<Rightarrow> (nat \<times> nat) set" where
  "depends_rel ts = {(j, i). i < length ts \<and> (\<exists>dep\<in>set (depends_on (ts ! i)). index_of ts dep = Some j)}"

lemma plan_edges_depends_rel: "deps_known ts \<Longrightarrow> set (plan_edges ts) = depends_rel ts"
proof (intro set_eqI, clarify)
  fix j i
  assume known: "deps_known ts"
  have "dep \<in> set (depends_on (ts ! i)) \<Longrightarrow> i < length ts \<Longrightarrow>
      j = the (index_of ts dep) \<longleftrightarrow> index_of ts dep = Some j" for dep
  proof -
    assume "dep \<in> set (depends_on (ts ! i))" "i < length ts"
    with known have "dep \<in> task_id ` set ts" by (auto simp: deps_known_def)
    then show ?thesis by (metis index_of_None_iff option.collapse option.sel)
  qed
  moreover have "(j, i) \<in> set (plan_edges ts) \<longleftrightarrow>
      i < length ts \<and> (\<exists>dep\<in>set (depends_on (ts ! i)). j = the (index_of ts dep))"
    by (force simp: plan_edges_def task_edges_def)
  ultimately show "(j, i) \<in> set (plan_edges ts) \<longleftrightarrow> (j, i) \<in> depends_rel ts"
    by (auto simp: depends_rel_def)
qed

lemma kahn_inv_init:
  fixes es :: "(nat \<times> nat) list"
  assumes "graph_of n es = (ind, dp)"
  shows "kahn_inv n es [] (filter (\<lambda>i. ind ! i = 0) [0..<n]) ind"
proof -
  have ind: "ind ! d = open_edges es {} d" if "d < n" for d
    using assms that by (auto simp: graph_of_def open_edges_def)
  have "length ind = n" using assms by (auto simp: graph_of_def)
  moreover have "well_layered es ([] @ [filter (\<lambda>i. ind ! i = 0) [0..<n]])"
    using ind by (auto simp: well_layered_def open_edges_0)
  ultimately show ?thesis using ind by (auto simp: kahn_inv_def)
qed

text \<open>The loop emits every node exactly when the edges have no cycle.\<close>

lemma kahn_inv_complete:
  assumes inv: "kahn_inv n es ls [] ind" and bnd: "\<forall>(j, i)\<in>set es. j < n \<and> i < n"
    and ac: "acyclic (set es)"
  shows "set (concat ls) = {..<n}"
proof (rule ccontr)
  assume "\<not> ?thesis"
  with inv have "{..<n} - set (concat ls) \<noteq> {}" by (auto simp: kahn_inv_def)
  moreover have "wf (set es)" using ac by (simp add: finite_acyclic_wf)
  ultimately obtain d where d: "d < n" "d \<notin> set (concat ls)"
      and min: "\<And>j. (j, d) \<in> set es \<Longrightarrow> j \<notin> {..<n} - set (concat ls)"
    by (metis DiffD1 DiffD2 ex_in_conv lessThan_iff wfE_min)
  from inv d have "open_edges es (set (concat ls)) d \<noteq> 0" by (auto simp: kahn_inv_def)
  then obtain j where "(j, d) \<in> set es" "j \<notin> set (concat ls)" by (auto simp: open_edges_0)
  with min bnd show False by force
qed

lemma well_layered_acyclic:
  assumes "well_layered es ls" "distinct (concat ls)" "snd ` set es \<subseteq> set (concat ls)"
  shows "acyclic (set es)"
proof -
  define layer where "layer d = (LEAST k. k < length ls \<and> d \<in> set (ls ! k))" for d
  have ex: "\<exists>k. k < length ls \<and> d \<in> set (ls ! k)" if "d \<in> set (concat ls)" for d
    using that by (metis (no_types, lifting) UN_E in_set_conv_nth set_concat)
  have dec: "layer j < layer d" if e: "(j, d) \<in> set es" for j d
  proof -
    from e assms(3) have "d \<in> set (concat ls)" by (metis image_subset_iff snd_conv)
    from LeastI_ex [OF ex [OF this]] have k: "layer d < length ls" "d \<in> set (ls ! layer d)"
      by (auto simp: layer_def)
    with assms(1) e have "j \<in> set (concat (take (layer d) ls))" by (auto simp: well_layered_def)
    then obtain m where "m < length ls" "m < layer d" "j \<in> set (ls ! m)"
      by (auto simp: in_set_conv_nth) (metis in_set_conv_nth)
    then have "layer j \<le> m" unfolding layer_def by (intro Least_le) simp
    with \<open>m < layer d\<close> show ?thesis by simp
  qed
  have "(j, d) \<in> (set es)\<^sup>+ \<Longrightarrow> layer j < layer d" for j d
    by (induction rule: trancl_induct) (use dec less_trans in blast)+
  then show ?thesis by (auto simp: acyclic_def)
qed

text \<open>One characterisation carries the properties below: on known dependencies the layering
  returns layers of every task exactly when the relation has no cycle.\<close>

lemma topological_layers_known:
  assumes known: "deps_known ts" and ts: "ts = plan_tasks plan"
  obtains ls where "well_layered (plan_edges ts) ls" "distinct (concat ls)"
    "set (concat ls) \<subseteq> {..<length ts}"
    "acyclic (depends_rel ts) \<longleftrightarrow> set (concat ls) = {..<length ts}"
    "topological_layers plan =
       Some (if length (concat ls) < length ts then Err cycle_error
             else if length ls > MAX_PLAN_LAYERS
             then Err (depth_error (length ls))
             else Ok ls)"
proof -
  let ?n = "length ts" and ?es = "plan_edges ts"
  obtain ind dp where g: "graph_of ?n ?es = (ind, dp)" by fastforce
  have bnd: "\<forall>(j, i)\<in>set ?es. j < ?n \<and> i < ?n" using plan_edges_bounds [OF known] by blast
  from kahn_loop_spec [OF kahn_inv_init [OF g] bnd] g obtain ls ind' where
    run: "kahn_loop dp ind (filter (\<lambda>i. ind ! i = 0) [0..<?n]) [] 0 = Some (ls, length (concat ls))"
    and inv: "kahn_inv ?n ?es ls [] ind'" by auto
  from inv have wl: "well_layered ?es ls"
    by (auto simp: kahn_inv_def intro: well_layered_butlast)
  from inv have dist: "distinct (concat ls)" and sub: "set (concat ls) \<subseteq> {..<?n}"
    by (auto simp: kahn_inv_def)
  have "acyclic (set ?es) \<longleftrightarrow> set (concat ls) = {..<?n}"
    using kahn_inv_complete [OF inv bnd] well_layered_acyclic [OF wl dist] bnd by force
  with plan_edges_depends_rel [OF known]
  have ac: "acyclic (depends_rel ts) \<longleftrightarrow> set (concat ls) = {..<?n}" by simp
  have "topological_layers plan =
       Some (if length (concat ls) < ?n then Err cycle_error
             else if length ls > MAX_PLAN_LAYERS
             then Err (depth_error (length ls))
             else Ok ls)"
    unfolding topological_layers_def Let_def ts [symmetric] build_graph_plan(1) [OF known] g
    by (simp add: run del: length_concat)
  from that [OF wl dist sub ac this] show ?thesis .
qed

lemma length_full_iff:
  "distinct xs \<Longrightarrow> set xs \<subseteq> {..<n} \<Longrightarrow> length xs < n \<longleftrightarrow> set xs \<noteq> {..<n}"
  by (metis card_lessThan card_subset_eq distinct_card finite_lessThan lessThan_subset_iff
      nat_neq_iff order_less_irrefl psubsetI psubset_card_mono)

subsection \<open>What the parser guarantees\<close>

definition plan_wf :: "PlanSpec \<Rightarrow> bool" where
  "plan_wf plan \<longleftrightarrow>
     plan_tasks plan \<noteq> [] \<and> length (plan_tasks plan) \<le> MAX_PLAN_TASKS \<and>
     distinct (map task_id (plan_tasks plan)) \<and> deps_known (plan_tasks plan) \<and>
     (\<forall>t\<in>set (plan_tasks plan). \<forall>a. artifact t = Some a \<longrightarrow> trim a \<noteq> [])"

lemma parse_tasks_length: "parse_tasks items = Ok ts \<Longrightarrow> length ts = length items"
  by (induction items arbitrary: ts) auto

lemma parse_artifact_Ok: "parse_artifact item i = Ok (Some a) \<Longrightarrow> trim a \<noteq> []"
  by (auto simp: parse_artifact_def split: option.splits json.splits if_splits)

lemma parse_task_artifact: "parse_task item = Ok t \<Longrightarrow> artifact t = Some a \<Longrightarrow> trim a \<noteq> []"
  by (auto simp: parse_task_def dest: parse_artifact_Ok split: option.splits)

lemma parse_tasks_artifact:
  "parse_tasks items = Ok ts \<Longrightarrow> t \<in> set ts \<Longrightarrow> artifact t = Some a \<Longrightarrow> trim a \<noteq> []"
  by (induction items arbitrary: ts) (auto dest: parse_task_artifact)

lemma check_known_Ok_iff: "check_known ids i deps = Ok () \<longleftrightarrow> set deps \<subseteq> set ids"
  by (induction deps) auto

lemma check_ids_Ok_iff:
  "check_ids ids ts = Ok () \<longleftrightarrow> distinct (map task_id ts) \<and> (\<forall>t\<in>set ts. set (depends_on t) \<subseteq> set ids)"
  by (induction ts) (auto simp: check_known_Ok_iff)

lemma parse_plan_wf: "parse_plan args = Ok plan \<Longrightarrow> plan_wf plan"
  by (auto simp: parse_plan_def plan_wf_def deps_known_def check_ids_Ok_iff Let_def
      dest: parse_tasks_length parse_tasks_artifact split: option.splits if_splits) blast

lemma build_deps_Err_shape: "build_deps ts i tid deps g = Err e \<Longrightarrow> \<exists>a. e = CHR ''t'' # a"
  by (induction ts i tid deps g rule: build_deps.induct) (auto split: option.splits)

lemma build_graph_Err_shape: "build_graph ts i rest g = Err e \<Longrightarrow> \<exists>a. e = CHR ''t'' # a"
  by (induction ts i rest g rule: build_graph.induct)
     (auto simp: res_bind_Err_iff dest: build_deps_Err_shape)

lemma topological_layers_unknown:
  assumes "\<not> deps_known (plan_tasks plan)"
  shows "\<exists>a. topological_layers plan = Some (Err (CHR ''t'' # a))"
proof -
  let ?ts = "plan_tasks plan"
  from build_graph_plan(2) [OF assms] obtain e where
    e: "build_graph ?ts 0 ?ts (replicate (length ?ts) 0, replicate (length ?ts) []) = Err e" by blast
  with build_graph_Err_shape [OF e] show ?thesis by (auto simp: topological_layers_def Let_def)
qed

lemma cycle_error_ne [simp]: "CHR ''t'' # a \<noteq> cycle_error" "depth_error k \<noteq> cycle_error"
  "cycle_error \<noteq> CHR ''t'' # a"
  by (simp_all add: cycle_error_def depth_error_def)

subsection \<open>Properties\<close>

lemma topological_layers_Ok:
  assumes "topological_layers plan = Some (Ok layers)"
  shows "distinct (concat layers) \<and> set (concat layers) = {..<length (plan_tasks plan)}
    \<and> length layers \<le> MAX_PLAN_LAYERS
    \<and> (\<forall>k<length layers. \<forall>i\<in>set (layers ! k).
         (\<forall>j. (j, i) \<in> depends_rel (plan_tasks plan) \<longrightarrow> j \<in> set (concat (take k layers))) \<and>
         (0 < k \<longrightarrow> (\<exists>j\<in>set (layers ! (k - 1)). (j, i) \<in> depends_rel (plan_tasks plan))))"
proof (cases "deps_known (plan_tasks plan)")
  case False
  from topological_layers_unknown [OF this] assms show ?thesis by auto
next
  case True
  from topological_layers_known [OF True refl] obtain ls where
    ls: "well_layered (plan_edges (plan_tasks plan)) ls" "distinct (concat ls)"
      "set (concat ls) \<subseteq> {..<length (plan_tasks plan)}"
    and eq: "topological_layers plan =
       Some (if length (concat ls) < length (plan_tasks plan) then Err cycle_error
             else if length ls > MAX_PLAN_LAYERS
             then Err (depth_error (length ls))
             else Ok ls)" .
  from eq assms have "ls = layers" "\<not> length (concat ls) < length (plan_tasks plan)"
      "length ls \<le> MAX_PLAN_LAYERS"
    by (auto split: if_splits simp del: length_concat)
  with ls length_full_iff [OF ls(2,3)] plan_edges_depends_rel [OF True] show ?thesis
    by (simp only: well_layered_def simp_thms)
qed


text \<open>Claim C36. the layering reports a dependency cycle exactly when all dependencies are known
  and the dependency relation of the plan has a cycle.\<close>

theorem topological_layers_cycle_iff:
  "topological_layers plan = Some (Err cycle_error) \<longleftrightarrow>
     deps_known (plan_tasks plan) \<and> \<not> acyclic (depends_rel (plan_tasks plan))"
proof (cases "deps_known (plan_tasks plan)")
  case False
  from topological_layers_unknown [OF this] False show ?thesis by auto
next
  case True
  from topological_layers_known [OF True refl] obtain ls where
    ls: "distinct (concat ls)" "set (concat ls) \<subseteq> {..<length (plan_tasks plan)}"
      "acyclic (depends_rel (plan_tasks plan)) \<longleftrightarrow> set (concat ls) = {..<length (plan_tasks plan)}"
    and eq: "topological_layers plan =
       Some (if length (concat ls) < length (plan_tasks plan) then Err cycle_error
             else if length ls > MAX_PLAN_LAYERS
             then Err (depth_error (length ls))
             else Ok ls)" .
  from eq length_full_iff [OF ls(1,2)] ls(3) True show ?thesis
    by (auto simp del: length_concat)
qed

text \<open>The layering never panics: on every plan, well formed or not, no index is out of
  range and no \<open>indegree\<close> counter underflows, and the loop ends with a result.\<close>

theorem topological_layers_no_panic: "\<exists>r. topological_layers plan = Some r"
proof (cases "deps_known (plan_tasks plan)")
  case False
  from topological_layers_unknown [OF this] show ?thesis by auto
next
  case True
  from topological_layers_known [OF True refl] show ?thesis by blast
qed

text \<open>a plan the parser accepts has between one and twelve tasks with distinct ids, only
  dependencies on tasks of the plan and no blank artifact path; its layering can then only
  succeed, report a cycle or report too many layers.\<close>

theorem parse_plan_accepts_wf:
  assumes "parse_plan args = Ok plan"
  shows "plan_wf plan \<and> (\<exists>ls. topological_layers plan = Some (Ok ls)
     \<or> topological_layers plan = Some (Err cycle_error)
     \<or> topological_layers plan =
         Some (Err (depth_error (length ls))))"
proof -
  from parse_plan_wf [OF assms] have wf: "plan_wf plan" .
  then have "deps_known (plan_tasks plan)" by (simp add: plan_wf_def)
  from topological_layers_known [OF this refl] obtain ls where
    "topological_layers plan =
       Some (if length (concat ls) < length (plan_tasks plan) then Err cycle_error
             else if length ls > MAX_PLAN_LAYERS
             then Err (depth_error (length ls))
             else Ok ls)" .
  with wf show ?thesis by (metis (full_types))
qed

subsection \<open>Witnesses\<close>

definition demo_item :: "string \<Rightarrow> string list \<Rightarrow> json" where
  "demo_item i deps = JObject [(''id'', JString i), (''agent'', JString ''Explore''),
     (''prompt'', JString ''go''), (''depends_on'', JArray (map JString deps))]"

definition demo_args :: json where
  "demo_args = JObject [(''tasks'', JArray [demo_item ''a'' [], demo_item ''b'' [''a''],
     demo_item ''c'' [''a''], demo_item ''d'' [''b'', ''c'', ''b'']])]"

definition demo_plan :: PlanSpec where
  "demo_plan = ok_val (parse_plan demo_args)"

lemma demo_parse: "parse_plan demo_args = Ok demo_plan"
  unfolding demo_plan_def by code_simp

lemma demo_layers: "topological_layers demo_plan = Some (Ok [[0], [1, 2], [3]])"
  by code_simp


theorem parse_plan_accepts_wf_witness: "parse_plan demo_args = Ok demo_plan \<and> plan_wf demo_plan"
  using parse_plan_accepts_wf [OF demo_parse] demo_parse by blast

end
