(* ===== verification/Rpc_Error.thy ===== *)
theory Rpc_Error
  imports Json_Value
begin

section \<open>The gateway's error catalogue (zen-gateway/src/protocol/error.rs)\<close>

text \<open>
  The wire errors of the gateway: one constructor function per row of the catalogue, as in
  \<open>impl RpcError\<close>, and the claim of the module documentation that the set is closed and that a
  code never changes its meaning. The \<open>i32\<close> code is an \<open>int\<close>: every code is a literal.
\<close>

subsection \<open>Constructors\<close>

record RpcError =
  code :: int
  err_name :: string
  message :: string
  data :: "json option"

definition parse_error :: "string \<Rightarrow> RpcError" where
  "parse_error detail =
     \<lparr>code = -32700, err_name = ''parse-error'', message = ''invalid JSON: '' @ detail, data = None\<rparr>"

definition invalid_request :: "string \<Rightarrow> RpcError" where
  "invalid_request detail =
     \<lparr>code = -32600, err_name = ''invalid-request'',
      message = ''invalid request frame: '' @ detail, data = None\<rparr>"

definition invalid_params :: "string \<Rightarrow> string \<Rightarrow> RpcError" where
  "invalid_params method detail =
     \<lparr>code = -32602, err_name = ''invalid-params'',
      message = ''invalid params for '' @ method @ '': '' @ detail, data = None\<rparr>"

definition method_not_found :: "string list \<Rightarrow> RpcError" where
  "method_not_found supported =
     \<lparr>code = -32601, err_name = ''method-not-found'', message = ''unknown method'',
      data = Some (JObject [(''supportedMethods'', JArray (map JString supported))])\<rparr>"

definition internal :: "string \<Rightarrow> RpcError" where
  "internal detail =
     \<lparr>code = -32603, err_name = ''internal'', message = detail, data = None\<rparr>"

definition not_initialized :: RpcError where
  "not_initialized =
     \<lparr>code = -32000, err_name = ''not-initialized'',
      message = ''connection not initialized; call initialize first'', data = None\<rparr>"

definition version_mismatch :: "string \<Rightarrow> string \<Rightarrow> string \<Rightarrow> RpcError" where
  "version_mismatch server_version server_protocol_version reason =
     \<lparr>code = -32001, err_name = ''version-mismatch'',
      message = ''protocol version mismatch: '' @ reason,
      data = Some (JObject
        [(''serverVersion'', JString server_version),
         (''serverProtocolVersion'', JString server_protocol_version),
         (''reason'', JString reason),
         (''recovery'', JString ''restart gateway with matching version'')])\<rparr>"

definition store_unavailable :: "string \<Rightarrow> RpcError" where
  "store_unavailable health =
     \<lparr>code = -32002, err_name = ''store-unavailable'', message = ''memory store unavailable'',
      data = Some (JObject [(''storeHealth'', JString health)])\<rparr>"

definition session_not_found :: "string \<Rightarrow> RpcError" where
  "session_not_found session_id =
     \<lparr>code = -32003, err_name = ''session-not-found'',
      message = ''session not found: '' @ session_id,
      data = Some (JObject [(''sessionId'', JString session_id)])\<rparr>"

definition turn_already_completed :: "json \<Rightarrow> RpcError" where
  "turn_already_completed response =
     \<lparr>code = -32004, err_name = ''turn-already-completed'',
      message = ''turn already completed; returning final result'',
      data = Some (JObject [(''response'', response)])\<rparr>"

definition approval_unsupported :: RpcError where
  "approval_unsupported =
     \<lparr>code = -32010, err_name = ''approval-unsupported'',
      message = ''approvals not supported on this connection'', data = None\<rparr>"

definition approval_timeout :: "string \<Rightarrow> RpcError" where
  "approval_timeout turn_id =
     \<lparr>code = -32011, err_name = ''approval-timeout'',
      message = ''approval request timed out for turn '' @ turn_id,
      data = Some (JObject [(''turnId'', JString turn_id)])\<rparr>"

definition rate_limited :: "nat \<Rightarrow> RpcError" where
  "rate_limited retry_after_ms =
     \<lparr>code = -32012, err_name = ''rate-limited'', message = ''too many requests'',
      data = Some (JObject [(''retryAfterMs'', JNumber (int retry_after_ms))])\<rparr>"

definition guard_rejected :: "string \<Rightarrow> string \<Rightarrow> RpcError" where
  "guard_rejected guard reason =
     \<lparr>code = -32020, err_name = ''guard-rejected'',
      message = ''rejected by '' @ guard @ '' guard: '' @ reason,
      data = Some (JObject [(''guard'', JString guard), (''reason'', JString reason)])\<rparr>"

text \<open>\<open>impl Display for RpcError\<close>.\<close>

definition rpc_display :: "RpcError \<Rightarrow> string" where
  "rpc_display e = int_str (code e) @ '' '' @ err_name e @ '' ('' @ message e @ '')''"

lemmas rpc_error_defs = parse_error_def invalid_request_def invalid_params_def
  method_not_found_def internal_def not_initialized_def version_mismatch_def
  store_unavailable_def session_not_found_def turn_already_completed_def
  approval_unsupported_def approval_timeout_def rate_limited_def guard_rejected_def

subsection \<open>The closed catalogue\<close>

text \<open>The values the public constructors can build.\<close>

inductive catalog_error :: "RpcError \<Rightarrow> bool" where
  "catalog_error (parse_error d)"
| "catalog_error (invalid_request d)"
| "catalog_error (invalid_params m d)"
| "catalog_error (method_not_found ms)"
| "catalog_error (internal d)"
| "catalog_error not_initialized"
| "catalog_error (version_mismatch v p r)"
| "catalog_error (store_unavailable h)"
| "catalog_error (session_not_found s)"
| "catalog_error (turn_already_completed j)"
| "catalog_error approval_unsupported"
| "catalog_error (approval_timeout t)"
| "catalog_error (rate_limited n)"
| "catalog_error (guard_rejected g r)"

text \<open>
  The table the constructors must follow: the code, the stable name and the members of the
  \<open>data\<close> payload (\<open>contracts/02\<close>, error catalogue).
\<close>

definition catalog :: "(int \<times> string \<times> string list) list" where
  "catalog =
     [(-32700, ''parse-error'', []), (-32600, ''invalid-request'', []),
      (-32602, ''invalid-params'', []), (-32601, ''method-not-found'', [''supportedMethods'']),
      (-32603, ''internal'', []), (-32000, ''not-initialized'', []),
      (-32001, ''version-mismatch'',
         [''serverVersion'', ''serverProtocolVersion'', ''reason'', ''recovery'']),
      (-32002, ''store-unavailable'', [''storeHealth'']),
      (-32003, ''session-not-found'', [''sessionId'']),
      (-32004, ''turn-already-completed'', [''response'']),
      (-32010, ''approval-unsupported'', []), (-32011, ''approval-timeout'', [''turnId'']),
      (-32012, ''rate-limited'', [''retryAfterMs'']),
      (-32020, ''guard-rejected'', [''guard'', ''reason''])]"

fun data_keys :: "json option \<Rightarrow> string list" where
  "data_keys (Some (JObject ms)) = map fst ms"
| "data_keys _ = []"

definition catalog_row :: "RpcError \<Rightarrow> int \<times> string \<times> string list" where
  "catalog_row e = (code e, err_name e, data_keys (data e))"

lemma catalog_error_row: "catalog_error e \<Longrightarrow> catalog_row e \<in> set catalog"
  by (induction rule: catalog_error.induct)
     (simp_all add: catalog_row_def catalog_def rpc_error_defs)

lemma catalog_codes_distinct: "distinct (map fst catalog)"
  by (simp add: catalog_def)

lemma catalog_names_distinct: "distinct (map (fst \<circ> snd) catalog)"
  by (simp add: catalog_def)

text \<open>
  The catalogue is closed and injective: two errors built by the constructors have
  the same code exactly when they have the same name, and then their payloads have the same
  members; a code fixes the meaning of the error.
\<close>

theorem catalog_code_fixes_row:
  assumes "catalog_error e" "catalog_error e'"
  shows "(code e = code e' \<longleftrightarrow> err_name e = err_name e')
         \<and> (code e = code e' \<longrightarrow> data_keys (data e) = data_keys (data e'))"
proof -
  from assms have rows: "catalog_row e \<in> set catalog" "catalog_row e' \<in> set catalog"
    by (auto intro: catalog_error_row)
  have inj: "inj_on fst (set catalog)" "inj_on (fst \<circ> snd) (set catalog)"
    using catalog_codes_distinct catalog_names_distinct by (simp_all add: distinct_map)
  have "code e = code e' \<Longrightarrow> catalog_row e = catalog_row e'"
    using inj_onD [OF inj(1) _ rows] by (simp add: catalog_row_def)
  moreover have "err_name e = err_name e' \<Longrightarrow> catalog_row e = catalog_row e'"
    using inj_onD [OF inj(2) _ rows] by (simp add: catalog_row_def)
  ultimately show ?thesis by (auto simp: catalog_row_def)
qed

theorem catalog_code_fixes_row_witness:
  "data_keys (data (guard_rejected ''watchdog'' ''x'')) = data_keys (data (guard_rejected ''doom-loop'' ''y''))
   \<and> code (guard_rejected ''watchdog'' ''x'') \<noteq> code (rate_limited 500)"
proof
  have "catalog_error (guard_rejected g r)" "catalog_error (rate_limited n)" for g r n
    by (rule catalog_error.intros)+
  note catalog = catalog_code_fixes_row [OF this(1) this(1)] catalog_code_fixes_row [OF this]
  from catalog(1) show "data_keys (data (guard_rejected ''watchdog'' ''x''))
      = data_keys (data (guard_rejected ''doom-loop'' ''y''))"
    by (simp add: guard_rejected_def)
  from catalog(2) show "code (guard_rejected ''watchdog'' ''x'') \<noteq> code (rate_limited 500)"
    by (simp add: guard_rejected_def rate_limited_def)
qed

end
