(* ===== verification/Gateway_Guards.thy ===== *)
theory Gateway_Guards
  imports Rpc_Error
begin

section \<open>Agent-loop guards of the gateway (zen-gateway/src/server/guards.rs)\<close>

text \<open>
  The circuit breaker and the doom-loop window a turn has to pass, the watchdog deadline and
  the cached reachability probe. An \<open>Instant\<close> and a \<open>Duration\<close> are numbers of nanoseconds, the
  hash maps are maps, and every reading of \<open>Instant::now()\<close> is an argument of the operation, in
  the order the code takes them. The two mutexes make \<open>check_breaker\<close>, \<open>record_doom_turn\<close>,
  \<open>record_success\<close> and \<open>record_failure\<close> atomic, so they are the steps of the transition system
  below. \<open>record_doom_turn\<close> reads the clock before it takes its lock, so its readings need not
  come in the order of the steps, and \<open>check_submit\<close>, which takes the locks one after the other, is their composition.
  The counter \<open>consecutive_failures\<close> is a \<open>nat\<close>: the invariant keeps it under the threshold, so
  the \<open>u32\<close> addition cannot overflow.
\<close>

subsection \<open>State and operations\<close>

definition secs :: "nat \<Rightarrow> nat" where
  "secs n = n * 1000000000"

definition as_secs :: "nat \<Rightarrow> nat" where
  "as_secs d = d div 1000000000"

definition WATCHDOG_TIMEOUT :: nat where
  "WATCHDOG_TIMEOUT = secs 900"

definition BREAKER_THRESHOLD :: nat where
  "BREAKER_THRESHOLD = 5"

definition BREAKER_COOLDOWN :: nat where
  "BREAKER_COOLDOWN = secs 60"

definition DOOM_MAX_TURNS :: nat where
  "DOOM_MAX_TURNS = 20"

definition DOOM_WINDOW :: nat where
  "DOOM_WINDOW = secs 600"

definition LOCAL_PROBE_TTL :: nat where
  "LOCAL_PROBE_TTL = secs 300"

record BreakerState =
  consecutive_failures :: nat
  open_until :: "nat option"

definition breaker_default :: BreakerState where
  "breaker_default = \<lparr>consecutive_failures = 0, open_until = None\<rparr>"

record Guards =
  breakers :: "string \<rightharpoonup> BreakerState"
  doom :: "string \<rightharpoonup> nat list"

definition guards_default :: Guards where
  "guards_default = \<lparr>breakers = Map.empty, doom = Map.empty\<rparr>"

text \<open>\<open>HashMap::entry(k).or_default()\<close>.\<close>

definition entry_or :: "'v \<Rightarrow> (string \<rightharpoonup> 'v) \<Rightarrow> string \<Rightarrow> 'v" where
  "entry_or d m k = (case m k of Some v \<Rightarrow> v | None \<Rightarrow> d)"

text \<open>\<open>now\<close> is the reading of the comparison, \<open>now'\<close> the later one of the message.\<close>

definition check_breaker ::
  "Guards \<Rightarrow> string \<Rightarrow> nat \<Rightarrow> nat \<Rightarrow> Guards \<times> (unit, RpcError) result" where
  "check_breaker g session_id now now' =
     (let state = entry_or breaker_default (breakers g) session_id;
          put = (\<lambda>st. g\<lparr>breakers := (breakers g)(session_id \<mapsto> st)\<rparr>)
      in case open_until state of
           None \<Rightarrow> (put state, Ok ())
         | Some until \<Rightarrow>
             if now < until then
               (put state,
                Err (guard_rejected ''circuit-breaker''
                  (''session cooling down after '' @ nat_str BREAKER_THRESHOLD
                   @ '' consecutive failures; retry in ~''
                   @ nat_str (max (as_secs (until - now')) 1) @ ''s'')))
             else (put (state\<lparr>open_until := None\<rparr>), Ok ()))"

definition record_doom_turn ::
  "Guards \<Rightarrow> string \<Rightarrow> nat \<Rightarrow> Guards \<times> (unit, RpcError) result" where
  "record_doom_turn g session_id now =
     (let window = filter (\<lambda>t. now - t < DOOM_WINDOW) (entry_or [] (doom g) session_id);
          put = (\<lambda>w. g\<lparr>doom := (doom g)(session_id \<mapsto> w)\<rparr>)
      in if DOOM_MAX_TURNS \<le> length window then
           (put window,
            Err (guard_rejected ''doom-loop''
              (''session exceeded '' @ nat_str DOOM_MAX_TURNS @ '' turns in ''
               @ nat_str (as_secs DOOM_WINDOW div 60) @ '' minutes'')))
         else (put (window @ [now]), Ok ()))"

definition check_submit ::
  "Guards \<Rightarrow> string \<Rightarrow> nat \<Rightarrow> nat \<Rightarrow> nat \<Rightarrow> Guards \<times> (unit, RpcError) result" where
  "check_submit g session_id now now' now'' =
     (case check_breaker g session_id now now' of
        (g1, Err e) \<Rightarrow> (g1, Err e)
      | (g1, Ok _) \<Rightarrow>
          (case record_doom_turn g1 session_id now'' of
             (g2, Err e) \<Rightarrow> (g2, Err e)
           | (g2, Ok _) \<Rightarrow> (g2, Ok ())))"

definition record_success :: "Guards \<Rightarrow> string \<Rightarrow> Guards" where
  "record_success g session_id =
     (case breakers g session_id of
        None \<Rightarrow> g
      | Some state \<Rightarrow>
          g\<lparr>breakers := (breakers g)(session_id \<mapsto>
              state\<lparr>consecutive_failures := 0, open_until := None\<rparr>)\<rparr>)"

definition record_failure :: "Guards \<Rightarrow> string \<Rightarrow> nat \<Rightarrow> Guards" where
  "record_failure g session_id now =
     (let state = entry_or breaker_default (breakers g) session_id;
          failures = consecutive_failures state + 1;
          state' = (if BREAKER_THRESHOLD \<le> failures
                    then state\<lparr>open_until := Some (now + BREAKER_COOLDOWN), consecutive_failures := 0\<rparr>
                    else state\<lparr>consecutive_failures := failures\<rparr>)
      in g\<lparr>breakers := (breakers g)(session_id \<mapsto> state')\<rparr>)"

text \<open>
  The watchdog: the environment override beats the configured budget, which a reachable local
  model widens (seconds as the configuration gives them).
\<close>

definition watchdog_deadline :: "nat option \<Rightarrow> nat \<Rightarrow> nat \<Rightarrow> bool \<Rightarrow> nat" where
  "watchdog_deadline env_override base_watchdog_secs local_watchdog_secs local_reachable =
     (case env_override of
        Some t \<Rightarrow> secs t
      | None \<Rightarrow>
          let base = secs base_watchdog_secs
          in if local_reachable then max base (secs local_watchdog_secs) else base)"

definition watchdog_rejected :: RpcError where
  "watchdog_rejected = guard_rejected ''watchdog'' ''turn exceeded watchdog deadline''"

text \<open>
  The reachability cache: \<open>probe_override\<close> and \<open>probe_cache\<close> are the two statics, \<open>probe\<close> the
  answer a fresh probe would give, \<open>now\<close> the reading inside \<open>elapsed()\<close> and \<open>now'\<close> the later one
  stored with a fresh answer.
\<close>

record ProbeStatics =
  probe_override :: "bool option"
  probe_cache :: "(nat \<times> bool) option"

definition local_llm_reachable_cached ::
  "bool \<Rightarrow> nat \<Rightarrow> nat \<Rightarrow> ProbeStatics \<Rightarrow> bool \<times> ProbeStatics" where
  "local_llm_reachable_cached probe now now' st =
     (case probe_override st of
        Some v \<Rightarrow> (v, st)
      | None \<Rightarrow>
          (case probe_cache st of
             Some (at, reachable) \<Rightarrow>
               if now - at < LOCAL_PROBE_TTL then (reachable, st)
               else (probe, st\<lparr>probe_cache := Some (now', probe)\<rparr>)
           | None \<Rightarrow> (probe, st\<lparr>probe_cache := Some (now', probe)\<rparr>)))"

subsection \<open>The transition system\<close>

text \<open>
  One step per critical section, in the order the locks are taken. The breaker reads the clock
  under its lock, so its readings are not before any earlier one (\<open>sys_clock\<close> is the latest reading
  so far). \<open>record_doom_turn\<close> reads the clock first and then waits for the lock, so its reading may
  lie behind by as long as it waited: \<open>lag\<close> bounds that. The state carries the log of
  admitted turns (session and reading), which the code does not keep.
\<close>

record GuardSystem =
  sys_guards :: Guards
  sys_clock :: nat
  sys_admitted :: "(string \<times> nat) list"

datatype guard_op =
    CheckBreaker string nat nat
  | DoomTurn string nat
  | Success string
  | Failure string nat

inductive guard_step :: "nat \<Rightarrow> GuardSystem \<Rightarrow> guard_op \<Rightarrow> GuardSystem \<Rightarrow> bool"
  for lag :: nat where
  step_breaker:
    "sys_clock s \<le> now \<Longrightarrow> now \<le> now' \<Longrightarrow> check_breaker (sys_guards s) i now now' = (g, r)
     \<Longrightarrow> guard_step lag s (CheckBreaker i now now') (s\<lparr>sys_guards := g, sys_clock := now'\<rparr>)"
| step_doom_ok:
    "sys_clock s \<le> now + lag \<Longrightarrow> record_doom_turn (sys_guards s) i now = (g, Ok ())
     \<Longrightarrow> guard_step lag s (DoomTurn i now)
          (s\<lparr>sys_guards := g, sys_clock := max (sys_clock s) now,
             sys_admitted := sys_admitted s @ [(i, now)]\<rparr>)"
| step_doom_err:
    "sys_clock s \<le> now + lag \<Longrightarrow> record_doom_turn (sys_guards s) i now = (g, Err e)
     \<Longrightarrow> guard_step lag s (DoomTurn i now)
          (s\<lparr>sys_guards := g, sys_clock := max (sys_clock s) now\<rparr>)"
| step_success:
    "guard_step lag s (Success i) (s\<lparr>sys_guards := record_success (sys_guards s) i\<rparr>)"
| step_failure:
    "sys_clock s \<le> now
     \<Longrightarrow> guard_step lag s (Failure i now)
          (s\<lparr>sys_guards := record_failure (sys_guards s) i now, sys_clock := now\<rparr>)"

definition guard_init :: GuardSystem where
  "guard_init = \<lparr>sys_guards = guards_default, sys_clock = 0, sys_admitted = []\<rparr>"

definition admitted_times :: "string \<Rightarrow> (string \<times> nat) list \<Rightarrow> nat list" where
  "admitted_times i log = map snd (filter (\<lambda>(j, _). j = i) log)"

text \<open>
  The invariant: a failure count stays under the threshold, an open breaker closes within the
  cool-down, the stored window agrees with the log on everything the latest reading still counts,
  and every window of the log, shortened by the lag, holds at most \<open>DOOM_MAX_TURNS\<close> turns.
\<close>

definition breakers_ok :: "Guards \<Rightarrow> nat \<Rightarrow> bool" where
  "breakers_ok g clock \<longleftrightarrow>
     (\<forall>i st. breakers g i = Some st \<longrightarrow>
        consecutive_failures st < BREAKER_THRESHOLD
        \<and> (\<forall>u. open_until st = Some u \<longrightarrow> u \<le> clock + BREAKER_COOLDOWN))"

definition recent :: "nat \<Rightarrow> nat list \<Rightarrow> nat list" where
  "recent now ts = filter (\<lambda>t. now - t < DOOM_WINDOW) ts"

definition windows_ok :: "Guards \<Rightarrow> nat \<Rightarrow> (string \<times> nat) list \<Rightarrow> bool" where
  "windows_ok g clock log \<longleftrightarrow>
     (\<forall>i now. clock \<le> now \<longrightarrow>
        recent now (entry_or [] (doom g) i) = recent now (admitted_times i log))
     \<and> (\<forall>i. length (entry_or [] (doom g) i) \<le> DOOM_MAX_TURNS)"

definition rate_ok :: "nat \<Rightarrow> (string \<times> nat) list \<Rightarrow> bool" where
  "rate_ok lag log \<longleftrightarrow>
     (\<forall>i t. length (filter (\<lambda>x. t \<le> x \<and> x < t + (DOOM_WINDOW - lag)) (admitted_times i log))
            \<le> DOOM_MAX_TURNS)"

definition guard_inv :: "nat \<Rightarrow> GuardSystem \<Rightarrow> bool" where
  "guard_inv lag s \<longleftrightarrow>
     breakers_ok (sys_guards s) (sys_clock s)
     \<and> windows_ok (sys_guards s) (sys_clock s) (sys_admitted s)
     \<and> rate_ok lag (sys_admitted s)"

lemma entry_or_upd: "entry_or d (m(k \<mapsto> v)) j = (if j = k then v else entry_or d m j)"
  by (simp add: entry_or_def)

lemma admitted_times_snoc:
  "admitted_times i (log @ [(j, t)]) = admitted_times i log @ (if j = i then [t] else [])"
  by (simp add: admitted_times_def)

lemma recent_recent: "now \<le> now' \<Longrightarrow> recent now' (recent now ts) = recent now' ts"
  by (auto simp: recent_def intro!: filter_cong)

lemma recent_snoc: "recent now (ts @ [t]) = recent now ts @ recent now [t]"
  by (simp add: recent_def)

lemma length_recent_le: "length (recent now ts) \<le> length ts"
  by (simp add: recent_def)

lemmas recent_simps = recent_recent recent_snoc entry_or_upd admitted_times_snoc

subsubsection \<open>The operations on the two halves of the state\<close>

lemma check_breaker_doom: "check_breaker g i now now' = (g', r) \<Longrightarrow> doom g' = doom g"
  by (auto simp: check_breaker_def Let_def split: option.splits if_splits)

lemma record_success_doom [simp]: "doom (record_success g i) = doom g"
  by (auto simp: record_success_def split: option.splits)

lemma record_failure_doom [simp]: "doom (record_failure g i now) = doom g"
  by (simp add: record_failure_def Let_def)

lemma record_doom_turn_breakers: "record_doom_turn g i now = (g', r) \<Longrightarrow> breakers g' = breakers g"
  by (auto simp: record_doom_turn_def Let_def split: if_splits)

lemma breakers_ok_mono: "breakers_ok g c \<Longrightarrow> c \<le> c' \<Longrightarrow> breakers_ok g c'"
  unfolding breakers_ok_def by fastforce

lemma breakers_ok_cong: "breakers g' = breakers g \<Longrightarrow> breakers_ok g' c = breakers_ok g c"
  by (simp add: breakers_ok_def)

lemma check_breaker_ok [preserves]:
  assumes "breakers_ok g c" "check_breaker g i now now' = (g', r)"
  shows "breakers_ok g' c"
  using assms
  by (fastforce simp: breakers_ok_def check_breaker_def Let_def entry_or_def breaker_default_def
      BREAKER_THRESHOLD_def split: option.splits if_splits)

lemma record_success_ok [preserves]: "breakers_ok g c \<Longrightarrow> breakers_ok (record_success g i) c"
  by (auto simp: breakers_ok_def record_success_def BREAKER_THRESHOLD_def split: option.splits)

lemma record_failure_ok [preserves]:
  assumes "breakers_ok g c" "c \<le> now"
  shows "breakers_ok (record_failure g i now) now"
  using breakers_ok_mono [OF assms]
  by (auto simp: breakers_ok_def record_failure_def Let_def entry_or_def breaker_default_def
      BREAKER_THRESHOLD_def split: option.splits if_splits)

lemma windows_ok_mono: "windows_ok g c log \<Longrightarrow> c \<le> c' \<Longrightarrow> windows_ok g c' log"
  by (auto simp: windows_ok_def)

lemma windows_ok_cong: "doom g' = doom g \<Longrightarrow> windows_ok g' c log = windows_ok g c log"
  by (simp add: windows_ok_def)

lemma record_doom_turn_Ok:
  "record_doom_turn g i now = (g', Ok ()) \<longleftrightarrow>
     length (recent now (entry_or [] (doom g) i)) < DOOM_MAX_TURNS
     \<and> g' = g\<lparr>doom := (doom g)(i \<mapsto> recent now (entry_or [] (doom g) i) @ [now])\<rparr>"
  by (auto simp: record_doom_turn_def Let_def recent_def)

lemma record_doom_turn_Err:
  "record_doom_turn g i now = (g', Err e) \<Longrightarrow>
     DOOM_MAX_TURNS \<le> length (recent now (entry_or [] (doom g) i))
     \<and> g' = g\<lparr>doom := (doom g)(i \<mapsto> recent now (entry_or [] (doom g) i))\<rparr>"
  by (auto simp: record_doom_turn_def Let_def recent_def split: if_splits)

lemma windows_ok_prune:
  assumes "windows_ok g c log"
  shows "max c now \<le> now' \<Longrightarrow>
           recent now' (recent now (entry_or [] (doom g) i)) = recent now' (admitted_times i log)"
    and "length (recent now (entry_or [] (doom g) i)) \<le> DOOM_MAX_TURNS"
  using assms by (auto simp: windows_ok_def recent_recent intro: le_trans [OF length_recent_le])

lemma doom_err_windows [preserves]:
  assumes "windows_ok g c log" "record_doom_turn g i now = (g', Err e)"
  shows "windows_ok g' (max c now) log"
proof -
  let ?w = "recent now (entry_or [] (doom g) i)"
  have "g' = g\<lparr>doom := (doom g)(i \<mapsto> ?w)\<rparr>" using record_doom_turn_Err [OF assms(2)] by simp
  with windows_ok_prune [OF assms(1)] windows_ok_mono [OF assms(1), of "max c now"] show ?thesis
    by (simp add: windows_ok_def entry_or_upd)
qed

lemma doom_ok_windows [preserves]:
  assumes "windows_ok g c log" "record_doom_turn g i now = (g', Ok ())"
  shows "windows_ok g' (max c now) (log @ [(i, now)])"
proof -
  let ?w = "recent now (entry_or [] (doom g) i)"
  from assms(2) have "length ?w < DOOM_MAX_TURNS" "g' = g\<lparr>doom := (doom g)(i \<mapsto> ?w @ [now])\<rparr>"
    by (simp_all add: record_doom_turn_Ok)
  with windows_ok_prune [OF assms(1)] windows_ok_mono [OF assms(1), of "max c now"] show ?thesis
    by (simp add: windows_ok_def entry_or_upd admitted_times_snoc recent_snoc)
qed

text \<open>
  The heart of the rate bound: a turn admitted at \<open>now\<close> shares a shortened window only with turns
  that no reading so far has pruned, and fewer than \<open>DOOM_MAX_TURNS\<close> of them were in the list.
\<close>

lemma doom_ok_rate [preserves]:
  assumes w: "windows_ok g c log" and lag: "c \<le> now + lag"
    and ok: "record_doom_turn g i now = (g', Ok ())" and rate: "rate_ok lag log"
  shows "rate_ok lag (log @ [(i, now)])"
  unfolding rate_ok_def
proof (intro allI)
  fix j t
  let ?in = "\<lambda>x. t \<le> x \<and> x < t + (DOOM_WINDOW - lag)"
  have old: "length (filter ?in (admitted_times k log)) \<le> DOOM_MAX_TURNS" for k
    using rate by (simp add: rate_ok_def)
  show "length (filter ?in (admitted_times j (log @ [(i, now)]))) \<le> DOOM_MAX_TURNS"
  proof (cases "j = i \<and> ?in now")
    case False
    then show ?thesis using old [of j] by (auto simp: admitted_times_snoc)
  next
    case True
    let ?ts = "admitted_times i log" and ?w = "recent now (entry_or [] (doom g) i)"
    let ?c = "max c now"
    have "filter ?in ?ts = filter ?in (recent ?c ?ts)"
      using True lag by (auto simp: recent_def intro!: filter_cong)
    also have "\<dots> = filter ?in (recent ?c ?w)"
      using windows_ok_prune(1) [OF w, where now = now and now' = ?c] by simp
    finally have "length (filter ?in ?ts) \<le> length ?w"
      by (metis (no_types, lifting) length_filter_le length_recent_le le_trans)
    also have "\<dots> < DOOM_MAX_TURNS" using ok by (simp add: record_doom_turn_Ok)
    finally show ?thesis using True by (simp add: admitted_times_snoc)
  qed
qed

lemma guard_inv_init: "guard_inv lag guard_init"
  by (simp add: guard_inv_def guard_init_def guards_default_def breakers_ok_def windows_ok_def
      rate_ok_def entry_or_def admitted_times_def)

lemma guard_inv_step: "guard_step lag s l t \<Longrightarrow> guard_inv lag s \<Longrightarrow> guard_inv lag t"
proof (induction rule: guard_step.induct)
  case (step_breaker s now now' i g r)
  then show ?case
    by (auto simp: guard_inv_def windows_ok_cong [OF check_breaker_doom]
        intro: breakers_ok_mono check_breaker_ok windows_ok_mono)
next
  case (step_doom_ok s now i g)
  then show ?case
    by (simp add: guard_inv_def breakers_ok_cong [OF record_doom_turn_breakers])
       (blast intro: breakers_ok_mono [OF _ max.cobounded1] doom_ok_windows doom_ok_rate)
next
  case (step_doom_err s now i g e)
  then show ?case
    by (simp add: guard_inv_def breakers_ok_cong [OF record_doom_turn_breakers])
       (blast intro: breakers_ok_mono [OF _ max.cobounded1] doom_err_windows)
next
  case (step_success s i)
  then show ?case by (auto simp: guard_inv_def windows_ok_def intro: preserves)
next
  case (step_failure s now i)
  then show ?case
    by (auto simp: guard_inv_def windows_ok_cong [OF record_failure_doom]
        intro: record_failure_ok windows_ok_mono)
qed

interpretation guard_sys: invariant_system guard_init "guard_step lag" "guard_inv lag" for lag
  by unfold_locales (auto intro: guard_inv_init guard_inv_step)


text \<open>
  The lag is needed: two calls that race for the lock, the later reading first, admit one turn too many.
\<close>

definition doom_exec :: "string \<Rightarrow> GuardSystem \<Rightarrow> nat \<Rightarrow> GuardSystem" where
  "doom_exec i s now =
     (case record_doom_turn (sys_guards s) i now of
        (g, Ok _) \<Rightarrow> s\<lparr>sys_guards := g, sys_clock := max (sys_clock s) now,
                       sys_admitted := sys_admitted s @ [(i, now)]\<rparr>
      | (g, Err _) \<Rightarrow> s\<lparr>sys_guards := g, sys_clock := max (sys_clock s) now\<rparr>)"

fun in_lag :: "nat \<Rightarrow> nat \<Rightarrow> nat list \<Rightarrow> bool" where
  "in_lag lag clock [] = True"
| "in_lag lag clock (now # ts) = (clock \<le> now + lag \<and> in_lag lag (max clock now) ts)"

lemma sys_clock_doom_exec: "sys_clock (doom_exec i s now) = max (sys_clock s) now"
  by (simp add: doom_exec_def split: prod.splits result.splits)

lemma doom_exec_step: "sys_clock s \<le> now + lag \<Longrightarrow> guard_step lag s (DoomTurn i now) (doom_exec i s now)"
  by (auto simp: doom_exec_def split: prod.splits result.splits intro: step_doom_ok step_doom_err)

lemma doom_exec_steps:
  "in_lag lag (sys_clock s) ts \<Longrightarrow>
   steps (guard_step lag) s (map (DoomTurn i) ts) (foldl (doom_exec i) s ts)"
proof (induction ts arbitrary: s)
  case (Cons now ts)
  then have "sys_clock s \<le> now + lag" by simp
  from doom_exec_step [OF this] have "guard_step lag s (DoomTurn i now) (doom_exec i s now)" .
  moreover from Cons have "steps (guard_step lag) (doom_exec i s now) (map (DoomTurn i) ts)
      (foldl (doom_exec i) (doom_exec i s now) ts)"
    by (simp add: sys_clock_doom_exec)
  ultimately show ?case by (simp add: steps_cons)
qed simp

definition race_readings :: "nat list" where
  "race_readings =
     [0, 0, 1, 2, 3, 4, 5, 6, 7, 8, 9, 10, 11, 12, 13, 14, 15, 16, 17, 18, DOOM_WINDOW, DOOM_WINDOW - 1]"

definition raced_guards :: GuardSystem where
  "raced_guards = foldl (doom_exec ''s'') guard_init race_readings"

lemma raced_guards_steps:
  "steps (guard_step 1) guard_init (map (DoomTurn ''s'') race_readings) raced_guards"
  unfolding raced_guards_def
  by (rule doom_exec_steps) (simp add: race_readings_def DOOM_WINDOW_def secs_def guard_init_def)

text \<open>One call of the guard on a state whose window and log are known.\<close>

definition doom_state :: "nat list \<Rightarrow> nat list \<Rightarrow> nat \<Rightarrow> GuardSystem" where
  "doom_state w adm c =
     \<lparr>sys_guards = guards_default\<lparr>doom := [''s'' \<mapsto> w]\<rparr>, sys_clock = c,
      sys_admitted = map (Pair ''s'') adm\<rparr>"

lemma doom_exec_init: "doom_exec ''s'' guard_init now = doom_state [now] [now] now"
  by (simp add: doom_exec_def record_doom_turn_def doom_state_def guard_init_def guards_default_def
      entry_or_def DOOM_MAX_TURNS_def)

lemma doom_exec_state:
  "length (recent now w) < DOOM_MAX_TURNS \<Longrightarrow>
   doom_exec ''s'' (doom_state w adm c) now = doom_state (recent now w @ [now]) (adm @ [now]) (max c now)"
  by (simp add: doom_exec_def record_doom_turn_def doom_state_def entry_or_def recent_def Let_def)

lemma admitted_doom_state: "admitted_times ''s'' (sys_admitted (doom_state w adm c)) = adm"
  by (induction adm) (simp_all add: doom_state_def admitted_times_def)

lemma raced_admits_all: "admitted_times ''s'' (sys_admitted raced_guards) = race_readings"
  by (simp add: raced_guards_def race_readings_def doom_exec_init doom_exec_state recent_def DOOM_WINDOW_def
      secs_def DOOM_MAX_TURNS_def admitted_doom_state)

theorem race_exceeds_window:
  "length (filter (\<lambda>x. 0 \<le> x \<and> x < 0 + DOOM_WINDOW) (admitted_times ''s'' (sys_admitted raced_guards)))
   = DOOM_MAX_TURNS + 1"
  by (simp add: raced_admits_all race_readings_def DOOM_WINDOW_def secs_def DOOM_MAX_TURNS_def)


subsection \<open>The failure streak\<close>

text \<open>The outcomes of one session's turns, between which no submission is checked.\<close>

datatype outcome = Succeeded | Failed nat

fun breaker_outcome :: "string \<Rightarrow> Guards \<Rightarrow> outcome \<Rightarrow> Guards" where
  "breaker_outcome i g Succeeded = record_success g i"
| "breaker_outcome i g (Failed now) = record_failure g i now"

fun is_failed :: "outcome \<Rightarrow> bool" where
  "is_failed Succeeded = False"
| "is_failed (Failed _) = True"

text \<open>
  The specification of the breaker: the length of the current failure streak, and the time of
  the last failure that completed a multiple of the threshold.
\<close>

definition streak :: "outcome list \<Rightarrow> nat" where
  "streak os = length (takeWhile is_failed (rev os))"

fun opened_at :: "outcome list \<Rightarrow> nat option" where
  "opened_at [] = None"
| "opened_at (Succeeded # ros) = None"
| "opened_at (Failed now # ros) =
     (if Suc (streak (rev ros)) mod BREAKER_THRESHOLD = 0 then Some now else opened_at ros)"

definition breaker_of :: "Guards \<Rightarrow> string \<Rightarrow> BreakerState" where
  "breaker_of g i = entry_or breaker_default (breakers g) i"

lemma breaker_of_success:
  "breaker_of (record_success g i) i = breaker_default"
  by (auto simp: breaker_of_def record_success_def entry_or_def breaker_default_def split: option.splits)

lemma breaker_of_failure:
  "breaker_of (record_failure g i now) i =
     (if BREAKER_THRESHOLD \<le> Suc (consecutive_failures (breaker_of g i))
      then \<lparr>consecutive_failures = 0, open_until = Some (now + BREAKER_COOLDOWN)\<rparr>
      else (breaker_of g i)\<lparr>consecutive_failures := Suc (consecutive_failures (breaker_of g i))\<rparr>)"
  by (simp add: breaker_of_def record_failure_def entry_or_upd Let_def)

lemma breaker_of_default: "breaker_of guards_default i = breaker_default"
  by (simp add: breaker_of_def guards_default_def entry_or_def)

lemma streak_snoc [simp]:
  "streak (os @ [Failed t]) = Suc (streak os)" "streak (os @ [Succeeded]) = 0" "streak [] = 0"
  by (simp_all add: streak_def)

lemma breaker_counts_streak:
  "breaker_of (foldl (breaker_outcome i) guards_default os) i =
     \<lparr>consecutive_failures = streak os mod BREAKER_THRESHOLD,
      open_until = map_option (\<lambda>t. t + BREAKER_COOLDOWN) (opened_at (rev os))\<rparr>"
proof (induction os rule: rev_induct)
  case Nil
  then show ?case by (simp add: breaker_of_default breaker_default_def)
next
  case (snoc x os)
  show ?case
  proof (cases x)
    case Succeeded
    then show ?thesis by (simp add: breaker_of_success breaker_default_def)
  next
    case (Failed now)
    have "BREAKER_THRESHOLD \<le> Suc (streak os mod BREAKER_THRESHOLD)
          \<longleftrightarrow> Suc (streak os) mod BREAKER_THRESHOLD = 0"
      by (auto simp: BREAKER_THRESHOLD_def mod_Suc)
    moreover have "Suc (streak os mod BREAKER_THRESHOLD) < BREAKER_THRESHOLD
        \<Longrightarrow> Suc (streak os) mod BREAKER_THRESHOLD = Suc (streak os mod BREAKER_THRESHOLD)"
      by (simp add: mod_Suc)
    ultimately show ?thesis using snoc.IH Failed
      by (auto simp: breaker_of_failure not_le)
  qed
qed

lemma check_breaker_result:
  "snd (check_breaker g i now now') =
     (case open_until (breaker_of g i) of
        None \<Rightarrow> Ok ()
      | Some u \<Rightarrow>
          if u \<le> now then Ok ()
          else Err (guard_rejected ''circuit-breaker''
                 (''session cooling down after 5 consecutive failures; retry in ~''
                  @ nat_str (max (as_secs (u - now')) 1) @ ''s'')))"
proof -
  have "nat_str BREAKER_THRESHOLD = ''5''" by code_simp
  then show ?thesis
    by (auto simp: check_breaker_def breaker_of_def Let_def split: option.splits)
qed

lemma check_breaker_elapsed:
  assumes "snd (check_breaker g i now now') = Ok ()"
  shows "breaker_of (fst (check_breaker g i now now')) i = (breaker_of g i)\<lparr>open_until := None\<rparr>"
  using assms
  by (auto simp: check_breaker_def breaker_of_def entry_or_upd Let_def split: option.splits if_splits)

text \<open>
  After any sequence of outcomes of a session, the failure counter is the length of
  the current failure streak modulo the threshold, and the next submission at \<open>now\<close> is refused
  by the breaker exactly when a failure that completed a full streak, with no success since,
  is less than the cool-down ago.
\<close>

theorem breaker_after_outcomes:
  "consecutive_failures (breaker_of (foldl (breaker_outcome i) guards_default os) i)
     = streak os mod BREAKER_THRESHOLD
   \<and> (is_ok (snd (check_breaker (foldl (breaker_outcome i) guards_default os) i now now'))
      \<longleftrightarrow> (case opened_at (rev os) of None \<Rightarrow> True | Some t \<Rightarrow> t + BREAKER_COOLDOWN \<le> now))"
  by (simp add: check_breaker_result breaker_counts_streak split: option.splits)

text \<open>
  Once the cool-down has elapsed the breaker starts counting afresh: after the
  fifth failure at \<open>t\<close> and an admitted check at or after \<open>t + BREAKER_COOLDOWN\<close>, one more failure leaves
  the breaker closed, so the next check is admitted again.
\<close>

theorem half_open_failure_does_not_reopen:
  assumes "consecutive_failures (breaker_of g i) = 4" "t + BREAKER_COOLDOWN \<le> now"
  shows "let g1 = record_failure g i t;
             g2 = fst (check_breaker g1 i now now');
             g3 = record_failure g2 i t'
         in snd (check_breaker g1 i now now') = Ok () \<and> snd (check_breaker g3 i u u') = Ok ()"
proof -
  have open4: "breaker_of (record_failure g i t) i
        = \<lparr>consecutive_failures = 0, open_until = Some (t + BREAKER_COOLDOWN)\<rparr>"
    using assms(1) by (simp add: breaker_of_failure BREAKER_THRESHOLD_def)
  let ?g1 = "record_failure g i t"
  let ?g2 = "fst (check_breaker ?g1 i now now')"
  have admitted: "snd (check_breaker ?g1 i now now') = Ok ()"
    using assms(2) by (simp add: check_breaker_result open4)
  from check_breaker_elapsed [OF this] have "breaker_of ?g2 i = breaker_default"
    by (simp add: open4 breaker_default_def)
  then have "open_until (breaker_of (record_failure ?g2 i t') i) = None"
    by (simp add: breaker_of_failure breaker_default_def BREAKER_THRESHOLD_def)
  with admitted show ?thesis by (simp add: Let_def check_breaker_result)
qed

theorem half_open_failure_does_not_reopen_witness:
  "let g = foldl (breaker_outcome ''s'') guards_default [Failed 1, Failed 2, Failed 3, Failed 4];
       g1 = record_failure g ''s'' 5;
       g2 = fst (check_breaker g1 ''s'' (5 + BREAKER_COOLDOWN) (5 + BREAKER_COOLDOWN));
       g3 = record_failure g2 ''s'' (6 + BREAKER_COOLDOWN)
   in snd (check_breaker g1 ''s'' (5 + BREAKER_COOLDOWN) (5 + BREAKER_COOLDOWN)) = Ok ()
      \<and> snd (check_breaker g3 ''s'' (7 + BREAKER_COOLDOWN) (7 + BREAKER_COOLDOWN)) = Ok ()"
  unfolding Let_def
  by (rule half_open_failure_does_not_reopen [unfolded Let_def])
     (simp_all add: breaker_of_failure breaker_of_default breaker_default_def BREAKER_THRESHOLD_def)

subsection \<open>The probe cache\<close>

text \<open>
  A cached answer is at most \<open>LOCAL_PROBE_TTL\<close> old: it is the answer of the last probe, made
  less than that long ago, or a fresh one.
\<close>

lemma reachable_cached_fresh:
  assumes "local_llm_reachable_cached probe now now' st = (v, st')" "probe_override st = None"
  shows "\<exists>at. probe_cache st' = Some (at, v)
           \<and> (st' = st \<and> now - at < LOCAL_PROBE_TTL \<or> v = probe \<and> at = now')"
  using assms by (auto simp: local_llm_reachable_cached_def split: option.splits if_splits)

end
