(* ===== verification/Gateway_Protocol.thy ===== *)
theory Gateway_Protocol
  imports Rpc_Error "HOL-Library.Word" "HOL-Library.Monad_Syntax"
begin

section \<open>The gateway protocol (zen-gateway/src/protocol)\<close>

text \<open>
  Version negotiation and the initialize exchange (\<open>mod.rs\<close>), the method registry
  (\<open>methods.rs\<close>) and the wire envelope (\<open>envelope.rs\<close>). \<open>u32\<close> and \<open>u64\<close> are words. The wire form of
  a frame is its JSON value: the derived serializers follow the attributes of the sources, and
  an \<open>untagged\<close> enum takes the first variant whose fields all decode, ignoring other members.
  JSON text is printed and parsed by \<open>serde_json\<close>; the decoding of the initialize parameters,
  whose error texts come from that crate, is a parameter.
\<close>

subsection \<open>Versions\<close>

definition SERVER_PROTOCOL_VERSION :: string where
  "SERVER_PROTOCOL_VERSION = ''1.0''"

definition SERVER_NAME :: string where
  "SERVER_NAME = ''zen-gateway''"

text \<open>\<open>env!("CARGO_PKG_VERSION")\<close>, from the workspace manifest.\<close>

definition CARGO_PKG_VERSION :: string where
  "CARGO_PKG_VERSION = ''0.1.0''"

record ProtocolVersion =
  major :: "32 word"
  minor :: "32 word"

definition version_parse :: "string \<Rightarrow> (ProtocolVersion, string) result" where
  "version_parse s =
     (case split_once (CHR ''.'') s of
        None \<Rightarrow> Err (''protocolVersion must be MAJOR.MINOR, got '' @ str_debug s)
      | Some (mj, mn) \<Rightarrow>
          (case parse_uint (2 ^ 32) mj of
             None \<Rightarrow> Err (''invalid major component in '' @ str_debug s)
           | Some a \<Rightarrow>
               (case parse_uint (2 ^ 32) mn of
                  None \<Rightarrow> Err (''invalid minor component in '' @ str_debug s)
                | Some b \<Rightarrow> Ok \<lparr>major = of_nat a, minor = of_nat b\<rparr>)))"

definition version_as_str :: "ProtocolVersion \<Rightarrow> string" where
  "version_as_str v = nat_str (unat (major v)) @ ''.'' @ nat_str (unat (minor v))"

definition negotiate_version :: "string \<Rightarrow> string \<Rightarrow> (unit, RpcError) result" where
  "negotiate_version client_version server_version =
     (case version_parse client_version of
        Err e \<Rightarrow> Err (version_mismatch server_version SERVER_PROTOCOL_VERSION e)
      | Ok client \<Rightarrow>
          (case version_parse SERVER_PROTOCOL_VERSION of
             Err e \<Rightarrow> Err (internal e)
           | Ok server \<Rightarrow>
               if major client \<noteq> major server then
                 Err (version_mismatch server_version SERVER_PROTOCOL_VERSION
                   (''major mismatch: client '' @ version_as_str client @ '' vs server ''
                    @ version_as_str server))
               else if minor server < minor client then
                 Err (version_mismatch server_version SERVER_PROTOCOL_VERSION
                   (''client minor '' @ nat_str (unat (minor client)) @ '' exceeds server minor ''
                    @ nat_str (unat (minor server))))
               else Ok ()))"

subsection \<open>Initialize\<close>

record Capabilities =
  approvals :: bool
  streaming :: bool
  delivery_ack :: bool

definition capabilities_default :: Capabilities where
  "capabilities_default = \<lparr>approvals = False, streaming = False, delivery_ack = False\<rparr>"

record Info =
  info_name :: string
  info_version :: string

record InitializeParams =
  protocol_version :: string
  client_info :: Info
  client_capabilities :: Capabilities

record InitializeResult =
  result_protocol_version :: string
  server_info :: Info
  capabilities :: Capabilities

definition for_server :: InitializeResult where
  "for_server =
     \<lparr>result_protocol_version = SERVER_PROTOCOL_VERSION,
      server_info = \<lparr>info_name = SERVER_NAME, info_version = CARGO_PKG_VERSION\<rparr>,
      capabilities = capabilities_default\<rparr>"

definition with_capabilities :: "InitializeResult \<Rightarrow> Capabilities \<Rightarrow> InitializeResult" where
  "with_capabilities r caps = r\<lparr>capabilities := caps\<rparr>"

datatype HandshakeState = Connecting | Initialized

definition handle_initialize ::
  "(json \<Rightarrow> (InitializeParams, string) result) \<Rightarrow> json \<Rightarrow> (InitializeResult, RpcError) result" where
  "handle_initialize from_value params =
     (case from_value params of
        Err e \<Rightarrow> Err (invalid_params ''initialize'' e)
      | Ok parsed \<Rightarrow>
          (case negotiate_version (protocol_version parsed) CARGO_PKG_VERSION of
             Err e \<Rightarrow> Err e
           | Ok _ \<Rightarrow> Ok (with_capabilities for_server (client_capabilities parsed))))"

definition capabilities_to_value :: "Capabilities \<Rightarrow> json" where
  "capabilities_to_value c =
     JObject [(''approvals'', JBool (approvals c)), (''streaming'', JBool (streaming c)),
              (''delivery_ack'', JBool (delivery_ack c))]"

definition info_to_value :: "Info \<Rightarrow> json" where
  "info_to_value i = JObject [(''name'', JString (info_name i)), (''version'', JString (info_version i))]"

definition result_to_value :: "InitializeResult \<Rightarrow> json" where
  "result_to_value r =
     JObject [(''protocolVersion'', JString (result_protocol_version r)),
              (''serverInfo'', info_to_value (server_info r)),
              (''capabilities'', capabilities_to_value (capabilities r))]"

definition initialize_params :: "string \<Rightarrow> string \<Rightarrow> string \<Rightarrow> Capabilities \<Rightarrow> json" where
  "initialize_params version client_name client_version caps =
     JObject [(''protocolVersion'', JString version),
              (''clientInfo'', JObject [(''name'', JString client_name), (''version'', JString client_version)]),
              (''capabilities'', capabilities_to_value caps)]"

subsection \<open>The method registry\<close>

datatype Quadrant = QClientRequest | QServerRequest | QNotification

datatype Phase = Phase1 | Phase3

record MethodMeta =
  method_name :: string
  domain :: string
  quadrant :: Quadrant
  since :: string
  phase :: Phase
  params_sketch :: string
  result_sketch :: string

definition method_row ::
  "string \<Rightarrow> string \<Rightarrow> Quadrant \<Rightarrow> string \<Rightarrow> Phase \<Rightarrow> string \<Rightarrow> string \<Rightarrow> MethodMeta" where
  "method_row n d q s p ps r =
     \<lparr>method_name = n, domain = d, quadrant = q, since = s, phase = p,
      params_sketch = ps, result_sketch = r\<rparr>"

definition lifecycle_methods :: "MethodMeta list" where
  "lifecycle_methods =
    [method_row ''initialize'' ''initialize'' QClientRequest ''1.0'' Phase1
       ''{protocolVersion, clientInfo, capabilities}'' ''{protocolVersion, serverInfo, capabilities}'',
     method_row ''initialized'' ''initialized'' QNotification ''1.0'' Phase1
       ''{}'' em_dash,
     method_row ''health/status'' ''health'' QClientRequest ''1.0'' Phase1
       em_dash ''{serverVersion, protocolVersion, clients, uptimeMs, storeHealth, activeTurns}'',
     method_row ''shutdown'' ''shutdown'' QClientRequest ''1.0'' Phase1
       em_dash ''{drained, cancelled}'']"

definition memory_methods :: "MethodMeta list" where
  "memory_methods =
    [method_row ''memory/retrieve'' ''memory'' QClientRequest ''1.0'' Phase1
       ''{sessionId, limit?}'' ''{entries[]}'',
     method_row ''memory/putEntry'' ''memory'' QClientRequest ''1.0'' Phase1
       ''{sessionId, role, content, entityType, metadata?}'' ''{frameId}'',
     method_row ''memory/search'' ''memory'' QClientRequest ''1.0'' Phase1
       ''{query, topK?, sessionId?}'' ''{hits[]}'',
     method_row ''memory/stats'' ''memory'' QClientRequest ''1.0'' Phase1
       em_dash ''{frames, capacityBytes, generation}'',
     method_row ''memory/rebuild'' ''memory'' QClientRequest ''1.1'' Phase3
       em_dash ''{filesScanned, chunksIndexed, errors[], replay}'']"

definition knowledge_methods :: "MethodMeta list" where
  "knowledge_methods =
    [method_row ''knowledge/search'' ''knowledge'' QClientRequest ''1.0'' Phase1
       ''{query, tiers?, limit?}'' ''{notes[]}'']"

definition session_methods :: "MethodMeta list" where
  "session_methods =
    [method_row ''session/start'' ''session'' QClientRequest ''1.1'' Phase3
       ''{sessionId?, agent?}'' ''{sessionId, agent}'',
     method_row ''session/turn'' ''session'' QClientRequest ''1.1'' Phase3
       ''{turnId, sessionId, prompt, knowledge?}'' ''{turnId, response}'',
     method_row ''session/cancel'' ''session'' QClientRequest ''1.1'' Phase3
       ''{turnId}'' ''{outcome}'',
     method_row ''session/resume'' ''session'' QClientRequest ''1.1'' Phase3
       ''{turnId, lastSeq}'' ''replay | {snapshot, response, events}'']"

definition agent_methods :: "MethodMeta list" where
  "agent_methods =
    [method_row ''agent/list'' ''agent'' QClientRequest ''1.1'' Phase3
       em_dash ''{agents[]}'',
     method_row ''agent/status'' ''agent'' QClientRequest ''1.1'' Phase3
       ''{agent}'' ''{agent, busy, budgetAvailable, budgetConsumed}'',
     method_row ''skill/list'' ''skill'' QClientRequest ''1.1'' Phase3
       em_dash ''{skills[]}'']"

definition notification_methods :: "MethodMeta list" where
  "notification_methods =
    [method_row ''session/event'' ''session'' QNotification ''1.1'' Phase3
       ''{turnId, seq, kind, payload?}'' em_dash,
     method_row ''agent/status'' ''agent'' QNotification ''1.1'' Phase3
       ''{agent, state, budgetConsumed}'' em_dash,
     method_row ''health/ping'' ''health'' QNotification ''1.0'' Phase1
       em_dash em_dash]"

definition server_request_rows :: "MethodMeta list" where
  "server_request_rows =
    [method_row ''approval/request'' ''approval'' QServerRequest ''1.1'' Phase3
       ''{turnId, invocation, reason}'' ''{decision, remember?}'']"

definition METHODS :: "MethodMeta list" where
  "METHODS =
     lifecycle_methods @ memory_methods @ knowledge_methods @ session_methods @ agent_methods
     @ notification_methods @ server_request_rows"

definition method_lookup :: "string \<Rightarrow> MethodMeta option" where
  "method_lookup m = find (\<lambda>r. method_name r = m) METHODS"

definition supported_methods :: "string list" where
  "supported_methods = map method_name METHODS"

definition client_request_methods :: "string list" where
  "client_request_methods = map method_name (filter (\<lambda>m. quadrant m = QClientRequest) METHODS)"

definition server_request_methods :: "string list" where
  "server_request_methods = map method_name (filter (\<lambda>m. quadrant m = QServerRequest) METHODS)"

lemmas method_table = METHODS_def lifecycle_methods_def memory_methods_def knowledge_methods_def
  session_methods_def agent_methods_def notification_methods_def server_request_rows_def
  method_row_def

subsection \<open>Frames\<close>

record RpcErrorBody =
  body_code :: int
  body_name :: string
  body_message :: string
  body_data :: "json option"

definition from_error :: "RpcError \<Rightarrow> RpcErrorBody" where
  "from_error e =
     \<lparr>body_code = code e, body_name = err_name e, body_message = message e, body_data = data e\<rparr>"

datatype Frame =
    ClientRequest "64 word" string json
  | ServerResponse "64 word" "json option" "RpcErrorBody option"
  | ServerRequest string string json
  | ClientResponse string "json option" "RpcErrorBody option"
  | Notification string json

definition params_none :: json where
  "params_none = JObject []"

fun frame_method :: "Frame \<Rightarrow> string option" where
  "frame_method (ClientRequest _ m _) = Some m"
| "frame_method (ServerRequest _ m _) = Some m"
| "frame_method (Notification m _) = Some m"
| "frame_method (ServerResponse _ _ _) = None"
| "frame_method (ClientResponse _ _ _) = None"

definition frame_request :: "64 word \<Rightarrow> string \<Rightarrow> Frame" where
  "frame_request i m = ClientRequest i m params_none"

definition frame_response :: "64 word \<Rightarrow> json \<Rightarrow> Frame" where
  "frame_response i r = ServerResponse i (Some r) None"

definition error_response :: "64 word \<Rightarrow> RpcError \<Rightarrow> Frame" where
  "error_response i e = ServerResponse i None (Some (from_error e))"

definition server_request :: "string \<Rightarrow> string \<Rightarrow> json \<Rightarrow> Frame" where
  "server_request i m p = ServerRequest i m p"

definition client_response :: "string \<Rightarrow> json \<Rightarrow> Frame" where
  "client_response i r = ClientResponse i (Some r) None"

definition client_error :: "string \<Rightarrow> RpcError \<Rightarrow> Frame" where
  "client_error i e = ClientResponse i None (Some (from_error e))"

fun validate_wire :: "Frame \<Rightarrow> bool" where
  "validate_wire (ServerResponse _ r e) = ((r \<noteq> None) \<noteq> (e \<noteq> None))"
| "validate_wire (ClientResponse _ r e) = ((r \<noteq> None) \<noteq> (e \<noteq> None))"
| "validate_wire _ = True"

subsubsection \<open>The wire value of a frame\<close>

text \<open>\<open>skip_serializing_if = "Option::is_none"\<close>.\<close>

fun opt_member :: "string \<Rightarrow> json option \<Rightarrow> (string \<times> json) list" where
  "opt_member k None = []"
| "opt_member k (Some v) = [(k, v)]"

definition body_to_value :: "RpcErrorBody \<Rightarrow> json" where
  "body_to_value b =
     JObject ([(''code'', JNumber (body_code b)), (''name'', JString (body_name b)),
               (''message'', JString (body_message b))] @ opt_member ''data'' (body_data b))"

definition rpc_version :: "string \<times> json" where
  "rpc_version = (''jsonrpc'', JString ''2.0'')"

fun frame_to_value :: "Frame \<Rightarrow> json" where
  "frame_to_value (ClientRequest i m p) =
     JObject [rpc_version, (''id'', JNumber (uint i)), (''method'', JString m), (''params'', p)]"
| "frame_to_value (ServerResponse i r e) =
     JObject ([rpc_version, (''id'', JNumber (uint i))] @ opt_member ''result'' r
              @ opt_member ''error'' (map_option body_to_value e))"
| "frame_to_value (ServerRequest i m p) =
     JObject [rpc_version, (''id'', JString i), (''method'', JString m), (''params'', p)]"
| "frame_to_value (ClientResponse i r e) =
     JObject ([rpc_version, (''id'', JString i)] @ opt_member ''result'' r
              @ opt_member ''error'' (map_option body_to_value e))"
| "frame_to_value (Notification m p) =
     JObject [rpc_version, (''method'', JString m), (''params'', p)]"

text \<open>
  Decoding. \<open>field\<close> is \<open>None\<close> on a repeated member, which a derived deserializer refuses, and
  \<open>Some None\<close> on an absent one; an absent or null \<open>Option\<close> is \<open>None\<close>.
\<close>

definition field :: "(string \<times> json) list \<Rightarrow> string \<Rightarrow> json option option" where
  "field ms k =
     (case filter (\<lambda>m. fst m = k) ms of
        [] \<Rightarrow> Some None
      | [m] \<Rightarrow> Some (Some (snd m))
      | _ \<Rightarrow> None)"

definition required :: "(string \<times> json) list \<Rightarrow> string \<Rightarrow> json option" where
  "required ms k = do { v \<leftarrow> field ms k; v }"

definition optional :: "(string \<times> json) list \<Rightarrow> string \<Rightarrow> (json \<Rightarrow> 'a option) \<Rightarrow> 'a option option" where
  "optional ms k f =
     do { v \<leftarrow> field ms k;
          case v of None \<Rightarrow> Some None | Some x \<Rightarrow> if x = JNull then Some None else map_option Some (f x) }"

definition params_field :: "(string \<times> json) list \<Rightarrow> json option" where
  "params_field ms = map_option (\<lambda>v. case v of None \<Rightarrow> params_none | Some x \<Rightarrow> x) (field ms ''params'')"

fun as_u64 :: "json \<Rightarrow> 64 word option" where
  "as_u64 (JNumber n) = (if 0 \<le> n \<and> n < 2 ^ 64 then Some (word_of_int n) else None)"
| "as_u64 _ = None"

fun as_i32 :: "json \<Rightarrow> int option" where
  "as_i32 (JNumber n) = (if - (2 ^ 31) \<le> n \<and> n < 2 ^ 31 then Some n else None)"
| "as_i32 _ = None"

fun non_null :: "json \<Rightarrow> json option" where
  "non_null JNull = None"
| "non_null v = Some v"

fun body_from_value :: "json \<Rightarrow> RpcErrorBody option" where
  "body_from_value (JObject ms) =
     do { c \<leftarrow> required ms ''code'' \<bind> as_i32;
          n \<leftarrow> required ms ''name'' \<bind> json_as_str;
          m \<leftarrow> required ms ''message'' \<bind> json_as_str;
          d \<leftarrow> optional ms ''data'' Some;
          Some \<lparr>body_code = c, body_name = n, body_message = m, body_data = d\<rparr> }"
| "body_from_value (JArray [c, n, m, d]) =
     do { c \<leftarrow> as_i32 c; n \<leftarrow> json_as_str n; m \<leftarrow> json_as_str m;
          Some \<lparr>body_code = c, body_name = n, body_message = m, body_data = non_null d\<rparr> }"
| "body_from_value _ = None"

definition de_jsonrpc :: "(string \<times> json) list \<Rightarrow> unit option" where
  "de_jsonrpc ms =
     do { s \<leftarrow> required ms ''jsonrpc'' \<bind> json_as_str; if s = ''2.0'' then Some () else None }"

definition de_client_request :: "(string \<times> json) list \<Rightarrow> Frame option" where
  "de_client_request ms =
     do { _ \<leftarrow> de_jsonrpc ms; i \<leftarrow> required ms ''id'' \<bind> as_u64;
          m \<leftarrow> required ms ''method'' \<bind> json_as_str; p \<leftarrow> params_field ms; Some (ClientRequest i m p) }"

definition de_server_response :: "(string \<times> json) list \<Rightarrow> Frame option" where
  "de_server_response ms =
     do { _ \<leftarrow> de_jsonrpc ms; i \<leftarrow> required ms ''id'' \<bind> as_u64; r \<leftarrow> optional ms ''result'' Some;
          e \<leftarrow> optional ms ''error'' body_from_value; Some (ServerResponse i r e) }"

definition de_server_request :: "(string \<times> json) list \<Rightarrow> Frame option" where
  "de_server_request ms =
     do { _ \<leftarrow> de_jsonrpc ms; i \<leftarrow> required ms ''id'' \<bind> json_as_str;
          m \<leftarrow> required ms ''method'' \<bind> json_as_str; p \<leftarrow> params_field ms; Some (ServerRequest i m p) }"

definition de_client_response :: "(string \<times> json) list \<Rightarrow> Frame option" where
  "de_client_response ms =
     do { _ \<leftarrow> de_jsonrpc ms; i \<leftarrow> required ms ''id'' \<bind> json_as_str; r \<leftarrow> optional ms ''result'' Some;
          e \<leftarrow> optional ms ''error'' body_from_value; Some (ClientResponse i r e) }"

definition de_notification :: "(string \<times> json) list \<Rightarrow> Frame option" where
  "de_notification ms =
     do { _ \<leftarrow> de_jsonrpc ms; m \<leftarrow> required ms ''method'' \<bind> json_as_str; p \<leftarrow> params_field ms;
          Some (Notification m p) }"

fun first_some :: "'a option list \<Rightarrow> 'a option" where
  "first_some [] = None"
| "first_some (None # xs) = first_some xs"
| "first_some (Some x # xs) = Some x"

fun frame_from_value :: "json \<Rightarrow> Frame option" where
  "frame_from_value (JObject ms) =
     first_some [de_client_request ms, de_server_response ms, de_server_request ms,
                 de_client_response ms, de_notification ms]"
| "frame_from_value _ = None"

text \<open>
  \<open>from_json_line\<close> after the JSON parser: \<open>None\<close> when the value fits no envelope shape or is a
  response without exactly one of \<open>result\<close> and \<open>error\<close>.
\<close>

definition frame_of_line_value :: "json \<Rightarrow> Frame option" where
  "frame_of_line_value v =
     do { f \<leftarrow> frame_from_value v; if validate_wire f then Some f else None }"

lemmas frame_decode = field_def required_def optional_def params_field_def de_jsonrpc_def
  de_client_request_def de_server_response_def de_server_request_def de_client_response_def
  de_notification_def rpc_version_def

text \<open>The frames the wire can carry: \<open>i32\<close> codes, and no null where an \<open>Option\<close> is expected.\<close>

definition body_ok :: "RpcErrorBody \<Rightarrow> bool" where
  "body_ok b \<longleftrightarrow> - (2 ^ 31) \<le> body_code b \<and> body_code b < 2 ^ 31 \<and> body_data b \<noteq> Some JNull"

fun frame_ok :: "Frame \<Rightarrow> bool" where
  "frame_ok (ServerResponse _ r e) = (r \<noteq> Some JNull \<and> pred_option body_ok e)"
| "frame_ok (ClientResponse _ r e) = (r \<noteq> Some JNull \<and> pred_option body_ok e)"
| "frame_ok _ = True"

lemma body_roundtrip: "body_ok b \<Longrightarrow> body_from_value (body_to_value b) = Some b"
  by (cases "body_data b") (auto simp: body_ok_def body_to_value_def frame_decode)

lemma body_to_value_not_null [simp]: "body_to_value b \<noteq> JNull"
  by (simp add: body_to_value_def)

lemma as_u64_uint [simp]: "as_u64 (JNumber (uint (i :: 64 word))) = Some i"
  using uint_lt2p [of i] by simp

declare as_u64.simps(1) [simp del]

subsection \<open>Properties\<close>

lemma nat_str_no_dot: "CHR ''.'' \<notin> set (nat_str n)"
  using nat_str_digits [of "CHR ''.''" n] by (auto simp: is_digit_def)

lemma unat_lt_2p32: "unat (w :: 32 word) < 4294967296"
  using unsigned_less [of w] by simp

lemma version_parse_as_str: "version_parse (version_as_str v) = Ok v"
  using split_once_append [OF nat_str_no_dot, of "unat (major v)" "nat_str (unat (minor v))"]
  by (simp add: version_parse_def version_as_str_def unat_lt_2p32)

lemma server_version: "version_parse SERVER_PROTOCOL_VERSION = Ok \<lparr>major = 1, minor = 0\<rparr>"
proof -
  have "nat_str 1 = ''1''" "nat_str 0 = ''0''" by code_simp+
  then have "SERVER_PROTOCOL_VERSION = version_as_str \<lparr>major = 1, minor = 0\<rparr>"
    by (simp add: version_as_str_def SERVER_PROTOCOL_VERSION_def)
  then show ?thesis using version_parse_as_str by metis
qed

text \<open>
  Protocol versions survive printing and parsing, for all values of the two \<open>u32\<close>
  components; so distinct versions have distinct wire strings.
\<close>

theorem version_roundtrip:
  "version_parse (version_as_str v) = Ok v \<and> (version_as_str v = version_as_str w \<longleftrightarrow> v = w)"
  by (metis result.inject(1) version_parse_as_str)

text \<open>
  Negotiation accepts a client exactly when its version string parses to the
  server's major with a minor not above the server's; every refusal is the version-mismatch
  error carrying the server's protocol version and a recovery hint.
\<close>

theorem negotiate_version_rule:
  "(negotiate_version c s = Ok () \<longleftrightarrow>
      (\<exists>v w. version_parse c = Ok v \<and> version_parse SERVER_PROTOCOL_VERSION = Ok w
         \<and> major v = major w \<and> minor v \<le> minor w))
   \<and> (case negotiate_version c s of Ok _ \<Rightarrow> True
      | Err e \<Rightarrow> code e = -32001
          \<and> json_get_str (the (data e)) ''serverProtocolVersion'' = Some SERVER_PROTOCOL_VERSION
          \<and> json_get_str (the (data e)) ''recovery''
              = Some ''restart gateway with matching version'')"
  by (auto simp: negotiate_version_def server_version word_gt_0 version_mismatch_def json_get_str_def
      split: result.splits if_splits)

lemma opt_member_simps [simp]:
  "filter (\<lambda>m. fst m = k) (opt_member k' v) = (if k = k' then opt_member k' v else [])"
  by (cases v) auto

text \<open>
  The wire form of a frame decodes to the same frame (and is not taken for another
  variant of the untagged enum), for every frame without a null result or payload.
\<close>

theorem frame_roundtrip:
  assumes "frame_ok f"
  shows "frame_from_value (frame_to_value f) = Some f"
proof (cases f)
  case (ServerResponse i r e)
  with assms show ?thesis
    by (cases r; cases e) (auto simp: frame_decode body_roundtrip)
next
  case (ClientResponse i r e)
  with assms show ?thesis
    by (cases r; cases e) (auto simp: frame_decode body_roundtrip)
qed (simp_all add: frame_decode)

theorem frame_roundtrip_witness:
  "frame_from_value (frame_to_value (error_response 7 (guard_rejected ''watchdog'' ''late'')))
   = Some (error_response 7 (guard_rejected ''watchdog'' ''late''))"
  by (rule frame_roundtrip) (simp add: error_response_def from_error_def guard_rejected_def body_ok_def)

text \<open>
  A successful response whose result is null does not survive the wire: it decodes
  to a response with neither result nor error, which \<open>validate_wire\<close> then refuses, so the line
  parser rejects what the sender considered a valid frame.
\<close>

theorem null_result_is_refused:
  "validate_wire (frame_response i JNull)
   \<and> frame_from_value (frame_to_value (frame_response i JNull)) = Some (ServerResponse i None None)
   \<and> frame_of_line_value (frame_to_value (frame_response i JNull)) = None"
  by (simp add: frame_response_def frame_decode frame_of_line_value_def)

text \<open>
  A request whose id is neither a \<open>u64\<close> nor a string (negative, null, an array) is
  not refused as an invalid frame: it decodes to a notification of its method, which is never
  answered.
\<close>

theorem bad_id_becomes_notification:
  assumes "as_u64 v = None" "json_as_str v = None"
  shows "frame_of_line_value
           (JObject [(''jsonrpc'', JString ''2.0''), (''id'', v), (''method'', JString m), (''params'', p)])
         = Some (Notification m p)"
  using assms by (simp add: frame_decode frame_of_line_value_def)

theorem bad_id_becomes_notification_witness:
  "frame_of_line_value
     (JObject [(''jsonrpc'', JString ''2.0''), (''id'', JNumber (-1)),
               (''method'', JString ''shutdown''), (''params'', JObject [])])
   = Some (Notification ''shutdown'' (JObject []))"
  by (rule bad_id_becomes_notification) (simp_all add: as_u64.simps)

text \<open>
  The registry table is consistent: a method is found exactly when it is listed as
  supported, every row's name opens with its domain, the client-request names are pairwise
  distinct, and the row found for one of them is its client-request row.
\<close>

theorem registry_consistent:
  "(\<forall>m. method_lookup m \<noteq> None \<longleftrightarrow> m \<in> set supported_methods)
   \<and> (\<forall>r \<in> set METHODS. starts_with (method_name r) (domain r))
   \<and> distinct client_request_methods
   \<and> (\<forall>m \<in> set client_request_methods. map_option quadrant (method_lookup m) = Some QClientRequest)"
proof -
  have "method_lookup m \<noteq> None \<longleftrightarrow> m \<in> set supported_methods" for m
    by (auto simp: method_lookup_def supported_methods_def find_None_iff)
  moreover have "\<forall>r \<in> set METHODS. starts_with (method_name r) (domain r)"
    by code_simp
  moreover have "distinct client_request_methods"
    by code_simp
  moreover have "\<forall>m \<in> set client_request_methods. map_option quadrant (method_lookup m) = Some QClientRequest"
    by code_simp
  ultimately show ?thesis by blast
qed

end
