(* ===== verification/Gateway_Dispatch.thy ===== *)
theory Gateway_Dispatch
  imports Gateway_Protocol "HOL-Library.Multiset"
begin

section \<open>Dispatch of one gateway connection (zen-gateway/src/server/dispatch.rs)\<close>

text \<open>
  The receive loop of a connection: the handshake gate, the routing of requests to installed
  handlers, the methods whose response comes from a spawned task, the slow pool, and the
  server-initiated approval requests with their pending table. Handlers, the decoder of the
  initialize parameters and the carrier are parameters; a handler is the function from the
  parameters to its result. The mutexes of \<open>Shared\<close> make its accesses atomic; the receive loop
  handles one frame at a time, and spawned tasks and approval requests run between frames.
\<close>

subsection \<open>State\<close>

definition SPAWNED_METHODS :: "string list" where
  "SPAWNED_METHODS = [''session/turn'', ''knowledge/search'', ''memory/putEntry'']"

definition SLOW_POOL_METHODS :: "string list" where
  "SLOW_POOL_METHODS =
     [''health/status'', ''agent/list'', ''agent/status'', ''skill/list'', ''memory/stats'', ''memory/search'']"

definition SLOW_POOL_LIMIT :: nat where
  "SLOW_POOL_LIMIT = 4"

record ClientIdentity =
  identity_name :: string
  identity_version :: string

type_synonym handler_map = "string \<rightharpoonup> (json \<Rightarrow> (json, RpcError) result)"
type_synonym init_decoder = "json \<Rightarrow> (InitializeParams, string) result"
type_synonym ApprovalOutcome = "(json, RpcError) result"

text \<open>
  The fields of \<open>Shared\<close> and the permits of the slow pool. \<open>pending\<close> maps a server request id to
  the turn whose request waits on it (the code's one-shot sender). The request counter, a \<open>u64\<close>
  that only grows by one per approval request, is a \<open>nat\<close>.
\<close>

record DispatchState =
  hs_state :: HandshakeState
  conn_capabilities :: Capabilities
  pending :: "string \<rightharpoonup> string"
  next_server_id :: nat
  last_handshake :: "(ClientIdentity \<times> Capabilities) option"
  slow_permits :: nat

definition dispatch_new :: DispatchState where
  "dispatch_new =
     \<lparr>hs_state = Connecting, conn_capabilities = capabilities_default, pending = Map.empty,
      next_server_id = 0, last_handshake = None, slow_permits = SLOW_POOL_LIMIT\<rparr>"

text \<open>\<open>handle\<close>: installing a handler; names outside the registry are refused.\<close>

definition handle_method ::
  "handler_map \<Rightarrow> string \<Rightarrow> (json \<Rightarrow> (json, RpcError) result) \<Rightarrow> (handler_map, string) result" where
  "handle_method hs m h =
     (if method_lookup m = None
      then Err (''cannot register handler for unregistered method '' @ str_debug m)
      else Ok (hs(m \<mapsto> h)))"

subsection \<open>Requests\<close>

definition client_identity :: "json \<Rightarrow> ClientIdentity" where
  "client_identity params =
     (let info = json_get params ''clientInfo'';
          str = (\<lambda>k d. case Option.bind info (\<lambda>c. json_get_str c k) of Some s \<Rightarrow> s | None \<Rightarrow> d)
      in \<lparr>identity_name = str ''name'' ''unknown'', identity_version = str ''version'' ''0''\<rparr>)"

definition dispatch_request ::
  "handler_map \<Rightarrow> init_decoder \<Rightarrow> DispatchState \<Rightarrow> 64 word \<Rightarrow> string \<Rightarrow> json
   \<Rightarrow> DispatchState \<times> Frame" where
  "dispatch_request hs dec st i method params =
     (if method = ''initialize'' then
        if hs_state st = Initialized then (st, error_response i not_initialized)
        else (case handle_initialize dec params of
                Ok result \<Rightarrow>
                  (st\<lparr>conn_capabilities := capabilities result,
                      last_handshake := Some (client_identity params, capabilities result)\<rparr>,
                   frame_response i (result_to_value result))
              | Err e \<Rightarrow> (st, error_response i e))
      else if hs_state st \<noteq> Initialized then (st, error_response i not_initialized)
      else if method_lookup method = None then
        (st, error_response i (method_not_found client_request_methods))
      else (case hs method of
              Some h \<Rightarrow>
                (case h params of
                   Ok r \<Rightarrow> (st, frame_response i r)
                 | Err e \<Rightarrow> (st, error_response i e))
            | None \<Rightarrow>
                (st, error_response i
                  (internal (''method '' @ method @ '' registered but no handler installed'')))))"

text \<open>
  What one inbound frame makes the connection do: send a frame, start a task that will answer
  the request, run the \<open>on_client_ready\<close> hook, or resolve a pending approval request.
\<close>

datatype action =
    Send Frame
  | Spawn "64 word" string json
  | Hook ClientIdentity Capabilities
  | Resolve string string ApprovalOutcome

definition resolve_outcome :: "json option \<Rightarrow> RpcErrorBody option \<Rightarrow> ApprovalOutcome" where
  "resolve_outcome result error =
     (case error of
        Some body \<Rightarrow>
          Err \<lparr>code = body_code body, err_name = ''client-error'',
               message = body_message body, data = body_data body\<rparr>
      | None \<Rightarrow>
          (case result of
             Some value \<Rightarrow> Ok value
           | None \<Rightarrow> Err (internal ''client response carried no result'')))"

definition complete_pending ::
  "DispatchState \<Rightarrow> string \<Rightarrow> json option \<Rightarrow> RpcErrorBody option \<Rightarrow> DispatchState \<times> action list" where
  "complete_pending st i result error =
     (case pending st i of
        None \<Rightarrow> (st, [])
      | Some turn \<Rightarrow>
          (st\<lparr>pending := (pending st)(i := None)\<rparr>, [Resolve i turn (resolve_outcome result error)]))"

definition on_notification :: "bool \<Rightarrow> DispatchState \<Rightarrow> string \<Rightarrow> DispatchState \<times> action list" where
  "on_notification has_hook st method =
     (if method = ''initialized'' then
        (st\<lparr>hs_state := Initialized, last_handshake := None\<rparr>,
         (case last_handshake st of
            Some (identity, caps) \<Rightarrow> if has_hook then [Hook identity caps] else []
          | None \<Rightarrow> []))
      else (st, []))"

text \<open>
  Requests: a spawned method only starts its task; a slow method takes a permit, or is shed
  with \<open>rate_limited(1000)\<close> when none is left, and gives it back before the response is sent.
\<close>

definition on_request ::
  "handler_map \<Rightarrow> init_decoder \<Rightarrow> DispatchState \<Rightarrow> 64 word \<Rightarrow> string \<Rightarrow> json
   \<Rightarrow> DispatchState \<times> action list" where
  "on_request hs dec st i method params =
     (if method \<in> set SPAWNED_METHODS then (st, [Spawn i method params])
      else
        let slow = method \<in> set SLOW_POOL_METHODS in
        if slow \<and> slow_permits st = 0 then (st, [Send (error_response i (rate_limited 1000))])
        else
          let st1 = (if slow then st\<lparr>slow_permits := slow_permits st - 1\<rparr> else st);
              (st2, response) = dispatch_request hs dec st1 i method params;
              st3 = (if slow then st2\<lparr>slow_permits := slow_permits st2 + 1\<rparr> else st2)
          in (st3, [Send response]))"

fun on_frame ::
  "bool \<Rightarrow> handler_map \<Rightarrow> init_decoder \<Rightarrow> DispatchState \<Rightarrow> Frame \<Rightarrow> DispatchState \<times> action list" where
  "on_frame hook hs dec st (ClientRequest i method params) = on_request hs dec st i method params"
| "on_frame hook hs dec st (Notification method _) = on_notification hook st method"
| "on_frame hook hs dec st (ClientResponse i result error) = complete_pending st i result error"
| "on_frame hook hs dec st (ServerResponse _ _ _) = (st, [])"
| "on_frame hook hs dec st (ServerRequest _ _ _) = (st, [])"

subsection \<open>Approval requests\<close>

definition srv_id :: "nat \<Rightarrow> string" where
  "srv_id n = ''srv-'' @ nat_str n"

text \<open>
  The first half of \<open>request_approval_with_timeout\<close>, up to the wait: the capability gate, the
  fresh id, the pending entry and the frame. \<open>send_error\<close> is the carrier's answer to the send.
\<close>

definition request_approval ::
  "DispatchState \<Rightarrow> string \<Rightarrow> json \<Rightarrow> string \<Rightarrow> string option
   \<Rightarrow> DispatchState \<times> Frame option \<times> ApprovalOutcome option" where
  "request_approval st turn_id invocation reason send_error =
     (if \<not> approvals (conn_capabilities st) then (st, None, Some (Err approval_unsupported))
      else
        let n = next_server_id st + 1;
            sid = srv_id n;
            st1 = st\<lparr>next_server_id := n, pending := (pending st)(sid \<mapsto> turn_id)\<rparr>;
            frame = server_request sid ''approval/request''
              (JObject [(''turnId'', JString turn_id), (''invocation'', invocation), (''reason'', JString reason)])
        in case send_error of
             Some e \<Rightarrow>
               (st1\<lparr>pending := (pending st1)(sid := None)\<rparr>, None,
                Some (Err (internal (''approval send failed: '' @ e))))
           | None \<Rightarrow> (st1, Some frame, None))"

text \<open>The deadline of the wait: the entry goes, the waiter gets the timeout error.\<close>

definition approval_deadline :: "DispatchState \<Rightarrow> string \<Rightarrow> DispatchState \<times> action list" where
  "approval_deadline st sid =
     (case pending st sid of
        None \<Rightarrow> (st, [])
      | Some turn \<Rightarrow>
          (st\<lparr>pending := (pending st)(sid := None)\<rparr>, [Resolve sid turn (Err (approval_timeout turn))]))"

subsection \<open>The connection as a transition system\<close>

text \<open>
  The state with what has happened on the connection so far: the tasks started and not yet
  answered, the frames sent, the requests received and the approval outcomes delivered.
\<close>

record Connection =
  conn :: DispatchState
  spawned :: "(64 word \<times> string \<times> json) list"
  sent :: "Frame list"
  received :: "64 word list"
  asked :: "(string \<times> string) list"
  outcomes :: "(string \<times> string \<times> ApprovalOutcome) list"

definition conn_init :: Connection where
  "conn_init =
     \<lparr>conn = dispatch_new, spawned = [], sent = [], received = [], asked = [], outcomes = []\<rparr>"

fun do_action :: "action \<Rightarrow> Connection \<Rightarrow> Connection" where
  "do_action (Send f) c = c\<lparr>sent := sent c @ [f]\<rparr>"
| "do_action (Spawn i m p) c = c\<lparr>spawned := spawned c @ [(i, m, p)]\<rparr>"
| "do_action (Hook _ _) c = c"
| "do_action (Resolve sid turn r) c = c\<lparr>outcomes := outcomes c @ [(sid, turn, r)]\<rparr>"

fun request_ids :: "Frame \<Rightarrow> 64 word list" where
  "request_ids (ClientRequest i _ _) = [i]"
| "request_ids _ = []"

datatype event =
    Recv Frame
  | TaskDone nat
  | Ask string json string "string option"
  | Deadline string

inductive conn_step :: "bool \<Rightarrow> handler_map \<Rightarrow> init_decoder \<Rightarrow> Connection \<Rightarrow> event \<Rightarrow> Connection \<Rightarrow> bool"
  for hook :: bool and hs :: handler_map and dec :: init_decoder where
  recv_step:
    "on_frame hook hs dec (conn c) f = (st, as)
     \<Longrightarrow> conn_step hook hs dec c (Recv f)
          (fold do_action as (c\<lparr>conn := st, received := received c @ request_ids f\<rparr>))"
| task_step:
    "k < length (spawned c) \<Longrightarrow> spawned c ! k = (i, m, p)
     \<Longrightarrow> dispatch_request hs dec (conn c) i m p = (st, f)
     \<Longrightarrow> conn_step hook hs dec c (TaskDone k)
          (c\<lparr>conn := st, spawned := take k (spawned c) @ drop (Suc k) (spawned c), sent := sent c @ [f]\<rparr>)"
| ask_step:
    "request_approval (conn c) t ivc reason err = (st, Some f, None)
     \<Longrightarrow> conn_step hook hs dec c (Ask t ivc reason err)
          (c\<lparr>conn := st, sent := sent c @ [f], asked := asked c @ [(srv_id (next_server_id st), t)]\<rparr>)"
| ask_refused_step:
    "request_approval (conn c) t ivc reason err = (st, None, Some r)
     \<Longrightarrow> conn_step hook hs dec c (Ask t ivc reason err) (c\<lparr>conn := st\<rparr>)"
| deadline_step:
    "approval_deadline (conn c) sid = (st, as)
     \<Longrightarrow> conn_step hook hs dec c (Deadline sid) (fold do_action as (c\<lparr>conn := st\<rparr>))"

subsection \<open>Invariants of a connection\<close>

fun response_ids :: "Frame \<Rightarrow> 64 word list" where
  "response_ids (ServerResponse i _ _) = [i]"
| "response_ids _ = []"

definition answers_ok :: "Connection \<Rightarrow> bool" where
  "answers_ok c \<longleftrightarrow>
     mset (received c) = mset (concat (map response_ids (sent c))) + mset (map fst (spawned c))"

definition pending_ok :: "Connection \<Rightarrow> bool" where
  "pending_ok c \<longleftrightarrow>
     set (map fst (asked c)) \<subseteq> srv_id ` {1..next_server_id (conn c)}
     \<and> distinct (map fst (asked c))
     \<and> distinct (map fst (outcomes c))
     \<and> (\<forall>sid t. (sid, t) \<in> set (asked c) \<longleftrightarrow>
          pending (conn c) sid = Some t \<or> (\<exists>r. (sid, t, r) \<in> set (outcomes c)))
     \<and> (\<forall>sid t r. (sid, t, r) \<in> set (outcomes c) \<longrightarrow> pending (conn c) sid = None)"

definition conn_inv :: "Connection \<Rightarrow> bool" where
  "conn_inv c \<longleftrightarrow> answers_ok c \<and> pending_ok c \<and> slow_permits (conn c) = SLOW_POOL_LIMIT"

lemma response_ids_responses [simp]:
  "response_ids (error_response i e) = [i]" "response_ids (frame_response i r) = [i]"
  "response_ids (server_request s m p) = []"
  by (simp_all add: error_response_def frame_response_def server_request_def)

text \<open>A request is answered by exactly one response, which echoes its id.\<close>

lemma dispatch_request_id: "response_ids (snd (dispatch_request hs dec st i m p)) = [i]"
  by (auto simp: dispatch_request_def split: result.splits option.splits)

text \<open>Only the handshake fields change while a request is dispatched.\<close>

lemma dispatch_request_frame:
  assumes "dispatch_request hs dec st i m p = (st', f)"
  shows "pending st' = pending st \<and> next_server_id st' = next_server_id st
         \<and> slow_permits st' = slow_permits st \<and> hs_state st' = hs_state st"
  using assms by (auto simp: dispatch_request_def split: result.splits option.splits if_splits)

lemma on_request_cases:
  assumes "on_request hs dec st i m p = (st', as)"
  shows "pending st' = pending st \<and> next_server_id st' = next_server_id st
         \<and> slow_permits st' = slow_permits st \<and> hs_state st' = hs_state st
         \<and> ((\<exists>f. as = [Send f] \<and> response_ids f = [i]) \<or> as = [Spawn i m p])"
proof (cases "m \<in> set SPAWNED_METHODS \<or> (m \<in> set SLOW_POOL_METHODS \<and> slow_permits st = 0)")
  case True
  then show ?thesis using assms by (auto simp: on_request_def Let_def split: if_splits)
next
  case False
  let ?st1 = "if m \<in> set SLOW_POOL_METHODS then st\<lparr>slow_permits := slow_permits st - 1\<rparr> else st"
  obtain st2 f where d: "dispatch_request hs dec ?st1 i m p = (st2, f)" by force
  from dispatch_request_id [of hs dec ?st1 i m p] d have "response_ids f = [i]" by simp
  with dispatch_request_frame [OF d] d False assms show ?thesis
    by (auto simp: on_request_def Let_def split: if_splits)
qed

lemma srv_id_eq_iff [simp]: "srv_id m = srv_id n \<longleftrightarrow> m = n"
  by (simp add: srv_id_def)

lemma pending_ok_cong:
  "pending_ok c \<Longrightarrow> asked c' = asked c \<Longrightarrow> outcomes c' = outcomes c
   \<Longrightarrow> pending (conn c') = pending (conn c) \<Longrightarrow> next_server_id (conn c') = next_server_id (conn c)
   \<Longrightarrow> pending_ok c'"
  by (simp add: pending_ok_def)

lemma pending_ok_resolve:
  assumes "pending_ok c" "pending (conn c) sid = Some t"
    "asked c' = asked c" "outcomes c' = outcomes c @ [(sid, t, r)]"
    "pending (conn c') = (pending (conn c))(sid := None)"
    "next_server_id (conn c') = next_server_id (conn c)"
  shows "pending_ok c'"
proof -
  have no: "(sid, u, q) \<notin> set (outcomes c)" for u q
    using assms(1,2) unfolding pending_ok_def by (metis option.distinct(1))
  then have "sid \<notin> set (map fst (outcomes c))" by auto
  with assms no show ?thesis unfolding pending_ok_def by auto
qed

lemma conn_inv_init: "conn_inv conn_init"
  by (simp add: conn_inv_def conn_init_def answers_ok_def pending_ok_def dispatch_new_def)

lemma pending_ok_ask:
  assumes "pending_ok c" "request_approval (conn c) t ivc reason err = (st, Some f, None)"
    "c' = c\<lparr>conn := st, sent := sent c @ [f], asked := asked c @ [(srv_id (next_server_id st), t)]\<rparr>"
  shows "pending_ok c'"
proof -
  let ?sid = "srv_id (Suc (next_server_id (conn c)))"
  from assms(2) have st: "pending st = (pending (conn c))(?sid \<mapsto> t)"
      "next_server_id st = Suc (next_server_id (conn c))"
    by (auto simp: request_approval_def Let_def split: if_splits option.splits)
  have "?sid \<notin> srv_id ` {1..next_server_id (conn c)}" by auto
  with assms(1) have fresh: "?sid \<notin> set (map fst (asked c))" by (auto simp: pending_ok_def)
  then have none: "(?sid, u, r) \<notin> set (outcomes c)" for u r
    using assms(1) unfolding pending_ok_def by (metis fst_conv image_eqI set_map)
  have old: "u \<in> srv_id ` {1..Suc (next_server_id (conn c))}" if "u \<in> set (map fst (asked c))" for u
    using that assms(1) by (force simp: pending_ok_def)
  have last: "?sid \<in> srv_id ` {1..Suc (next_server_id (conn c))}" by auto
  have "pending (conn c) ?sid = None"
    using assms(1) fresh unfolding pending_ok_def by (metis fst_conv image_eqI not_None_eq set_map)
  with assms(1,3) st fresh none old last show ?thesis
    unfolding pending_ok_def by (auto simp: image_iff)
qed

lemma request_approval_refused:
  assumes "request_approval st t ivc reason err = (st', None, Some r)"
  shows "slow_permits st' = slow_permits st
         \<and> (\<forall>sid. sid \<noteq> srv_id (Suc (next_server_id st)) \<longrightarrow> pending st' sid = pending st sid)
         \<and> next_server_id st \<le> next_server_id st'
         \<and> (pending st' = pending st \<or> pending st' (srv_id (Suc (next_server_id st))) = None)"
  using assms by (auto simp: request_approval_def Let_def split: if_splits option.splits)

lemma pending_ok_refused:
  assumes "pending_ok c" "request_approval (conn c) t ivc reason err = (st, None, Some r)"
  shows "pending_ok (c\<lparr>conn := st\<rparr>)"
proof -
  let ?sid = "srv_id (Suc (next_server_id (conn c)))"
  have "?sid \<notin> srv_id ` {1..next_server_id (conn c)}" by auto
  with assms(1) have "?sid \<notin> set (map fst (asked c))" by (auto simp: pending_ok_def)
  then have "pending (conn c) ?sid = None"
    using assms(1) unfolding pending_ok_def by (metis fst_conv image_eqI not_None_eq set_map)
  with request_approval_refused [OF assms(2)] have "pending st = pending (conn c)"
    by (metis ext)
  moreover have "srv_id ` {1..next_server_id (conn c)} \<subseteq> srv_id ` {1..next_server_id st}"
    using request_approval_refused [OF assms(2)] by auto
  then have "set (map fst (asked c)) \<subseteq> srv_id ` {1..next_server_id st}"
    using assms(1) unfolding pending_ok_def by blast
  ultimately show ?thesis using assms(1) by (simp add: pending_ok_def)
qed

lemma conn_inv_recv:
  assumes "conn_inv c" "on_frame hook hs dec (conn c) f = (st, as)"
  shows "conn_inv (fold do_action as (c\<lparr>conn := st, received := received c @ request_ids f\<rparr>))"
proof (cases f)
  case (ClientRequest i m p)
  with assms(2) have "on_request hs dec (conn c) i m p = (st, as)" by simp
  from on_request_cases [OF this] assms(1) ClientRequest show ?thesis
    by (auto simp: conn_inv_def answers_ok_def elim!: pending_ok_cong)
next
  case (Notification m p)
  with assms show ?thesis
    by (auto simp: conn_inv_def answers_ok_def on_notification_def elim!: pending_ok_cong
        split: if_splits option.splits)
next
  case (ClientResponse i r e)
  show ?thesis
  proof (cases "pending (conn c) i")
    case None
    with assms ClientResponse show ?thesis
      by (auto simp: conn_inv_def answers_ok_def complete_pending_def elim!: pending_ok_cong)
  next
    case (Some t)
    with assms ClientResponse show ?thesis
      by (auto simp: conn_inv_def answers_ok_def complete_pending_def elim!: pending_ok_resolve)
  qed
qed (use assms in \<open>auto simp: conn_inv_def answers_ok_def elim!: pending_ok_cong\<close>)

lemma mset_drop_nth: "k < length xs \<Longrightarrow> mset (take k xs @ drop (Suc k) xs) + {#xs ! k#} = mset xs"
  by (metis add.commute add_mset_add_single append_take_drop_id Cons_nth_drop_Suc mset.simps(2)
      mset_append union_mset_add_mset_right)

lemma conn_inv_task:
  assumes "conn_inv c" "k < length (spawned c)" "spawned c ! k = (i, m, p)"
    "dispatch_request hs dec (conn c) i m p = (st, f)"
  shows "conn_inv (c\<lparr>conn := st, spawned := take k (spawned c) @ drop (Suc k) (spawned c),
                     sent := sent c @ [f]\<rparr>)"
proof -
  have "mset (map fst (take k (spawned c) @ drop (Suc k) (spawned c))) + {#i#} = mset (map fst (spawned c))"
    using mset_drop_nth [of k "map fst (spawned c)"] assms(2,3)
    by (simp add: take_map drop_map)
  moreover have "response_ids f = [i]" using dispatch_request_id [of hs dec "conn c" i m p] assms(4) by simp
  ultimately show ?thesis
    using assms(1) dispatch_request_frame [OF assms(4)]
    by (auto simp: conn_inv_def answers_ok_def elim!: pending_ok_cong simp flip: union_assoc)
qed

lemma conn_inv_step: "conn_step hook hs dec c l c' \<Longrightarrow> conn_inv c \<Longrightarrow> conn_inv c'"
proof (induction rule: conn_step.induct)
  case (recv_step c f st as)
  then show ?case by (simp add: conn_inv_recv)
next
  case (task_step k c i m p st f)
  then show ?case by (simp add: conn_inv_task)
next
  case (ask_step c t ivc reason err st f)
  then have "pending_ok (c\<lparr>conn := st, sent := sent c @ [f], asked := asked c @ [(srv_id (next_server_id st), t)]\<rparr>)"
    by (auto simp: conn_inv_def intro: pending_ok_ask)
  with ask_step show ?case
    by (auto simp: conn_inv_def answers_ok_def request_approval_def Let_def split: if_splits option.splits)
next
  case (ask_refused_step c t ivc reason err st r)
  then have "pending_ok (c\<lparr>conn := st\<rparr>)" by (auto simp: conn_inv_def intro: pending_ok_refused)
  with ask_refused_step request_approval_refused [OF ask_refused_step.hyps] show ?case
    by (auto simp: conn_inv_def answers_ok_def)
next
  case (deadline_step c sid st as)
  show ?case
  proof (cases "pending (conn c) sid")
    case None
    with deadline_step show ?thesis by (auto simp: approval_deadline_def)
  next
    case (Some t)
    with deadline_step show ?thesis
      by (auto simp: conn_inv_def answers_ok_def approval_deadline_def elim!: pending_ok_resolve)
  qed
qed

interpretation dispatch_sys: invariant_system conn_init "conn_step hook hs dec" conn_inv
  for hook hs dec
  by unfold_locales (auto intro: conn_inv_init conn_inv_step)

subsection \<open>Properties\<close>


text \<open>
  Approval requests are correlated: every request sent has its own server id, waits
  or has been resolved but not both, is resolved at most once, and only for the turn that asked (a late response
  resolves nothing).
\<close>

theorem approvals_resolved_once:
  assumes "steps (conn_step hook hs dec) conn_init evs c"
  shows "distinct (map fst (asked c)) \<and> distinct (map fst (outcomes c))
         \<and> (\<forall>sid t. (sid, t) \<in> set (asked c) \<longleftrightarrow>
              pending (conn c) sid = Some t \<or> (\<exists>r. (sid, t, r) \<in> set (outcomes c)))
         \<and> dom (pending (conn c)) \<inter> set (map fst (outcomes c)) = {}"
proof -
  have ok: "pending_ok c" using dispatch_sys.inv_reachable [OF assms] by (simp add: conn_inv_def)
  then have "pending (conn c) sid = None" if "(sid, t, r) \<in> set (outcomes c)" for sid t r
    using that unfolding pending_ok_def by blast
  then have "dom (pending (conn c)) \<inter> set (map fst (outcomes c)) = {}" by fastforce
  with ok show ?thesis by (simp add: pending_ok_def)
qed

text \<open>
  The slow pool never sheds load: in every reachable state all its permits are free,
  because the loop runs a slow method to completion before it reads the next frame, so no
  request is ever answered \<open>rate_limited\<close> by the pool.
\<close>

theorem slow_pool_never_sheds:
  assumes "steps (conn_step hook hs dec) conn_init evs c"
  shows "slow_permits (conn c) = SLOW_POOL_LIMIT
         \<and> (method \<notin> set SPAWNED_METHODS \<longrightarrow>
              snd (on_frame hook hs dec (conn c) (ClientRequest i method params))
              = [Send (snd (dispatch_request hs dec
                   (if method \<in> set SLOW_POOL_METHODS then (conn c)\<lparr>slow_permits := 3\<rparr> else conn c)
                   i method params))])"
proof -
  have "slow_permits (conn c) = SLOW_POOL_LIMIT"
    using dispatch_sys.inv_reachable [OF assms] by (simp add: conn_inv_def)
  then show ?thesis
    by (auto simp: on_request_def Let_def SLOW_POOL_LIMIT_def split: prod.splits)
qed

lemma fold_do_action_conn [simp]: "conn (fold do_action as c) = conn c"
proof (induction as arbitrary: c)
  case (Cons a as)
  then show ?case by (cases a) auto
qed simp

lemma step_handshake:
  assumes "conn_step hook hs dec c l c'"
  shows "hs_state (conn c') = Initialized \<longleftrightarrow>
         hs_state (conn c) = Initialized \<or> (\<exists>p. l = Recv (Notification ''initialized'' p))"
  using assms
proof (induction rule: conn_step.induct)
  case (recv_step c f st as)
  then show ?case
    by (cases f) (auto simp: on_notification_def complete_pending_def dest: on_request_cases
        split: if_splits option.splits)
next
  case (task_step k c i m p st f)
  then show ?case using dispatch_request_frame by fastforce
next
  case (ask_step c t ivc reason err st f)
  then show ?case by (auto simp: request_approval_def Let_def split: if_splits option.splits)
next
  case (ask_refused_step c t ivc reason err st r)
  then show ?case by (auto simp: request_approval_def Let_def split: if_splits option.splits)
next
  case (deadline_step c sid st as)
  then show ?case by (auto simp: approval_deadline_def split: option.splits)
qed

lemma steps_handshake:
  "steps (conn_step hook hs dec) c evs c' \<Longrightarrow>
   hs_state (conn c') = Initialized \<longleftrightarrow>
   hs_state (conn c) = Initialized \<or> (\<exists>p. Recv (Notification ''initialized'' p) \<in> set evs)"
  by (induction rule: steps.induct) (auto simp: step_handshake)

text \<open>
  Claim C37. The handshake gate: a connection is initialized exactly when the \<open>initialized\<close>
  notification has arrived; until then every request but \<open>initialize\<close> is answered with the
  not-initialized error, no handler runs and the state is left alone.
\<close>

theorem handshake_gate:
  assumes "steps (conn_step hook hs dec) conn_init evs c" "method \<noteq> ''initialize''"
  shows "if \<exists>p. Recv (Notification ''initialized'' p) \<in> set evs then hs_state (conn c) = Initialized
         else dispatch_request hs dec (conn c) i method params = (conn c, error_response i not_initialized)"
proof (cases "\<exists>p. Recv (Notification ''initialized'' p) \<in> set evs")
  case True
  with steps_handshake [OF assms(1)] show ?thesis by simp
next
  case False
  with steps_handshake [OF assms(1)] have "hs_state (conn c) \<noteq> Initialized"
    by (simp add: conn_init_def dispatch_new_def)
  with False assms(2) show ?thesis by (simp add: dispatch_request_def)
qed

text \<open>
  The gate opens on the notification alone: \<open>initialized\<close> moves a fresh connection to
  the initialized state although no version was negotiated, after which \<open>initialize\<close> is refused
  with the not-initialized error and requests reach their handlers.
\<close>

theorem initialized_without_initialize:
  fixes hs :: handler_map
  assumes "hs ''session/cancel'' = Some h" "h params = Ok r"
  shows "let st = fst (on_frame hook hs dec dispatch_new (Notification ''initialized'' p))
         in hs_state st = Initialized
            \<and> dispatch_request hs dec st i ''session/cancel'' params = (st, frame_response i r)
            \<and> dispatch_request hs dec st j ''initialize'' q = (st, error_response j not_initialized)"
proof -
  have "method_lookup ''session/cancel'' \<noteq> None" by code_simp
  with assms show ?thesis
    by (auto simp: Let_def on_notification_def dispatch_new_def dispatch_request_def)
qed

definition demo_handlers :: handler_map where
  "demo_handlers = [''session/cancel'' \<mapsto> \<lambda>p. Ok (JObject [(''outcome'', JString ''cancelled'')])]"

definition demo_decoder :: init_decoder where
  "demo_decoder p =
     (case json_get_str p ''protocolVersion'' of
        Some v \<Rightarrow> Ok \<lparr>protocol_version = v, client_info = \<lparr>info_name = ''t'', info_version = ''1''\<rparr>,
                     client_capabilities = capabilities_default\<rparr>
      | None \<Rightarrow> Err ''missing field'')"

definition demo_conn :: Connection where
  "demo_conn =
     conn_init\<lparr>received := [9], sent := [error_response 9 not_initialized]\<rparr>"

lemma demo_conn_steps:
  "steps (conn_step False demo_handlers demo_decoder) conn_init
     [Recv (ClientRequest 9 ''session/cancel'' JNull)] demo_conn"
proof -
  have "on_frame False demo_handlers demo_decoder (conn conn_init) (ClientRequest 9 ''session/cancel'' JNull)
        = (dispatch_new, [Send (error_response 9 not_initialized)])"
    by (simp add: on_request_def dispatch_request_def conn_init_def dispatch_new_def
        SPAWNED_METHODS_def SLOW_POOL_METHODS_def)
  from recv_step [OF this] show ?thesis
    by (simp add: steps_Cons_iff demo_conn_def conn_init_def)
qed


theorem approvals_resolved_once_witness:
  "distinct (map fst (asked demo_conn)) \<and> distinct (map fst (outcomes demo_conn))"
  using approvals_resolved_once [OF demo_conn_steps] by simp

theorem slow_pool_never_sheds_witness:
  "slow_permits (conn demo_conn) = SLOW_POOL_LIMIT
   \<and> snd (on_frame False demo_handlers demo_decoder (conn demo_conn) (ClientRequest 1 ''skill/list'' JNull))
     = [Send (snd (dispatch_request demo_handlers demo_decoder
          ((conn demo_conn)\<lparr>slow_permits := 3\<rparr>) 1 ''skill/list'' JNull))]"
  using slow_pool_never_sheds [OF demo_conn_steps, of "''skill/list''" 1 JNull]
  by (simp add: SPAWNED_METHODS_def SLOW_POOL_METHODS_def)

theorem handshake_gate_witness:
  "dispatch_request demo_handlers demo_decoder (conn demo_conn) 4 ''session/cancel'' JNull
   = (conn demo_conn, error_response 4 not_initialized)"
  using handshake_gate [OF demo_conn_steps, of "''session/cancel''" 4 JNull] by simp

theorem initialized_without_initialize_witness:
  "let st = fst (on_frame False demo_handlers demo_decoder dispatch_new (Notification ''initialized'' JNull))
   in hs_state st = Initialized
      \<and> dispatch_request demo_handlers demo_decoder st 1 ''session/cancel'' JNull
        = (st, frame_response 1 (JObject [(''outcome'', JString ''cancelled'')]))
      \<and> dispatch_request demo_handlers demo_decoder st 2 ''initialize'' JNull
        = (st, error_response 2 not_initialized)"
  by (rule initialized_without_initialize) (simp_all add: demo_handlers_def)

end
