(* ===== verification/Gateway_Approval.thy ===== *)
theory Gateway_Approval
  imports Gateway_Dispatch
begin

section \<open>Approval routing (zen-gateway/src/server/approval.rs)\<close>

text \<open>
  The broker that turns the sandbox's synchronous approval callback into a request on the
  connection of the turn that triggered it. A route is shared (an \<open>Arc\<close>): it has an address,
  stays valid for a callback that claimed it after its registration is gone, and its
  \<open>claimed\<close> flag is set under the lock of the route list. The callback is therefore two steps,
  the claim and the return, with the round trip between them; any number of callbacks and
  registrations interleave. The outcome of the round trip is an argument: whether the job
  could be sent, and what the worker of the route got from the connection before the deadline.
\<close>

subsection \<open>State and operations\<close>

definition APPROVAL_TIMEOUT_SECS :: nat where
  "APPROVAL_TIMEOUT_SECS = 120"

definition BROKER_DEADLINE_SECS :: nat where
  "BROKER_DEADLINE_SECS = APPROVAL_TIMEOUT_SECS - 1"

record TurnRoute =
  route_addr :: nat
  route_turn :: string
  claimed :: bool

record ApprovalBroker =
  routes :: "TurnRoute list"
  next_addr :: nat

definition broker_default :: ApprovalBroker where
  "broker_default = \<lparr>routes = [], next_addr = 0\<rparr>"

definition register :: "ApprovalBroker \<Rightarrow> string \<Rightarrow> ApprovalBroker" where
  "register b turn_id =
     b\<lparr>routes := routes b @ [\<lparr>route_addr = next_addr b, route_turn = turn_id, claimed = False\<rparr>],
       next_addr := Suc (next_addr b)\<rparr>"

definition deregister :: "ApprovalBroker \<Rightarrow> string \<Rightarrow> ApprovalBroker" where
  "deregister b turn_id = b\<lparr>routes := filter (\<lambda>r. route_turn r \<noteq> turn_id) (routes b)\<rparr>"

definition set_claimed :: "bool \<Rightarrow> nat \<Rightarrow> ApprovalBroker \<Rightarrow> ApprovalBroker" where
  "set_claimed v a b =
     b\<lparr>routes := map (\<lambda>r. if route_addr r = a then r\<lparr>claimed := v\<rparr> else r) (routes b)\<rparr>"

text \<open>The locked section of \<open>decide\<close> (no turn) and of \<open>decide_for\<close> (exact turn).\<close>

definition claim_free :: "ApprovalBroker \<Rightarrow> TurnRoute option" where
  "claim_free b = find (\<lambda>r. \<not> claimed r) (routes b)"

definition claim_turn :: "ApprovalBroker \<Rightarrow> string \<Rightarrow> TurnRoute option" where
  "claim_turn b turn_id = find (\<lambda>r. route_turn r = turn_id \<and> \<not> claimed r) (routes b)"

definition claim :: "ApprovalBroker \<Rightarrow> string option \<Rightarrow> (ApprovalBroker \<times> TurnRoute) option" where
  "claim b turn =
     map_option (\<lambda>r. (set_claimed True (route_addr r) b, r))
       (case turn of Some t \<Rightarrow> claim_turn b t | None \<Rightarrow> claim_free b)"

text \<open>
  The worker of a route: what it replies for a connection's outcome, and whether it fires the
  turn's cancel hook (once, on a missed deadline).
\<close>

definition worker_reply :: "bool \<Rightarrow> ApprovalOutcome \<Rightarrow> bool \<times> bool" where
  "worker_reply cancel_armed r =
     (case r of
        Ok result \<Rightarrow> (json_get result ''decision'' = Some (JString ''approve''), False)
      | Err e \<Rightarrow> (False, code e = -32011 \<and> cancel_armed))"

text \<open>\<open>blocking_round_trip\<close>: a job that cannot be sent and a reply that does not come are denials.\<close>

definition blocking_round_trip :: "bool \<Rightarrow> ApprovalOutcome option \<Rightarrow> bool" where
  "blocking_round_trip send_ok reply =
     (if \<not> send_ok then False
      else (case reply of Some r \<Rightarrow> fst (worker_reply True r) | None \<Rightarrow> False))"

definition approval_payload :: "string \<Rightarrow> json \<Rightarrow> json \<times> string" where
  "approval_payload name args =
     (JObject [(''name'', JString name), (''args'', args)],
      ''hosted turn requires approval for '' @ name)"

text \<open>The callback run to its end without interruption.\<close>

definition decide ::
  "ApprovalBroker \<Rightarrow> string option \<Rightarrow> bool \<Rightarrow> ApprovalOutcome option \<Rightarrow> ApprovalBroker \<times> bool" where
  "decide b turn send_ok reply =
     (case claim b turn of
        None \<Rightarrow> (b, False)
      | Some (b1, r) \<Rightarrow>
          (set_claimed False (route_addr r) b1, blocking_round_trip send_ok reply))"

subsection \<open>Interleaved callbacks\<close>

record Call =
  call_route :: nat
  call_turn :: "string option"
  call_via :: string

record BrokerSystem =
  broker :: ApprovalBroker
  calls :: "Call list"
  decisions :: "(string option \<times> string \<times> bool \<times> ApprovalOutcome option) list"

definition broker_init :: BrokerSystem where
  "broker_init = \<lparr>broker = broker_default, calls = [], decisions = []\<rparr>"

datatype broker_event =
    Register string
  | Deregister string
  | Callback "string option"
  | Return nat bool "ApprovalOutcome option"

inductive broker_step :: "BrokerSystem \<Rightarrow> broker_event \<Rightarrow> BrokerSystem \<Rightarrow> bool" where
  step_register: "broker_step s (Register t) (s\<lparr>broker := register (broker s) t\<rparr>)"
| step_deregister: "broker_step s (Deregister t) (s\<lparr>broker := deregister (broker s) t\<rparr>)"
| step_denied:
    "claim (broker s) turn = None
     \<Longrightarrow> broker_step s (Callback turn) s"
| step_claim:
    "claim (broker s) turn = Some (b, r)
     \<Longrightarrow> broker_step s (Callback turn)
          (s\<lparr>broker := b,
             calls := calls s @ [\<lparr>call_route = route_addr r, call_turn = turn, call_via = route_turn r\<rparr>]\<rparr>)"
| step_return:
    "k < length (calls s) \<Longrightarrow> calls s ! k = c
     \<Longrightarrow> broker_step s (Return k send_ok reply)
          (s\<lparr>broker := set_claimed False (call_route c) (broker s),
             calls := take k (calls s) @ drop (Suc k) (calls s),
             decisions := decisions s @
               [(call_turn c, call_via c, blocking_round_trip send_ok reply, reply)]\<rparr>)"

definition routes_ok :: "ApprovalBroker \<Rightarrow> nat set \<Rightarrow> bool" where
  "routes_ok b held \<longleftrightarrow>
     distinct (map route_addr (routes b)) \<and> held \<subseteq> {..<next_addr b}
     \<and> (\<forall>r \<in> set (routes b). route_addr r < next_addr b \<and> (claimed r \<longleftrightarrow> route_addr r \<in> held))"

definition approved :: "ApprovalOutcome option \<Rightarrow> bool" where
  "approved reply \<longleftrightarrow>
     (\<exists>result. reply = Some (Ok result) \<and> json_get result ''decision'' = Some (JString ''approve''))"

definition broker_inv :: "BrokerSystem \<Rightarrow> bool" where
  "broker_inv s \<longleftrightarrow>
     routes_ok (broker s) (set (map call_route (calls s)))
     \<and> distinct (map call_route (calls s))
     \<and> (\<forall>c \<in> set (calls s). \<forall>t. call_turn c = Some t \<longrightarrow> call_via c = t)
     \<and> (\<forall>(turn, via, allowed, reply) \<in> set (decisions s).
          (\<forall>t. turn = Some t \<longrightarrow> via = t) \<and> (allowed \<longrightarrow> approved reply))"

lemma round_trip_approved: "blocking_round_trip send_ok reply \<Longrightarrow> approved reply"
  by (auto simp: blocking_round_trip_def worker_reply_def approved_def
      split: if_splits option.splits result.splits)

lemma find_SomeD: "find P xs = Some x \<Longrightarrow> x \<in> set xs \<and> P x"
  by (induction xs) (auto split: if_splits)

lemma claim_Some:
  assumes "claim b turn = Some (b', r)"
  shows "r \<in> set (routes b) \<and> \<not> claimed r \<and> (\<forall>t. turn = Some t \<longrightarrow> route_turn r = t)
         \<and> b' = set_claimed True (route_addr r) b"
  using assms
  by (auto simp: claim_def claim_free_def claim_turn_def dest!: find_SomeD split: option.splits)

lemma routes_ok_register [preserves]: "routes_ok b held \<Longrightarrow> routes_ok (register b t) held"
  by (auto simp: routes_ok_def register_def)

lemma routes_ok_deregister [preserves]: "routes_ok b held \<Longrightarrow> routes_ok (deregister b t) held"
  by (auto simp: routes_ok_def deregister_def distinct_map inj_on_def)

lemma set_claimed_addrs [simp]:
  "map route_addr (routes (set_claimed v a b)) = map route_addr (routes b)"
  "next_addr (set_claimed v a b) = next_addr b"
  by (auto simp: set_claimed_def)

lemma set_claimed_routes:
  "set (routes (set_claimed v a b)) =
     (\<lambda>r. if route_addr r = a then r\<lparr>claimed := v\<rparr> else r) ` set (routes b)"
  by (simp add: set_claimed_def)

lemma routes_ok_claim [preserves]:
  assumes "routes_ok b held" "r \<in> set (routes b)"
  shows "routes_ok (set_claimed True (route_addr r) b) (insert (route_addr r) held)"
  using assms by (auto simp: routes_ok_def set_claimed_routes)

lemma routes_ok_release [preserves]:
  assumes "routes_ok b (insert a held)" "a \<notin> held"
  shows "routes_ok (set_claimed False a b) held"
  using assms by (auto simp: routes_ok_def set_claimed_routes)

lemma set_drop_nth:
  assumes "distinct xs" "k < length xs"
  shows "set (take k xs @ drop (Suc k) xs) = set xs - {xs ! k} \<and> distinct (take k xs @ drop (Suc k) xs)"
proof -
  have "set (as @ bs) = set (as @ x # bs) - {x} \<and> distinct (as @ bs)" if "distinct (as @ x # bs)"
    for as bs and x :: 'a
    using that by auto
  from this [of "take k xs" "xs ! k" "drop (Suc k) xs"] assms show ?thesis
    by (simp add: id_take_nth_drop [symmetric])
qed

lemma broker_inv_init: "broker_inv broker_init"
  by (simp add: broker_inv_def broker_init_def broker_default_def routes_ok_def)

lemma broker_inv_return:
  assumes "broker_inv s" "k < length (calls s)" "calls s ! k = c"
  shows "broker_inv (s\<lparr>broker := set_claimed False (call_route c) (broker s),
             calls := take k (calls s) @ drop (Suc k) (calls s),
             decisions := decisions s @
               [(call_turn c, call_via c, blocking_round_trip send_ok reply, reply)]\<rparr>)"
proof -
  let ?as = "map call_route (calls s)"
  let ?rest = "take k (calls s) @ drop (Suc k) (calls s)"
  have rest: "map call_route ?rest = take k ?as @ drop (Suc k) ?as" by (simp add: take_map drop_map)
  have a: "?as ! k = call_route c" "call_route c \<in> set ?as" using assms(2,3) by auto
  from assms have inv: "routes_ok (broker s) (set ?as)" "distinct ?as" by (simp_all add: broker_inv_def)
  from set_drop_nth [OF inv(2), of k] assms(2) a(1) rest
  have set_rest: "set (map call_route ?rest) = set ?as - {call_route c}" "distinct (map call_route ?rest)"
    by (simp_all only: length_map)
  have "routes_ok (set_claimed False (call_route c) (broker s)) (set (map call_route ?rest))"
    unfolding set_rest using inv(1) a(2)
    by (intro routes_ok_release) (auto simp: insert_absorb)
  moreover have "set ?rest \<subseteq> set (calls s)"
    by (auto dest: in_set_takeD in_set_dropD)
  moreover have "c \<in> set (calls s)" using assms(2,3) by auto
  ultimately show ?thesis
    using assms(1) set_rest(2) round_trip_approved [of send_ok reply]
    unfolding broker_inv_def by auto
qed

lemma broker_inv_claim:
  assumes "broker_inv s" "claim (broker s) turn = Some (b, r)"
  shows "broker_inv (s\<lparr>broker := b,
     calls := calls s @ [\<lparr>call_route = route_addr r, call_turn = turn, call_via = route_turn r\<rparr>]\<rparr>)"
proof -
  from claim_Some [OF assms(2)] have r: "r \<in> set (routes (broker s))" "\<not> claimed r"
      "\<forall>t. turn = Some t \<longrightarrow> route_turn r = t" "b = set_claimed True (route_addr r) (broker s)"
    by auto
  from assms(1) have ok: "routes_ok (broker s) (set (map call_route (calls s)))" by (simp add: broker_inv_def)
  with r have "route_addr r \<notin> set (map call_route (calls s))" by (simp add: routes_ok_def)
  with routes_ok_claim [OF ok r(1)] assms(1) r show ?thesis by (auto simp: broker_inv_def)
qed

lemma broker_inv_step: "broker_step s l t \<Longrightarrow> broker_inv s \<Longrightarrow> broker_inv t"
proof (induction rule: broker_step.induct)
  case (step_register s t)
  then show ?case by (simp add: broker_inv_def preserves)
next
  case (step_deregister s t)
  then show ?case by (simp add: broker_inv_def preserves)
next
  case (step_denied s turn)
  then show ?case by simp
next
  case (step_claim s turn b r)
  then show ?case by (simp add: broker_inv_claim)
next
  case (step_return k s c send_ok reply)
  then show ?case by (simp add: broker_inv_return)
qed

interpretation broker_sys: invariant_system broker_init broker_step broker_inv
  by unfold_locales (auto intro: broker_inv_init broker_inv_step)

text \<open>
  Claim C5. Turn affinity of approvals under any interleaving: a callback carrying a turn is
  decided only through a route registered for exactly that turn, an approval is given only
  when that route's connection answered \<open>approve\<close> in time, and no two callbacks in flight share
  a route.
\<close>

theorem approvals_keep_turn_affinity:
  assumes "steps broker_step broker_init evs s"
  shows "((Some t, via, allowed, reply) \<in> set (decisions s) \<longrightarrow> via = t)
         \<and> ((turn, via, True, reply) \<in> set (decisions s) \<longrightarrow> approved reply)
         \<and> distinct (map call_route (calls s))"
  using broker_sys.inv_reachable [OF assms] by (auto simp: broker_inv_def)

definition demo_broker_events :: "broker_event list" where
  "demo_broker_events =
     [Register ''t1'', Callback (Some ''t1''),
      Return 0 True (Some (Ok (JObject [(''decision'', JString ''approve'')])))]"

definition demo_broker :: BrokerSystem where
  "demo_broker =
     \<lparr>broker = register broker_default ''t1'', calls = [],
      decisions = [(Some ''t1'', ''t1'', True, Some (Ok (JObject [(''decision'', JString ''approve'')])))]\<rparr>"

lemma demo_broker_steps: "steps broker_step broker_init demo_broker_events demo_broker"
proof -
  let ?s1 = "broker_init\<lparr>broker := register broker_default ''t1''\<rparr>"
  let ?r = "\<lparr>route_addr = 0, route_turn = ''t1'', claimed = False\<rparr>"
  let ?b2 = "set_claimed True 0 (register broker_default ''t1'')"
  let ?s2 = "?s1\<lparr>broker := ?b2, calls := [\<lparr>call_route = 0, call_turn = Some ''t1'', call_via = ''t1''\<rparr>]\<rparr>"
  let ?reply = "Some (Ok (JObject [(''decision'', JString ''approve'')]))"
  have "broker_step broker_init (Register ''t1'') ?s1"
    using step_register [of broker_init "''t1''"] by (simp add: broker_init_def)
  moreover have "claim (broker ?s1) (Some ''t1'') = Some (?b2, ?r)"
    by (simp add: claim_def claim_turn_def register_def broker_default_def)
  from step_claim [OF this] have "broker_step ?s1 (Callback (Some ''t1'')) ?s2"
    by (simp add: broker_init_def)
  moreover have "set_claimed False 0 ?b2 = register broker_default ''t1''"
    by (simp add: set_claimed_def register_def broker_default_def)
  with step_return [of 0 ?s2 _ True ?reply, OF _ refl]
  have "broker_step ?s2 (Return 0 True ?reply) demo_broker"
    by (simp add: demo_broker_def broker_init_def blocking_round_trip_def worker_reply_def)
  ultimately show ?thesis
    unfolding demo_broker_events_def by (blast intro: steps.intros)
qed

theorem approvals_keep_turn_affinity_witness:
  "approved (Some (Ok (JObject [(''decision'', JString ''approve'')])))
   \<and> (Some ''t1'', ''t1'', True, Some (Ok (JObject [(''decision'', JString ''approve'')])))
       \<in> set (decisions demo_broker)"
proof -
  have "(Some ''t1'', ''t1'', True, Some (Ok (JObject [(''decision'', JString ''approve'')])))
        \<in> set (decisions demo_broker)"
    by (simp add: demo_broker_def)
  with approvals_keep_turn_affinity [OF demo_broker_steps] show ?thesis by blast
qed

lemma reclaim_id:
  assumes "distinct (map route_addr (routes b))" "r \<in> set (routes b)" "\<not> claimed r"
  shows "set_claimed False (route_addr r) (set_claimed True (route_addr r) b) = b"
proof -
  have "x = r" if "x \<in> set (routes b)" "route_addr x = route_addr r" for x
    using assms(1,2) that by (auto simp: distinct_map dest: inj_onD)
  with assms(3) have "map (\<lambda>x. if route_addr x = route_addr r then x\<lparr>claimed := False\<rparr> else x) (routes b) = routes b"
    by (intro map_idI) fastforce
  then show ?thesis by (simp add: set_claimed_def comp_def if_distrib cong: if_cong)
qed

text \<open>
  An uninterrupted callback is fail-safe and leaves no trace: it allows exactly when a
  free route for it exists, the job could be sent and the connection approved in time; every
  other outcome denies; and the routes are as before, the claim released.
\<close>

theorem decide_fail_safe:
  assumes "distinct (map route_addr (routes b))"
  shows "decide b turn send_ok reply = (b, claim b turn \<noteq> None \<and> send_ok \<and> approved reply)"
proof (cases "claim b turn")
  case None
  then show ?thesis by (simp add: decide_def)
next
  case (Some br)
  then obtain b1 r where br: "claim b turn = Some (b1, r)" by (cases br) auto
  have "blocking_round_trip send_ok reply \<longleftrightarrow> send_ok \<and> approved reply"
    by (auto simp: blocking_round_trip_def worker_reply_def approved_def
        split: option.splits result.splits)
  with br claim_Some [OF br] reclaim_id [OF assms, of r] show ?thesis by (simp add: decide_def)
qed

theorem decide_fail_safe_witness:
  "decide (register broker_default ''t1'') (Some ''t2'') True None
   = (register broker_default ''t1'',
      claim (register broker_default ''t1'') (Some ''t2'') \<noteq> None \<and> True \<and> approved None)"
  by (rule decide_fail_safe) (simp add: register_def broker_default_def)

end
