(* ===== verification/Gateway_Connection.thy ===== *)
theory Gateway_Connection
  imports Gateway_Dispatch
begin

section \<open>Connection record and outbound queue (zen-gateway/src/server/connection.rs)\<close>

text \<open>
  The lifecycle of a client connection and its bounded outbound queue with two frame classes.
  The channel itself is tokio's: its operations are a parameter, and what \<open>enqueue\<close> relies on
  is the named hypothesis \<open>mpsc_laws\<close>. Which waiting sender a freed slot goes to, and when, is
  left to the parameter.
\<close>

subsection \<open>Lifecycle\<close>

definition OUTBOUND_CAPACITY :: nat where
  "OUTBOUND_CAPACITY = 256"

datatype ConnectionState = LinkConnecting | LinkInitialized | LinkClosed

record ClientConnection =
  link_state :: ConnectionState
  link_identity :: "ClientIdentity option"
  link_capabilities :: Capabilities

definition client_connection_new :: ClientConnection where
  "client_connection_new =
     \<lparr>link_state = LinkConnecting, link_identity = None, link_capabilities = capabilities_default\<rparr>"

definition mark_ready ::
  "ClientConnection \<Rightarrow> ClientIdentity \<Rightarrow> Capabilities
   \<Rightarrow> ClientConnection \<times> (ConnectionState, ConnectionState) result" where
  "mark_ready c identity caps =
     (if link_state c \<noteq> LinkConnecting then (c, Err (link_state c))
      else (\<lparr>link_state = LinkInitialized, link_identity = Some identity, link_capabilities = caps\<rparr>,
            Ok LinkInitialized))"

definition link_close :: "ClientConnection \<Rightarrow> ClientConnection" where
  "link_close c = c\<lparr>link_state := LinkClosed\<rparr>"

datatype link_op = MarkReady ClientIdentity Capabilities | Close

fun link_run :: "ClientConnection \<Rightarrow> link_op list \<Rightarrow> ClientConnection" where
  "link_run c [] = c"
| "link_run c (MarkReady i k # ops) = link_run (fst (mark_ready c i k)) ops"
| "link_run c (Close # ops) = link_run (link_close c) ops"

lemma link_run_closed:
  "link_state c = LinkClosed \<Longrightarrow> link_run c ops = c"
proof (induction ops arbitrary: c)
  case (Cons op ops)
  then show ?case by (cases op) (auto simp: mark_ready_def link_close_def)
qed simp

lemma link_run_initialized:
  "link_state c = LinkInitialized \<Longrightarrow>
   link_run c ops = (if Close \<in> set ops then link_close c else c)"
proof (induction ops arbitrary: c)
  case (Cons op ops)
  then show ?case by (cases op) (auto simp: mark_ready_def link_close_def link_run_closed)
qed simp

text \<open>
  The handshake of a connection record is taken from the first \<open>mark_ready\<close>, provided the
  connection was not closed before it, and no later call changes it; \<open>Closed\<close> is terminal.
\<close>

theorem first_mark_ready_wins:
  "link_run client_connection_new (MarkReady i k # ops)
   = \<lparr>link_state = (if Close \<in> set ops then LinkClosed else LinkInitialized),
      link_identity = Some i, link_capabilities = k\<rparr>
   \<and> link_run client_connection_new (Close # ops) = link_close client_connection_new"
  by (simp add: mark_ready_def client_connection_new_def link_run_initialized link_close_def
      link_run_closed)

subsection \<open>The outbound queue\<close>

datatype FrameClass = Delta | Structural

record OutboundFrame =
  out_frame :: Frame
  out_class :: FrameClass

definition structural :: "Frame \<Rightarrow> OutboundFrame" where
  "structural f = \<lparr>out_frame = f, out_class = Structural\<rparr>"

definition delta :: "Frame \<Rightarrow> OutboundFrame" where
  "delta f = \<lparr>out_frame = f, out_class = Delta\<rparr>"

text \<open>
  The bounded channel as \<open>enqueue\<close> and its receiver see it. \<open>mpsc_send\<close> is one poll of a send
  future, which may have to wait, and \<open>mpsc_drop\<close> is the receiver going away. The last two
  components only observe the channel: the frames it holds and whether its receiver is gone.
\<close>

datatype try_send = TrySent | TryFull OutboundFrame | TryClosed OutboundFrame

datatype send_poll = SendPending | SendOk | SendErr string

record 'ch Mpsc =
  mpsc_try_send :: "'ch \<Rightarrow> OutboundFrame \<Rightarrow> 'ch \<times> try_send"
  mpsc_send :: "'ch \<Rightarrow> OutboundFrame \<Rightarrow> 'ch \<times> send_poll"
  mpsc_recv :: "'ch \<Rightarrow> (OutboundFrame \<times> 'ch) option"
  mpsc_drop :: "'ch \<Rightarrow> 'ch"
  mpsc_contents :: "'ch \<Rightarrow> OutboundFrame list"
  mpsc_closed :: "'ch \<Rightarrow> bool"

text \<open>
  What tokio documents of a bounded channel: a send succeeds only while the receiver is there
  and there is room, and appends; a full channel hands the frame back and changes nothing;
  sends fail once the receiver is gone; frames are received in the order they were sent; and
  what the channel holds when the receiver goes away is never received. A full
  channel is not promised to hold \<open>cap\<close> frames, since slots may be reserved for waiting senders.
\<close>

definition mpsc_accepts :: "'ch Mpsc \<Rightarrow> nat \<Rightarrow> 'ch \<Rightarrow> OutboundFrame \<Rightarrow> 'ch \<Rightarrow> bool" where
  "mpsc_accepts m cap ch f ch' \<longleftrightarrow>
     \<not> mpsc_closed m ch \<and> length (mpsc_contents m ch) < cap
     \<and> mpsc_contents m ch' = mpsc_contents m ch @ [f] \<and> \<not> mpsc_closed m ch'"

definition mpsc_same :: "'ch Mpsc \<Rightarrow> 'ch \<Rightarrow> 'ch \<Rightarrow> bool" where
  "mpsc_same m ch ch' \<longleftrightarrow>
     mpsc_contents m ch' = mpsc_contents m ch \<and> mpsc_closed m ch' = mpsc_closed m ch"

definition mpsc_laws :: "'ch Mpsc \<Rightarrow> nat \<Rightarrow> bool" where
  "mpsc_laws m cap \<longleftrightarrow>
     (\<forall>ch f. case mpsc_try_send m ch f of
        (ch', TrySent) \<Rightarrow> mpsc_accepts m cap ch f ch'
      | (ch', TryFull g) \<Rightarrow> mpsc_same m ch ch' \<and> g = f \<and> \<not> mpsc_closed m ch
      | (ch', TryClosed g) \<Rightarrow> mpsc_same m ch ch' \<and> g = f \<and> mpsc_closed m ch)
     \<and> (\<forall>ch f. case mpsc_send m ch f of
        (ch', SendPending) \<Rightarrow> mpsc_same m ch ch' \<and> \<not> mpsc_closed m ch
      | (ch', SendOk) \<Rightarrow> mpsc_accepts m cap ch f ch'
      | (ch', SendErr e) \<Rightarrow> mpsc_same m ch ch' \<and> mpsc_closed m ch)
     \<and> (\<forall>ch f ch'. mpsc_recv m ch = Some (f, ch') \<longrightarrow>
          mpsc_contents m ch = f # mpsc_contents m ch' \<and> mpsc_closed m ch' = mpsc_closed m ch)
     \<and> (\<forall>ch. mpsc_closed m (mpsc_drop m ch) \<and> mpsc_contents m (mpsc_drop m ch) = [])"

text \<open>
  \<open>enqueue\<close> is an async function with one suspension point, the send of a structural frame that
  found the queue full. \<open>enqueue\<close> runs it up to there and \<open>enqueue_poll\<close> polls it once after that.
\<close>

datatype enqueue_state = Ready "(unit, string) result" | Awaiting OutboundFrame

definition enqueue :: "'ch Mpsc \<Rightarrow> 'ch \<Rightarrow> OutboundFrame \<Rightarrow> 'ch \<times> enqueue_state" where
  "enqueue m ch outbound =
     (case mpsc_try_send m ch outbound of
        (ch', TrySent) \<Rightarrow> (ch', Ready (Ok ()))
      | (ch', TryFull of') \<Rightarrow>
          (if out_class of' = Delta then (ch', Ready (Ok ())) else (ch', Awaiting of'))
      | (ch', TryClosed _) \<Rightarrow> (ch', Ready (Err ''outbound queue closed'')))"

definition enqueue_poll :: "'ch Mpsc \<Rightarrow> 'ch \<Rightarrow> OutboundFrame \<Rightarrow> 'ch \<times> enqueue_state" where
  "enqueue_poll m ch of' =
     (case mpsc_send m ch of' of
        (ch', SendPending) \<Rightarrow> (ch', Awaiting of')
      | (ch', SendOk) \<Rightarrow> (ch', Ready (Ok ()))
      | (ch', SendErr e) \<Rightarrow> (ch', Ready (Err (''outbound queue closed: '' @ e))))"

text \<open>
  A connection's queue with the calls in flight. \<open>Offer\<close> calls \<open>enqueue\<close>, \<open>Poll i\<close> polls the
  \<open>i\<close>-th call in flight, \<open>Abandon i\<close> drops it (its task was cancelled), \<open>Receive\<close> takes a frame
  and \<open>Disconnect\<close> drops the receiver. What was put into the channel (\<open>accepted\<close>) is read off
  the channel, not off the results of the calls.
\<close>

record 'ch QueueSystem =
  channel :: 'ch
  in_flight :: "OutboundFrame list"
  offered :: "OutboundFrame list"
  accepted :: "OutboundFrame list"
  delivered :: "OutboundFrame list"
  refused :: "OutboundFrame list"
  abandoned :: "OutboundFrame list"
  undelivered :: "OutboundFrame list"

datatype queue_op = Offer OutboundFrame | Poll nat | Abandon nat | Receive | Disconnect

definition queue_init :: "'ch \<Rightarrow> 'ch QueueSystem" where
  "queue_init ch =
     \<lparr>channel = ch, in_flight = [], offered = [], accepted = [], delivered = [], refused = [],
      abandoned = [], undelivered = []\<rparr>"

text \<open>The bookkeeping of one run of an enqueue call for \<open>f\<close>, with \<open>ws\<close> the other calls in flight.\<close>

definition enqueue_effect ::
  "'ch Mpsc \<Rightarrow> 'ch QueueSystem \<Rightarrow> OutboundFrame \<Rightarrow> OutboundFrame list \<Rightarrow> 'ch \<times> enqueue_state
   \<Rightarrow> 'ch QueueSystem" where
  "enqueue_effect m s f ws out =
     s\<lparr>channel := fst out,
       accepted := accepted s @ drop (length (mpsc_contents m (channel s))) (mpsc_contents m (fst out)),
       in_flight := (case snd out of Awaiting g \<Rightarrow> ws @ [g] | Ready r \<Rightarrow> ws),
       refused := (case snd out of Ready (Err e) \<Rightarrow> refused s @ [f]
                   | Ready (Ok u) \<Rightarrow> refused s | Awaiting g \<Rightarrow> refused s)\<rparr>"

fun queue_exec :: "'ch Mpsc \<Rightarrow> 'ch QueueSystem \<Rightarrow> queue_op \<Rightarrow> 'ch QueueSystem option" where
  "queue_exec m s (Offer f) =
     Some (enqueue_effect m (s\<lparr>offered := offered s @ [f]\<rparr>) f (in_flight s) (enqueue m (channel s) f))"
| "queue_exec m s (Poll i) =
     (if i < length (in_flight s)
      then Some (enqueue_effect m s (in_flight s ! i) (take i (in_flight s) @ drop (Suc i) (in_flight s))
             (enqueue_poll m (channel s) (in_flight s ! i)))
      else None)"
| "queue_exec m s (Abandon i) =
     (if i < length (in_flight s)
      then Some (s\<lparr>in_flight := take i (in_flight s) @ drop (Suc i) (in_flight s),
                  abandoned := abandoned s @ [in_flight s ! i]\<rparr>)
      else None)"
| "queue_exec m s Receive =
     map_option (\<lambda>(f, ch). s\<lparr>channel := ch, delivered := delivered s @ [f]\<rparr>) (mpsc_recv m (channel s))"
| "queue_exec m s Disconnect =
     Some (s\<lparr>channel := mpsc_drop m (channel s),
            undelivered := undelivered s @ mpsc_contents m (channel s)\<rparr>)"

definition queue_step :: "'ch Mpsc \<Rightarrow> 'ch QueueSystem \<Rightarrow> queue_op \<Rightarrow> 'ch QueueSystem \<Rightarrow> bool" where
  "queue_step m s op t \<longleftrightarrow> queue_exec m s op = Some t"

definition structurals :: "OutboundFrame list \<Rightarrow> OutboundFrame list" where
  "structurals fs = filter (\<lambda>f. out_class f = Structural) fs"

lemma structurals_simps [simp]:
  "structurals [] = []" "structurals (xs @ ys) = structurals xs @ structurals ys"
  by (simp_all add: structurals_def)

text \<open>Where every frame that was offered and accepted has gone.\<close>

definition queue_inv :: "'ch Mpsc \<Rightarrow> nat \<Rightarrow> 'ch QueueSystem \<Rightarrow> bool" where
  "queue_inv m cap s \<longleftrightarrow>
     length (mpsc_contents m (channel s)) \<le> cap
     \<and> accepted s = delivered s @ undelivered s @ mpsc_contents m (channel s)
     \<and> structurals (in_flight s) = in_flight s
     \<and> (if mpsc_closed m (channel s) then mpsc_contents m (channel s) = []
        else refused s = [] \<and> undelivered s = [])
     \<and> mset (structurals (offered s))
       = mset (structurals (accepted s)) + mset (in_flight s) + mset (structurals (refused s))
         + mset (structurals (abandoned s))"

lemma mset_remove_nth: "i < length xs \<Longrightarrow> mset xs = mset (take i xs @ drop (Suc i) xs) + {#xs ! i#}"
  by (subst id_take_nth_drop [of i xs]) auto

lemma structurals_sublist:
  "structurals xs = xs \<Longrightarrow> structurals (take i xs @ drop (Suc i) xs) = take i xs @ drop (Suc i) xs"
proof -
  assume "structurals xs = xs"
  then have "structurals (take i xs) = take i xs" "structurals (drop (Suc i) xs) = drop (Suc i) xs"
    by (auto simp: structurals_def filter_id_conv dest: in_set_takeD in_set_dropD)
  then show ?thesis by simp
qed

lemma structurals_nth: "structurals xs = xs \<Longrightarrow> i < length xs \<Longrightarrow> out_class (xs ! i) = Structural"
  by (auto simp: structurals_def filter_id_conv)

text \<open>The four outcomes of running an enqueue call for \<open>f\<close> up to its next suspension.\<close>

inductive enqueue_outcome ::
  "'ch Mpsc \<Rightarrow> nat \<Rightarrow> 'ch \<Rightarrow> OutboundFrame \<Rightarrow> 'ch \<times> enqueue_state \<Rightarrow> bool"
  for m :: "'ch Mpsc" and cap :: nat and ch :: 'ch and f :: OutboundFrame where
  outcome_sent: "mpsc_accepts m cap ch f ch' \<Longrightarrow> enqueue_outcome m cap ch f (ch', Ready (Ok ()))"
| outcome_dropped:
    "mpsc_same m ch ch' \<Longrightarrow> out_class f = Delta \<Longrightarrow> enqueue_outcome m cap ch f (ch', Ready (Ok ()))"
| outcome_waits:
    "mpsc_same m ch ch' \<Longrightarrow> out_class f = Structural \<Longrightarrow> enqueue_outcome m cap ch f (ch', Awaiting f)"
| outcome_refused:
    "mpsc_same m ch ch' \<Longrightarrow> mpsc_closed m ch \<Longrightarrow> enqueue_outcome m cap ch f (ch', Ready (Err e))"

lemma enqueue_outcomes:
  assumes "mpsc_laws m cap"
  shows "enqueue_outcome m cap ch f (enqueue m ch f)"
proof -
  from assms have law: "case mpsc_try_send m ch f of
        (ch', TrySent) \<Rightarrow> mpsc_accepts m cap ch f ch'
      | (ch', TryFull g) \<Rightarrow> mpsc_same m ch ch' \<and> g = f \<and> \<not> mpsc_closed m ch
      | (ch', TryClosed g) \<Rightarrow> mpsc_same m ch ch' \<and> g = f \<and> mpsc_closed m ch"
    by (simp add: mpsc_laws_def)
  obtain ch' r where r: "mpsc_try_send m ch f = (ch', r)" by fastforce
  show ?thesis
  proof (cases r)
    case (TryFull g)
    with law r show ?thesis
      by (cases "out_class f") (auto simp: enqueue_def intro: outcome_dropped outcome_waits)
  qed (use law r in \<open>auto simp: enqueue_def intro: outcome_sent outcome_refused\<close>)
qed

lemma enqueue_poll_outcomes:
  assumes "mpsc_laws m cap" and "out_class f = Structural"
  shows "enqueue_outcome m cap ch f (enqueue_poll m ch f)"
proof -
  from assms(1) have law: "case mpsc_send m ch f of
        (ch', SendPending) \<Rightarrow> mpsc_same m ch ch' \<and> \<not> mpsc_closed m ch
      | (ch', SendOk) \<Rightarrow> mpsc_accepts m cap ch f ch'
      | (ch', SendErr e) \<Rightarrow> mpsc_same m ch ch' \<and> mpsc_closed m ch"
    by (simp add: mpsc_laws_def)
  obtain ch' r where r: "mpsc_send m ch f = (ch', r)" by fastforce
  show ?thesis
    by (cases r) (use law r assms(2) in
        \<open>auto simp: enqueue_poll_def intro: outcome_sent outcome_waits outcome_refused\<close>)
qed

text \<open>Every outcome keeps the accounting, with the call's frame counted once before it.\<close>

lemma queue_inv_effect:
  assumes inv: "queue_inv m cap s"
    and out: "enqueue_outcome m cap (channel s) f out"
    and ws: "structurals ws = ws"
    and count: "mset (structurals (offered t)) + mset (in_flight s)
                = mset (structurals (offered s)) + mset ws + mset (structurals [f])"
    and same: "channel t = channel s" "accepted t = accepted s" "delivered t = delivered s"
      "refused t = refused s" "abandoned t = abandoned s" "undelivered t = undelivered s"
  shows "queue_inv m cap (enqueue_effect m t f ws out)"
  using out
proof cases
  case (outcome_sent ch')
  with inv ws count same show ?thesis
    by (auto simp: queue_inv_def enqueue_effect_def mpsc_accepts_def)
next
  case (outcome_dropped ch')
  with inv ws count same show ?thesis
    by (auto simp: queue_inv_def enqueue_effect_def mpsc_same_def structurals_def split: if_splits)
next
  case (outcome_waits ch')
  with inv ws count same show ?thesis
    by (auto simp: queue_inv_def enqueue_effect_def mpsc_same_def structurals_def split: if_splits)
next
  case (outcome_refused ch' e)
  with inv ws count same show ?thesis
    by (auto simp: queue_inv_def enqueue_effect_def mpsc_same_def)
qed

lemma queue_inv_exec:
  assumes laws: "mpsc_laws m cap" and inv: "queue_inv m cap s" and run: "queue_exec m s op = Some t"
  shows "queue_inv m cap t"
proof (cases op)
  case (Offer f)
  with run have t: "t = enqueue_effect m (s\<lparr>offered := offered s @ [f]\<rparr>) f (in_flight s)
                          (enqueue m (channel s) f)"
    by simp
  show ?thesis unfolding t
    by (rule queue_inv_effect [OF inv enqueue_outcomes [OF laws]])
       (use inv in \<open>simp_all add: queue_inv_def\<close>)
next
  case (Poll i)
  let ?rest = "take i (in_flight s) @ drop (Suc i) (in_flight s)"
  from Poll run have i: "i < length (in_flight s)"
    and t: "t = enqueue_effect m s (in_flight s ! i) ?rest (enqueue_poll m (channel s) (in_flight s ! i))"
    by (auto split: if_splits)
  from inv have st: "structurals (in_flight s) = in_flight s" by (simp add: queue_inv_def)
  from structurals_nth [OF st i] have f: "out_class (in_flight s ! i) = Structural" .
  show ?thesis unfolding t
    by (rule queue_inv_effect [OF inv enqueue_poll_outcomes [OF laws f] structurals_sublist [OF st]])
       (simp_all add: mset_remove_nth [OF i] structurals_def f del: mset_append)
next
  case (Abandon i)
  let ?rest = "take i (in_flight s) @ drop (Suc i) (in_flight s)"
  from Abandon run have i: "i < length (in_flight s)"
    and t: "t = s\<lparr>in_flight := ?rest, abandoned := abandoned s @ [in_flight s ! i]\<rparr>"
    by (auto split: if_splits)
  from inv have st: "structurals (in_flight s) = in_flight s" by (simp add: queue_inv_def)
  have "structurals [in_flight s ! i] = [in_flight s ! i]"
    using structurals_nth [OF st i] by (simp add: structurals_def)
  with inv structurals_sublist [OF st, of i] show ?thesis unfolding t
    by (simp add: queue_inv_def mset_remove_nth [OF i] del: structurals_simps(2) mset_append)
       (simp add: add_ac)
next
  case Receive
  with run obtain f ch where rc: "mpsc_recv m (channel s) = Some (f, ch)"
    and t: "t = s\<lparr>channel := ch, delivered := delivered s @ [f]\<rparr>" by auto
  from laws rc have "mpsc_contents m (channel s) = f # mpsc_contents m ch"
    "mpsc_closed m ch = mpsc_closed m (channel s)" by (simp_all add: mpsc_laws_def)
  with inv show ?thesis unfolding t by (simp add: queue_inv_def split: if_splits)
next
  case Disconnect
  with run laws inv show ?thesis
    by (auto simp: mpsc_laws_def queue_inv_def split: if_splits)
qed

lemma queue_inv_steps:
  assumes "mpsc_laws m cap"
  shows "steps (queue_step m) s ops t \<Longrightarrow> queue_inv m cap s \<Longrightarrow> queue_inv m cap t"
  by (induction rule: steps.induct) (auto simp: queue_step_def intro: queue_inv_exec [OF assms])

text \<open>
  Claim C39. The outbound queue drops no structural frame while its receiver is there. For every
  bounded channel that behaves as documented and every interleaving of enqueue calls, polls of
  waiting calls, cancellations, receptions and the receiver going away, starting from an empty open channel: the
  channel never holds more than its capacity; frames are delivered in the order the
  channel accepted them; only structural frames ever wait; every structural frame offered is, exactly once, delivered, still
  queued, still waiting, refused with an error, abandoned by a cancelled caller or left
  behind in the queue by the receiver; and none was refused or left behind
  unless the receiver is gone.
\<close>

theorem structural_frames_never_lost:
  assumes "mpsc_laws m cap" and "mpsc_contents m ch = []" and "\<not> mpsc_closed m ch"
    and "steps (queue_step m) (queue_init ch) ops s"
  shows "length (mpsc_contents m (channel s)) \<le> cap
         \<and> prefix (delivered s) (accepted s)
         \<and> structurals (in_flight s) = in_flight s
         \<and> mset (structurals (offered s))
           = mset (structurals (delivered s)) + mset (structurals (mpsc_contents m (channel s)))
             + mset (in_flight s) + mset (structurals (refused s))
             + mset (structurals (abandoned s)) + mset (structurals (undelivered s))
         \<and> (mpsc_closed m (channel s) \<or> refused s = [] \<and> undelivered s = [])"
proof -
  have "queue_inv m cap (queue_init ch)" using assms(2, 3) by (simp add: queue_inv_def queue_init_def)
  from queue_inv_steps [OF assms(1, 4) this] show ?thesis
    by (auto simp: queue_inv_def split: if_splits)
qed

text \<open>
  A channel of capacity one over a list and a run that meets every branch: a frame is queued, a delta is
  dropped, a structural frame waits, is polled in vain and then gets the freed slot, the receiver leaves with
  that frame in the queue, and both a waiting and a new frame are refused.
\<close>

definition list_mpsc :: "nat \<Rightarrow> (OutboundFrame list \<times> bool) Mpsc" where
  "list_mpsc cap =
     \<lparr>mpsc_try_send = (\<lambda>(q, c) f. if c then ((q, c), TryClosed f)
          else if length q < cap then ((q @ [f], c), TrySent) else ((q, c), TryFull f)),
      mpsc_send = (\<lambda>(q, c) f. if c then ((q, c), SendErr ''channel closed'')
          else if length q < cap then ((q @ [f], c), SendOk) else ((q, c), SendPending)),
      mpsc_recv = (\<lambda>(q, c). case q of [] \<Rightarrow> None | f # q' \<Rightarrow> Some (f, (q', c))),
      mpsc_drop = (\<lambda>_. ([], True)), mpsc_contents = fst, mpsc_closed = snd\<rparr>"

lemma list_mpsc_laws: "mpsc_laws (list_mpsc cap) cap"
  by (auto simp: mpsc_laws_def list_mpsc_def mpsc_accepts_def mpsc_same_def split: list.splits)

definition demo_frame :: "string \<Rightarrow> OutboundFrame" where
  "demo_frame mth = structural (Notification mth JNull)"

definition demo_queue :: "(OutboundFrame list \<times> bool) QueueSystem" where
  "demo_queue =
     \<lparr>channel = ([], True), in_flight = [],
      offered = [demo_frame ''a'', delta (Notification ''d'' JNull), demo_frame ''b'', demo_frame ''c'',
                 demo_frame ''e''],
      accepted = [demo_frame ''a'', demo_frame ''b''], delivered = [demo_frame ''a''],
      refused = [demo_frame ''e'', demo_frame ''c''], abandoned = [], undelivered = [demo_frame ''b'']\<rparr>"

fun queue_run :: "'ch Mpsc \<Rightarrow> 'ch QueueSystem \<Rightarrow> queue_op list \<Rightarrow> 'ch QueueSystem option" where
  "queue_run m s [] = Some s"
| "queue_run m s (op # ops) = Option.bind (queue_exec m s op) (\<lambda>t. queue_run m t ops)"

lemma queue_run_steps: "queue_run m s ops = Some t \<Longrightarrow> steps (queue_step m) s ops t"
  by (induction ops arbitrary: s) (auto simp: steps_Cons_iff queue_step_def Option.bind_eq_Some_conv)

lemma demo_queue_steps:
  "steps (queue_step (list_mpsc 1)) (queue_init ([], False))
     [Offer (demo_frame ''a''), Offer (delta (Notification ''d'' JNull)), Offer (demo_frame ''b''), Poll 0, Receive,
      Poll 0, Offer (demo_frame ''c''), Disconnect, Offer (demo_frame ''e''), Poll 0]
     demo_queue"
  by (rule queue_run_steps) code_simp

theorem structural_frames_never_lost_witness:
  "mset (structurals (offered demo_queue))
   = mset (structurals (delivered demo_queue))
     + mset (structurals (mpsc_contents (list_mpsc 1) (channel demo_queue)))
     + mset (in_flight demo_queue) + mset (structurals (refused demo_queue))
     + mset (structurals (abandoned demo_queue)) + mset (structurals (undelivered demo_queue))
   \<and> delivered demo_queue = [demo_frame ''a''] \<and> undelivered demo_queue = [demo_frame ''b'']
   \<and> refused demo_queue = [demo_frame ''e'', demo_frame ''c'']"
  using structural_frames_never_lost [OF list_mpsc_laws _ _ demo_queue_steps]
  by (simp add: list_mpsc_def demo_queue_def)

end
