(* ===== verification/Network_Policy_Model.thy ===== *)
theory Network_Policy_Model
  imports Rust_Prelude "HOL-Library.Word"
begin

section \<open>Network egress policy (zen-core/src/network_policy.rs)\<close>

text \<open>
  The allow list and the private-range denial a request target has to pass. Addresses are the
  octets and segments of the standard library, at their width; parsing of URLs is the \<open>url\<close>
  crate's and a parameter, which yields the host of the URL or an error text.
\<close>

unbundle bit_operations_syntax

subsection \<open>Addresses\<close>

datatype Ipv4Addr = Ipv4 "8 word" "8 word" "8 word" "8 word"

datatype Ipv6Addr = Ipv6 "16 word list"

datatype IpAddr = V4 Ipv4Addr | V6 Ipv6Addr

datatype Host = Domain string | HostV4 Ipv4Addr | HostV6 Ipv6Addr

fun v4_is_loopback :: "Ipv4Addr \<Rightarrow> bool" where
  "v4_is_loopback (Ipv4 a _ _ _) = (a = 127)"

fun v4_is_link_local :: "Ipv4Addr \<Rightarrow> bool" where
  "v4_is_link_local (Ipv4 a b _ _) = (a = 169 \<and> b = 254)"

fun v4_is_private :: "Ipv4Addr \<Rightarrow> bool" where
  "v4_is_private (Ipv4 a b _ _) =
     (a = 10 \<or> a = 172 \<and> 16 \<le> b \<and> b \<le> 31 \<or> a = 192 \<and> b = 168)"

fun v4_is_unspecified :: "Ipv4Addr \<Rightarrow> bool" where
  "v4_is_unspecified (Ipv4 a b c d) = (a = 0 \<and> b = 0 \<and> c = 0 \<and> d = 0)"

fun segments :: "Ipv6Addr \<Rightarrow> 16 word list" where
  "segments (Ipv6 ss) = ss"

definition segment :: "Ipv6Addr \<Rightarrow> nat \<Rightarrow> 16 word" where
  "segment v6 i = segments v6 ! i"

definition v6_is_loopback :: "Ipv6Addr \<Rightarrow> bool" where
  "v6_is_loopback v6 \<longleftrightarrow> segments v6 = [0, 0, 0, 0, 0, 0, 0, 1]"

definition v6_is_unspecified :: "Ipv6Addr \<Rightarrow> bool" where
  "v6_is_unspecified v6 \<longleftrightarrow> segments v6 = [0, 0, 0, 0, 0, 0, 0, 0]"

definition high_byte :: "16 word \<Rightarrow> 8 word" where
  "high_byte s = ucast (drop_bit 8 s)"

definition low_byte :: "16 word \<Rightarrow> 8 word" where
  "low_byte s = ucast s"

definition to_ipv4_mapped :: "Ipv6Addr \<Rightarrow> Ipv4Addr option" where
  "to_ipv4_mapped v6 =
     (case segments v6 of
        [a, b, c, d, e, f, g, h] \<Rightarrow>
          if a = 0 \<and> b = 0 \<and> c = 0 \<and> d = 0 \<and> e = 0 \<and> f = 0xFFFF
          then Some (Ipv4 (high_byte g) (low_byte g) (high_byte h) (low_byte h)) else None
      | _ \<Rightarrow> None)"

text \<open>The mapped form of an IPv4 address, \<open>::ffff:a.b.c.d\<close>.\<close>

fun to_ipv6_mapped :: "Ipv4Addr \<Rightarrow> Ipv6Addr" where
  "to_ipv6_mapped (Ipv4 a b c d) =
     Ipv6 [0, 0, 0, 0, 0, 0xFFFF, push_bit 8 (ucast a) OR ucast b, push_bit 8 (ucast c) OR ucast d]"

subsubsection \<open>Printing addresses\<close>

fun hex_str :: "nat \<Rightarrow> string" where
  "hex_str n = (if n < 16 then [hex_digit n] else hex_str (n div 16) @ [hex_digit (n mod 16)])"

declare hex_str.simps [simp del]

fun v4_str :: "Ipv4Addr \<Rightarrow> string" where
  "v4_str (Ipv4 a b c d) =
     nat_str (unat a) @ ''.'' @ nat_str (unat b) @ ''.'' @ nat_str (unat c) @ ''.'' @ nat_str (unat d)"

text \<open>The first longest run of zero segments, as its start and length.\<close>

fun zero_run :: "nat \<Rightarrow> nat \<times> nat \<Rightarrow> nat \<times> nat \<Rightarrow> 16 word list \<Rightarrow> nat \<times> nat" where
  "zero_run i cur best [] = best"
| "zero_run i (st, n) best (s # ss) =
     (if s = 0 then
        let cur = (if n = 0 then i else st, n + 1)
        in zero_run (i + 1) cur (if snd best < n + 1 then cur else best) ss
      else zero_run (i + 1) (0, 0) best ss)"

definition v6_str :: "Ipv6Addr \<Rightarrow> string" where
  "v6_str v6 =
     (case to_ipv4_mapped v6 of
        Some v4 \<Rightarrow> ''::ffff:'' @ v4_str v4
      | None \<Rightarrow>
          let hex = (\<lambda>ss. str_join '':'' (map (\<lambda>s. hex_str (unat s)) ss));
              (st, n) = zero_run 0 (0, 0) (0, 0) (segments v6)
          in if 1 < n then hex (take st (segments v6)) @ ''::'' @ hex (drop (st + n) (segments v6))
             else hex (segments v6))"

fun ip_str :: "IpAddr \<Rightarrow> string" where
  "ip_str (V4 v4) = v4_str v4"
| "ip_str (V6 v6) = v6_str v6"

subsection \<open>The policy\<close>

record NetworkPolicy =
  allow_hosts :: "string list"
  allow_private_ranges :: bool

definition with_allow_hosts :: "string list \<Rightarrow> NetworkPolicy" where
  "with_allow_hosts hosts = \<lparr>allow_hosts = hosts, allow_private_ranges = False\<rparr>"

definition policy_from_config_dir :: NetworkPolicy where
  "policy_from_config_dir = with_allow_hosts [''localhost'', ''127.0.0.1'']"

definition entry_allows :: "string \<Rightarrow> string \<Rightarrow> bool" where
  "entry_allows lowered allowed =
     (case strip_prefix allowed ''*.'' of
        Some sfx \<Rightarrow> lowered = sfx \<or> ends_with lowered (''.'' @ sfx)
      | None \<Rightarrow> lowered = to_lowercase allowed)"

definition host_allowed :: "NetworkPolicy \<Rightarrow> string \<Rightarrow> bool" where
  "host_allowed p host = list_ex (entry_allows (to_lowercase host)) (allow_hosts p)"

fun v4_blocked :: "Ipv4Addr \<Rightarrow> bool" where
  "v4_blocked (Ipv4 a b c d) =
     (v4_is_loopback (Ipv4 a b c d) \<or> v4_is_link_local (Ipv4 a b c d) \<or> v4_is_private (Ipv4 a b c d)
      \<or> v4_is_unspecified (Ipv4 a b c d) \<or> a = 169 \<and> b = 254)"

definition v6_blocked :: "Ipv6Addr \<Rightarrow> bool" where
  "v6_blocked v6 \<longleftrightarrow>
     v6_is_loopback v6 \<or> v6_is_unspecified v6
     \<or> (case to_ipv4_mapped v6 of Some v4 \<Rightarrow> v4_blocked v4 | None \<Rightarrow> False)
     \<or> segment v6 0 AND 0xFFC0 = 0xFE80
     \<or> segment v6 0 AND 0xFE00 = 0xFC00"

fun is_blocked_ip :: "IpAddr \<Rightarrow> bool" where
  "is_blocked_ip (V4 v4) = v4_blocked v4"
| "is_blocked_ip (V6 v6) = v6_blocked v6"

definition BLOCKED_HOSTS :: "string list" where
  "BLOCKED_HOSTS = [''metadata.google.internal'', ''metadata.goog'']"

definition validate_domain :: "NetworkPolicy \<Rightarrow> string \<Rightarrow> (unit, string) result" where
  "validate_domain p d =
     (if host_allowed p d then Ok ()
      else if \<not> allow_private_ranges p \<and> to_lowercase d \<in> set BLOCKED_HOSTS
      then Err (''blocked by network policy: '' @ d @ '' is a metadata endpoint'')
      else Ok ())"

definition validate_ip :: "NetworkPolicy \<Rightarrow> IpAddr \<Rightarrow> (unit, string) result" where
  "validate_ip p ip =
     (if host_allowed p (ip_str ip) then Ok ()
      else if \<not> allow_private_ranges p \<and> is_blocked_ip ip
      then Err (''blocked by network policy: '' @ ip_str ip @ '' is a non-public address'')
      else Ok ())"

definition validate_url ::
  "(string \<Rightarrow> (Host option, string) result) \<Rightarrow> NetworkPolicy \<Rightarrow> string \<Rightarrow> (unit, string) result" where
  "validate_url parse_url p url =
     (case parse_url url of
        Err e \<Rightarrow> Err (''invalid URL: '' @ e)
      | Ok None \<Rightarrow> Err ''URL has no host''
      | Ok (Some (Domain d)) \<Rightarrow> validate_domain p d
      | Ok (Some (HostV4 v4)) \<Rightarrow> validate_ip p (V4 v4)
      | Ok (Some (HostV6 v6)) \<Rightarrow> validate_ip p (V6 v6))"

subsection \<open>Properties\<close>

lemma mapped_bytes:
  "high_byte (push_bit 8 (ucast a) OR ucast b) = a" "low_byte (push_bit 8 (ucast a) OR ucast b) = b"
  unfolding high_byte_def low_byte_def
  by (rule bit_word_eqI, auto simp: bit_simps dest: bit_imp_le_length)+

lemma to_ipv4_mapped_mapped [simp]: "to_ipv4_mapped (to_ipv6_mapped v4) = Some v4"
  by (cases v4) (simp add: to_ipv4_mapped_def mapped_bytes)

text \<open>The two masks of the code as the ranges they stand for.\<close>

lemma and_mask_int:
  "(a :: int) AND mask (m + n) AND NOT (mask n) = (a div 2 ^ n mod 2 ^ m) * 2 ^ n"
  by (simp add: push_bit_eq_mult take_bit_eq_mod drop_bit_eq_div
      flip: slice_eq_mask)

lemma link_local_mask: "(s :: 16 word) AND 0xFFC0 = 0xFE80 \<longleftrightarrow> 0xFE80 \<le> s \<and> s \<le> 0xFEBF"
proof -
  have "uint (s AND 0xFFC0) = (uint s div 64 mod 1024) * 64"
    using and_mask_int [of "uint s" 10 6] by (simp add: uint_and mask_eq_exp_minus_1 and.assoc)
  moreover have "0 \<le> uint s" "uint s < 65536" using uint_lt2p [of s] by simp_all
  ultimately show ?thesis by (auto simp: word_uint_eq_iff word_le_def)
qed

lemma unique_local_mask: "(s :: 16 word) AND 0xFE00 = 0xFC00 \<longleftrightarrow> 0xFC00 \<le> s \<and> s \<le> 0xFDFF"
proof -
  have "uint (s AND 0xFE00) = (uint s div 512 mod 128) * 512"
    using and_mask_int [of "uint s" 7 9] by (simp add: uint_and mask_eq_exp_minus_1 and.assoc)
  moreover have "0 \<le> uint s" "uint s < 65536" using uint_lt2p [of s] by simp_all
  ultimately show ?thesis by (auto simp: word_uint_eq_iff word_le_def)
qed

lemma v6_blocked_ranges:
  "v6_blocked (Ipv6 (s # ss)) \<longleftrightarrow>
     s # ss = [0, 0, 0, 0, 0, 0, 0, 1] \<or> s # ss = [0, 0, 0, 0, 0, 0, 0, 0]
     \<or> (case to_ipv4_mapped (Ipv6 (s # ss)) of Some v4 \<Rightarrow> v4_blocked v4 | None \<Rightarrow> False)
     \<or> 0xFE80 \<le> s \<and> s \<le> 0xFEBF \<or> 0xFC00 \<le> s \<and> s \<le> 0xFDFF"
  unfolding v6_blocked_def link_local_mask unique_local_mask
  by (simp add: v6_is_loopback_def v6_is_unspecified_def segment_def)

lemma mapped_blocked: "v6_blocked (to_ipv6_mapped v4) \<longleftrightarrow> v4_blocked v4"
proof (cases v4)
  case (Ipv4 a b c d)
  then have "to_ipv6_mapped v4 = Ipv6 (0 # tl (segments (to_ipv6_mapped v4)))" by simp
  then have "v6_blocked (to_ipv6_mapped v4) \<longleftrightarrow>
      (case to_ipv4_mapped (to_ipv6_mapped v4) of Some v4 \<Rightarrow> v4_blocked v4 | None \<Rightarrow> False)"
    using v6_blocked_ranges [of 0 "tl (segments (to_ipv6_mapped v4))"] Ipv4 by simp
  then show ?thesis by simp
qed

text \<open>
  No private target passes the policy in another spelling: unless private ranges are
  allowed or the printed address is on the allow list, a URL whose host is an IPv4 address is
  refused exactly when the address is loopback, link-local, private or unspecified, and a URL
  whose host is the IPv4-mapped IPv6 form of an address is refused in exactly the same cases.
\<close>

theorem private_targets_refused:
  assumes "\<not> allow_private_ranges p"
    and "parse_url u4 = Ok (Some (HostV4 (Ipv4 a b c d)))" "\<not> host_allowed p (v4_str (Ipv4 a b c d))"
    and "parse_url u6 = Ok (Some (HostV6 (to_ipv6_mapped (Ipv4 a b c d))))"
      "\<not> host_allowed p (''::ffff:'' @ v4_str (Ipv4 a b c d))"
  shows "(is_ok (validate_url parse_url p u4) \<longleftrightarrow>
            \<not> (a = 127 \<or> a = 10 \<or> a = 172 \<and> 16 \<le> b \<and> b \<le> 31 \<or> a = 192 \<and> b = 168
               \<or> a = 169 \<and> b = 254 \<or> a = 0 \<and> b = 0 \<and> c = 0 \<and> d = 0))
         \<and> (is_ok (validate_url parse_url p u6) \<longleftrightarrow> is_ok (validate_url parse_url p u4))"
proof -
  have "v6_str (to_ipv6_mapped (Ipv4 a b c d)) = ''::ffff:'' @ v4_str (Ipv4 a b c d)"
    by (simp only: v6_str_def to_ipv4_mapped_mapped option.case)
  with assms mapped_blocked [of "Ipv4 a b c d"] show ?thesis
    by (simp add: validate_url_def validate_ip_def del: to_ipv6_mapped.simps v4_str.simps)
qed

definition demo_parse_url :: "string \<Rightarrow> (Host option, string) result" where
  "demo_parse_url u =
     (if u = ''http://169.254.169.254/'' then Ok (Some (HostV4 (Ipv4 169 254 169 254)))
      else if u = ''http://[::ffff:a9fe:a9fe]/'' then Ok (Some (HostV6 (to_ipv6_mapped (Ipv4 169 254 169 254))))
      else Err ''relative URL without a base'')"

lemma nat_str_octets: "nat_str 169 = ''169''" "nat_str 254 = ''254''"
  by code_simp+

theorem private_targets_refused_witness:
  "\<not> is_ok (validate_url demo_parse_url policy_from_config_dir ''http://169.254.169.254/'')
   \<and> \<not> is_ok (validate_url demo_parse_url policy_from_config_dir ''http://[::ffff:a9fe:a9fe]/'')"
proof -
  let ?a = "Ipv4 169 254 169 254"
  have str: "v4_str ?a = ''169.254.169.254''" by (simp add: nat_str_octets)
  have "\<not> host_allowed policy_from_config_dir ''169.254.169.254''"
    "\<not> host_allowed policy_from_config_dir ''::ffff:169.254.169.254''"
    by code_simp+
  then have "\<not> host_allowed policy_from_config_dir (v4_str ?a)"
      "\<not> host_allowed policy_from_config_dir (''::ffff:'' @ v4_str ?a)"
    by (simp_all add: str del: v4_str.simps)
  moreover have "\<not> allow_private_ranges policy_from_config_dir"
    by (simp add: policy_from_config_dir_def with_allow_hosts_def)
  moreover have "demo_parse_url ''http://169.254.169.254/'' = Ok (Some (HostV4 ?a))"
      "demo_parse_url ''http://[::ffff:a9fe:a9fe]/'' = Ok (Some (HostV6 (to_ipv6_mapped ?a)))"
    by (simp_all add: demo_parse_url_def del: to_ipv6_mapped.simps)
  ultimately show ?thesis
    using private_targets_refused
      [of policy_from_config_dir demo_parse_url "''http://169.254.169.254/''" 169 254 169 254
          "''http://[::ffff:a9fe:a9fe]/''"] by simp
qed

text \<open>A wildcard entry matches at a dot boundary only.\<close>

lemma wildcard_dot_boundary:
  assumes "x \<noteq> []" "last x \<noteq> CHR ''.''"
  shows "\<not> entry_allows (x @ d) (''*.'' @ d)"
proof
  assume "entry_allows (x @ d) (''*.'' @ d)"
  then have "x @ d = d \<or> ends_with (x @ d) (''.'' @ d)"
    by (simp add: entry_allows_def strip_prefix_def)
  with assms(1) obtain y where "x = y @ ''.''" by (auto simp: suffix_def)
  with assms(2) show False by simp
qed

text \<open>The suffix of a wildcard entry is compared as written, so one with an upper-case letter never matches.\<close>

lemma wildcard_upper_never_matches:
  assumes "c \<in> set d" "is_upper c"
  shows "\<not> host_allowed (with_allow_hosts [''*.'' @ d]) host"
  using assms to_lowercase_no_upper [of c host]
  by (auto simp: host_allowed_def with_allow_hosts_def entry_allows_def strip_prefix_def suffix_def)

end
