(* ===== verification/Role_Validate.thy ===== *)
theory Role_Validate
  imports Rust_Prelude
begin

section \<open>Role separation (zen-core/src/validate.rs)\<close>

text \<open>
  The validator that keeps agent roles away from the protected files of the zen tree and from
  the restricted commands. A path is its string; \<open>Path::starts_with\<close> and \<open>file_name\<close> work on
  its components, as in the standard library: separators are collapsed, a \<open>.\<close> after the first
  component is dropped and \<open>..\<close> is kept.
\<close>

subsection \<open>Paths\<close>

datatype component = RootDir | CurDir | ParentDir | Normal string

fun part_component :: "string \<Rightarrow> component" where
  "part_component s = (if s = ''..'' then ParentDir else Normal s)"

definition components :: "string \<Rightarrow> component list" where
  "components p =
     (let parts = split_on (\<lambda>c. c = CHR ''/'') p;
          lead = (if starts_with p ''/'' then [RootDir] else if hd parts = ''.'' then [CurDir] else [])
      in lead @ map part_component (filter (\<lambda>s. s \<noteq> [] \<and> s \<noteq> ''.'') parts))"

definition path_starts_with :: "string \<Rightarrow> string \<Rightarrow> bool" where
  "path_starts_with p base \<longleftrightarrow> prefix (components base) (components p)"

definition file_name :: "string \<Rightarrow> string option" where
  "file_name p =
     (if components p = [] then None
      else (case last (components p) of Normal s \<Rightarrow> Some s | _ \<Rightarrow> None))"

subsection \<open>The validator\<close>

definition PROTECTED_NAMES :: "string list" where
  "PROTECTED_NAMES = [''SOUL.md'', ''AGENTS.md'', ''MEMORY.md'']"

definition PROTECTED_DIRS :: "string list" where
  "PROTECTED_DIRS = [''wiki'', ''skills'', ''plugins'']"

definition PROTECTED_FILES :: "string list" where
  "PROTECTED_FILES = [''config.toml'']"

definition RESTRICTED_COMMANDS :: "string list" where
  "RESTRICTED_COMMANDS = [''qq_bot_capture'', ''qq_bot_edit'', ''cli_note'', ''note_edit'']"

datatype SafetyLevel = Safe | Warning | Protected

record ValidationResult =
  allowed :: bool
  sensitivity :: SafetyLevel
  reason :: "string option"
  matched_rule :: "string option"

datatype ValidationError = SafetyBlock string | Invalid string

record RoleSeparationValidator =
  zen_root :: string

definition is_in_zen_tree :: "RoleSeparationValidator \<Rightarrow> string \<Rightarrow> bool" where
  "is_in_zen_tree v path = path_starts_with path (zen_root v)"

definition is_protected_path :: "RoleSeparationValidator \<Rightarrow> string \<Rightarrow> bool" where
  "is_protected_path v path =
     (list_ex (\<lambda>name. ends_with path name \<and> is_in_zen_tree v path) PROTECTED_NAMES
      \<or> list_ex (\<lambda>dir. (str_contains path (''/'' @ dir @ ''/'') \<or> ends_with path (''/'' @ dir))
                        \<and> is_in_zen_tree v path) PROTECTED_DIRS
      \<or> list_ex (\<lambda>f. ends_with path f \<and> is_in_zen_tree v path) PROTECTED_FILES)"

definition check_path_modification :: "RoleSeparationValidator \<Rightarrow> string \<Rightarrow> ValidationResult" where
  "check_path_modification v path =
     (if is_protected_path v path then
        let name = (case file_name path of Some n \<Rightarrow> n | None \<Rightarrow> path)
        in \<lparr>allowed = False, sensitivity = Protected,
            reason = Some (''path '' @ [CHR 39] @ name @ [CHR 39] @ '' is protected by role separation policy''),
            matched_rule = Some (''protected_path:'' @ name)\<rparr>
      else \<lparr>allowed = True, sensitivity = (if is_in_zen_tree v path then Warning else Safe),
            reason = None, matched_rule = None\<rparr>)"

definition check_command_allowed :: "string \<Rightarrow> ValidationResult" where
  "check_command_allowed command =
     (if list_ex (\<lambda>rc. str_contains (to_lowercase command) rc) RESTRICTED_COMMANDS then
        \<lparr>allowed = False, sensitivity = Protected,
         reason = Some (''command '' @ [CHR 39] @ command @ [CHR 39] @ '' is restricted by role separation policy''),
         matched_rule = Some (''restricted_command:'' @ command)\<rparr>
      else \<lparr>allowed = True, sensitivity = Safe, reason = None, matched_rule = None\<rparr>)"

definition guard_result :: "ValidationResult \<Rightarrow> (ValidationResult, ValidationError) result" where
  "guard_result r =
     (if \<not> allowed r then Err (SafetyBlock (case reason r of Some s \<Rightarrow> s | None \<Rightarrow> []))
      else Ok r)"

definition validate_path_modification ::
  "RoleSeparationValidator \<Rightarrow> string \<Rightarrow> (ValidationResult, ValidationError) result" where
  "validate_path_modification v path = guard_result (check_path_modification v path)"

definition validate_command :: "string \<Rightarrow> (ValidationResult, ValidationError) result" where
  "validate_command command = guard_result (check_command_allowed command)"

subsection \<open>Properties\<close>

lemma in_tree_iff_components:
  "is_in_zen_tree v path \<longleftrightarrow> prefix (components (zen_root v)) (components path)"
  by (simp add: is_in_zen_tree_def path_starts_with_def)

text \<open>
  The verdict on a path modification follows the tree and the protected names: a path
  outside the zen tree is always accepted as safe, a protected path inside it is refused with
  a safety block naming its file, and any other path inside it is accepted with a warning.
\<close>

theorem validate_path_verdict:
  "validate_path_modification v path =
     (if \<not> is_in_zen_tree v path
      then Ok \<lparr>allowed = True, sensitivity = Safe, reason = None, matched_rule = None\<rparr>
      else if (\<exists>n \<in> set (PROTECTED_NAMES @ PROTECTED_FILES). ends_with path n)
              \<or> (\<exists>d \<in> set PROTECTED_DIRS. str_contains path (''/'' @ d @ ''/'') \<or> ends_with path (''/'' @ d))
      then Err (SafetyBlock (''path '' @ [CHR 39] @ (case file_name path of Some n \<Rightarrow> n | None \<Rightarrow> path)
             @ [CHR 39] @ '' is protected by role separation policy''))
      else Ok \<lparr>allowed = True, sensitivity = Warning, reason = None, matched_rule = None\<rparr>)"
  by (auto simp: validate_path_modification_def guard_result_def check_path_modification_def
      is_protected_path_def list_ex_iff Let_def)

text \<open>
  The check is on the path as written: a parent component that re-enters the tree from outside
  hides a protected file from it.
\<close>

lemma parent_component_evades:
  "validate_path_modification \<lparr>zen_root = ''/home/u/.zen''\<rparr> ''/home/u/tmp/../.zen/SOUL.md''
   = Ok \<lparr>allowed = True, sensitivity = Safe, reason = None, matched_rule = None\<rparr>"
  by code_simp

lemma direct_path_refused:
  "validate_path_modification \<lparr>zen_root = ''/home/u/.zen''\<rparr> ''/home/u/.zen/SOUL.md''
   = Err (SafetyBlock (''path '' @ [CHR 39] @ ''SOUL.md'' @ [CHR 39] @ '' is protected by role separation policy''))"
  by code_simp

text \<open>Command restriction is insensitive to case and to what surrounds the command.\<close>

lemma restricted_command_blocked:
  assumes "rc \<in> set RESTRICTED_COMMANDS" "to_lowercase command = a @ rc @ b"
  shows "validate_command command =
    Err (SafetyBlock (''command '' @ [CHR 39] @ command @ [CHR 39] @ '' is restricted by role separation policy''))"
proof -
  have "str_contains (to_lowercase command) rc" using assms(2) by (auto simp: str_contains_iff)
  with assms(1) show ?thesis
    by (auto simp: validate_command_def guard_result_def check_command_allowed_def list_ex_iff)
qed

end
