(* ===== verification/Env_Scrub_Model.thy ===== *)
theory Env_Scrub_Model
  imports Rust_Prelude
begin

section \<open>Child environments (zen-core/src/env\_scrub.rs, process\_hardening.rs)\<close>

text \<open>
  What a child process inherits: the parent environment and the caller's entries, both without
  secret-bearing and loader-injection variables, and the stripping of the process's own
  environment at startup. An environment is the list of its variables in iteration order,
  the result a map; the injected hash map is a list of its entries. The debugger and core-dump
  calls of \<open>init\<close> are system calls outside the model.
\<close>

definition ALWAYS_SCRUB :: "string list" where
  "ALWAYS_SCRUB =
     [''OPENAI_API_KEY'', ''ANTHROPIC_API_KEY'', ''BRAVE_SEARCH_API_KEY'', ''TAVILY_API_KEY'',
      ''GITHUB_TOKEN'', ''AWS_SECRET_ACCESS_KEY'']"

definition SCRUB_SUFFIXES :: "string list" where
  "SCRUB_SUFFIXES = [''_API_KEY'', ''_TOKEN'', ''_SECRET'', ''_PASSWORD'', ''_CREDENTIAL'']"

record EnvScrubConfig =
  extra_scrub :: "string list"
  allowlist :: "string list"

definition is_secret_var :: "string \<Rightarrow> EnvScrubConfig \<Rightarrow> bool" where
  "is_secret_var name config =
     (if name \<in> set (allowlist config) then False
      else if name \<in> set ALWAYS_SCRUB then True
      else if name \<in> set (extra_scrub config) then True
      else list_ex (\<lambda>sfx. ends_with (to_uppercase name) sfx) SCRUB_SUFFIXES)"

definition is_loader_injection_var :: "string \<Rightarrow> bool" where
  "is_loader_injection_var name \<longleftrightarrow>
     name = ''LD_PRELOAD'' \<or> name = ''LD_LIBRARY_PATH'' \<or> name = ''DYLD_INSERT_LIBRARIES''
     \<or> name = ''DYLD_LIBRARY_PATH''"

type_synonym env = "(string \<times> string) list"

text \<open>Collecting pairs into a hash map: a later pair replaces an earlier one.\<close>

definition collect :: "env \<Rightarrow> (string \<rightharpoonup> string) \<Rightarrow> (string \<rightharpoonup> string)" where
  "collect kvs m = fold (\<lambda>(k, v) m. m(k \<mapsto> v)) kvs m"

definition scrubbed_env :: "env \<Rightarrow> env \<Rightarrow> EnvScrubConfig \<Rightarrow> (string \<rightharpoonup> string)" where
  "scrubbed_env vars inject config =
     (let out = collect (filter (\<lambda>(name, _). \<not> is_loader_injection_var name)
                  (filter (\<lambda>(name, _). \<not> is_secret_var name config) vars)) Map.empty
      in fold (\<lambda>(k, v) m.
           if \<not> is_secret_var k config \<and> \<not> is_loader_injection_var k then m(k \<mapsto> v) else m) inject out)"

definition DANGEROUS_ENV_VARS :: "string list" where
  "DANGEROUS_ENV_VARS = [''LD_PRELOAD'', ''LD_LIBRARY_PATH'', ''DYLD_INSERT_LIBRARIES'', ''DYLD_LIBRARY_PATH'']"

definition is_dangerous_env_var :: "string \<Rightarrow> bool" where
  "is_dangerous_env_var name \<longleftrightarrow> name \<in> set DANGEROUS_ENV_VARS"

text \<open>The two passes of \<open>strip_dangerous_env\<close>: collect the names, then remove each of them.\<close>

definition strip_dangerous_env :: "env \<Rightarrow> env" where
  "strip_dangerous_env vars =
     (let to_remove = map fst (filter (\<lambda>(name, _). is_dangerous_env_var name) vars)
      in fold (\<lambda>name vs. filter (\<lambda>(n, _). n \<noteq> name) vs) to_remove vars)"

subsection \<open>Properties\<close>

lemma collect_eq: "collect kvs m k = (case map_of (rev kvs) k of Some v \<Rightarrow> Some v | None \<Rightarrow> m k)"
  unfolding collect_def
  by (induction kvs arbitrary: m) (auto simp: map_of_append map_add_def split: option.splits)

lemma fold_guarded:
  "fold (\<lambda>(k, v) m. if P k then m(k \<mapsto> v) else m) kvs m = collect (filter (\<lambda>(k, _). P k) kvs) m"
  unfolding collect_def by (induction kvs arbitrary: m) auto

lemma map_of_filter_key: "map_of (filter (\<lambda>(k, _). P k) kvs) k = (if P k then map_of kvs k else None)"
  by (induction kvs) auto

text \<open>
  A child environment holds no secret-bearing and no loader-injection variable, from
  neither the parent nor the injected entries; every other variable has the injected value
  when there is one and the inherited value otherwise.
\<close>

theorem scrubbed_env_lookup:
  "scrubbed_env vars inject config k =
     (if is_secret_var k config \<or> is_loader_injection_var k then None
      else case map_of (rev inject) k of Some v \<Rightarrow> Some v | None \<Rightarrow> map_of (rev vars) k)"
  by (simp add: scrubbed_env_def Let_def fold_guarded collect_eq rev_filter map_of_filter_key
      del: filter_filter split: option.splits)

lemma loader_vars_mirror: "is_loader_injection_var = is_dangerous_env_var"
  by (rule ext) (auto simp: is_loader_injection_var_def is_dangerous_env_var_def DANGEROUS_ENV_VARS_def)

lemma fold_remove: "fold (\<lambda>name vs. filter (\<lambda>(n, _). n \<noteq> name) vs) ns vs = filter (\<lambda>(n, _). n \<notin> set ns) vs"
  by (induction ns arbitrary: vs) (auto intro!: filter_cong)

lemma strip_dangerous_env_eq: "strip_dangerous_env vars = filter (\<lambda>(n, _). \<not> is_dangerous_env_var n) vars"
  by (force simp: strip_dangerous_env_def fold_remove intro!: filter_cong)

text \<open>The startup stripping removes nothing a child would have received.\<close>

lemma scrub_after_strip: "scrubbed_env (strip_dangerous_env vars) inject config = scrubbed_env vars inject config"
proof -
  have "filter (\<lambda>(n, _). \<not> is_loader_injection_var n)
          (filter (\<lambda>(n, _). \<not> is_secret_var n config) (strip_dangerous_env vars))
        = filter (\<lambda>(n, _). \<not> is_loader_injection_var n) (filter (\<lambda>(n, _). \<not> is_secret_var n config) vars)"
    by (auto simp: strip_dangerous_env_eq loader_vars_mirror intro!: filter_cong)
  then show ?thesis by (simp add: scrubbed_env_def)
qed

end
