(* ===== verification/Secrets_Guard.thy ===== *)
theory Secrets_Guard
  imports Complex_Main Env_Scrub_Model
begin

section \<open>Secrets guard (zen-core/src/secrets\_guard.rs)\<close>

text \<open>
  Redaction of secrets before text leaves for a provider and their restoration in the reply.
  The regular expressions are the \<open>regex\<close> crate's: \<open>captures_iter\<close> is a parameter that gives, for
  a rule and a text, the spans of the matches and of the group \<open>value\<close>. Spans are byte ranges, as in
  the code. The entropy is the real number the floating-point sum stands for. The hash of the
  audit fingerprint is not modelled.
\<close>

subsection \<open>Rules\<close>

definition bracket_open :: string where
  "bracket_open = [CHR 0xE2, CHR 0x9F, CHR 0xA6]"

definition bracket_close :: string where
  "bracket_close = [CHR 0xE2, CHR 0x9F, CHR 0xA7]"

definition PLACEHOLDER_PREFIX :: string where
  "PLACEHOLDER_PREFIX = bracket_open @ ''SECRET_''"

definition PLACEHOLDER_SUFFIX :: string where
  "PLACEHOLDER_SUFFIX = bracket_close"

definition MIN_CORPUS_LEN :: nat where
  "MIN_CORPUS_LEN = 8"

text \<open>A rule; \<open>names_value\<close> says whether its pattern has a group named \<open>value\<close>.\<close>

record SecretRule =
  kind :: string
  min_entropy :: real
  group :: bool
  allow_newlines :: bool
  names_value :: bool

definition prefix_rule :: "string \<Rightarrow> SecretRule" where
  "prefix_rule k =
     \<lparr>kind = k, min_entropy = 0, group = False, allow_newlines = False, names_value = False\<rparr>"

definition credential_rules :: "SecretRule list" where
  "credential_rules =
     [prefix_rule ''github_pat'', prefix_rule ''aws_access_key'', prefix_rule ''openai_key'',
      prefix_rule ''openai_legacy_key'', prefix_rule ''jwt'', prefix_rule ''stripe_key'',
      (prefix_rule ''bearer_token'')\<lparr>group := True\<rparr>,
      (prefix_rule ''generic_credential'')\<lparr>min_entropy := 7 / 2, group := True, names_value := True\<rparr>]"

definition block_rules :: "SecretRule list" where
  "block_rules =
     [(prefix_rule ''private_key_block'')\<lparr>allow_newlines := True\<rparr>, prefix_rule ''private_key_header'',
      (prefix_rule ''url_credentials'')\<lparr>group := True, names_value := True\<rparr>,
      (prefix_rule ''basic_auth_header'')\<lparr>group := True, names_value := True\<rparr>]"

definition token_rules :: "SecretRule list" where
  "token_rules =
     [prefix_rule ''github_fine_grained_pat'', prefix_rule ''github_app_token'', prefix_rule ''gitlab_pat'',
      prefix_rule ''slack_token'', prefix_rule ''anthropic_key'', prefix_rule ''huggingface_token'',
      prefix_rule ''npm_token'', prefix_rule ''discord_bot_token'',
      (prefix_rule ''base64_high_entropy'')\<lparr>min_entropy := 9 / 2\<rparr>,
      (prefix_rule ''hex_high_entropy'')\<lparr>min_entropy := 3\<rparr>]"

definition owned_default :: "SecretRule list" where
  "owned_default = credential_rules @ block_rules @ token_rules"

text \<open>Shannon entropy in bits per byte.\<close>

definition shannon_entropy :: "string \<Rightarrow> real" where
  "shannon_entropy s =
     (if s = [] then 0
      else sum_list (map (\<lambda>b. let p = real (count_list s b) / real (length s) in - p * log 2 p) (remdups s)))"

subsection \<open>Detection\<close>

type_synonym span = "nat \<times> nat"

text \<open>A match: its span and the span of the group \<open>value\<close>, when it took part.\<close>

type_synonym captures = "SecretRule \<Rightarrow> string \<Rightarrow> (span \<times> span option) list"

definition slice :: "string \<Rightarrow> span \<Rightarrow> string" where
  "slice s sp = take (snd sp - fst sp) (drop (fst sp) s)"

definition rule_hits :: "captures \<Rightarrow> string \<Rightarrow> SecretRule \<Rightarrow> (string \<times> string \<times> span) list" where
  "rule_hits captures_iter content rule =
     concat (map (\<lambda>(whole, val).
       (case (if group rule then val else Some whole) of
          None \<Rightarrow> []
        | Some sp \<Rightarrow>
            let v = slice content sp
            in if v = [] \<or> (\<not> allow_newlines rule \<and> CHR 10 \<in> set v) then []
               else if 0 < min_entropy rule \<and> shannon_entropy v < min_entropy rule then []
               else [(kind rule, v, sp)])) (captures_iter rule content))"

text \<open>\<open>dedup_by\<close> on equal spans: of neighbours with the same span the first stays.\<close>

fun dedup_spans :: "('a \<times> 'b \<times> span) list \<Rightarrow> ('a \<times> 'b \<times> span) list" where
  "dedup_spans (x # y # xs) =
     (if snd (snd x) = snd (snd y) then dedup_spans (x # xs) else x # dedup_spans (y # xs))"
| "dedup_spans xs = xs"

definition hits :: "captures \<Rightarrow> string \<Rightarrow> (string \<times> string \<times> span) list" where
  "hits captures_iter content =
     dedup_spans
       (sort_key (\<lambda>h. fst (snd (snd h)))
         (sort_key (\<lambda>h. - int (snd (snd (snd h))))
           (concat (map (rule_hits captures_iter content) owned_default))))"

subsection \<open>Redaction\<close>

type_synonym secret_map = "(string \<times> string) list"

definition token :: "nat \<Rightarrow> string" where
  "token n = PLACEHOLDER_PREFIX @ nat_str n @ PLACEHOLDER_SUFFIX"

definition mint_or_reuse :: "secret_map \<Rightarrow> string \<Rightarrow> secret_map \<times> string" where
  "mint_or_reuse m secret =
     (case find (\<lambda>(_, v). v = secret) m of
        Some (placeholder, _) \<Rightarrow> (m, placeholder)
      | None \<Rightarrow>
          let placeholder = token (length m + 1)
          in (m @ [(placeholder, secret)], placeholder))"

text \<open>The sweep of \<open>apply_all\<close>: \<open>last_end\<close> is the end of the last replaced span.\<close>

fun apply_hits ::
  "string \<Rightarrow> nat \<Rightarrow> (string \<times> string \<times> span) list \<Rightarrow> secret_map \<Rightarrow> secret_map \<times> string" where
  "apply_hits content last_end [] m = (m, drop last_end content)"
| "apply_hits content last_end ((k, v, sp) # hs) m =
     (if fst sp < last_end then apply_hits content last_end hs m
      else
        let (m1, placeholder) = mint_or_reuse m v;
            (m2, out) = apply_hits content (snd sp) hs m1
        in (m2, slice content (last_end, fst sp) @ placeholder @ out))"

definition apply_all :: "captures \<Rightarrow> string \<Rightarrow> secret_map \<Rightarrow> secret_map \<times> string" where
  "apply_all captures_iter content m = apply_hits content 0 (hits captures_iter content) m"

record Redactor =
  redactor_map :: secret_map
  corpus :: "string list"

definition redactor_new :: "string list \<Rightarrow> Redactor" where
  "redactor_new c = \<lparr>redactor_map = [], corpus = filter (\<lambda>v. MIN_CORPUS_LEN \<le> length v) c\<rparr>"

fun redact_corpus :: "string list \<Rightarrow> secret_map \<Rightarrow> string \<Rightarrow> secret_map \<times> string" where
  "redact_corpus [] m text = (m, text)"
| "redact_corpus (secret # ss) m text =
     (if \<not> str_contains text secret then redact_corpus ss m text
      else let (m1, placeholder) = mint_or_reuse m secret
           in redact_corpus ss m1 (str_replace text secret placeholder))"

definition redactor_redact :: "captures \<Rightarrow> Redactor \<Rightarrow> string \<Rightarrow> Redactor \<times> string" where
  "redactor_redact captures_iter r content =
     (let (m1, text) = redact_corpus (corpus r) (redactor_map r) content;
          (m2, out) = apply_all captures_iter text m1
      in (r\<lparr>redactor_map := m2\<rparr>, out))"

definition redact :: "captures \<Rightarrow> string \<Rightarrow> string list \<Rightarrow> string \<times> secret_map" where
  "redact captures_iter content c =
     (let (r, out) = redactor_redact captures_iter (redactor_new c) content in (out, redactor_map r))"

definition env_corpus :: "env \<Rightarrow> string list" where
  "env_corpus vars =
     fold (\<lambda>(name, v) out.
       if is_secret_var name \<lparr>extra_scrub = [], allowlist = []\<rparr> \<and> MIN_CORPUS_LEN \<le> length v \<and> v \<notin> set out
       then out @ [v] else out) vars []"

subsection \<open>Restoration\<close>

fun restore_pass :: "secret_map \<Rightarrow> string \<Rightarrow> bool \<Rightarrow> string \<times> bool" where
  "restore_pass [] out changed = (out, changed)"
| "restore_pass ((placeholder, secret) # m) out changed =
     (if str_contains out placeholder
      then restore_pass m (str_replace out placeholder secret) True
      else restore_pass m out changed)"

fun restore_loop :: "nat \<Rightarrow> secret_map \<Rightarrow> string \<Rightarrow> string" where
  "restore_loop 0 m out = out"
| "restore_loop (Suc k) m out =
     (let (out', changed) = restore_pass m out False
      in if changed then restore_loop k m out' else out')"

text \<open>
  \<open>placeholder_tokens\<close>: the scan for placeholder-shaped tokens from the front of the rest of the
  text; \<open>here\<close> starts at the opener that was found.
\<close>

function placeholder_tokens_from :: "string \<Rightarrow> string list \<Rightarrow> string list" where
  "placeholder_tokens_from text found =
     (case str_find text PLACEHOLDER_PREFIX of
        None \<Rightarrow> found
      | Some pos \<Rightarrow>
          let here = drop pos text
          in case str_find here PLACEHOLDER_SUFFIX of
               None \<Rightarrow> found
             | Some end_rel \<Rightarrow>
                 let inner = take (end_rel - length PLACEHOLDER_PREFIX) (drop (length PLACEHOLDER_PREFIX) here);
                     tok = take (end_rel + length PLACEHOLDER_SUFFIX) here
                 in if inner \<noteq> [] \<and> list_all is_digit inner
                    then placeholder_tokens_from (drop (end_rel + length PLACEHOLDER_SUFFIX) here)
                           (if tok \<in> set found then found else found @ [tok])
                    else placeholder_tokens_from (drop (length PLACEHOLDER_PREFIX) here) found)"
  by pat_completeness auto
termination
proof (relation "measure (length \<circ> fst)", goal_cases)
  case (2 s found pos here end_rel inner tok)
  from str_find_Some [OF 2(1)] have "pos \<le> length s" "prefix PLACEHOLDER_PREFIX (drop pos s)" by auto
  then have "length PLACEHOLDER_PREFIX \<le> length s - pos" using prefix_length_le by fastforce
  with 2(2) show ?case by (simp add: PLACEHOLDER_PREFIX_def PLACEHOLDER_SUFFIX_def bracket_open_def bracket_close_def)
next
  case (3 s found pos here end_rel inner tok)
  from str_find_Some [OF 3(1)] have "pos \<le> length s" "prefix PLACEHOLDER_PREFIX (drop pos s)" by auto
  then have "length PLACEHOLDER_PREFIX \<le> length s - pos" using prefix_length_le by fastforce
  with 3(2) show ?case by (simp add: PLACEHOLDER_PREFIX_def bracket_open_def)
qed simp

declare placeholder_tokens_from.simps [simp del]

definition placeholder_tokens :: "string \<Rightarrow> string list" where
  "placeholder_tokens text = placeholder_tokens_from text []"

record RestoreOutput =
  restored :: string
  leftovers :: "string list"

definition restore :: "string \<Rightarrow> secret_map \<Rightarrow> RestoreOutput" where
  "restore text m =
     (let out = restore_loop 16 m text in \<lparr>restored = out, leftovers = placeholder_tokens out\<rparr>)"

definition MAX_LOOKBACK :: nat where
  "MAX_LOOKBACK = length PLACEHOLDER_PREFIX + 16"

definition is_partial :: "string \<Rightarrow> bool" where
  "is_partial tail \<longleftrightarrow>
     starts_with PLACEHOLDER_PREFIX tail
     \<or> (starts_with tail PLACEHOLDER_PREFIX \<and> list_all is_digit (drop (length PLACEHOLDER_PREFIX) tail))"

text \<open>The characters from the end (reversed list), with the tail they have built up so far.\<close>

fun partial_from :: "string list \<Rightarrow> string \<Rightarrow> string option" where
  "partial_from [] tail = None"
| "partial_from (ch # chs) tail =
     (if MAX_LOOKBACK < length (ch @ tail) then None
      else if is_partial (ch @ tail) then Some (ch @ tail)
      else partial_from chs (ch @ tail))"

definition partial_placeholder_suffix :: "string \<Rightarrow> string option" where
  "partial_placeholder_suffix text = partial_from (rev (utf8_chars text)) []"

definition restore_incremental :: "string \<Rightarrow> secret_map \<Rightarrow> string \<times> string" where
  "restore_incremental buffer m =
     (let out = restored (restore buffer m)
      in case partial_placeholder_suffix out of
           Some tail \<Rightarrow> (take (length out - length tail) out, drop (length out - length tail) out)
         | None \<Rightarrow> (out, []))"

definition restore_finalize :: "string \<Rightarrow> string \<Rightarrow> secret_map \<Rightarrow> RestoreOutput" where
  "restore_finalize pending carry m = restore (pending @ carry) m"

end
