(* ===== verification/Secrets_Roundtrip.thy ===== *)
theory Secrets_Roundtrip
  imports Secrets_Guard
begin

section \<open>Correctness of redaction and restoration\<close>

text \<open>
  A redacted text is a sequence of literal pieces and tokens. Reading every token as its
  placeholder gives the text that leaves; reading it as its secret gives the original. The
  lemmas show that the byte-wise searches of the code respect this structure, because a token
  starts and ends with the bracket characters. The contract of the placeholder map, which the
  redactor keeps and the restoration relies on, is the locale \<open>placeholder_store\<close>, interpreted on
  the code's \<open>mint_or_reuse\<close>.
\<close>

subsection \<open>Tokens as byte strings\<close>

lemma token_bytes: "token n = bracket_open @ ''SECRET_'' @ nat_str n @ bracket_close"
  by (simp add: token_def PLACEHOLDER_PREFIX_def PLACEHOLDER_SUFFIX_def)

lemma nat_str_no_lead: "CHR 0xE2 \<notin> set (nat_str n)"
  using nat_str_digits [of "CHR 0xE2" n] by (auto simp: is_digit_def)

lemma prefix_digits_inj:
  assumes "prefix (a @ CHR 0xE2 # x) (b @ CHR 0xE2 # y)" "CHR 0xE2 \<notin> set a" "CHR 0xE2 \<notin> set b"
  shows "a = b"
  using assms
proof (induction a arbitrary: b)
  case Nil
  then show ?case by (cases b) auto
next
  case (Cons c a)
  then show ?case by (cases b) auto
qed

lemma token_prefix_iff: "prefix (token m) (token n @ s) \<longleftrightarrow> m = n"
proof
  assume "prefix (token m) (token n @ s)"
  then have "prefix (nat_str m @ bracket_close) (nat_str n @ bracket_close @ s)"
    by (simp add: token_bytes)
  then have "nat_str m = nat_str n"
    using prefix_digits_inj [OF _ nat_str_no_lead nat_str_no_lead]
    unfolding bracket_close_def append_Cons by blast
  then show "m = n" by simp
qed simp

text \<open>An opening bracket occurs in a token only at its start, and not across its end.\<close>

lemma no_open_later:
  assumes "CHR 0xE2 \<notin> set a"
  shows "i \<le> length a + 2 \<Longrightarrow> \<not> prefix bracket_open (drop i (a @ bracket_close @ s))"
  using assms
proof (induction a arbitrary: i)
  case Nil
  then have "i = 0 \<or> i = 1 \<or> i = 2" by auto
  then show ?case by (auto simp: bracket_open_def bracket_close_def)
next
  case (Cons c a)
  then show ?case by (cases i) (auto simp: bracket_open_def)
qed

lemma length_bracket_open: "length bracket_open = 3"
  by (simp add: bracket_open_def)

lemma token_open_only_at_start:
  assumes "0 < i" "i < length (token n)"
  shows "\<not> prefix bracket_open (drop i (token n @ s))"
proof -
  let ?a = "''SECRET_'' @ nat_str n"
  have a: "CHR 0xE2 \<notin> set ?a" using nat_str_no_lead by simp
  show ?thesis
  proof (cases "i < 3")
    case True
    with assms(1) have "i = 1 \<or> i = 2" by auto
    then show ?thesis by (auto simp: token_bytes bracket_open_def)
  next
    case False
    then have "drop i (token n @ s) = drop (i - length bracket_open) (?a @ bracket_close @ s)"
      by (simp only: token_bytes append.assoc drop_append) (simp add: bracket_open_def)
    then have "drop i (token n @ s) = drop (i - 3) (?a @ bracket_close @ s)"
      by (simp only: length_bracket_open)
    moreover have "i - 3 \<le> length ?a + 2"
      using assms(2) by (simp add: token_bytes bracket_open_def bracket_close_def)
    ultimately show ?thesis using no_open_later [OF a] by metis
  qed
qed

lemma token_starts: "prefix bracket_open (token n)"
  by (simp add: token_bytes)

lemma token_not_Nil [simp]: "token n \<noteq> []"
  by (simp add: token_bytes bracket_open_def)

lemma str_contains_append_right: "str_contains b p \<Longrightarrow> str_contains (a @ b) p"
  unfolding str_contains_iff by (metis append.assoc)

lemma str_contains_append_left: "str_contains a p \<Longrightarrow> str_contains (a @ b) p"
  unfolding str_contains_iff by (metis append.assoc)

subsection \<open>Segments\<close>

datatype seg = Lit string | Tok nat

fun reading :: "(nat \<Rightarrow> string) \<Rightarrow> seg list \<Rightarrow> string" where
  "reading f [] = []"
| "reading f (Lit l # ss) = l @ reading f ss"
| "reading f (Tok n # ss) = f n @ reading f ss"

fun tokens_in :: "seg list \<Rightarrow> nat set" where
  "tokens_in [] = {}"
| "tokens_in (Lit l # ss) = tokens_in ss"
| "tokens_in (Tok n # ss) = insert n (tokens_in ss)"

abbreviation wire :: "seg list \<Rightarrow> string" where
  "wire \<equiv> reading token"

lemma reading_append [simp]: "reading f (a @ b) = reading f a @ reading f b"
  by (induction a rule: tokens_in.induct) auto

lemma tokens_in_append [simp]: "tokens_in (a @ b) = tokens_in a \<union> tokens_in b"
  by (induction a rule: tokens_in.induct) auto

lemma reading_cong: "(\<And>n. n \<in> tokens_in ss \<Longrightarrow> f n = g n) \<Longrightarrow> reading f ss = reading g ss"
  by (induction ss rule: tokens_in.induct) auto

lemma no_open_before_open:
  assumes "\<not> str_contains l bracket_open" "i < length l"
  shows "\<not> prefix bracket_open (drop i l @ bracket_open @ z)"
proof
  assume pre: "prefix bracket_open (drop i l @ bracket_open @ z)"
  from assms(2) obtain c d where cd: "drop i l = c # d" by (cases "drop i l") auto
  have "2 \<le> length d" using pre cd by (cases d rule: remdups_adj.cases) (auto simp: bracket_open_def)
  then obtain c' c'' d' where "drop i l = c # c' # c'' # d'" using cd by (cases d rule: remdups_adj.cases) auto
  with pre have "prefix bracket_open (drop i l)" by (simp add: bracket_open_def)
  then have "str_contains l bracket_open" by (metis append_take_drop_id prefix_def str_contains_iff)
  with assms(1) show False by simp
qed

text \<open>
  The text behind a run of segments may end in a fragment: the beginning of a token that is cut
  after its opening bracket.
\<close>

definition fragment :: "string \<Rightarrow> bool" where
  "fragment u \<longleftrightarrow> u = [] \<or> (prefix bracket_open u \<and> (\<exists>n. strict_prefix u (token n)))"

lemma fragment_Nil [simp]: "fragment []"
  by (simp add: fragment_def)

lemma fragment_no_token: "fragment u \<Longrightarrow> \<not> str_contains u (token n)"
proof
  assume u: "fragment u" "str_contains u (token n)"
  then obtain k where k: "strict_prefix u (token k)" by (auto simp: fragment_def str_contains_iff)
  from u(2) obtain a b where ab: "u = a @ token n @ b" by (auto simp: str_contains_iff)
  from k obtain z where z: "token k = u @ z" "z \<noteq> []" by (auto elim!: strict_prefixE')
  show False
  proof (cases "a = []")
    case True
    with ab z have "prefix (token n) (token k @ [])" by simp
    then have "n = k" using token_prefix_iff by blast
    with ab z True show False by simp
  next
    case False
    have "\<not> prefix bracket_open (drop (length a) (token k @ []))"
      by (rule token_open_only_at_start) (use False ab z in simp_all)
    with ab z token_starts [of n] show False by simp
  qed
qed

text \<open>A literal run cannot run into the opening bracket of the token or fragment behind it.\<close>

lemma no_open_in_literal:
  assumes "\<not> str_contains (l @ reading f ss) bracket_open" "i < length l" "fragment u"
  shows "\<not> prefix bracket_open (drop i (l @ wire ss @ u))"
  using assms(1,2)
proof (induction ss arbitrary: l rule: tokens_in.induct)
  case 1
  show ?case
  proof (cases "u = []")
    case True
    with 1 show ?thesis by (simp, metis append_take_drop_id prefix_def str_contains_iff)
  next
    case False
    with assms(3) obtain z where "u = bracket_open @ z" by (auto simp: fragment_def prefix_def)
    with no_open_before_open [of l i z] 1 show ?thesis by simp
  qed
next
  case (2 m ss)
  from "2.IH" [of "l @ m"] "2.prems" show ?case by simp
next
  case (3 n ss)
  then have "\<not> str_contains l bracket_open" using str_contains_append_left by blast
  from no_open_before_open [OF this "3.prems"(2), of "''SECRET_'' @ nat_str n @ bracket_close @ wire ss @ u"] "3.prems"(2)
  show ?case by (simp add: token_bytes [of n])
qed

text \<open>Replacing one placeholder rewrites exactly the tokens of that number.\<close>

fun fill :: "nat \<Rightarrow> string \<Rightarrow> seg list \<Rightarrow> seg list" where
  "fill n s [] = []"
| "fill n s (Lit l # ss) = Lit l # fill n s ss"
| "fill n s (Tok m # ss) = (if m = n then Lit s else Tok m) # fill n s ss"

lemma reading_fill: "f n = s \<Longrightarrow> reading f (fill n s ss) = reading f ss"
  by (induction ss rule: tokens_in.induct) auto

lemma tokens_in_fill: "tokens_in (fill n s ss) = tokens_in ss - {n}"
  by (induction ss rule: tokens_in.induct) auto

lemma replace_token:
  assumes "\<not> str_contains (reading f ss) bracket_open" "fragment u"
  shows "replace_from (token n) s (wire ss @ u) = wire (fill n s ss) @ u"
  using assms(1)
proof (induction ss rule: tokens_in.induct)
  case 1
  from fragment_no_token [OF assms(2)] show ?case by (simp add: replace_from_absent)
next
  case (2 l ss)
  have "\<not> prefix (token n) (drop i (l @ wire ss @ u))" if "i < length l" for i
    using no_open_in_literal [of l f ss i u] "2.prems" that token_starts assms(2)
    by (metis prefix_order.trans reading.simps(2))
  from replace_from_skip [OF token_not_Nil this] have
    "replace_from (token n) s (wire (Lit l # ss) @ u) = l @ replace_from (token n) s (wire ss @ u)" by simp
  with "2.IH" "2.prems" show ?case using str_contains_append_right by force
next
  case (3 m ss)
  then have IH: "replace_from (token n) s (wire ss @ u) = wire (fill n s ss) @ u"
    using str_contains_append_right by force
  show ?case
  proof (cases "m = n")
    case True
    with IH show ?thesis by (simp add: replace_from_hit)
  next
    case False
    have "\<not> prefix (token n) (drop i (token m @ wire ss @ u))" if "i < length (token m)" for i
    proof (cases "i = 0")
      case True
      with False show ?thesis by (simp add: token_prefix_iff)
    next
      case False
      with that show ?thesis
        using token_open_only_at_start [of i m "wire ss @ u"] token_starts [of n] prefix_order.trans by blast
    qed
    from replace_from_skip [OF token_not_Nil this] IH False show ?thesis by simp
  qed
qed

subsection \<open>Values that do not interfere with tokens\<close>

text \<open>
  A value is foreign to the token grammar when it does not contain the lead byte of the
  brackets, starts at a character boundary and is not a piece of a token's inside.
\<close>

definition foreign :: "string \<Rightarrow> bool" where
  "foreign v \<longleftrightarrow>
     v \<noteq> [] \<and> CHR 0xE2 \<notin> set v \<and> \<not> is_cont_byte (hd v) \<and> (\<forall>n. \<not> str_contains (token n) v)"

lemma wire_starts_with_plain:
  assumes "wire ss = v @ y" "CHR 0xE2 \<notin> set v"
  shows "\<exists>s2. y = wire s2 \<and> tokens_in s2 \<subseteq> tokens_in ss \<and> (\<forall>f. reading f ss = v @ reading f s2)"
  using assms
proof (induction ss arbitrary: v rule: tokens_in.induct)
  case 1
  then show ?case by (intro exI [of _ "[]"]) simp
next
  case (2 l ss)
  show ?case
  proof (cases "length v \<le> length l")
    case True
    with "2.prems"(1) obtain l' where "l = v @ l'" "y = l' @ wire ss"
      by (auto simp: append_eq_append_conv2 append_eq_append_conv_if)
    then show ?thesis by (intro exI [of _ "Lit l' # ss"]) auto
  next
    case False
    with "2.prems"(1) obtain v' where v': "v = l @ v'" "wire ss = v' @ y"
      by (auto simp: append_eq_append_conv2)
    with "2.IH" [of v'] "2.prems"(2) show ?thesis by auto
  qed
next
  case (3 n ss)
  then have "v = []" by (cases v) (auto simp: token_bytes bracket_open_def)
  with "3.prems" show ?case by (intro exI [of _ "Tok n # ss"]) auto
qed

lemma foreign_not_in_token:
  assumes "foreign v" "token n @ w = x @ v @ y" "length x < length (token n)"
  shows False
proof -
  let ?t = "token n"
  have v: "v \<noteq> []" "CHR 0xE2 \<notin> set v" "\<not> is_cont_byte (hd v)" "\<not> str_contains ?t v"
    using assms(1) by (auto simp: foreign_def)
  have xt: "x = take (length x) ?t"
    using assms(2,3) by (metis append_eq_append_conv_if less_imp_le nat_less_le not_le)
  then have tail: "drop (length x) ?t @ w = v @ y"
    using assms(2,3) by (metis append_take_drop_id append_assoc same_append_eq)
  show False
  proof (cases "length v \<le> length ?t - length x")
    case True
    then have "prefix v (drop (length x) ?t)" using tail
      by (metis append_eq_append_conv_if length_drop prefix_def append_take_drop_id)
    then have "str_contains ?t v"
      by (metis append_take_drop_id prefix_def str_contains_iff)
    with v(4) show False by simp
  next
    case False
    then have pre: "prefix (drop (length x) ?t) v" using tail
      by (metis append_eq_append_conv2 length_append length_drop not_less_eq_eq le_add1 prefixI nat_le_linear)
    obtain a where t: "?t = a @ bracket_close" by (simp add: token_bytes)
    show False
    proof (cases "length x \<le> length ?t - 3")
      case True
      then have "CHR 0xE2 \<in> set (drop (length x) ?t)"
        unfolding t by (simp add: bracket_close_def)
      with pre v(2) set_mono_prefix show False by blast
    next
      case False
      then have "length x = length ?t - 2 \<or> length x = length ?t - 1" using assms(3) by linarith
      then have "hd (drop (length x) ?t) = CHR 0x9F \<or> hd (drop (length x) ?t) = CHR 0xA7"
        unfolding t by (auto simp: bracket_close_def)
      moreover have "hd v = hd (drop (length x) ?t)"
        using pre assms(3) by (auto simp: prefix_def)
      ultimately show False using v(3) by (auto simp: is_cont_byte_def)
    qed
  qed
qed

text \<open>An occurrence of a foreign value lies between tokens, under every reading.\<close>

lemma split_at_foreign:
  assumes "foreign v" "wire ss = x @ v @ y"
  shows "\<exists>s1 s2. x = wire s1 \<and> y = wire s2 \<and> tokens_in s1 \<union> tokens_in s2 \<subseteq> tokens_in ss
           \<and> (\<forall>f. reading f ss = reading f s1 @ v @ reading f s2)"
  using assms(2)
proof (induction ss arbitrary: x rule: tokens_in.induct)
  case 1
  with assms(1) show ?case by (simp add: foreign_def)
next
  case (2 l ss)
  show ?case
  proof (cases "length l \<le> length x")
    case True
    with 2(2) obtain x' where "x = l @ x'" "wire ss = x' @ v @ y"
      by (auto simp: append_eq_append_conv2)
    with 2(1) [of x'] obtain s1 s2 where "x' = wire s1" "y = wire s2"
        "tokens_in s1 \<union> tokens_in s2 \<subseteq> tokens_in ss" "\<forall>f. reading f ss = reading f s1 @ v @ reading f s2"
      by blast
    with \<open>x = l @ x'\<close> show ?thesis by (intro exI [of _ "Lit l # s1"] exI [of _ s2]) auto
  next
    case False
    with 2(2) obtain l' where l': "l = x @ l'" "l' @ wire ss = v @ y"
      by (auto simp: append_eq_append_conv2)
    from wire_starts_with_plain [of "Lit l' # ss" v y] l'(2) assms(1) obtain s2 where "y = wire s2"
        "tokens_in s2 \<subseteq> tokens_in ss" "\<forall>f. l' @ reading f ss = v @ reading f s2"
      by (auto simp: foreign_def)
    with l'(1) show ?thesis by (intro exI [of _ "[Lit x]"] exI [of _ s2]) auto
  qed
next
  case (3 n ss)
  show ?case
  proof (cases "length (token n) \<le> length x")
    case True
    with 3(2) obtain x' where "x = token n @ x'" "wire ss = x' @ v @ y"
      by (auto simp: append_eq_append_conv2)
    with 3(1) [of x'] obtain s1 s2 where "x' = wire s1" "y = wire s2"
        "tokens_in s1 \<union> tokens_in s2 \<subseteq> tokens_in ss" "\<forall>f. reading f ss = reading f s1 @ v @ reading f s2"
      by blast
    with \<open>x = token n @ x'\<close> show ?thesis by (intro exI [of _ "Tok n # s1"] exI [of _ s2]) auto
  next
    case False
    with foreign_not_in_token [OF assms(1), of n "wire ss" x y] 3(2) show ?thesis by simp
  qed
qed

subsection \<open>The placeholder store\<close>

text \<open>What the redactor and the restoration rely on: a value gets a token, and tokens keep their secret.\<close>

locale placeholder_store =
  fixes mint :: "'m \<Rightarrow> string \<Rightarrow> 'm \<times> string"
    and secret_at :: "'m \<Rightarrow> nat \<Rightarrow> string option"
    and ok :: "'m \<Rightarrow> bool"
  assumes mint_ok: "ok m \<Longrightarrow> mint m v = (m', p) \<Longrightarrow> ok m'"
    and mint_token: "ok m \<Longrightarrow> mint m v = (m', p) \<Longrightarrow> \<exists>n. p = token n \<and> secret_at m' n = Some v"
    and mint_keeps: "ok m \<Longrightarrow> mint m v = (m', p) \<Longrightarrow> secret_at m n = Some s \<Longrightarrow> secret_at m' n = Some s"
begin

definition reads :: "'m \<Rightarrow> seg list \<Rightarrow> string \<Rightarrow> bool" where
  "reads m ss c \<longleftrightarrow>
     (\<forall>n \<in> tokens_in ss. secret_at m n \<noteq> None) \<and> reading (\<lambda>n. the (secret_at m n)) ss = c"

lemma reads_mono:
  assumes "\<And>n s. secret_at m n = Some s \<Longrightarrow> secret_at m' n = Some s" "reads m ss c"
  shows "reads m' ss c"
proof -
  have "secret_at m' n = secret_at m n" if "n \<in> tokens_in ss" for n
    using assms that by (fastforce simp: reads_def)
  with assms(2) show ?thesis
    unfolding reads_def using reading_cong [of ss "\<lambda>n. the (secret_at m' n)" "\<lambda>n. the (secret_at m n)"] by auto
qed

lemma reads_mint: "ok m \<Longrightarrow> mint m v = (m', p) \<Longrightarrow> reads m ss c \<Longrightarrow> reads m' ss c"
  by (rule reads_mono [OF mint_keeps])

lemma reads_append: "reads m a c \<Longrightarrow> reads m b d \<Longrightarrow> reads m (a @ b) (c @ d)"
  by (auto simp: reads_def)

lemma reads_new_token:
  assumes "ok m" "mint m v = (m', p)"
  shows "\<exists>n. p = token n \<and> reads m' [Tok n] v"
  using mint_token [OF assms] by (auto simp: reads_def)

end

definition secret_at :: "secret_map \<Rightarrow> nat \<Rightarrow> string option" where
  "secret_at m n = (if 1 \<le> n \<and> n \<le> length m then Some (snd (m ! (n - 1))) else None)"

definition map_ok :: "secret_map \<Rightarrow> bool" where
  "map_ok m \<longleftrightarrow> map fst m = map token [1..<Suc (length m)] \<and> distinct (map snd m)"

lemma map_ok_nth: "map_ok m \<Longrightarrow> i < length m \<Longrightarrow> fst (m ! i) = token (Suc i)"
  by (metis (no_types, lifting) add.commute length_map map_ok_def nth_map nth_upt plus_1_eq_Suc
      Suc_less_eq length_upt diff_Suc_1 less_diff_conv)

lemma mint_cases:
  assumes "map_ok m" "mint_or_reuse m v = (m', p)"
  shows "(\<exists>i < length m. snd (m ! i) = v \<and> p = token (Suc i) \<and> m' = m)
         \<or> (v \<notin> set (map snd m) \<and> p = token (Suc (length m)) \<and> m' = m @ [(p, v)])"
proof (cases "find (\<lambda>(_, w). w = v) m")
  case None
  then have "v \<notin> set (map snd m)" by (auto simp: find_None_iff)
  with None assms(2) show ?thesis by (auto simp: mint_or_reuse_def Let_def)
next
  case (Some q)
  then obtain i where i: "i < length m" "snd (m ! i) = v" "q = m ! i" by (auto simp: find_Some_iff)
  then have "q = (token (Suc i), v)" using map_ok_nth [OF assms(1)] by (metis prod.collapse)
  with Some assms(2) have "p = token (Suc i)" "m' = m" by (simp_all add: mint_or_reuse_def)
  with i show ?thesis by blast
qed

lemma prefix_mint: "map_ok m \<Longrightarrow> mint_or_reuse m v = (m', p) \<Longrightarrow> prefix m m'"
  using mint_cases [of m v m' p] by auto

lemma secret_at_mono: "prefix m m' \<Longrightarrow> secret_at m n = Some s \<Longrightarrow> secret_at m' n = Some s"
  by (auto simp: secret_at_def prefix_def nth_append split: if_splits)

lemma map_ok_mint: "map_ok m \<Longrightarrow> mint_or_reuse m v = (m', p) \<Longrightarrow> map_ok m'"
  using mint_cases [of m v m' p] by (auto simp: map_ok_def)

interpretation store: placeholder_store mint_or_reuse secret_at map_ok
proof
  show "map_ok m'" if "map_ok m" "mint_or_reuse m v = (m', p)" for m v m' p
    using that by (rule map_ok_mint)
  show "\<exists>n. p = token n \<and> secret_at m' n = Some v" if "map_ok m" "mint_or_reuse m v = (m', p)" for m v m' p
    using mint_cases [OF that] by (auto simp: secret_at_def)
  show "secret_at m' n = Some s" if "map_ok m" "mint_or_reuse m v = (m', p)" "secret_at m n = Some s"
    for m v m' p n s
    using secret_at_mono [OF prefix_mint] that by blast
qed

subsection \<open>Redaction keeps the original readable\<close>

text \<open>The state of a redaction: a text that is the wire form of segments reading as the original.\<close>

definition redaction_of :: "secret_map \<Rightarrow> string \<Rightarrow> string \<Rightarrow> bool" where
  "redaction_of m text orig \<longleftrightarrow> (\<exists>ss. text = wire ss \<and> store.reads m ss orig)"

lemma redaction_of_plain: "redaction_of m content content"
  unfolding redaction_of_def store.reads_def by (intro exI [of _ "[Lit content]"]) simp

lemma redaction_of_mono: "prefix m m' \<Longrightarrow> redaction_of m t c \<Longrightarrow> redaction_of m' t c"
  unfolding redaction_of_def using store.reads_mono secret_at_mono by metis

lemma redaction_of_mint:
  "map_ok m \<Longrightarrow> mint_or_reuse m v = (m', p) \<Longrightarrow> redaction_of m t c \<Longrightarrow> redaction_of m' t c"
  unfolding redaction_of_def using store.reads_mint by blast

lemma redaction_of_append:
  "redaction_of m a c \<Longrightarrow> redaction_of m b d \<Longrightarrow> redaction_of m (a @ b) (c @ d)"
  unfolding redaction_of_def by (metis reading_append store.reads_append)

lemma redaction_of_split:
  assumes "redaction_of m (x @ v @ y) c" "foreign v"
  shows "\<exists>cx cy. c = cx @ v @ cy \<and> redaction_of m x cx \<and> redaction_of m y cy"
proof -
  from assms(1) obtain ss where ss: "wire ss = x @ v @ y" "store.reads m ss c"
    by (auto simp: redaction_of_def)
  from split_at_foreign [OF assms(2) ss(1)] obtain s1 s2 where
    "x = wire s1" "y = wire s2" "tokens_in s1 \<union> tokens_in s2 \<subseteq> tokens_in ss"
    "\<forall>f. reading f ss = reading f s1 @ v @ reading f s2" by blast
  with ss(2) show ?thesis unfolding redaction_of_def store.reads_def
    by (intro exI [of _ "reading (\<lambda>n. the (secret_at m n)) s1"]
        exI [of _ "reading (\<lambda>n. the (secret_at m n)) s2"]) blast
qed

lemma redaction_of_token:
  assumes "redaction_of m x cx" "redaction_of m y cy" "secret_at m n = Some v"
  shows "redaction_of m (x @ token n @ y) (cx @ v @ cy)"
proof -
  have "redaction_of m (token n) v"
    unfolding redaction_of_def store.reads_def using assms(3) by (intro exI [of _ "[Tok n]"]) simp
  with assms(1,2) show ?thesis by (intro redaction_of_append)
qed

text \<open>The leftmost occurrence of a pattern, which \<open>replace_from\<close> rewrites first.\<close>

lemma first_occurrence:
  assumes "str_contains s p" "p \<noteq> []"
  obtains x y where "s = x @ p @ y" "replace_from p r s = x @ r @ replace_from p r y"
    "length y < length s" "\<not> str_contains x p"
proof -
  from assms(1) obtain i where i: "str_find s p = Some i" using str_find_None_iff [of s p] by auto
  from str_find_Some [OF i] have pos: "i \<le> length s" "prefix p (drop i s)" "\<forall>j<i. \<not> prefix p (drop j s)"
    by auto
  then obtain y where y: "drop i s = p @ y" by (auto simp: prefix_def)
  let ?x = "take i s"
  have s: "s = ?x @ p @ y" using y by (metis append_take_drop_id)
  have lx: "length ?x = i" using pos(1) by simp
  have miss: "\<not> prefix p (drop j (?x @ p @ y))" if "j < length ?x" for j
    using pos(3) s that lx by metis
  from replace_from_skip [OF assms(2) miss]
  have "replace_from p r (?x @ p @ y) = ?x @ replace_from p r (p @ y)" .
  then have "replace_from p r s = ?x @ r @ replace_from p r y"
    unfolding replace_from_hit [OF assms(2)] s [symmetric] .
  moreover have "\<not> str_contains ?x p"
  proof
    assume "str_contains ?x p"
    then obtain a b where ab: "?x = a @ p @ b" by (auto simp: str_contains_iff)
    then have "length a < length ?x" using assms(2) by (simp add: ab)
    moreover have "prefix p (drop (length a) (?x @ p @ y))" using ab by simp
    ultimately show False using miss by blast
  qed
  moreover have "length y < length s"
  proof -
    have "length s = length ?x + length p + length y" using arg_cong [OF s, of length] by simp
    moreover have "0 < length p" using assms(2) by simp
    ultimately show ?thesis by linarith
  qed
  ultimately show thesis using that s by blast
qed

lemma redaction_of_replace:
  assumes "foreign v" "secret_at m n = Some v" "redaction_of m t c"
  shows "redaction_of m (replace_from v (token n) t) c"
  using assms(3)
proof (induction "length t" arbitrary: t c rule: less_induct)
  case less
  have v: "v \<noteq> []" using assms(1) by (simp add: foreign_def)
  show ?case
  proof (cases "str_contains t v")
    case False
    with v less.prems show ?thesis by (simp add: replace_from_absent)
  next
    case True
    from first_occurrence [OF this v, of "token n"] obtain x y where
      xy: "t = x @ v @ y" "replace_from v (token n) t = x @ token n @ replace_from v (token n) y"
        "length y < length t" by blast
    from redaction_of_split [of m x v y c] less.prems xy(1) assms(1) obtain cx cy where
      c: "c = cx @ v @ cy" "redaction_of m x cx" "redaction_of m y cy" by blast
    from redaction_of_token [OF c(2) less.hyps [OF xy(3) c(3)] assms(2)] xy(2) c(1) show ?thesis by simp
  qed
qed

lemma redact_corpus_ok:
  assumes "\<forall>s \<in> set ss. foreign s" "map_ok m" "redaction_of m t c" "redact_corpus ss m t = (m', out)"
  shows "map_ok m' \<and> redaction_of m' out c"
  using assms
proof (induction ss arbitrary: m t)
  case Nil
  then show ?case by simp
next
  case (Cons s ss)
  show ?case
  proof (cases "str_contains t s")
    case False
    with Cons show ?thesis by simp
  next
    case True
    obtain m1 p where mint: "mint_or_reuse m s = (m1, p)" by force
    from store.mint_token [OF Cons.prems(2) mint] obtain n where n: "p = token n" "secret_at m1 n = Some s"
      by blast
    have "redaction_of m1 (str_replace t s p) c"
      using redaction_of_replace [OF _ n(2) redaction_of_mint [OF Cons.prems(2) mint Cons.prems(3)]]
        Cons.prems(1) n(1) by (simp add: str_replace_def foreign_def)
    with Cons.IH [of m1 "str_replace t s p"] Cons.prems True mint map_ok_mint show ?thesis by simp
  qed
qed

text \<open>The sweep over the hits: spans in range, values foreign to the token grammar.\<close>

definition hit_ok :: "string \<Rightarrow> string \<times> string \<times> span \<Rightarrow> bool" where
  "hit_ok content h \<longleftrightarrow>
     (case h of (k, v, sp) \<Rightarrow>
        fst sp \<le> snd sp \<and> snd sp \<le> length content \<and> v = slice content sp \<and> foreign v)"

lemma slice_split:
  assumes "k \<le> a" "a \<le> b" "b \<le> length s"
  shows "drop k s = slice s (k, a) @ slice s (a, b) @ drop b s"
proof -
  have "drop k s = take (a - k) (drop k s) @ drop a s"
    using assms(1) append_take_drop_id [of "a - k" "drop k s"] by simp
  moreover have "drop a s = take (b - a) (drop a s) @ drop b s"
    using assms(2) append_take_drop_id [of "b - a" "drop a s"] by simp
  ultimately show ?thesis by (simp add: slice_def)
qed

lemma apply_hits_ok:
  assumes "\<forall>h \<in> set hs. hit_ok content h" "map_ok m"
    "redaction_of m (drop k content) c" "apply_hits content k hs m = (m', out)"
  shows "map_ok m' \<and> prefix m m' \<and> redaction_of m' out c"
  using assms
proof (induction hs arbitrary: k m c m' out)
  case Nil
  then show ?case by simp
next
  case (Cons h hs)
  obtain kd v a b where h: "h = (kd, v, a, b)" by (cases h) auto
  with Cons.prems(1) have ok: "a \<le> b" "b \<le> length content" "v = slice content (a, b)" "foreign v"
    by (auto simp: hit_ok_def)
  show ?case
  proof (cases "a < k")
    case True
    with Cons.prems(4) h have "apply_hits content k hs m = (m', out)" by simp
    from Cons.IH [OF _ Cons.prems(2,3) this] Cons.prems(1) show ?thesis by simp
  next
    case False
    obtain m1 p where mint: "mint_or_reuse m v = (m1, p)" by force
    obtain m2 rest where rest: "apply_hits content b hs m1 = (m2, rest)" by force
    have dk: "drop k content = slice content (k, a) @ v @ drop b content"
      unfolding ok(3) by (rule slice_split) (use False ok(1,2) in simp_all)
    from redaction_of_split [OF Cons.prems(3) [unfolded dk] ok(4)] obtain cx cy where
      c: "c = cx @ v @ cy" "redaction_of m (slice content (k, a)) cx" "redaction_of m (drop b content) cy" by blast
    note keep = redaction_of_mint [OF Cons.prems(2) mint]
    from Cons.IH [OF _ map_ok_mint [OF Cons.prems(2) mint] keep [OF c(3)] rest] Cons.prems(1)
    have IH: "map_ok m2" "prefix m1 m2" "redaction_of m2 rest cy" by auto
    from store.mint_token [OF Cons.prems(2) mint] obtain n where n: "p = token n" "secret_at m1 n = Some v"
      by blast
    have "redaction_of m2 (slice content (k, a) @ token n @ rest) c"
      unfolding c(1)
      by (rule redaction_of_token [OF redaction_of_mono [OF IH(2) keep [OF c(2)]] IH(3) secret_at_mono [OF IH(2) n(2)]])
    moreover have "prefix m m2" using prefix_mint [OF Cons.prems(2) mint] IH(2) prefix_order.trans by blast
    moreover have "m' = m2" "out = slice content (k, a) @ token n @ rest"
      using Cons.prems(4) False h mint rest n(1) by auto
    ultimately show ?thesis using IH(1) by simp
  qed
qed

subsection \<open>Restoration\<close>

lemma wire_contains_token: "n \<in> tokens_in ss \<Longrightarrow> str_contains (wire ss) (token n)"
proof (induction ss rule: tokens_in.induct)
  case (3 m ss)
  then consider "n = m" | "str_contains (wire ss) (token n)" by auto
  then show ?case
  proof cases
    case 1
    then show ?thesis unfolding str_contains_iff by (metis append_Nil reading.simps(3))
  next
    case 2
    then show ?thesis by (simp add: str_contains_append_right)
  qed
qed (auto intro: str_contains_append_right)

lemma restore_pass_fills:
  assumes "map_ok m" "fragment u" "m = a @ b" "store.reads m ss c" "\<not> str_contains c bracket_open"
    "tokens_in ss \<subseteq> {Suc (length a)..length m}"
  shows "fst (restore_pass b (wire ss @ u) ch) = c @ u"
  using assms(3-6)
proof (induction b arbitrary: a ss ch)
  case Nil
  then have "tokens_in ss = {}" by auto
  with Nil.prems(2) reading_cong [of ss token] show ?case by (auto simp: store.reads_def)
next
  case (Cons e b)
  let ?n = "Suc (length a)"
  obtain p s where e: "e = (p, s)" by force
  with Cons.prems(1) have nth: "m ! length a = (p, s)" "length a < length m" by auto
  then have p: "p = token ?n" using map_ok_nth [OF assms(1), of "length a"] by simp
  have s: "secret_at m ?n = Some s" using nth by (simp add: secret_at_def)
  have a': "m = (a @ [e]) @ b" using Cons.prems(1) by simp
  let ?ss = "fill ?n s ss"
  let ?f = "\<lambda>n. the (secret_at m n)"
  have c: "reading ?f ss = c" using Cons.prems(2) by (simp add: store.reads_def)
  have reads: "store.reads m ?ss c"
    using Cons.prems(2) s by (auto simp: store.reads_def reading_fill tokens_in_fill)
  have toks: "tokens_in ?ss \<subseteq> {Suc (length (a @ [e]))..length m}"
    using Cons.prems(4) by (auto simp: tokens_in_fill)
  have filled: "str_replace (wire ss @ u) p s = wire ?ss @ u"
    using replace_token [of ?f ss u ?n s] assms(2) c Cons.prems(3) p by (simp add: str_replace_def)
  show ?case
  proof (cases "str_contains (wire ss @ u) p")
    case True
    with Cons.IH [OF a' reads Cons.prems(3) toks] e filled show ?thesis by simp
  next
    case False
    then have "?n \<notin> tokens_in ss" using wire_contains_token str_contains_append_left p by auto
    with Cons.prems(4) have "tokens_in ss \<subseteq> {Suc (length (a @ [e]))..length m}"
      by (auto simp: Suc_le_eq order_less_le)
    with Cons.IH [OF a' Cons.prems(2,3)] e False show ?thesis by simp
  qed
qed

lemma no_token_in_plain:
  assumes "\<not> str_contains c bracket_open" "fragment u"
  shows "\<not> str_contains (c @ u) (token n)"
proof
  assume "str_contains (c @ u) (token n)"
  then obtain a b where ab: "c @ u = a @ token n @ b" by (auto simp: str_contains_iff)
  show False
  proof (cases "length a < length c")
    case True
    from no_open_in_literal [of c "\<lambda>_. []" "[]", OF _ True assms(2)] assms(1) ab token_starts [of n]
    show False by simp
  next
    case False
    with ab obtain a' where "u = a' @ token n @ b" by (auto simp: append_eq_append_conv2)
    with fragment_no_token [OF assms(2)] show False by (auto simp: str_contains_iff)
  qed
qed

lemma restore_pass_done:
  "\<forall>e \<in> set m. \<exists>n. fst e = token n \<Longrightarrow> \<not> str_contains c bracket_open \<Longrightarrow> fragment u
   \<Longrightarrow> restore_pass m (c @ u) ch = (c @ u, ch)"
proof (induction m)
  case (Cons e m)
  obtain p s where e: "e = (p, s)" by force
  with Cons.prems(1) obtain n where "p = token n" by auto
  with no_token_in_plain [OF Cons.prems(2,3)] have "\<not> str_contains (c @ u) p" by simp
  with Cons e show ?case by simp
qed simp

text \<open>Restoration up to a fragment at the end, which it leaves as it is.\<close>

lemma restore_loop_cut:
  assumes "map_ok m" "store.reads m ss c" "\<not> str_contains c bracket_open" "fragment u"
  shows "restore_loop 16 m (wire ss @ u) = c @ u"
proof -
  have "tokens_in ss \<subseteq> {Suc (length [])..length m}"
    using assms(2) by (auto simp: store.reads_def secret_at_def split: if_splits)
  from restore_pass_fills [OF assms(1,4) _ assms(2,3) this, of m] have
    first: "fst (restore_pass m (wire ss @ u) False) = c @ u" by simp
  have "\<forall>e \<in> set m. \<exists>n. fst e = token n"
    using assms(1) by (metis image_eqI imageE map_ok_def set_map)
  note fin = restore_pass_done [OF this assms(3,4)]
  from first obtain ch where "restore_pass m (wire ss @ u) False = (c @ u, ch)" by (metis prod.collapse)
  with fin have "restore_loop (Suc (Suc k)) m (wire ss @ u) = c @ u" for k by simp
  from this [of 14] show ?thesis by simp
qed

lemma restore_redaction:
  assumes "map_ok m" "redaction_of m t c" "\<not> str_contains c bracket_open"
  shows "restore t m = \<lparr>restored = c, leftovers = []\<rparr>"
proof -
  from assms(2) obtain ss where ss: "t = wire ss" "store.reads m ss c" by (auto simp: redaction_of_def)
  from restore_loop_cut [OF assms(1) ss(2) assms(3), of "[]"] ss(1) have "restore_loop 16 m t = c" by simp
  moreover have "\<not> str_contains c PLACEHOLDER_PREFIX"
    using assms(3) unfolding PLACEHOLDER_PREFIX_def str_contains_iff by auto
  then have "placeholder_tokens c = []"
    unfolding placeholder_tokens_def
    by (subst placeholder_tokens_from.simps) (simp add: str_find_None_iff [THEN iffD2])
  ultimately show ?thesis by (simp add: restore_def)
qed

lemma redacted_restores:
  assumes "map_ok (redactor_map r)" "\<forall>s \<in> set (corpus r). foreign s"
    "\<not> str_contains content bracket_open"
    "\<forall>h \<in> set (hits captures_iter (snd (redact_corpus (corpus r) (redactor_map r) content))).
       hit_ok (snd (redact_corpus (corpus r) (redactor_map r) content)) h"
    "redactor_redact captures_iter r content = (r', out)"
    "map_ok later" "prefix (redactor_map r') later"
  shows "restore out later = \<lparr>restored = content, leftovers = []\<rparr> \<and> map_ok (redactor_map r')"
proof -
  obtain m1 t1 where c: "redact_corpus (corpus r) (redactor_map r) content = (m1, t1)" by force
  obtain m2 o2 where a: "apply_hits t1 0 (hits captures_iter t1) m1 = (m2, o2)" by force
  from assms(5) c a have r': "redactor_map r' = m2" "out = o2"
    by (auto simp: redactor_redact_def apply_all_def)
  from redact_corpus_ok [OF assms(2,1) redaction_of_plain c] have "map_ok m1" "redaction_of m1 t1 content" by auto
  with apply_hits_ok [of "hits captures_iter t1" t1 m1 0 content m2 o2] assms(4) c a
  have m2: "map_ok m2" "redaction_of m2 o2 content" by auto
  from restore_redaction [OF assms(6) redaction_of_mono [OF _ m2(2)] assms(3)] assms(7) r' m2(1)
  show ?thesis by simp
qed


subsection \<open>No known secret leaves\<close>

lemma contains_across_token:
  assumes "foreign s" "str_contains (x @ token n @ y) s"
  shows "str_contains x s \<or> str_contains y s"
proof -
  from assms(2) obtain a b where ab: "x @ token n @ y = a @ s @ b" by (auto simp: str_contains_iff)
  consider "length a + length s \<le> length x" | "length x + length (token n) \<le> length a"
    | "length x \<le> length a" "length a < length x + length (token n)"
    | "length a < length x" "length x < length a + length s" by linarith
  then show ?thesis
  proof cases
    case 1
    then have "prefix (a @ s) x" using ab
      by (metis append.assoc length_append prefix_length_prefix prefixI)
    then show ?thesis by (auto simp: prefix_def str_contains_iff)
  next
    case 2
    then have "prefix (x @ token n) a" using ab
      by (metis append.assoc length_append prefix_length_prefix prefixI)
    then obtain z where "a = x @ token n @ z" by (auto simp: prefix_def)
    with ab show ?thesis by (auto simp: str_contains_iff)
  next
    case 3
    from 3(1) have "prefix x a" using ab by (metis prefix_length_prefix prefixI)
    then obtain z where "a = x @ z" by (auto simp: prefix_def)
    with ab 3(2) foreign_not_in_token [OF assms(1), of n y z b] show ?thesis by auto
  next
    case 4
    from 4(1) have "prefix a x" using ab by (metis prefix_length_prefix prefixI less_imp_le)
    then obtain z where z: "x = a @ z" by (auto simp: prefix_def)
    with ab have "s @ b = z @ token n @ y" by simp
    moreover from 4 z have len: "length z < length s" by simp
    ultimately have "prefix z s" by (metis less_imp_le prefixI prefix_length_prefix)
    then obtain us where us: "s = z @ us" by (auto simp: prefix_def)
    with len obtain c us' where "us = c # us'" by (cases us) auto
    with us \<open>s @ b = z @ token n @ y\<close> have "c = CHR 0xE2" by (simp add: token_bytes bracket_open_def)
    with us \<open>us = c # us'\<close> have "CHR 0xE2 \<in> set s" by simp
    with assms(1) show ?thesis by (simp add: foreign_def)
  qed
qed

lemma replace_from_occurrences:
  assumes "foreign s" "p \<noteq> []" "str_contains (replace_from p (token n) t) s"
  shows "str_contains t s \<and> s \<noteq> p"
  using assms(3)
proof (induction "length t" arbitrary: t rule: less_induct)
  case less
  show ?case
  proof (cases "str_contains t p")
    case False
    with less.prems assms(2) show ?thesis by (auto simp: replace_from_absent)
  next
    case True
    from first_occurrence [OF this assms(2), of "token n"] obtain x y where
      xy: "t = x @ p @ y" "replace_from p (token n) t = x @ token n @ replace_from p (token n) y"
        "length y < length t" "\<not> str_contains x p" by blast
    from contains_across_token [OF assms(1)] less.prems xy(2)
    consider "str_contains x s" | "str_contains (replace_from p (token n) y) s" by metis
    then show ?thesis
    proof cases
      case 1
      with xy show ?thesis using str_contains_append_left by blast
    next
      case 2
      from less.hyps [OF xy(3) 2] xy(1) show ?thesis using str_contains_append_right by metis
    qed
  qed
qed

lemma redact_corpus_clean:
  assumes "foreign s" "\<forall>v \<in> set ss. v \<noteq> []" "map_ok m" "redact_corpus ss m t = (m', out)"
    "str_contains out s"
  shows "str_contains t s \<and> s \<notin> set ss \<and> map_ok m'"
  using assms(2-5)
proof (induction ss arbitrary: m t)
  case Nil
  then show ?case by simp
next
  case (Cons v ss)
  show ?case
  proof (cases "str_contains t v")
    case False
    with Cons.IH [of m t] Cons.prems show ?thesis by auto
  next
    case True
    obtain m1 p where mint: "mint_or_reuse m v = (m1, p)" by force
    from store.mint_token [OF Cons.prems(2) mint] obtain n where n: "p = token n" by blast
    have "redact_corpus ss m1 (str_replace t v p) = (m', out)" using Cons.prems(3) True mint by simp
    from Cons.IH [OF _ map_ok_mint [OF Cons.prems(2) mint] this Cons.prems(4)] Cons.prems(1)
    have "str_contains (str_replace t v p) s" "s \<notin> set ss" "map_ok m'" by auto
    with replace_from_occurrences [OF assms(1), of v n t] Cons.prems(1) n show ?thesis
      by (auto simp: str_replace_def)
  qed
qed

lemma redact_corpus_map_ok: "map_ok m \<Longrightarrow> redact_corpus ss m t = (m', out) \<Longrightarrow> map_ok m'"
  by (induction ss arbitrary: m t) (auto split: if_splits prod.splits intro: map_ok_mint)

lemma apply_hits_clean:
  assumes "foreign s" "\<forall>h \<in> set hs. fst (snd (snd h)) \<le> snd (snd (snd h))" "map_ok m"
    "str_contains (snd (apply_hits content k hs m)) s"
  shows "str_contains (drop k content) s"
  using assms(2-4)
proof (induction hs arbitrary: k m)
  case Nil
  then show ?case by simp
next
  case (Cons h hs)
  obtain kd v a b where h: "h = (kd, v, a, b)" by (cases h) auto
  show ?case
  proof (cases "a < k")
    case True
    with Cons.IH [of m k] Cons.prems h show ?thesis by auto
  next
    case False
    obtain m1 p where mint: "mint_or_reuse m v = (m1, p)" by force
    from store.mint_token [OF Cons.prems(2) mint] obtain n where n: "p = token n" by blast
    have ab: "k \<le> a" "a \<le> b" using False Cons.prems(1) h by auto
    have "str_contains (slice content (k, a) @ token n @ snd (apply_hits content b hs m1)) s"
      using Cons.prems(3) False h mint n by (auto simp: Let_def split: prod.splits)
    from contains_across_token [OF assms(1) this]
    consider "str_contains (slice content (k, a)) s" | "str_contains (drop b content) s"
      using Cons.IH [OF _ map_ok_mint [OF Cons.prems(2) mint], of b] Cons.prems(1) by auto
    then show ?thesis
    proof cases
      case 1
      then show ?thesis unfolding slice_def using str_contains_append_left
        by (metis append_take_drop_id fst_conv snd_conv)
    next
      case 2
      have "drop b content = drop (b - k) (drop k content)" using ab by simp
      with 2 show ?thesis using str_contains_append_right by (metis append_take_drop_id)
    qed
  qed
qed

lemma redacted_clean:
  assumes "map_ok (redactor_map r)" "s \<in> set (corpus r)" "foreign s" "\<forall>v \<in> set (corpus r). v \<noteq> []"
    "\<forall>t. \<forall>h \<in> set (hits captures_iter t). fst (snd (snd h)) \<le> snd (snd (snd h))"
  shows "\<not> str_contains (snd (redactor_redact captures_iter r content)) s"
proof
  assume leak: "str_contains (snd (redactor_redact captures_iter r content)) s"
  obtain m1 t1 where c: "redact_corpus (corpus r) (redactor_map r) content = (m1, t1)" by force
  have ok: "map_ok m1" by (rule redact_corpus_map_ok [OF assms(1) c])
  from leak c have "str_contains (snd (apply_hits t1 0 (hits captures_iter t1) m1)) s"
    by (simp add: redactor_redact_def apply_all_def split: prod.splits)
  from apply_hits_clean [OF assms(3) _ ok this] assms(5) have "str_contains t1 s" by simp
  from redact_corpus_clean [OF assms(3,4,1) c this] assms(2) show False by simp
qed

text \<open>
  Claim C16. No known secret leaves: whatever the rules match, the redacted text contains none of the
  secrets of the redactor's corpus (as values foreign to the token grammar).
\<close>

theorem corpus_secret_never_leaves:
  assumes "map_ok (redactor_map r)" "s \<in> set (corpus r)" "foreign s" "\<forall>v \<in> set (corpus r). v \<noteq> []"
    "\<forall>t. \<forall>h \<in> set (hits captures_iter t). fst (snd (snd h)) \<le> snd (snd (snd h))"
  shows "\<not> str_contains (snd (redactor_redact captures_iter r content)) s"
  using assms by (rule redacted_clean)

subsection \<open>Streaming and rule facts\<close>

lemma partial_from_suffix:
  "partial_from chs tail = Some r \<Longrightarrow> suffix r (concat (rev chs) @ tail) \<and> is_partial r \<and> length r \<le> MAX_LOOKBACK"
proof (induction chs tail rule: partial_from.induct)
  case (2 ch chs tail)
  show ?case
  proof (cases "is_partial (ch @ tail) \<or> MAX_LOOKBACK < length (ch @ tail)")
    case True
    with "2.prems" show ?thesis by (auto simp: suffix_def split: if_splits)
  next
    case False
    with 2 show ?thesis by simp
  qed
qed simp

text \<open>
  The streaming form only holds text back: what it emits and what it carries are together the
  restored buffer, and what it carries may still become a token.
\<close>

lemma restore_incremental_splits:
  assumes "restore_incremental buffer m = (emit, carry)"
  shows "emit @ carry = restored (restore buffer m)
         \<and> (carry = [] \<or> is_partial carry \<and> length carry \<le> MAX_LOOKBACK)"
proof (cases "partial_placeholder_suffix (restored (restore buffer m))")
  case None
  with assms show ?thesis by (auto simp: restore_incremental_def Let_def)
next
  case (Some tl')
  let ?out = "restored (restore buffer m)"
  from partial_from_suffix [OF Some [unfolded partial_placeholder_suffix_def]]
  have t: "suffix tl' ?out" "is_partial tl'" "length tl' \<le> MAX_LOOKBACK" by simp_all
  then have "drop (length ?out - length tl') ?out = tl'" by (auto simp: suffix_def)
  with assms Some t append_take_drop_id [of "length ?out - length tl'" ?out] show ?thesis
    by (auto simp: restore_incremental_def Let_def simp del: append_take_drop_id)
qed

text \<open>
  The rule for bearer tokens asks for the group \<open>value\<close>, which its pattern does not name: with
  a matcher that reports only named groups it never has a hit.
\<close>

lemma bearer_rule_never_hits:
  assumes "\<And>rule t w v. (w, v) \<in> set (captures_iter rule t) \<Longrightarrow> \<not> names_value rule \<Longrightarrow> v = None"
  shows "rule_hits captures_iter content ((prefix_rule ''bearer_token'')\<lparr>group := True\<rparr>) = []"
  using assms by (fastforce simp: rule_hits_def prefix_rule_def)

lemma apply_hits_map_ok: "map_ok m \<Longrightarrow> map_ok (fst (apply_hits content k hs m))"
proof (induction hs arbitrary: k m)
  case (Cons h hs)
  obtain kd v a b where h: "h = (kd, v, a, b)" by (cases h) auto
  obtain m1 p where mint: "mint_or_reuse m v = (m1, p)" by force
  from Cons.IH [OF Cons.prems, of k] Cons.IH [OF map_ok_mint [OF Cons.prems mint], of b] h mint
  show ?case by (simp split: prod.splits) auto
qed simp

text \<open>The redactor keeps the contract of its map over any number of calls.\<close>

lemma redactor_keeps_map [preserves]:
  assumes "map_ok (redactor_map r)" "redactor_redact captures_iter r content = (r', out)"
  shows "map_ok (redactor_map r')"
proof -
  obtain m1 t1 where c: "redact_corpus (corpus r) (redactor_map r) content = (m1, t1)" by force
  with assms(2) have "redactor_map r' = fst (apply_hits t1 0 (hits captures_iter t1) m1)"
    by (auto simp: redactor_redact_def apply_all_def split: prod.splits)
  with apply_hits_map_ok [OF redact_corpus_map_ok [OF assms(1) c]] show ?thesis by simp
qed

lemma foreignI:
  assumes "CHR 0xE2 \<notin> set v" "\<not> is_cont_byte (hd v)"
    "c \<in> set v" "c \<notin> set (bracket_open @ ''SECRET_'' @ bracket_close)" "\<not> is_digit c"
  shows "foreign v"
proof -
  have "\<not> str_contains (token n) v" for n
    using str_contains_set [of "token n" v] assms(3-5) nat_str_digits [of c n]
    by (auto simp: token_bytes)
  with assms show ?thesis by (auto simp: foreign_def)
qed

definition demo_secret :: string where
  "demo_secret = ''hunter2hunter2''"

definition demo_redactor :: Redactor where
  "demo_redactor = redactor_new [demo_secret]"

lemma demo_secret_foreign: "foreign demo_secret"
  by (rule foreignI [where c = "CHR ''h''"])
     (simp_all add: demo_secret_def is_cont_byte_def is_digit_def bracket_open_def bracket_close_def)

lemma demo_redactor_simps: "corpus demo_redactor = [demo_secret]" "redactor_map demo_redactor = []"
  by (simp_all add: demo_redactor_def redactor_new_def MIN_CORPUS_LEN_def demo_secret_def)

lemma hits_none: "hits (\<lambda>_ _. []) t = []"
proof -
  have none: "rule_hits (\<lambda>_ _. []) t = (\<lambda>_. [])" by (rule ext) (simp add: rule_hits_def)
  have empty: "concat (map (\<lambda>_. []) rs) = ([] :: (string \<times> string \<times> span) list)" for rs :: "SecretRule list"
    by (induction rs) simp_all
  show ?thesis unfolding hits_def none empty by simp
qed


theorem corpus_secret_never_leaves_witness:
  "\<not> str_contains (snd (redactor_redact (\<lambda>_ _. []) demo_redactor ''use hunter2hunter2 now'')) demo_secret
   \<and> str_contains ''use hunter2hunter2 now'' demo_secret"
proof
  show "\<not> str_contains (snd (redactor_redact (\<lambda>_ _. []) demo_redactor ''use hunter2hunter2 now'')) demo_secret"
    by (rule corpus_secret_never_leaves)
       (simp_all add: demo_redactor_simps demo_secret_foreign hits_none map_ok_def, simp add: demo_secret_def)
  show "str_contains ''use hunter2hunter2 now'' demo_secret" by code_simp
qed

end
