(* ===== verification/Task_Registry.thy ===== *)
theory Task_Registry
  imports Json_Value "HOL-Library.AList" "HOL-Library.Signed_Division"
begin

section \<open>Background tasks\<close>

text \<open>
  Model of \<open>crates/zen-plugin/src/task_registry.rs\<close> and of the tool \<open>shell.kill\<close>
  (\<open>tools/shell_kill.rs\<close>): the registry of background children, their status machine, the
  drain of their output, the kill, deadline and shutdown paths, the \<open>meta.json\<close> mirror and the
  boot sweep of crash orphans.

  The registry map is an association list; its order stands for the unspecified iteration order
  of the \<open>HashMap\<close>. Operating-system calls are events or arguments: the fresh uuid, the results
  of creating the directory and of the fork, the clock, the exit status, the group probes. What
  an operation does outside the registry is the list of \<^emph>\<open>effects\<close> it returns (signals, the
  escalation thread, the rewrite of \<open>meta.json\<close>). Milliseconds are unbounded integers and byte
  counters unbounded naturals.

  The transition system at the end interleaves the critical sections of all the threads the
  code starts: the effects of an operation are performed one by one at any later moment and
  in any order.
\<close>

subsection \<open>Statuses, snapshots, entries\<close>

datatype TaskStatus =
    Running
  | Completed int
  | Failed string
  | Timeout
  | Killed
  | Orphaned

definition is_terminal :: "TaskStatus \<Rightarrow> bool" where
  "is_terminal st \<longleftrightarrow> st \<noteq> Running"

fun status_as_str :: "TaskStatus \<Rightarrow> string" where
  "status_as_str Running = ''running''"
| "status_as_str (Completed _) = ''completed''"
| "status_as_str (Failed _) = ''failed''"
| "status_as_str Timeout = ''timeout''"
| "status_as_str Killed = ''killed''"
| "status_as_str Orphaned = ''orphaned''"

definition OUTPUT_CAP_BYTES :: nat where
  "OUTPUT_CAP_BYTES = 8 * 1024 * 1024"

record TaskSnapshot =
  snap_task_id :: string
  snap_session :: string
  snap_pid :: nat
  command_digest :: string
  output_dir :: string
  snap_status :: TaskStatus
  started_at_ms :: int
  ended_at_ms :: "int option"
  bytes_stdout :: nat
  bytes_stderr :: nat
  truncated :: bool

record BackgroundLimits =
  max_wall_secs :: nat
  max_concurrent :: nat
  output_cap_bytes :: nat

text \<open>The on-disk mirror has the fields of the snapshot and the two capture paths.\<close>

record TaskMeta = TaskSnapshot +
  stdout_path :: string
  stderr_path :: string

definition from_snapshot :: "TaskSnapshot \<Rightarrow> string \<Rightarrow> string \<Rightarrow> TaskMeta" where
  "from_snapshot sn so se = TaskSnapshot.extend sn (TaskMeta.fields so se)"

record TaskEntry =
  entry_session :: string
  entry_dir :: string
  entry_limits :: BackgroundLimits
  entry_snapshot :: TaskSnapshot
  reaped :: bool
  notified :: bool

record TaskRegistry =
  entries :: "(string \<times> TaskEntry) list"
  draining :: bool

definition registry_new :: TaskRegistry where
  "registry_new = \<lparr>entries = [], draining = False\<rparr>"

abbreviation entry_status :: "TaskEntry \<Rightarrow> TaskStatus" where
  "entry_status e \<equiv> snap_status (entry_snapshot e)"

definition set_draining :: "TaskRegistry \<Rightarrow> TaskRegistry" where
  "set_draining r = r\<lparr>draining := True\<rparr>"

definition clear_draining :: "TaskRegistry \<Rightarrow> TaskRegistry" where
  "clear_draining r = r\<lparr>draining := False\<rparr>"

text \<open>The two capture files and \<open>meta.json\<close> of a task under the user root.\<close>

definition tasks_dir :: "string \<Rightarrow> string \<Rightarrow> string" where
  "tasks_dir root i = root @ ''/logs/tasks/'' @ i"

definition meta_stdout_path :: "string \<Rightarrow> string" where
  "meta_stdout_path dir = dir @ ''/stdout''"

definition meta_stderr_path :: "string \<Rightarrow> string" where
  "meta_stderr_path dir = dir @ ''/stderr''"

definition meta_path :: "string \<Rightarrow> string \<Rightarrow> string" where
  "meta_path root i = tasks_dir root i @ ''/meta.json''"

text \<open>What an operation asks of the world outside the registry.\<close>

datatype signal = SIGTERM | SIGKILL

datatype effect =
    Signal nat signal
  | Escalate nat
  | WriteMeta string TaskSnapshot

subsection \<open>Task ids\<close>

definition is_hex :: "char \<Rightarrow> bool" where
  "is_hex c \<longleftrightarrow> is_digit c \<or> (97 \<le> (of_char c :: nat) \<and> (of_char c :: nat) \<le> 102)"

definition is_valid_task_id :: "string \<Rightarrow> bool" where
  "is_valid_task_id s =
     (let groups = split_on (\<lambda>c. c = CHR ''-'') s in
      if length groups = 1 then length s = 32 \<and> list_all is_hex s
      else if length groups = 5 then
        list_all (\<lambda>(len, g). length g = len \<and> list_all is_hex g) (zip [8, 4, 4, 4, 12] groups)
      else False)"

definition truncate_char_safe :: "string \<Rightarrow> nat \<Rightarrow> string" where
  "truncate_char_safe s n = take_chars n s"

definition tail_chars :: "string \<Rightarrow> nat \<Rightarrow> string" where
  "tail_chars s n =
     (let total = char_count s
      in if total \<le> n then s else concat (drop (total - n) (utf8_chars s)))"

definition make_command_digest :: "string \<Rightarrow> string list \<Rightarrow> string" where
  "make_command_digest binary args =
     truncate_char_safe (foldl (\<lambda>d a. d @ '' '' @ a) binary args) 80"

subsection \<open>Operations of the registry\<close>

definition live_count :: "TaskRegistry \<Rightarrow> nat" where
  "live_count r = length (filter (\<lambda>(_, e). entry_status e = Running) (entries r))"

definition registry_snapshot :: "TaskRegistry \<Rightarrow> string \<Rightarrow> TaskSnapshot option" where
  "registry_snapshot r i = map_option entry_snapshot (map_of (entries r) i)"

definition live_for_session :: "TaskRegistry \<Rightarrow> string \<Rightarrow> TaskSnapshot list" where
  "live_for_session r sid =
     map (entry_snapshot \<circ> snd)
       (filter (\<lambda>(_, e). entry_status e = Running) (filter (\<lambda>(_, e). entry_session e = sid) (entries r)))"

definition take_status_changes :: "TaskRegistry \<Rightarrow> string \<Rightarrow> TaskSnapshot list" where
  "take_status_changes r sid =
     map (entry_snapshot \<circ> snd)
       (filter (\<lambda>(_, e). \<not> (entry_session e \<noteq> sid \<or> notified e) \<and> is_terminal (entry_status e)) (entries r))"

text \<open>Writing through the \<open>Arc\<close> an entry holds changes the entry in the map.\<close>

definition update_entry :: "string \<Rightarrow> (TaskEntry \<Rightarrow> TaskEntry) \<Rightarrow> TaskRegistry \<Rightarrow> TaskRegistry" where
  "update_entry i f r =
     (case map_of (entries r) i of
        None \<Rightarrow> r
      | Some e \<Rightarrow> r\<lparr>entries := AList.update i (f e) (entries r)\<rparr>)"

definition mark_notified :: "TaskRegistry \<Rightarrow> string \<Rightarrow> string list \<Rightarrow> TaskRegistry" where
  "mark_notified r sid ids =
     foldl (\<lambda>r i. update_entry i (\<lambda>e. if entry_session e = sid then e\<lparr>notified := True\<rparr> else e) r) r ids"

text \<open>The answers of the operating system to one spawn.\<close>

record SpawnEnv =
  user_root :: string
  fresh_id :: string
  create_dir :: "(unit, string) result"
  fork_pid :: "(nat option, string) result"
  spawn_now :: int

definition new_snapshot :: "SpawnEnv \<Rightarrow> nat \<Rightarrow> string \<Rightarrow> string \<Rightarrow> TaskSnapshot" where
  "new_snapshot env p sid digest =
     \<lparr>snap_task_id = fresh_id env, snap_session = sid, snap_pid = p, command_digest = digest,
      output_dir = tasks_dir (user_root env) (fresh_id env), snap_status = Running,
      started_at_ms = spawn_now env, ended_at_ms = None, bytes_stdout = 0, bytes_stderr = 0,
      truncated = False\<rparr>"

text \<open>
  The critical section of \<open>spawn_background\<close>: the drain flag, the concurrency gate, the
  directory, the child, the entry. The initial \<open>meta.json\<close> and the tasks that follow it are
  steps of the transition system below.
\<close>

definition spawn_background ::
  "SpawnEnv \<Rightarrow> TaskRegistry \<Rightarrow> string \<Rightarrow> string \<Rightarrow> BackgroundLimits
   \<Rightarrow> TaskRegistry \<times> (TaskSnapshot, string) result" where
  "spawn_background env r sid digest lim =
     (if draining r then
        (r, Err ''background task rejected: the daemon is shutting down (drain in progress); no new background tasks may be spawned'')
      else
        let live = live_count r in
        if max_concurrent lim \<le> live then
          (r, Err (''background task rejected: '' @ nat_str live
             @ '' live tasks already at the [agentic.background] max_concurrent limit of ''
             @ nat_str (max_concurrent lim)
             @ ''; collect or kill existing tasks first (shell.collect / shell.kill)''))
        else
          let dir = tasks_dir (user_root env) (fresh_id env) in
          case create_dir env of
            Err e \<Rightarrow> (r, Err (''failed to create task output dir '' @ dir @ '': '' @ e))
          | Ok _ \<Rightarrow>
              (case fork_pid env of
                 Err e \<Rightarrow> (r, Err (''failed to spawn background task: '' @ e))
               | Ok None \<Rightarrow> (r, Err ''background child pid vanished immediately after spawn'')
               | Ok (Some p) \<Rightarrow>
                   let sn = new_snapshot env p sid digest in
                   (r\<lparr>entries := AList.update (fresh_id env)
                        \<lparr>entry_session = sid, entry_dir = dir, entry_limits = lim, entry_snapshot = sn,
                         reaped = False, notified = False\<rparr> (entries r)\<rparr>,
                    Ok sn)))"

text \<open>
  The status transitions under the snapshot lock: the exit recorded by the wait task, and the
  mark of kill, deadline and drain. \<open>exit_status\<close> is the exit code, if any, with the printed
  form of the status, or the error of \<open>wait\<close>.
\<close>

type_synonym exit_status = "(int option \<times> string, string) result"

fun exit_to_status :: "exit_status \<Rightarrow> TaskStatus" where
  "exit_to_status (Ok (Some code, _)) = Completed code"
| "exit_to_status (Ok (None, shown)) = Failed (''child terminated without an exit code: '' @ shown)"
| "exit_to_status (Err e) = Failed (''wait failed: '' @ e)"

definition finish :: "TaskStatus \<Rightarrow> int \<Rightarrow> TaskSnapshot \<Rightarrow> TaskSnapshot" where
  "finish st now sn = sn\<lparr>snap_status := st, ended_at_ms := Some now\<rparr>"

definition wait_record :: "exit_status \<Rightarrow> int \<Rightarrow> TaskSnapshot \<Rightarrow> TaskSnapshot" where
  "wait_record exit now sn =
     (if is_terminal (snap_status sn) then sn else finish (exit_to_status exit) now sn)"

definition kill :: "TaskRegistry \<Rightarrow> string \<Rightarrow> int \<Rightarrow> TaskRegistry \<times> (TaskSnapshot, string) result \<times> effect list" where
  "kill r i now =
     (case map_of (entries r) i of
        None \<Rightarrow> (r, Err (''unknown task_id '' @ i), [])
      | Some e \<Rightarrow>
          if is_terminal (entry_status e) then (r, Ok (entry_snapshot e), [])
          else
            let sn = finish Killed now (entry_snapshot e) in
            (update_entry i (\<lambda>e. e\<lparr>entry_snapshot := sn\<rparr>) r, Ok sn,
             (if reaped e then [] else [Signal (snap_pid sn) SIGTERM, Escalate (snap_pid sn)])
             @ [WriteMeta (entry_dir e) sn]))"

text \<open>\<open>expire_due\<close>: the selection under the registry lock, then one critical section per task.\<close>

definition due :: "int \<Rightarrow> TaskEntry \<Rightarrow> bool" where
  "due now e \<longleftrightarrow> started_at_ms (entry_snapshot e) + int (max_wall_secs (entry_limits e)) * 1000 \<le> now"

definition expire_mark :: "int \<Rightarrow> TaskRegistry \<Rightarrow> string \<Rightarrow> TaskRegistry \<times> effect list \<times> string list" where
  "expire_mark now r i =
     (case map_of (entries r) i of
        None \<Rightarrow> (r, [], [])
      | Some e \<Rightarrow>
          if entry_status e \<noteq> Running then (r, [], [])
          else
            let sn = finish Timeout now (entry_snapshot e) in
            (update_entry i (\<lambda>e. e\<lparr>entry_snapshot := sn\<rparr>) r,
             (if reaped e then [] else [Signal (snap_pid sn) SIGKILL]) @ [WriteMeta (entry_dir e) sn],
             [snap_task_id sn]))"

fun mark_each ::
  "(TaskRegistry \<Rightarrow> string \<Rightarrow> TaskRegistry \<times> effect list \<times> string list) \<Rightarrow> TaskRegistry \<Rightarrow> string list
   \<Rightarrow> TaskRegistry \<times> effect list \<times> string list" where
  "mark_each mark r [] = (r, [], [])"
| "mark_each mark r (i # is) =
     (let (r1, es, ids) = mark r i; (r2, es', ids') = mark_each mark r1 is
      in (r2, es @ es', ids @ ids'))"

definition expire_due :: "TaskRegistry \<Rightarrow> int \<Rightarrow> TaskRegistry \<times> effect list \<times> string list" where
  "expire_due r now =
     mark_each (expire_mark now) r
       (map fst (filter (\<lambda>(_, e). entry_status e = Running \<and> due now e) (entries r)))"

text \<open>
  \<open>kill_all\<close> and \<open>kill_all_blocking\<close>. Neither reads \<open>reaped\<close>. The blocking drain escalates on
  its own thread: after the grace period it probes the group of every task it had selected.
\<close>

definition drain_mark :: "bool \<Rightarrow> int \<Rightarrow> TaskRegistry \<Rightarrow> string \<Rightarrow> TaskRegistry \<times> effect list \<times> string list" where
  "drain_mark escalate now r i =
     (case map_of (entries r) i of
        None \<Rightarrow> (r, [], [])
      | Some e \<Rightarrow>
          if entry_status e \<noteq> Running then (r, [], [])
          else
            let sn = finish Killed now (entry_snapshot e) in
            (update_entry i (\<lambda>e. e\<lparr>entry_snapshot := sn\<rparr>) r,
             Signal (snap_pid sn) SIGTERM # (if escalate then [Escalate (snap_pid sn)] else [])
             @ [WriteMeta (entry_dir e) sn],
             [snap_task_id sn]))"

definition live_ids :: "TaskRegistry \<Rightarrow> string list" where
  "live_ids r = map fst (filter (\<lambda>(_, e). entry_status e = Running) (entries r))"

definition kill_all :: "TaskRegistry \<Rightarrow> int \<Rightarrow> TaskRegistry \<times> effect list \<times> string list" where
  "kill_all r now = mark_each (drain_mark True now) r (live_ids r)"

definition kill_all_blocking ::
  "(nat \<Rightarrow> bool) \<Rightarrow> TaskRegistry \<Rightarrow> int \<Rightarrow> TaskRegistry \<times> effect list \<times> string list" where
  "kill_all_blocking group_alive r now =
     (let live = filter (\<lambda>(_, e). entry_status e = Running) (entries r);
          (r', es, ids) = mark_each (drain_mark False now) r (map fst live)
      in if ids = [] then (r', es, ids)
         else (r', es @ map (\<lambda>(_, e). Signal (snap_pid (entry_snapshot e)) SIGKILL)
                          (filter (\<lambda>(_, e). group_alive (snap_pid (entry_snapshot e))) live), ids))"

text \<open>\<open>spawn_kill_escalation\<close>: after the grace window the group is killed if it still has a member.\<close>

definition kill_escalation :: "(nat \<Rightarrow> bool) \<Rightarrow> nat \<Rightarrow> effect list" where
  "kill_escalation group_alive p = (if group_alive p then [Signal p SIGKILL] else [])"

subsection \<open>Draining a pipe\<close>

text \<open>Counting one chunk into the snapshot.\<close>

definition count_chunk :: "nat \<Rightarrow> bool \<Rightarrow> nat \<Rightarrow> TaskSnapshot \<Rightarrow> TaskSnapshot" where
  "count_chunk cap is_stdout n sn =
     (let sn' = (if is_stdout then sn\<lparr>bytes_stdout := bytes_stdout sn + n\<rparr>
                 else sn\<lparr>bytes_stderr := bytes_stderr sn + n\<rparr>);
          total_seen = (if is_stdout then bytes_stdout sn' else bytes_stderr sn')
      in if cap < total_seen then sn'\<lparr>truncated := True\<rparr> else sn')"

text \<open>
  The loop over the chunks read until the end of the pipe. A write of the capture file
  succeeds, or fails after some bytes have reached the file; \<open>file_open\<close> is false when the file
  could not be created or was abandoned.
\<close>

datatype write_result = Written | WriteFailed nat

record DrainState =
  drain_snapshot :: TaskSnapshot
  file_open :: bool
  file_bytes :: string
  captured :: nat

fun drain_pipe :: "nat \<Rightarrow> bool \<Rightarrow> (string \<times> write_result) list \<Rightarrow> DrainState \<Rightarrow> DrainState" where
  "drain_pipe cap is_stdout [] d = d"
| "drain_pipe cap is_stdout ((buf, w) # rest) d =
     (let d1 = d\<lparr>drain_snapshot := count_chunk cap is_stdout (length buf) (drain_snapshot d)\<rparr>;
          d2 = (if file_open d1 \<and> captured d1 < cap then
                  let to_write = min (cap - captured d1) (length buf) in
                  case w of
                    Written \<Rightarrow> d1\<lparr>file_bytes := file_bytes d1 @ take to_write buf,
                                  captured := captured d1 + to_write\<rparr>
                  | WriteFailed k \<Rightarrow> d1\<lparr>file_bytes := file_bytes d1 @ take (min k to_write) buf,
                                        file_open := False\<rparr>
                else d1)
      in drain_pipe cap is_stdout rest d2)"

subsection \<open>The on-disk mirror\<close>

definition meta_of :: "string \<Rightarrow> TaskSnapshot \<Rightarrow> TaskMeta" where
  "meta_of dir sn = from_snapshot sn (meta_stdout_path dir) (meta_stderr_path dir)"

text \<open>
  \<open>write_meta\<close> replaces the file unless the write fails; \<open>read_meta\<close> is a lookup in the disk,
  which holds the files that parse.
\<close>

type_synonym meta_disk = "string \<rightharpoonup> TaskMeta"

definition write_meta :: "bool \<Rightarrow> string \<Rightarrow> TaskSnapshot \<Rightarrow> meta_disk \<Rightarrow> meta_disk" where
  "write_meta write_ok dir sn disk =
     (if write_ok then disk(dir @ ''/meta.json'' \<mapsto> meta_of dir sn) else disk)"

definition mark_meta_status ::
  "string \<Rightarrow> bool \<Rightarrow> int \<Rightarrow> meta_disk \<Rightarrow> string \<Rightarrow> TaskStatus \<Rightarrow> meta_disk \<times> TaskMeta option" where
  "mark_meta_status root write_ok now disk i st =
     (case disk (meta_path root i) of
        None \<Rightarrow> (disk, None)
      | Some m \<Rightarrow>
          if is_terminal (snap_status m) then (disk, Some m)
          else
            let m' = m\<lparr>snap_status := st, ended_at_ms := Some now\<rparr> in
            if write_ok then (disk(meta_path root i \<mapsto> m'), Some m') else (disk, None))"

text \<open>
  The boot sweep: the age of a group leader is what the operating system reports, \<open>None\<close> when it
  cannot be read. One clock reading serves all tests of one file.
\<close>

definition verify_leader_identity :: "(nat \<Rightarrow> int option) \<Rightarrow> int \<Rightarrow> nat \<Rightarrow> int \<Rightarrow> bool" where
  "verify_leader_identity leader_age_secs now p started =
     (case leader_age_secs p of
        Some age \<Rightarrow> \<bar>age - (now - started) sdiv 1000\<bar> \<le> 10
      | None \<Rightarrow> False)"

record SweepEnv =
  group_probe :: "nat \<Rightarrow> bool"
  leader_age :: "nat \<Rightarrow> int option"
  sweep_now :: int
  rewrite_ok :: "string \<Rightarrow> bool"

definition sweep_one ::
  "SweepEnv \<Rightarrow> TaskRegistry \<Rightarrow> string \<Rightarrow> TaskMeta option \<Rightarrow> TaskMeta option \<times> effect list \<times> nat" where
  "sweep_one env r path file =
     (case file of
        None \<Rightarrow> (None, [], 0)
      | Some m \<Rightarrow>
          if snap_status m \<noteq> Running then (file, [], 0)
          else if registry_snapshot r (snap_task_id m) \<noteq> None then (file, [], 0)
          else if 7 * 86400000 < sweep_now env - started_at_ms m then (file, [], 0)
          else
            let alive = group_probe env (snap_pid m);
                verified_ours = (alive \<and> verify_leader_identity (leader_age env) (sweep_now env)
                                            (snap_pid m) (started_at_ms m));
                m' = m\<lparr>snap_status := Orphaned, ended_at_ms := Some (sweep_now env)\<rparr>
            in if \<not> rewrite_ok env path then (file, [], 0)
               else (Some m', if verified_ours then [Signal (snap_pid m) SIGKILL] else [], 1))"

fun sweep_orphans_on_boot ::
  "SweepEnv \<Rightarrow> TaskRegistry \<Rightarrow> (string \<times> TaskMeta option) list
   \<Rightarrow> (string \<times> TaskMeta option) list \<times> effect list \<times> nat" where
  "sweep_orphans_on_boot env r [] = ([], [], 0)"
| "sweep_orphans_on_boot env r ((path, file) # rest) =
     (let (file', es, k) = sweep_one env r path file;
          (rest', es', k') = sweep_orphans_on_boot env r rest
      in ((path, file') # rest', es @ es', k + k'))"

text \<open>
  The capture paths recorded in a \<open>meta.json\<close> are checked before they are read. Absolute paths
  are compared as their components; \<open>canonicalize\<close> is the file system's.
\<close>

definition abs_components :: "string \<Rightarrow> string list" where
  "abs_components p = filter (\<lambda>c. c \<noteq> [] \<and> c \<noteq> ''.'') (split_on (\<lambda>c. c = CHR ''/'') p)"

definition capture_path_is_safe :: "(string list \<Rightarrow> string list option) \<Rightarrow> string list \<Rightarrow> string \<Rightarrow> bool" where
  "capture_path_is_safe canonicalize expected raw =
     (let cs = abs_components raw in
      if \<not> starts_with raw ''/'' then False
      else if ''..'' \<in> set cs then False
      else if cs = [] then False
      else if last cs \<noteq> ''stdout'' \<and> last cs \<noteq> ''stderr'' then False
      else case canonicalize (butlast cs) of
             None \<Rightarrow> False
           | Some parent \<Rightarrow>
               if parent \<noteq> expected then False
               else (case canonicalize cs of
                       Some real \<Rightarrow> real = expected @ [last cs]
                     | None \<Rightarrow> True))"

definition meta_capture_paths_are_safe ::
  "(string list \<Rightarrow> string list option) \<Rightarrow> string \<Rightarrow> string \<Rightarrow> TaskMeta \<Rightarrow> bool" where
  "meta_capture_paths_are_safe canonicalize root i m =
     (case canonicalize (abs_components (tasks_dir root i)) of
        None \<Rightarrow> False
      | Some expected \<Rightarrow>
          list_all (capture_path_is_safe canonicalize expected) [stdout_path m, stderr_path m])"

subsection \<open>The tool \<open>shell.kill\<close>\<close>

datatype KernelError = InvalidArgument string

definition task_id_arg :: "json \<Rightarrow> (string, KernelError) result" where
  "task_id_arg args =
     (case json_get_str args ''task_id'' of
        Some s \<Rightarrow> if trim s \<noteq> [] then Ok s
                  else Err (InvalidArgument (''Missing or invalid '' @ [CHR 39] @ ''task_id'' @ [CHR 39] @ '' field''))
      | None \<Rightarrow> Err (InvalidArgument (''Missing or invalid '' @ [CHR 39] @ ''task_id'' @ [CHR 39] @ '' field'')))"

definition valid_task_id_arg :: "json \<Rightarrow> (string, KernelError) result" where
  "valid_task_id_arg args =
     res_bind (task_id_arg args) (\<lambda>i.
       if is_valid_task_id i then Ok i
       else Err (InvalidArgument (''invalid task_id '' @ [CHR 34] @ i @ [CHR 34]
              @ '': expected a uuid v4 id (32 hex chars, or 8-4-4-4-12 hyphenated) as returned by shell.exec background:true'')))"

definition task_view :: "string \<Rightarrow> TaskStatus \<Rightarrow> nat \<Rightarrow> string \<Rightarrow> json" where
  "task_view i st p note =
     JObject [(''task_id'', JString i), (''status'', JString (status_as_str st)),
              (''pid'', JNumber (int p)), (''note'', JString note)]"

definition unknown_task :: "string \<Rightarrow> json" where
  "unknown_task i =
     JObject [(''error'', JString (''unknown task_id '' @ i
        @ '': no registry entry and no meta.json under logs/tasks/''))]"

definition shell_kill_invoke ::
  "string \<Rightarrow> bool \<Rightarrow> int \<Rightarrow> TaskRegistry \<Rightarrow> meta_disk \<Rightarrow> json
   \<Rightarrow> TaskRegistry \<times> meta_disk \<times> effect list \<times> (json, KernelError) result" where
  "shell_kill_invoke root write_ok now r disk args =
     (case valid_task_id_arg args of
        Err e \<Rightarrow> (r, disk, [], Err e)
      | Ok i \<Rightarrow>
          (case kill r i now of
             (r', Ok sn, es) \<Rightarrow>
               (r', disk, es, Ok (task_view (snap_task_id sn) (snap_status sn) (snap_pid sn)
                  ''SIGTERM sent to the process group; SIGKILL escalates after 3s if the group is still alive''))
           | (_, Err _, _) \<Rightarrow>
               (case mark_meta_status root write_ok now disk i Killed of
                  (disk', Some m) \<Rightarrow>
                    (r, disk', [], Ok (task_view (snap_task_id m) (snap_status m) (snap_pid m)
                       ''task not in the registry (daemon restart?); meta.json marked killed, no signal sent (pid-reuse guard)''))
                | (disk', None) \<Rightarrow> (r, disk', [], Ok (unknown_task i)))))"

end
