(* ===== verification/Task_System.thy ===== *)
theory Task_System
  imports Task_Registry
begin

section \<open>Background tasks under every interleaving\<close>

text \<open>
  The transition system of the registry: each step is one critical section of one of the
  threads and tasks \<open>task_registry.rs\<close> starts. \<open>phase\<close> is the program counter of a task's own
  threads (\<open>spawn_background\<close> after the insertion, then the wait task); kills, deadlines, drains
  and the push cursor come from elsewhere at any moment; the effects of an operation are
  performed later, in any order, and a write of \<open>meta.json\<close> may fail. The only assumption on
  the uuid crate is that a fresh id is not one of the registry's.
\<close>

datatype phase =
    Reserved
  | Cloned TaskSnapshot
  | Started
  | Reaped
  | Recorded

definition active :: "phase option \<Rightarrow> bool" where
  "active p \<longleftrightarrow> p = Some Started \<or> p = Some Reaped \<or> p = Some Recorded"

record TaskSystem =
  root :: string
  reg :: TaskRegistry
  disk :: meta_disk
  phases :: "string \<rightharpoonup> phase"
  pending_effects :: "effect list"
  signals :: "(nat \<times> signal) list"

datatype task_event =
    Spawn SpawnEnv string string BackgroundLimits
  | CloneInitial string
  | WriteInitial string bool
  | Chunk string bool nat
  | Reap string
  | Record string exit_status int
  | Finalize string
  | KillTask string int
  | Expire string int
  | DrainKill bool string int
  | Notify string "string list"
  | SetDraining
  | PerformWrite bool
  | PerformSignal
  | PerformEscalation bool

definition set_snapshot :: "string \<Rightarrow> (TaskSnapshot \<Rightarrow> TaskSnapshot) \<Rightarrow> TaskRegistry \<Rightarrow> TaskRegistry" where
  "set_snapshot i f = update_entry i (\<lambda>e. e\<lparr>entry_snapshot := f (entry_snapshot e)\<rparr>)"

abbreviation lookup :: "TaskSystem \<Rightarrow> string \<Rightarrow> TaskEntry option" where
  "lookup s i \<equiv> map_of (entries (reg s)) i"

inductive task_step :: "TaskSystem \<Rightarrow> task_event \<Rightarrow> TaskSystem \<Rightarrow> bool" where
  ts_spawn:
    "user_root env = root s \<Longrightarrow> lookup s (fresh_id env) = None
     \<Longrightarrow> spawn_background env (reg s) sid dg lim = (r, Ok sn)
     \<Longrightarrow> task_step s (Spawn env sid dg lim) (s\<lparr>reg := r, phases := (phases s)(fresh_id env \<mapsto> Reserved)\<rparr>)"
| ts_clone:
    "phases s i = Some Reserved \<Longrightarrow> lookup s i = Some e
     \<Longrightarrow> task_step s (CloneInitial i) (s\<lparr>phases := (phases s)(i \<mapsto> Cloned (entry_snapshot e))\<rparr>)"
| ts_initial:
    "phases s i = Some (Cloned sn) \<Longrightarrow> lookup s i = Some e
     \<Longrightarrow> task_step s (WriteInitial i ok)
           (s\<lparr>disk := write_meta ok (entry_dir e) sn (disk s), phases := (phases s)(i \<mapsto> Started)\<rparr>)"
| ts_chunk:
    "active (phases s i) \<Longrightarrow> lookup s i = Some e
     \<Longrightarrow> task_step s (Chunk i out n)
           (s\<lparr>reg := set_snapshot i (count_chunk (output_cap_bytes (entry_limits e)) out n) (reg s)\<rparr>)"
| ts_reap:
    "phases s i = Some Started
     \<Longrightarrow> task_step s (Reap i)
           (s\<lparr>reg := update_entry i (\<lambda>e. e\<lparr>reaped := True\<rparr>) (reg s), phases := (phases s)(i \<mapsto> Reaped)\<rparr>)"
| ts_record:
    "phases s i = Some Reaped \<Longrightarrow> lookup s i = Some e
     \<Longrightarrow> task_step s (Record i exit now)
           (s\<lparr>reg := set_snapshot i (wait_record exit now) (reg s), phases := (phases s)(i \<mapsto> Recorded),
              pending_effects := pending_effects s
                @ [WriteMeta (entry_dir e) (wait_record exit now (entry_snapshot e))]\<rparr>)"
| ts_final:
    "active (phases s i) \<Longrightarrow> lookup s i = Some e \<Longrightarrow> is_terminal (entry_status e)
     \<Longrightarrow> task_step s (Finalize i)
           (s\<lparr>pending_effects := pending_effects s @ [WriteMeta (entry_dir e) (entry_snapshot e)]\<rparr>)"
| ts_kill:
    "kill (reg s) i now = (r, res, es)
     \<Longrightarrow> task_step s (KillTask i now) (s\<lparr>reg := r, pending_effects := pending_effects s @ es\<rparr>)"
| ts_expire:
    "lookup s i = Some e \<Longrightarrow> due now e \<Longrightarrow> expire_mark now (reg s) i = (r, es, ids)
     \<Longrightarrow> task_step s (Expire i now) (s\<lparr>reg := r, pending_effects := pending_effects s @ es\<rparr>)"
| ts_drain:
    "drain_mark esc now (reg s) i = (r, es, ids)
     \<Longrightarrow> task_step s (DrainKill esc i now) (s\<lparr>reg := r, pending_effects := pending_effects s @ es\<rparr>)"
| ts_notify: "task_step s (Notify sid ids) (s\<lparr>reg := mark_notified (reg s) sid ids\<rparr>)"
| ts_draining: "task_step s SetDraining (s\<lparr>reg := set_draining (reg s)\<rparr>)"
| ts_write:
    "pending_effects s = a @ WriteMeta dir sn # b
     \<Longrightarrow> task_step s (PerformWrite ok) (s\<lparr>disk := write_meta ok dir sn (disk s), pending_effects := a @ b\<rparr>)"
| ts_signal:
    "pending_effects s = a @ Signal p sg # b
     \<Longrightarrow> task_step s PerformSignal (s\<lparr>signals := signals s @ [(p, sg)], pending_effects := a @ b\<rparr>)"
| ts_escalate:
    "pending_effects s = a @ Escalate p # b
     \<Longrightarrow> task_step s (PerformEscalation alive)
           (s\<lparr>pending_effects := a @ b @ kill_escalation (\<lambda>_. alive) p\<rparr>)"

definition task_init :: "string \<Rightarrow> meta_disk \<Rightarrow> TaskSystem" where
  "task_init rt d =
     \<lparr>root = rt, reg = registry_new, disk = d, phases = Map.empty, pending_effects = [], signals = []\<rparr>"

subsection \<open>What a step changes in an entry\<close>

lemma lookup_update_entry [simp]:
  "map_of (entries (update_entry i f r)) j =
     (if j = i then map_option f (map_of (entries r) i) else map_of (entries r) j)"
  by (auto simp: update_entry_def update_conv' split: option.splits)

lemma draining_update_entry [simp]: "draining (update_entry i f r) = draining r"
  by (simp add: update_entry_def split: option.splits)

lemma lookup_set_snapshot [simp]:
  "map_of (entries (set_snapshot i f r)) j =
     (if j = i then map_option (\<lambda>e. e\<lparr>entry_snapshot := f (entry_snapshot e)\<rparr>) (map_of (entries r) i)
      else map_of (entries r) j)"
  by (simp add: set_snapshot_def)

lemma lookup_mark_notified [simp]:
  "map_of (entries (mark_notified r sid ids)) j =
     map_option (\<lambda>e. if entry_session e = sid \<and> j \<in> set ids then e\<lparr>notified := True\<rparr> else e)
       (map_of (entries r) j)"
proof (induction ids arbitrary: r)
  case Nil
  then show ?case by (simp add: mark_notified_def option.map_ident)
next
  case (Cons i ids)
  have "mark_notified r sid (i # ids)
        = mark_notified (update_entry i (\<lambda>e. if entry_session e = sid then e\<lparr>notified := True\<rparr> else e) r) sid ids"
    by (simp add: mark_notified_def)
  with Cons.IH show ?case
    by (cases "map_of (entries r) j") auto
qed

text \<open>
  Two entries of one task, the second later: identity, limits and start never change, a
  terminal status and its time never change, and the flags are never taken back.
\<close>

definition later_snapshot :: "TaskSnapshot \<Rightarrow> TaskSnapshot \<Rightarrow> bool" where
  "later_snapshot a b \<longleftrightarrow>
     snap_task_id b = snap_task_id a \<and> snap_session b = snap_session a \<and> snap_pid b = snap_pid a
     \<and> started_at_ms b = started_at_ms a \<and> bytes_stdout a \<le> bytes_stdout b \<and> bytes_stderr a \<le> bytes_stderr b
     \<and> (truncated a \<longrightarrow> truncated b)
     \<and> (is_terminal (snap_status a) \<longrightarrow> snap_status b = snap_status a \<and> ended_at_ms b = ended_at_ms a)"

definition later_entry :: "TaskEntry \<Rightarrow> TaskEntry \<Rightarrow> bool" where
  "later_entry e e' \<longleftrightarrow>
     entry_session e' = entry_session e \<and> entry_dir e' = entry_dir e \<and> entry_limits e' = entry_limits e
     \<and> (reaped e \<longrightarrow> reaped e') \<and> (notified e \<longrightarrow> notified e')
     \<and> later_snapshot (entry_snapshot e) (entry_snapshot e')"

lemma later_snapshot_refl [simp]: "later_snapshot a a"
  by (simp add: later_snapshot_def)

lemma later_entry_refl [simp]: "later_entry e e"
  by (simp add: later_entry_def)

lemma later_snapshot_trans: "later_snapshot a b \<Longrightarrow> later_snapshot b c \<Longrightarrow> later_snapshot a c"
  by (auto simp: later_snapshot_def)

lemma later_entry_trans: "later_entry a b \<Longrightarrow> later_entry b c \<Longrightarrow> later_entry a c"
  by (auto simp: later_entry_def intro: later_snapshot_trans)

lemma later_snapshot_count [simp]: "later_snapshot sn (count_chunk cap out n sn)"
  by (simp add: later_snapshot_def count_chunk_def Let_def)

lemma later_snapshot_wait [simp]: "later_snapshot sn (wait_record exit now sn)"
  by (simp add: later_snapshot_def wait_record_def finish_def)

lemma later_snapshot_finish [simp]: "\<not> is_terminal (snap_status sn) \<Longrightarrow> later_snapshot sn (finish st now sn)"
  by (simp add: later_snapshot_def finish_def)

lemma later_snapshot_mono [simp]: "later_snapshot a b \<Longrightarrow> later_entry e (e\<lparr>entry_snapshot := b\<rparr>)"
  if "entry_snapshot e = a"
  using that by (simp add: later_entry_def)

lemma later_entry_flags [simp]:
  "later_entry e (e\<lparr>reaped := True\<rparr>)" "later_entry e (e\<lparr>notified := True\<rparr>)"
  by (simp_all add: later_entry_def)

lemmas mark_defs = kill_def expire_mark_def drain_mark_def Let_def

lemma spawn_Ok:
  assumes "spawn_background env r sid dg lim = (r', Ok sn)"
  obtains p where "\<not> draining r" "live_count r < max_concurrent lim" "fork_pid env = Ok (Some p)"
    "sn = new_snapshot env p sid dg"
    "r' = r\<lparr>entries := AList.update (fresh_id env)
            \<lparr>entry_session = sid, entry_dir = tasks_dir (user_root env) (fresh_id env), entry_limits = lim,
             entry_snapshot = sn, reaped = False, notified = False\<rparr> (entries r)\<rparr>"
  using assms by (auto simp: spawn_background_def Let_def split: if_splits result.splits option.splits)

lemma step_later:
  assumes "task_step s l t" "lookup s i = Some e"
  shows "\<exists>e'. lookup t i = Some e' \<and> later_entry e e'"
  using assms
proof (cases rule: task_step.cases)
  case (ts_spawn env sid dg lim r sn)
  with assms(2) show ?thesis by (elim spawn_Ok) (auto simp: update_conv')
qed (auto simp: mark_defs is_terminal_def set_draining_def split: option.splits if_splits)

lemma steps_later: "steps task_step s ls t \<Longrightarrow> lookup s i = Some e \<Longrightarrow> \<exists>e'. lookup t i = Some e' \<and> later_entry e e'"
proof (induction arbitrary: e rule: steps.induct)
  case (steps_nil s)
  then show ?case by auto
next
  case (steps_cons s l t ls u)
  from step_later [OF steps_cons.hyps(1) steps_cons.prems] steps_cons.IH show ?case
    by (meson later_entry_trans)
qed

subsection \<open>The invariant\<close>

definition entry_ok :: "string \<Rightarrow> string \<Rightarrow> TaskEntry \<Rightarrow> bool" where
  "entry_ok rt i e \<longleftrightarrow>
     snap_task_id (entry_snapshot e) = i \<and> snap_session (entry_snapshot e) = entry_session e
     \<and> entry_dir e = tasks_dir rt i
     \<and> (is_terminal (entry_status e) \<longleftrightarrow> ended_at_ms (entry_snapshot e) \<noteq> None)"

definition task_inv :: "TaskSystem \<Rightarrow> bool" where
  "task_inv s \<longleftrightarrow>
     distinct (map fst (entries (reg s)))
     \<and> (\<forall>i e. lookup s i = Some e \<longrightarrow> entry_ok (root s) i e)
     \<and> dom (phases s) = dom (lookup s)
     \<and> (\<forall>i e. phases s i = Some Recorded \<longrightarrow> lookup s i = Some e \<longrightarrow> is_terminal (entry_status e))
     \<and> (\<forall>dir sn. WriteMeta dir sn \<in> set (pending_effects s) \<longrightarrow>
          (\<exists>i e. lookup s i = Some e \<and> dir = entry_dir e \<and> is_terminal (snap_status sn)
                 \<and> later_snapshot sn (entry_snapshot e)))"

lemma tasks_dir_inj [simp]: "tasks_dir rt i = tasks_dir rt j \<longleftrightarrow> i = j"
  by (simp add: tasks_dir_def)

lemma keys_update_entry [simp]: "map fst (entries (update_entry i f r)) = map fst (entries r)"
proof (cases "map_of (entries r) i")
  case (Some e)
  then have "i \<in> set (map fst (entries r))" by (metis map_of_eq_None_iff option.simps(3) set_map)
  with Some show ?thesis by (simp add: update_entry_def update_keys)
qed (simp add: update_entry_def)

lemma keys_mark_notified [simp]: "map fst (entries (mark_notified r sid ids)) = map fst (entries r)"
proof -
  have "map fst (entries (foldl (\<lambda>r i. update_entry i (f i) r) r ids)) = map fst (entries r)" for f
    by (induction ids arbitrary: r) simp_all
  then show ?thesis by (simp add: mark_notified_def)
qed

lemma step_keys_distinct:
  assumes "task_step s l t" "distinct (map fst (entries (reg s)))"
  shows "distinct (map fst (entries (reg t)))"
  using assms
  by (cases rule: task_step.cases)
     (auto simp: mark_defs set_snapshot_def set_draining_def distinct_update elim!: spawn_Ok
       split: option.splits if_splits)

text \<open>Only a spawn adds a task.\<close>

lemma step_dom:
  assumes "task_step s l t"
  shows "dom (lookup t) = dom (lookup s) \<or>
         (\<exists>env sid dg lim. l = Spawn env sid dg lim \<and> dom (lookup t) = insert (fresh_id env) (dom (lookup s))
           \<and> live_count (reg s) < max_concurrent lim)"
  using assms
proof (cases rule: task_step.cases)
  case (ts_spawn env sid dg lim r sn)
  then show ?thesis by (elim spawn_Ok) (auto simp: update_conv' dom_def)
next
  case (ts_notify sid ids)
  then show ?thesis by (auto simp: dom_def)
qed (auto simp: dom_def mark_defs set_draining_def split: option.splits if_splits)

lemma entry_ok_later:
  assumes "entry_ok rt i e" "later_entry e e'"
    "is_terminal (entry_status e') \<longleftrightarrow> ended_at_ms (entry_snapshot e') \<noteq> None"
  shows "entry_ok rt i e'"
  using assms by (auto simp: entry_ok_def later_entry_def later_snapshot_def)

lemma ended_iff [simp]:
  "is_terminal st \<Longrightarrow> is_terminal (snap_status (finish st now sn))"
  "ended_at_ms (finish st now sn) = Some now"
  "snap_status (count_chunk cap out n sn) = snap_status sn"
  "ended_at_ms (count_chunk cap out n sn) = ended_at_ms sn"
  "is_terminal (exit_to_status exit)" "is_terminal Killed" "is_terminal Timeout"
  by (simp_all add: finish_def count_chunk_def Let_def is_terminal_def) (cases exit rule: exit_to_status.cases; simp)+

lemma wait_record_terminal [simp]: "is_terminal (snap_status (wait_record exit now sn))"
  by (simp add: wait_record_def)

lemma wait_record_ended:
  "(is_terminal (snap_status sn) \<longleftrightarrow> ended_at_ms sn \<noteq> None) \<Longrightarrow> ended_at_ms (wait_record exit now sn) \<noteq> None"
  by (auto simp: wait_record_def)

lemma step_root: "task_step s l t \<Longrightarrow> root t = root s"
  by (cases rule: task_step.cases) auto

lemma steps_root: "steps task_step s ls t \<Longrightarrow> root t = root s"
  by (induction rule: steps.induct) (auto dest: step_root)

lemma entry_ok_snapshot:
  assumes "entry_ok rt i e" "later_snapshot (entry_snapshot e) sn"
    "is_terminal (snap_status sn) \<longleftrightarrow> ended_at_ms sn \<noteq> None"
  shows "entry_ok rt i (e\<lparr>entry_snapshot := sn\<rparr>)"
  using assms by (auto simp: entry_ok_def later_snapshot_def)

lemma entry_ok_finish:
  "entry_ok rt i e \<Longrightarrow> entry_status e = Running \<Longrightarrow> is_terminal st
   \<Longrightarrow> entry_ok rt i (e\<lparr>entry_snapshot := finish st now (entry_snapshot e)\<rparr>)"
  by (rule entry_ok_snapshot) (simp_all add: is_terminal_def [of Running])

lemma entry_ok_count:
  "entry_ok rt i e \<Longrightarrow> entry_ok rt i (e\<lparr>entry_snapshot := count_chunk cap out n (entry_snapshot e)\<rparr>)"
  by (rule entry_ok_snapshot) (simp_all add: entry_ok_def)

lemma entry_ok_wait:
  assumes "entry_ok rt i e"
  shows "entry_ok rt i (e\<lparr>entry_snapshot := wait_record exit now (entry_snapshot e)\<rparr>)"
  using assms wait_record_ended [of "entry_snapshot e" exit now]
  by (intro entry_ok_snapshot) (auto simp: entry_ok_def)

lemma entry_ok_flags [simp]:
  "entry_ok rt i (e\<lparr>reaped := b\<rparr>) = entry_ok rt i e" "entry_ok rt i (e\<lparr>notified := b\<rparr>) = entry_ok rt i e"
  by (simp_all add: entry_ok_def)

lemma inv_entries_step:
  assumes "task_step s l t" "\<And>i e. lookup s i = Some e \<Longrightarrow> entry_ok (root s) i e" "lookup t i = Some e"
  shows "entry_ok (root s) i e"
  using assms(1)
proof (cases rule: task_step.cases)
  case (ts_spawn env sid dg lim r sn)
  with assms(2,3) show ?thesis
    by (elim spawn_Ok) (auto simp: update_conv' entry_ok_def new_snapshot_def is_terminal_def split: if_splits)
next
  case (ts_chunk j e' out n)
  with assms(2,3) show ?thesis by (auto split: if_splits intro: entry_ok_count)
next
  case (ts_record j e' exit now)
  with assms(2,3) show ?thesis by (auto split: if_splits intro: entry_ok_wait)
next
  case (ts_notify sid ids)
  with assms(2,3) show ?thesis by (auto split: if_splits)
qed (use assms(2,3) in \<open>auto simp: mark_defs is_terminal_def set_draining_def intro!: entry_ok_finish
       split: option.splits if_splits\<close>)

lemma inv_phases_step:
  assumes "task_step s l t" "dom (phases s) = dom (lookup s)"
  shows "dom (phases t) = dom (lookup t)"
  using assms
proof (cases rule: task_step.cases)
  case (ts_spawn env sid dg lim r sn)
  with assms(2) show ?thesis by (elim spawn_Ok) (auto simp: update_conv' dom_def)
qed (auto simp: dom_def mark_defs set_draining_def split: option.splits if_splits)

text \<open>When a step makes a task \<open>Recorded\<close> it is terminal, and it stays so.\<close>

lemma step_to_recorded:
  assumes "task_step s l t" "phases t i = Some Recorded" "phases s i \<noteq> Some Recorded"
  shows "\<exists>e exit now. phases s i = Some Reaped \<and> lookup s i = Some e \<and> l = Record i exit now
           \<and> lookup t i = Some (e\<lparr>entry_snapshot := wait_record exit now (entry_snapshot e)\<rparr>)
           \<and> WriteMeta (entry_dir e) (wait_record exit now (entry_snapshot e)) \<in> set (pending_effects t)"
  using assms by (cases rule: task_step.cases) (auto split: if_splits)

lemma inv_recorded_step:
  assumes "task_step s l t" "dom (phases s) = dom (lookup s)"
    "\<And>i e. phases s i = Some Recorded \<Longrightarrow> lookup s i = Some e \<Longrightarrow> is_terminal (entry_status e)"
    "phases t i = Some Recorded" "lookup t i = Some e"
  shows "is_terminal (entry_status e)"
proof (cases "phases s i = Some Recorded")
  case True
  with assms(2) obtain e0 where e0: "lookup s i = Some e0" by blast
  with step_later [OF assms(1) e0] assms(3) [OF True e0] assms(5) show ?thesis
    by (auto simp: later_entry_def later_snapshot_def is_terminal_def)
next
  case False
  from step_to_recorded [OF assms(1,4) False] assms(5) show ?thesis by auto
qed

lemma step_pending:
  assumes "task_step s l t" "WriteMeta dir sn \<in> set (pending_effects t)"
  shows "WriteMeta dir sn \<in> set (pending_effects s) \<or>
         (\<exists>i e. lookup t i = Some e \<and> dir = entry_dir e \<and> is_terminal (snap_status sn) \<and> entry_snapshot e = sn)"
  using assms(1)
proof (cases rule: task_step.cases)
  case (ts_kill i now r res es)
  with assms(2) show ?thesis by (auto simp: mark_defs split: option.splits if_splits)
next
  case (ts_expire i e now r es ids)
  with assms(2) show ?thesis by (auto simp: mark_defs split: option.splits if_splits)
next
  case (ts_drain esc now i r es ids)
  with assms(2) show ?thesis by (auto simp: mark_defs split: option.splits if_splits)
next
  case (ts_escalate a p b alive)
  with assms(2) show ?thesis by (auto simp: kill_escalation_def split: if_splits)
qed (use assms(2) in auto)

lemma inv_pending_step:
  assumes "task_step s l t"
    "\<And>dir sn. WriteMeta dir sn \<in> set (pending_effects s) \<Longrightarrow>
       \<exists>i e. lookup s i = Some e \<and> dir = entry_dir e \<and> is_terminal (snap_status sn)
              \<and> later_snapshot sn (entry_snapshot e)"
    "WriteMeta dir sn \<in> set (pending_effects t)"
  shows "\<exists>i e. lookup t i = Some e \<and> dir = entry_dir e \<and> is_terminal (snap_status sn)
                \<and> later_snapshot sn (entry_snapshot e)"
  using step_pending [OF assms(1,3)]
proof
  assume "WriteMeta dir sn \<in> set (pending_effects s)"
  from assms(2) [OF this] obtain i e where e: "lookup s i = Some e" "dir = entry_dir e"
    "is_terminal (snap_status sn)" "later_snapshot sn (entry_snapshot e)" by blast
  from step_later [OF assms(1) e(1)] obtain e' where "lookup t i = Some e'" "later_entry e e'" by blast
  moreover from this(2) e(4) have "later_snapshot sn (entry_snapshot e')" "entry_dir e' = entry_dir e"
    by (auto simp: later_entry_def intro: later_snapshot_trans)
  ultimately show ?thesis using e by metis
qed (metis later_snapshot_refl)

lemma task_inv_init: "task_inv (task_init rt d)"
  by (simp add: task_inv_def task_init_def registry_new_def)

lemma task_inv_step [preserves]:
  assumes "task_inv s" "task_step s l t"
  shows "task_inv t"
proof -
  note I = assms(1) [unfolded task_inv_def]
  have "distinct (map fst (entries (reg t)))"
    using step_keys_distinct [OF assms(2)] I by blast
  moreover have "entry_ok (root t) i e" if "lookup t i = Some e" for i e
    using inv_entries_step [OF assms(2) _ that] I step_root [OF assms(2)] by simp
  moreover have "dom (phases t) = dom (lookup t)"
    using inv_phases_step [OF assms(2)] I by blast
  moreover have "is_terminal (entry_status e)" if "phases t i = Some Recorded" "lookup t i = Some e" for i e
    using inv_recorded_step [OF assms(2) _ _ that] I by blast
  moreover have "\<exists>i e. lookup t i = Some e \<and> dir = entry_dir e \<and> is_terminal (snap_status sn)
      \<and> later_snapshot sn (entry_snapshot e)" if "WriteMeta dir sn \<in> set (pending_effects t)" for dir sn
    using inv_pending_step [OF assms(2) _ that] I by blast
  ultimately show ?thesis unfolding task_inv_def by blast
qed

interpretation task_sys: invariant_system "task_init rt d" task_step task_inv for rt d
  by unfold_locales (use task_inv_init task_inv_step in blast)+

subsection \<open>The concurrency ceiling\<close>

definition live_set :: "TaskRegistry \<Rightarrow> string set" where
  "live_set r = {i. \<exists>e. map_of (entries r) i = Some e \<and> entry_status e = Running}"

lemma finite_live_set [simp]: "finite (live_set r)"
  by (rule finite_subset [of _ "dom (map_of (entries r))"]) (auto simp: live_set_def finite_dom_map_of)

lemma live_count_card: "distinct (map fst (entries r)) \<Longrightarrow> live_count r = card (live_set r)"
proof -
  assume d: "distinct (map fst (entries r))"
  let ?l = "filter (\<lambda>(_, e). entry_status e = Running) (entries r)"
  from d have "distinct (map fst ?l)" by (simp add: distinct_map_filter)
  then have "length ?l = card (set (map fst ?l))" by (metis distinct_card length_map)
  moreover from d have "set (map fst ?l) = live_set r"
    by (force simp: live_set_def image_iff dest: map_of_SomeD)
  ultimately show ?thesis by (simp add: live_count_def)
qed

lemma step_live_set:
  assumes "task_step s l t" "dom (lookup t) \<subseteq> insert j (dom (lookup s))"
  shows "live_set (reg t) \<subseteq> insert j (live_set (reg s))"
proof
  fix i
  assume "i \<in> live_set (reg t)"
  then obtain e where e: "lookup t i = Some e" "entry_status e = Running" by (auto simp: live_set_def)
  show "i \<in> insert j (live_set (reg s))"
  proof (cases "i = j")
    case False
    with assms(2) e(1) obtain e0 where e0: "lookup s i = Some e0" by blast
    with step_later [OF assms(1) e0] e show ?thesis
      by (auto simp: live_set_def later_entry_def later_snapshot_def is_terminal_def)
  qed simp
qed

lemma step_live_count:
  assumes "task_inv s" "task_step s l t"
  shows "live_count (reg t) \<le> live_count (reg s)
         \<or> (\<exists>env sid dg lim. l = Spawn env sid dg lim \<and> live_count (reg t) \<le> max_concurrent lim)"
proof -
  from assms(1) task_inv_step [OF assms]
  have d: "distinct (map fst (entries (reg s)))" "distinct (map fst (entries (reg t)))"
    unfolding task_inv_def by blast+
  from step_dom [OF assms(2)] show ?thesis
  proof
    assume dom: "dom (lookup t) = dom (lookup s)"
    have "live_set (reg t) \<subseteq> live_set (reg s)"
    proof
      fix i
      assume "i \<in> live_set (reg t)"
      then obtain e where e: "lookup t i = Some e" "entry_status e = Running" by (auto simp: live_set_def)
      with dom obtain e0 where e0: "lookup s i = Some e0" by blast
      with step_later [OF assms(2) e0] e show "i \<in> live_set (reg s)"
        by (auto simp: live_set_def later_entry_def later_snapshot_def is_terminal_def)
    qed
    then show ?thesis by (simp add: live_count_card d card_mono)
  next
    assume "\<exists>env sid dg lim. l = Spawn env sid dg lim \<and>
      dom (lookup t) = insert (fresh_id env) (dom (lookup s)) \<and> live_count (reg s) < max_concurrent lim"
    then obtain env sid dg lim where l: "l = Spawn env sid dg lim"
      and dom: "dom (lookup t) = insert (fresh_id env) (dom (lookup s))"
      and lt: "live_count (reg s) < max_concurrent lim" by blast
    have "card (live_set (reg t)) \<le> card (insert (fresh_id env) (live_set (reg s)))"
      by (rule card_mono) (use step_live_set [OF assms(2)] dom in auto)
    also have "\<dots> \<le> Suc (card (live_set (reg s)))" by (simp add: card_insert_if)
    finally show ?thesis using l lt by (auto simp: live_count_card d)
  qed
qed

fun spawn_limit_ok :: "nat \<Rightarrow> task_event \<Rightarrow> bool" where
  "spawn_limit_ok n (Spawn _ _ _ lim) \<longleftrightarrow> max_concurrent lim \<le> n"
| "spawn_limit_ok n _ \<longleftrightarrow> True"

lemma live_count_steps:
  "steps task_step s evs t \<Longrightarrow> task_inv s \<Longrightarrow> list_all (spawn_limit_ok n) evs
   \<Longrightarrow> live_count (reg s) \<le> n \<Longrightarrow> live_count (reg t) \<le> n"
proof (induction rule: steps.induct)
  case (steps_nil s)
  then show ?case by simp
next
  case (steps_cons s l t ls u)
  from step_live_count [OF steps_cons.prems(1) steps_cons.hyps(1)] steps_cons.prems
  have "live_count (reg t) \<le> n" by (auto intro: order_trans)
  with steps_cons show ?case by (auto intro: task_inv_step)
qed

text \<open>
  Claim C9. Under every interleaving of spawns, exits, kills, deadlines and drains, the number
  of running background tasks never exceeds the \<open>max_concurrent\<close> limit the spawns were made with.
\<close>

theorem live_tasks_bounded:
  assumes "steps task_step (task_init rt d) evs s" "list_all (spawn_limit_ok n) evs"
  shows "live_count (reg s) \<le> n"
  by (rule live_count_steps [OF assms(1) task_inv_init assms(2)])
     (simp add: task_init_def registry_new_def live_count_def)

subsection \<open>The mirror on disk\<close>

text \<open>Runs in which no rewrite of \<open>meta.json\<close> by a background thread fails.\<close>

definition reliable_step :: "TaskSystem \<Rightarrow> task_event \<Rightarrow> TaskSystem \<Rightarrow> bool" where
  "reliable_step s l t \<longleftrightarrow> task_step s l t \<and> l \<noteq> PerformWrite False"

definition settled :: "TaskSystem \<Rightarrow> string \<Rightarrow> TaskEntry \<Rightarrow> bool" where
  "settled s i e \<longleftrightarrow>
     (\<exists>m. disk s (meta_path (root s) i) = Some m \<and> snap_task_id m = i
          \<and> snap_status m = entry_status e \<and> ended_at_ms m = ended_at_ms (entry_snapshot e))"

definition mirror_inv :: "TaskSystem \<Rightarrow> bool" where
  "mirror_inv s \<longleftrightarrow>
     task_inv s
     \<and> (\<forall>i e. phases s i = Some Recorded \<longrightarrow> lookup s i = Some e \<longrightarrow>
          (\<exists>sn. WriteMeta (entry_dir e) sn \<in> set (pending_effects s)) \<or> settled s i e)"

lemma meta_of_simps [simp]:
  "snap_status (meta_of dir sn) = snap_status sn" "ended_at_ms (meta_of dir sn) = ended_at_ms sn"
  "snap_task_id (meta_of dir sn) = snap_task_id sn"
  by (simp_all add: meta_of_def from_snapshot_def TaskSnapshot.defs TaskMeta.defs)

lemma settled_later: "settled s i e \<Longrightarrow> later_entry e e' \<Longrightarrow> is_terminal (entry_status e) \<Longrightarrow> settled s i e'"
  by (simp add: settled_def later_entry_def later_snapshot_def)

lemma settled_disk: "disk t = disk s \<Longrightarrow> root t = root s \<Longrightarrow> settled t i e \<longleftrightarrow> settled s i e"
  by (simp add: settled_def)

lemma settled_written:
  assumes "entry_ok (root s) j ej" "later_snapshot sn (entry_snapshot ej)" "is_terminal (snap_status sn)"
    "disk s = write_meta True (entry_dir ej) sn d"
  shows "settled s j ej"
  using assms
  by (auto simp: settled_def write_meta_def meta_path_def entry_ok_def later_snapshot_def)

lemma settled_other:
  assumes "settled s i e" "entry_ok (root s) j ej" "i \<noteq> j" "root t = root s"
    "disk t = write_meta ok (entry_dir ej) sn (disk s)"
  shows "settled t i e"
  using assms by (auto simp: settled_def write_meta_def meta_path_def entry_ok_def)

text \<open>How a step touches the disk: not at all, by a pending rewrite, or by the initial \<open>meta.json\<close>.\<close>

lemma step_disk:
  assumes "task_step s l t"
  shows "(disk t = disk s \<and> (\<forall>dir sn. WriteMeta dir sn \<in> set (pending_effects s) \<longrightarrow>
                                        WriteMeta dir sn \<in> set (pending_effects t)))
    \<or> (\<exists>a dir sn b ok. l = PerformWrite ok \<and> pending_effects s = a @ WriteMeta dir sn # b
          \<and> t = s\<lparr>disk := write_meta ok dir sn (disk s), pending_effects := a @ b\<rparr>)
    \<or> (\<exists>j sn e ok. phases s j = Some (Cloned sn) \<and> lookup s j = Some e
          \<and> t = s\<lparr>disk := write_meta ok (entry_dir e) sn (disk s), phases := (phases s)(j \<mapsto> Started)\<rparr>)"
  using assms by (cases rule: task_step.cases) (fastforce simp: mark_defs)+

lemma perform_write_settles:
  assumes "task_inv s" "pending_effects s = a @ WriteMeta dir sn # b" "lookup s i = Some e"
    "t = s\<lparr>disk := write_meta True dir sn (disk s), pending_effects := a @ b\<rparr>"
    "(\<exists>sn. WriteMeta (entry_dir e) sn \<in> set (pending_effects s)) \<or> settled s i e"
  shows "(\<exists>sn. WriteMeta (entry_dir e) sn \<in> set (pending_effects t)) \<or> settled t i e"
proof -
  from assms(1,2) obtain j ej where j: "lookup s j = Some ej" "dir = entry_dir ej"
    "is_terminal (snap_status sn)" "later_snapshot sn (entry_snapshot ej)"
    unfolding task_inv_def by (metis in_set_conv_decomp)
  from assms(1) j(1) assms(3) have ok: "entry_ok (root s) j ej" "entry_ok (root s) i e"
    unfolding task_inv_def by blast+
  show ?thesis
  proof (cases "i = j")
    case True
    with j assms(3) have "ej = e" by simp
    with True j ok assms(4) show ?thesis using settled_written [of t j ej sn "disk s"] by simp
  next
    case False
    with ok have "entry_dir e \<noteq> dir" by (simp add: entry_ok_def j(2))
    with assms(2,4,5) False j(2) ok(1) show ?thesis
      using settled_other [of s i e j ej t True sn] by auto
  qed
qed

lemma mirror_inv_step [preserves]:
  assumes "mirror_inv s" "reliable_step s l t"
  shows "mirror_inv t"
proof -
  from assms have step: "task_step s l t" "l \<noteq> PerformWrite False" and inv: "task_inv s"
    and mirror: "\<And>i e. phases s i = Some Recorded \<Longrightarrow> lookup s i = Some e \<Longrightarrow>
      (\<exists>sn. WriteMeta (entry_dir e) sn \<in> set (pending_effects s)) \<or> settled s i e"
    by (auto simp only: mirror_inv_def reliable_step_def)
  have "(\<exists>sn. WriteMeta (entry_dir e') sn \<in> set (pending_effects t)) \<or> settled t i e'"
    if rec: "phases t i = Some Recorded" and e': "lookup t i = Some e'" for i e'
  proof (cases "phases s i = Some Recorded")
    case False
    from step_to_recorded [OF step(1) rec False] e' show ?thesis by auto
  next
    case True
    with inv obtain e where e: "lookup s i = Some e" unfolding task_inv_def by blast
    with True inv have fin: "is_terminal (entry_status e)" unfolding task_inv_def by blast
    from step_later [OF step(1) e] e' have lat: "later_entry e e'" by simp
    then have dir: "entry_dir e' = entry_dir e" by (simp add: later_entry_def)
    have "(\<exists>sn. WriteMeta (entry_dir e) sn \<in> set (pending_effects t)) \<or> settled t i e"
      using step_disk [OF step(1)]
    proof (elim disjE exE conjE)
      assume "disk t = disk s" "\<forall>dir sn. WriteMeta dir sn \<in> set (pending_effects s) \<longrightarrow>
        WriteMeta dir sn \<in> set (pending_effects t)"
      with mirror [OF True e] settled_disk [OF _ step_root [OF step(1)]] show ?thesis by blast
    next
      fix a dir sn b ok
      assume l: "l = PerformWrite ok" and p: "pending_effects s = a @ WriteMeta dir sn # b"
        and t: "t = s\<lparr>disk := write_meta ok dir sn (disk s), pending_effects := a @ b\<rparr>"
      from l step(2) have "ok = True" by simp
      from perform_write_settles [OF inv p e t [unfolded this] mirror [OF True e]] show ?thesis .
    next
      fix j sn ej ok
      assume j: "phases s j = Some (Cloned sn)" "lookup s j = Some ej"
        and t: "t = s\<lparr>disk := write_meta ok (entry_dir ej) sn (disk s), phases := (phases s)(j \<mapsto> Started)\<rparr>"
      from j(1) True have "i \<noteq> j" by auto
      moreover from inv j(2) have "entry_ok (root s) j ej" unfolding task_inv_def by blast
      ultimately show ?thesis using t mirror [OF True e] settled_other [of s i e j ej t ok sn] by auto
    qed
    with lat fin dir show ?thesis using settled_later by metis
  qed
  with task_inv_step [OF inv step(1)] show ?thesis unfolding mirror_inv_def by blast
qed

interpretation mirror_sys: invariant_system "task_init rt d" reliable_step mirror_inv for rt d
proof
  show "mirror_inv (task_init rt d)" using task_inv_init by (simp add: mirror_inv_def task_init_def)
qed (rule mirror_inv_step)

lemma reliable_steps: "steps task_step s evs t \<Longrightarrow> PerformWrite False \<notin> set evs \<Longrightarrow> steps reliable_step s evs t"
  by (induction rule: steps.induct) (auto intro: steps.intros simp: reliable_step_def)

text \<open>
  Claim C11. Once the wait task of a background task has recorded its end and no rewrite of
  its \<open>meta.json\<close> is outstanding, the file shows the final status and the time the registry
  shows, whatever the order of the concurrent rewrites (kill, deadline, drain, wait task,
  finalizer), provided none of them failed.
\<close>

theorem meta_settles:
  assumes "steps task_step (task_init rt d) evs s" "PerformWrite False \<notin> set evs"
    "phases s i = Some Recorded" "\<forall>sn. WriteMeta (tasks_dir rt i) sn \<notin> set (pending_effects s)"
  shows "\<exists>m sn. disk s (meta_path rt i) = Some m \<and> registry_snapshot (reg s) i = Some sn
           \<and> is_terminal (snap_status m) \<and> snap_status m = snap_status sn \<and> ended_at_ms m = ended_at_ms sn"
proof -
  have rt: "root s = rt" using steps_root [OF assms(1)] by (simp add: task_init_def)
  from mirror_sys.inv_reachable [OF reliable_steps [OF assms(1,2)]] have inv: "mirror_inv s" .
  with assms(3) obtain e where e: "lookup s i = Some e" unfolding mirror_inv_def task_inv_def by blast
  with inv assms(3) have "is_terminal (entry_status e)" "entry_ok (root s) i e"
    "(\<exists>sn. WriteMeta (entry_dir e) sn \<in> set (pending_effects s)) \<or> settled s i e"
    unfolding mirror_inv_def task_inv_def by blast+
  with assms(4) e rt show ?thesis by (auto simp: registry_snapshot_def settled_def entry_ok_def)
qed

subsection \<open>The push cursor\<close>

lemma take_status_changes_iff:
  assumes "distinct (map fst (entries r))"
  shows "sn \<in> set (take_status_changes r sid) \<longleftrightarrow>
    (\<exists>i e. map_of (entries r) i = Some e \<and> entry_session e = sid \<and> \<not> notified e
           \<and> is_terminal (entry_status e) \<and> sn = entry_snapshot e)"
  using assms by (force simp: take_status_changes_def image_iff)

fun confirms :: "string \<Rightarrow> string \<Rightarrow> task_event \<Rightarrow> bool" where
  "confirms sid i (Notify sid' ids) \<longleftrightarrow> sid' = sid \<and> i \<in> set ids"
| "confirms sid i _ \<longleftrightarrow> False"

lemma step_notified:
  assumes "task_step s l t" "lookup s i = Some e" "\<not> notified e" "\<not> confirms (entry_session e) i l"
    "lookup t i = Some e'"
  shows "\<not> notified e'"
  using assms
proof (cases rule: task_step.cases)
  case (ts_spawn env sid dg lim r sn)
  with assms(2,3,5) show ?thesis by (elim spawn_Ok) (auto simp: update_conv' split: if_splits)
qed (auto simp: mark_defs set_draining_def split: option.splits if_splits)

lemma steps_unconfirmed:
  "steps task_step s ls t \<Longrightarrow> lookup s i = Some e \<Longrightarrow> \<not> notified e
   \<Longrightarrow> list_all (\<lambda>l. \<not> confirms (entry_session e) i l) ls
   \<Longrightarrow> \<exists>e'. lookup t i = Some e' \<and> later_entry e e' \<and> \<not> notified e'"
proof (induction arbitrary: e rule: steps.induct)
  case (steps_nil s)
  then show ?case by auto
next
  case (steps_cons s l t ls u)
  from step_later [OF steps_cons.hyps(1) steps_cons.prems(1)] obtain e' where
    e': "lookup t i = Some e'" "later_entry e e'" by blast
  with step_notified [OF steps_cons.hyps(1) steps_cons.prems(1,2) _ e'(1)] steps_cons.prems(3)
  have "\<not> notified e'" by simp
  moreover from e'(2) steps_cons.prems(3) have "list_all (\<lambda>l. \<not> confirms (entry_session e') i l) ls"
    by (simp add: later_entry_def)
  ultimately obtain e'' where "lookup u i = Some e''" "later_entry e' e''" "\<not> notified e''"
    using steps_cons.IH [OF e'(1)] by blast
  with later_entry_trans [OF e'(2)] show ?case by blast
qed

text \<open>
  A finished task is offered to its own session until that session confirms it, and
  to no other: whatever happens after the offer, it is offered again with the same status and
  end time unless the session has marked it.
\<close>

theorem finished_task_offered_until_confirmed:
  assumes "steps task_step (task_init rt d) evs s" "steps task_step s evs' t"
    "sn \<in> set (take_status_changes (reg s) sid)"
    "list_all (\<lambda>l. \<not> confirms sid (snap_task_id sn) l) evs'"
  shows "snap_session sn = sid
    \<and> (\<exists>sn'. sn' \<in> set (take_status_changes (reg t) sid) \<and> snap_task_id sn' = snap_task_id sn
             \<and> snap_status sn' = snap_status sn \<and> ended_at_ms sn' = ended_at_ms sn)"
proof -
  have inv: "task_inv s" by (rule task_sys.inv_reachable [OF assms(1)])
  have inv': "task_inv t" by (rule task_sys.inv_steps [OF assms(2) inv])
  from inv inv' have d: "distinct (map fst (entries (reg s)))" "distinct (map fst (entries (reg t)))"
    unfolding task_inv_def by blast+
  from assms(3) obtain i e where e: "lookup s i = Some e" "entry_session e = sid" "\<not> notified e"
    "is_terminal (entry_status e)" "sn = entry_snapshot e"
    unfolding take_status_changes_iff [OF d(1)] by blast
  from inv e(1) have ok: "entry_ok (root s) i e" unfolding task_inv_def by blast
  with e assms(4) obtain e' where e': "lookup t i = Some e'" "later_entry e e'" "\<not> notified e'"
    using steps_unconfirmed [OF assms(2) e(1,3)] by (auto simp: entry_ok_def)
  with e have "entry_session e' = sid" "is_terminal (entry_status e')"
    by (auto simp: later_entry_def later_snapshot_def)
  with e' have "entry_snapshot e' \<in> set (take_status_changes (reg t) sid)"
    unfolding take_status_changes_iff [OF d(2)] by blast
  with e e'(2) ok show ?thesis
    by (auto simp: later_entry_def later_snapshot_def entry_ok_def)
qed

subsection \<open>Signals and the pid-reuse guard\<close>

text \<open>
  A kill or a deadline never signals a child that has been reaped, but the shutdown
  drain does: \<open>kill_all\<close> on a running task whose exit the wait task has collected and not yet
  recorded sends SIGTERM to its process group, although the pid may belong to another process.
\<close>

theorem drain_signals_reaped_child:
  assumes "map_of (entries r) i = Some e" "entry_status e = Running" "reaped e"
  shows "(let (r', res, es) = kill r i now in set es = {WriteMeta (entry_dir e) (finish Killed now (entry_snapshot e))})
    \<and> (let (r', es, ids) = expire_mark now r i in set es = {WriteMeta (entry_dir e) (finish Timeout now (entry_snapshot e))})
    \<and> Signal (snap_pid (entry_snapshot e)) SIGTERM \<in> set (fst (snd (drain_mark True now r i)))"
  using assms by (simp add: mark_defs is_terminal_def finish_def)

subsection \<open>Captured output\<close>

definition drain_start :: "TaskSnapshot \<Rightarrow> DrainState" where
  "drain_start sn = \<lparr>drain_snapshot = sn, file_open = True, file_bytes = [], captured = 0\<rparr>"

definition seen :: "bool \<Rightarrow> TaskSnapshot \<Rightarrow> nat" where
  "seen out sn = (if out then bytes_stdout sn else bytes_stderr sn)"

lemma seen_count [simp]: "seen out (count_chunk cap out n sn) = seen out sn + n"
  "truncated (count_chunk cap out n sn) \<longleftrightarrow> truncated sn \<or> cap < seen out sn + n"
  by (auto simp: seen_def count_chunk_def Let_def)

lemma drain_counts:
  "seen out (drain_snapshot (drain_pipe cap out cs d)) = seen out (drain_snapshot d) + length (concat (map fst cs))
   \<and> (truncated (drain_snapshot (drain_pipe cap out cs d)) \<longleftrightarrow>
        truncated (drain_snapshot d) \<or> (cs \<noteq> [] \<and> cap < seen out (drain_snapshot d) + length (concat (map fst cs))))"
proof (induction cap out cs d rule: drain_pipe.induct)
  case (2 cap out buf w rest d)
  then show ?case by (auto simp: Let_def split: write_result.splits)
qed simp

lemma drain_closed: "\<not> file_open d \<Longrightarrow> file_bytes (drain_pipe cap out cs d) = file_bytes d"
proof (induction cs arbitrary: d)
  case (Cons c cs)
  then show ?case by (cases c) (simp add: Let_def)
qed simp

lemma drain_full: "captured d \<ge> cap \<Longrightarrow> file_bytes (drain_pipe cap out cs d) = file_bytes d"
proof (induction cs arbitrary: d)
  case (Cons c cs)
  then show ?case by (cases c) (simp add: Let_def)
qed simp

lemma prefix_take_append:
  assumes "m \<le> n" "m \<le> length buf"
  shows "prefix (take m buf) (take n (buf @ r))"
proof -
  from assms have "take m buf = take m (take n (buf @ r))" by simp
  then show ?thesis by (metis take_is_prefix)
qed

lemma drain_bytes:
  assumes "file_open d" "captured d = length (file_bytes d)" "length (file_bytes d) \<le> cap"
  shows "prefix (file_bytes (drain_pipe cap out cs d)) (take cap (file_bytes d @ concat (map fst cs)))
    \<and> (list_all (\<lambda>c. snd c = Written) cs
        \<longrightarrow> file_bytes (drain_pipe cap out cs d) = take cap (file_bytes d @ concat (map fst cs)))"
  using assms
proof (induction cs arbitrary: d)
  case Nil
  then show ?case by simp
next
  case (Cons c cs)
  obtain buf w where c: "c = (buf, w)" by force
  let ?k = "min (cap - captured d) (length buf)"
  let ?d1 = "d\<lparr>drain_snapshot := count_chunk cap out (length buf) (drain_snapshot d)\<rparr>"
  show ?case
  proof (cases "captured d < cap")
    case False
    with Cons.prems have "cap = length (file_bytes d)" by simp
    with False c Cons.prems(2) show ?thesis by (simp add: Let_def drain_full)
  next
    case True
    show ?thesis
    proof (cases w)
      case (WriteFailed k)
      have "prefix (take (min k ?k) buf) (take (cap - length (file_bytes d)) (buf @ concat (map fst cs)))"
        by (rule prefix_take_append) (simp_all add: Cons.prems(2))
      with True c WriteFailed Cons.prems show ?thesis by (simp add: Let_def drain_closed)
    next
      case Written
      let ?d2 = "?d1\<lparr>file_bytes := file_bytes d @ take ?k buf, captured := captured d + ?k\<rparr>"
      have "take cap (file_bytes ?d2 @ concat (map fst cs)) = take cap (file_bytes d @ buf @ concat (map fst cs))"
        using Cons.prems(2,3) by (cases "cap - captured d \<le> length buf") (auto simp: min_def)
      with Cons.IH [of ?d2] True c Written Cons.prems show ?thesis by (simp add: Let_def)
    qed
  qed
qed

text \<open>
  Draining a pipe never writes more than the cap and keeps a prefix of the output,
  exactly its first \<open>cap\<close> bytes when no write fails; the byte count and the \<open>truncated\<close> flag
  depend only on the output and the cap, not on what reached the disk.
\<close>

theorem drain_keeps_capped_prefix:
  assumes "bytes_stdout sn = 0" "\<not> truncated sn"
  shows "let d = drain_pipe cap True cs (drain_start sn); output = concat (map fst cs) in
    prefix (file_bytes d) (take cap output)
    \<and> (list_all (\<lambda>c. snd c = Written) cs \<longrightarrow> file_bytes d = take cap output)
    \<and> bytes_stdout (drain_snapshot d) = length output
    \<and> (truncated (drain_snapshot d) \<longleftrightarrow> cap < length output)"
  using drain_bytes [of "drain_start sn" cap True cs] drain_counts [of True cap cs "drain_start sn"] assms
  by (auto simp: drain_start_def seen_def Let_def)

subsection \<open>Task ids cannot leave the directory of the tasks\<close>

lemma list_all_zip_hex:
  "list_all (\<lambda>(len, g). length g = len \<and> list_all is_hex g) (zip ns gs) \<Longrightarrow> length ns = length gs
   \<Longrightarrow> map length gs = ns \<and> (\<forall>g \<in> set gs. list_all is_hex g)"
  by (induction ns gs rule: list_induct2') auto

lemma valid_task_id_chars:
  assumes "is_valid_task_id i"
  shows "(length i = 32 \<or> length i = 36) \<and> (\<forall>c \<in> set i. is_hex c \<or> c = CHR ''-'')"
proof (cases "length (split_on (\<lambda>c. c = CHR ''-'') i) = 1")
  case True
  with assms show ?thesis by (auto simp: is_valid_task_id_def Let_def list_all_iff)
next
  case False
  let ?gs = "split_on (\<lambda>c. c = CHR ''-'') i"
  from assms False have "length ?gs = 5"
    "list_all (\<lambda>(len, g). length g = len \<and> list_all is_hex g) (zip [8, 4, 4, 4, 12] ?gs)"
    by (auto simp: is_valid_task_id_def Let_def split: if_splits)
  then have gs: "map length ?gs = [8, 4, 4, 4, 12]" "\<forall>g \<in> set ?gs. list_all is_hex g"
    using list_all_zip_hex [of "[8, 4, 4, 4, 12]" ?gs] by auto
  have "length i = 36"
    using length_split_on [of i "\<lambda>c. c = CHR ''-''"] gs(1) \<open>length ?gs = 5\<close> by simp
  moreover have "is_hex c \<or> c = CHR ''-''" if "c \<in> set i" for c
    using set_split_on [OF that, of "\<lambda>c. c = CHR ''-''"] gs(2) by (auto simp: list_all_iff)
  ultimately show ?thesis by blast
qed

text \<open>
  A task id that passes the validation is one path component: the \<open>meta.json\<close> it
  names lies two levels below \<open>logs/tasks\<close> of the user root, whatever id the model supplied.
\<close>

theorem valid_task_id_stays_in_tasks:
  assumes "is_valid_task_id i"
  shows "abs_components (meta_path rt i)
         = abs_components rt @ [''logs'', ''tasks'', i, ''meta.json'']"
proof -
  from valid_task_id_chars [OF assms]
  have "c \<noteq> CHR ''/'' \<and> c \<noteq> CHR ''.''" if "c \<in> set i" for c
    using that by (auto simp: is_hex_def is_digit_def)
  then have "split_on (\<lambda>c. c = CHR ''/'') i = [i]" "i \<noteq> ''.''"
    by (auto intro: split_on_none)
  moreover from valid_task_id_chars [OF assms] have "i \<noteq> []" by auto
  moreover have "meta_path rt i = rt @ CHR ''/'' # ''logs'' @ CHR ''/'' # ''tasks'' @ CHR ''/'' # i @ CHR ''/'' # ''meta.json''"
    by (simp add: meta_path_def tasks_dir_def)
  ultimately show ?thesis
    unfolding abs_components_def by (simp only: split_on_sep filter_append) (simp add: split_on_none)
qed

subsection \<open>The lifecycle specification\<close>

text \<open>
  What clients of the registry rely on: an unknown task may start, a running task may end
  once, with one of the outcomes this process can give it; nothing else changes a status.
\<close>

datatype lifecycle_event = Start string | End string TaskStatus

inductive lifecycle_step ::
  "(string \<rightharpoonup> TaskStatus) \<Rightarrow> lifecycle_event \<Rightarrow> (string \<rightharpoonup> TaskStatus) \<Rightarrow> bool" where
  lc_start: "m i = None \<Longrightarrow> lifecycle_step m (Start i) (m(i \<mapsto> Running))"
| lc_end: "m i = Some Running \<Longrightarrow> is_terminal st \<Longrightarrow> st \<noteq> Orphaned \<Longrightarrow> lifecycle_step m (End i st) (m(i \<mapsto> st))"

definition lifecycle :: "TaskSystem \<Rightarrow> string \<rightharpoonup> TaskStatus" where
  "lifecycle s = (\<lambda>i. map_option entry_status (lookup s i))"

definition ends_of :: "string \<Rightarrow> lifecycle_event list \<Rightarrow> TaskStatus list" where
  "ends_of i es = map (\<lambda>e. case e of End _ st \<Rightarrow> st | Start _ \<Rightarrow> Running)
                    (filter (\<lambda>e. case e of End j _ \<Rightarrow> j = i | Start _ \<Rightarrow> False) es)"

lemma lifecycle_ended: "steps lifecycle_step m es m' \<Longrightarrow> m i = Some st \<Longrightarrow> st \<noteq> Running
  \<Longrightarrow> ends_of i es = [] \<and> m' i = Some st"
proof (induction rule: steps.induct)
  case (steps_cons m e m1 es m')
  from steps_cons.hyps(1) steps_cons.prems have "m1 i = Some st" "ends_of i [e] = []"
    by (auto simp: ends_of_def elim!: lifecycle_step.cases)
  with steps_cons show ?case by (auto simp: ends_of_def split: if_splits)
qed (simp add: ends_of_def)

text \<open>In the specification a task has at most one end, and its status is that end.\<close>

lemma lifecycle_ends:
  "steps lifecycle_step m es m' \<Longrightarrow> m i = None \<or> m i = Some Running \<Longrightarrow> m' i = Some st
   \<Longrightarrow> ends_of i es = (if st = Running then [] else [st])"
proof (induction rule: steps.induct)
  case (steps_nil m)
  then show ?case by (auto simp: ends_of_def)
next
  case (steps_cons m e m1 es m')
  from steps_cons.hyps(1) show ?case
  proof (cases rule: lifecycle_step.cases)
    case (lc_start j)
    with steps_cons.prems have "m1 i = None \<or> m1 i = Some Running" by auto
    with steps_cons lc_start show ?thesis by (simp add: ends_of_def)
  next
    case (lc_end j st')
    show ?thesis
    proof (cases "j = i")
      case True
      with lc_end have "m1 i = Some st'" "st' \<noteq> Running" by (auto simp: is_terminal_def)
      from lifecycle_ended [OF steps_cons.hyps(2) this] steps_cons.prems(2) True lc_end show ?thesis
        by (simp add: ends_of_def is_terminal_def)
    next
      case False
      with lc_end steps_cons.prems(1) have "m1 i = None \<or> m1 i = Some Running" by simp
      with steps_cons lc_end False show ?thesis by (simp add: ends_of_def)
    qed
  qed
qed

lemma lifecycle_upd:
  "lookup t = (lookup s)(i \<mapsto> e) \<Longrightarrow> lifecycle t = (lifecycle s)(i \<mapsto> entry_status e)"
  by (auto simp: lifecycle_def)

lemma lookup_ext: "(\<And>j. lookup t j = ((lookup s)(i \<mapsto> e)) j) \<Longrightarrow> lookup t = (lookup s)(i \<mapsto> e)"
  by (rule ext)

lemma exit_not_orphaned [simp]: "exit_to_status exit \<noteq> Orphaned" "exit_to_status exit \<noteq> Running"
  by (cases exit rule: exit_to_status.cases; simp)+

lemma lifecycle_same: "(\<And>j. map_option entry_status (lookup t j) = map_option entry_status (lookup s j)) \<Longrightarrow> lifecycle t = lifecycle s"
  by (simp add: lifecycle_def)

text \<open>A mark on a running task is an end of the specification.\<close>

lemma lifecycle_mark:
  assumes "lookup s i = Some e" "entry_status e = Running" "is_terminal st" "st \<noteq> Orphaned"
    "reg t = update_entry i (\<lambda>e. e\<lparr>entry_snapshot := sn\<rparr>) (reg s)" "snap_status sn = st"
  shows "\<exists>m. lifecycle_step (lifecycle s) m (lifecycle t)"
proof -
  have "lifecycle t = (lifecycle s)(i \<mapsto> st)"
    using assms(1,5,6) by (auto simp: lifecycle_def fun_eq_iff)
  moreover have "lifecycle s i = Some Running" using assms(1,2) by (simp add: lifecycle_def)
  ultimately show ?thesis using lc_end assms(3,4) by metis
qed

lemma lifecycle_simulates:
  assumes "task_step s l t"
  shows "lifecycle t = lifecycle s \<or> (\<exists>m. lifecycle_step (lifecycle s) m (lifecycle t))"
  using assms
proof (cases rule: task_step.cases)
  case (ts_spawn env sid dg lim r sn)
  then have "lifecycle t = (lifecycle s)(fresh_id env \<mapsto> Running)"
    by (elim spawn_Ok) (auto simp: lifecycle_def update_conv' new_snapshot_def fun_eq_iff)
  moreover have "lifecycle s (fresh_id env) = None" using ts_spawn by (simp add: lifecycle_def)
  ultimately show ?thesis using lc_start by metis
next
  case (ts_record i e exit now)
  show ?thesis
  proof (cases "entry_status e = Running")
    case True
    have "update_entry i (\<lambda>e. e\<lparr>entry_snapshot := wait_record exit now (entry_snapshot e)\<rparr>) (reg s)
          = update_entry i (\<lambda>e'. e'\<lparr>entry_snapshot := wait_record exit now (entry_snapshot e)\<rparr>) (reg s)"
      using ts_record by (simp add: update_entry_def)
    with ts_record True show ?thesis
      using lifecycle_mark [of s i e "exit_to_status exit" t "wait_record exit now (entry_snapshot e)"]
      by (simp add: set_snapshot_def wait_record_def is_terminal_def [of Running] finish_def)
  next
    case False
    with ts_record have "lifecycle t = lifecycle s"
      by (intro lifecycle_same) (auto simp: wait_record_def is_terminal_def)
    then show ?thesis ..
  qed
next
  case (ts_kill i now r res es)
  then show ?thesis
    by (auto simp: kill_def Let_def is_terminal_def finish_def split: option.splits if_splits
        intro!: lifecycle_mark [of s i _ Killed] lifecycle_same)
next
  case (ts_expire i e now r es ids)
  then show ?thesis
    by (auto simp: expire_mark_def Let_def finish_def is_terminal_def split: option.splits if_splits
        intro!: lifecycle_mark [of s i _ Timeout] lifecycle_same)
next
  case (ts_drain esc now i r es ids)
  then show ?thesis
    by (auto simp: drain_mark_def Let_def finish_def is_terminal_def split: option.splits if_splits
        intro!: lifecycle_mark [of s i _ Killed] lifecycle_same)
next
  case (ts_notify sid ids)
  then have "lifecycle t = lifecycle s"
    by (intro lifecycle_same) (simp add: option.map_comp comp_def if_distrib cong: if_cong)
  then show ?thesis ..
next
  case (ts_reap i)
  then have "lifecycle t = lifecycle s"
    by (intro lifecycle_same) (simp add: option.map_comp comp_def)
  then show ?thesis ..
qed (auto simp: lifecycle_def set_draining_def fun_eq_iff split: option.splits)

interpretation task_refinement: refinement "task_init rt d" task_step task_inv Map.empty lifecycle_step lifecycle for rt d
  by unfold_locales (auto simp: lifecycle_def task_init_def registry_new_def dest: lifecycle_simulates)

text \<open>
  Claim C6. The registry refines the lifecycle specification under every interleaving: the
  statuses it shows are reached by starts and single ends, and the ends of a task are none
  while it runs and exactly its final status afterwards.
\<close>

theorem registry_refines_lifecycle:
  assumes "steps task_step (task_init rt d) evs s"
  shows "\<exists>es. steps lifecycle_step Map.empty es (lifecycle s)
    \<and> (\<forall>i st. lifecycle s i = Some st \<longrightarrow> ends_of i es = (if st = Running then [] else [st]))"
proof -
  from task_refinement.refines [OF assms] obtain es where es: "steps lifecycle_step Map.empty es (lifecycle s)" by blast
  moreover have "ends_of i es = (if st = Running then [] else [st])" if "lifecycle s i = Some st" for i st
    by (rule lifecycle_ends [OF es _ that]) simp
  ultimately show ?thesis by blast
qed

subsection \<open>A run\<close>

inductive_simps task_step_simps:
  "task_step s (Spawn env sid dg lim) t" "task_step s (CloneInitial i) t" "task_step s (WriteInitial i ok) t"
  "task_step s (Reap i) t" "task_step s (Record i exit now) t" "task_step s (PerformWrite ok) t"

definition demo_env :: SpawnEnv where
  "demo_env = \<lparr>user_root = ''/u'', fresh_id = ''a'', create_dir = Ok (), fork_pid = Ok (Some 7), spawn_now = 0\<rparr>"

definition demo_limits :: BackgroundLimits where
  "demo_limits = \<lparr>max_wall_secs = 60, max_concurrent = 1, output_cap_bytes = 4\<rparr>"

definition demo_end :: TaskSnapshot where
  "demo_end = finish (Completed 0) 5 (new_snapshot demo_env 7 ''s'' ''ls'')"

definition demo_recorded :: TaskSystem where
  "demo_recorded =
     \<lparr>root = ''/u'',
      reg = \<lparr>entries = [(''a'', \<lparr>entry_session = ''s'', entry_dir = tasks_dir ''/u'' ''a'', entry_limits = demo_limits,
                               entry_snapshot = demo_end, reaped = True, notified = False\<rparr>)], draining = False\<rparr>,
      disk = [meta_path ''/u'' ''a'' \<mapsto> meta_of (tasks_dir ''/u'' ''a'') (new_snapshot demo_env 7 ''s'' ''ls'')],
      phases = [''a'' \<mapsto> Recorded],
      pending_effects = [WriteMeta (tasks_dir ''/u'' ''a'') demo_end], signals = []\<rparr>"

definition demo_settled :: TaskSystem where
  "demo_settled = demo_recorded\<lparr>disk := write_meta True (tasks_dir ''/u'' ''a'') demo_end (disk demo_recorded),
                                pending_effects := []\<rparr>"

abbreviation demo_events :: "task_event list" where
  "demo_events \<equiv> [Spawn demo_env ''s'' ''ls'' demo_limits, CloneInitial ''a'', WriteInitial ''a'' True,
                   Reap ''a'', Record ''a'' (Ok (Some 0, [])) 5]"

lemmas demo_defs = demo_env_def demo_limits_def demo_end_def demo_recorded_def demo_settled_def
  task_init_def registry_new_def spawn_background_def live_count_def update_entry_def set_snapshot_def
  wait_record_def is_terminal_def finish_def new_snapshot_def write_meta_def meta_path_def

lemma demo_run: "steps task_step (task_init ''/u'' Map.empty) demo_events demo_recorded"
  by (simp add: steps_Cons_iff task_step_simps demo_defs Let_def)

lemma demo_write: "steps task_step demo_recorded [PerformWrite True] demo_settled"
  by (auto simp add: steps_Cons_iff task_step_simps demo_settled_def demo_recorded_def intro!: exI [of _ "[]"])

lemma demo_full_run: "steps task_step (task_init ''/u'' Map.empty) (demo_events @ [PerformWrite True]) demo_settled"
  unfolding steps_append using demo_run demo_write by blast

theorem live_tasks_bounded_witness: "live_count (reg demo_recorded) \<le> 1"
  by (rule live_tasks_bounded [OF demo_run]) (simp add: demo_limits_def)

theorem meta_settles_witness:
  "\<exists>m sn. disk demo_settled (meta_path ''/u'' ''a'') = Some m \<and> registry_snapshot (reg demo_settled) ''a'' = Some sn
     \<and> is_terminal (snap_status m) \<and> snap_status m = snap_status sn \<and> ended_at_ms m = ended_at_ms sn"
  by (rule meta_settles [OF demo_full_run]) (simp_all add: demo_settled_def demo_recorded_def)

theorem finished_task_offered_until_confirmed_witness:
  "snap_session demo_end = ''s''
    \<and> (\<exists>sn'. sn' \<in> set (take_status_changes (reg demo_settled) ''s'') \<and> snap_task_id sn' = snap_task_id demo_end
             \<and> snap_status sn' = snap_status demo_end \<and> ended_at_ms sn' = ended_at_ms demo_end)"
  by (rule finished_task_offered_until_confirmed [OF demo_run demo_write])
     (simp_all add: take_status_changes_def demo_recorded_def demo_end_def finish_def is_terminal_def)

theorem drain_signals_reaped_child_witness:
  "Signal 7 SIGTERM \<in> set (fst (snd (drain_mark True 9
     \<lparr>entries = [(''a'', \<lparr>entry_session = ''s'', entry_dir = ''d'', entry_limits = demo_limits,
                         entry_snapshot = new_snapshot demo_env 7 ''s'' ''ls'', reaped = True, notified = False\<rparr>)],
      draining = False\<rparr> ''a'')))"
  using drain_signals_reaped_child [of
     "\<lparr>entries = [(''a'', \<lparr>entry_session = ''s'', entry_dir = ''d'', entry_limits = demo_limits,
                         entry_snapshot = new_snapshot demo_env 7 ''s'' ''ls'', reaped = True, notified = False\<rparr>)],
      draining = False\<rparr>" "''a''" _ 9]
  by (simp add: new_snapshot_def)

theorem drain_keeps_capped_prefix_witness:
  "file_bytes (drain_pipe 4 True [(''abc'', Written), (''def'', Written)] (drain_start (new_snapshot demo_env 7 ''s'' ''ls'')))
   = ''abcd''"
  using drain_keeps_capped_prefix [of "new_snapshot demo_env 7 ''s'' ''ls''" 4
      "[(''abc'', Written), (''def'', Written)]"]
  by (simp add: new_snapshot_def Let_def)

theorem valid_task_id_stays_in_tasks_witness:
  "abs_components (meta_path ''/u'' ''0123456789abcdef0123456789abcdef'')
   = [''u'', ''logs'', ''tasks'', ''0123456789abcdef0123456789abcdef'', ''meta.json'']"
proof -
  have "is_valid_task_id ''0123456789abcdef0123456789abcdef''" by code_simp
  from valid_task_id_stays_in_tasks [OF this, of "''/u''"] show ?thesis
    by (simp add: abs_components_def)
qed

theorem registry_refines_lifecycle_witness:
  "\<exists>es. steps lifecycle_step Map.empty es (lifecycle demo_recorded) \<and> ends_of ''a'' es = [Completed 0]"
proof -
  have "lifecycle demo_recorded ''a'' = Some (Completed 0)"
    by (simp add: lifecycle_def demo_recorded_def demo_end_def finish_def)
  with registry_refines_lifecycle [OF demo_run] show ?thesis by fastforce
qed

end
