(* ===== verification/Shell_Collect.thy ===== *)
theory Shell_Collect
  imports Task_Registry
begin

section \<open>The tool \<open>shell.collect\<close>\<close>

text \<open>
  Model of \<open>crates/zen-plugin/src/tools/shell_collect.rs\<close>: the tool polls the registry, and on a
  registry miss the \<open>meta.json\<close>, until the task is finished or the wait is over, and renders
  the status with the captured output. What the world shows at the k-th poll is an
  observation: registry, disk, capture files and monotonic clock (in milliseconds). The
  conversion of the captured bytes to text is the parameter \<open>lossy\<close>.
\<close>

definition COLLECT_TAIL_CHARS :: nat where "COLLECT_TAIL_CHARS = 8000"
definition COLLECT_INLINE_CHARS :: nat where "COLLECT_INLINE_CHARS = 4000"
definition COLLECT_DEFAULT_WAIT_MS :: nat where "COLLECT_DEFAULT_WAIT_MS = 10000"
definition POLL_INTERVAL_MS :: nat where "POLL_INTERVAL_MS = 200"
definition MAX_WAIT_MS :: nat where "MAX_WAIT_MS = 30000"

record CollectObs =
  obs_registry :: TaskRegistry
  obs_disk :: meta_disk
  obs_canonicalize :: "string list \<Rightarrow> string list option"
  obs_file :: "string \<Rightarrow> string option"
  obs_time :: nat

definition read_capture :: "(string \<Rightarrow> string) \<Rightarrow> CollectObs \<Rightarrow> string \<Rightarrow> string" where
  "read_capture lossy ob path =
     (case obs_file ob path of
        None \<Rightarrow> []
      | Some bytes \<Rightarrow> lossy (take (OUTPUT_CAP_BYTES + 1024) bytes))"

definition stream_view :: "string \<Rightarrow> string \<Rightarrow> string \<Rightarrow> (string \<times> json) list" where
  "stream_view txt inline_key tail_key =
     (if char_count txt \<le> COLLECT_INLINE_CHARS then [(inline_key, JString txt)]
      else [(tail_key, JString (tail_chars txt COLLECT_TAIL_CHARS))])"

record CollectState =
  col_status :: TaskStatus
  col_bytes_stdout :: nat
  col_bytes_stderr :: nat
  col_truncated :: bool
  col_output_dir :: string
  col_stdout_path :: string
  col_stderr_path :: string

definition state_of_snapshot :: "TaskSnapshot \<Rightarrow> CollectState" where
  "state_of_snapshot sn =
     \<lparr>col_status = snap_status sn, col_bytes_stdout = bytes_stdout sn, col_bytes_stderr = bytes_stderr sn,
      col_truncated = truncated sn, col_output_dir = output_dir sn,
      col_stdout_path = meta_stdout_path (output_dir sn), col_stderr_path = meta_stderr_path (output_dir sn)\<rparr>"

definition state_of_meta :: "TaskMeta \<Rightarrow> CollectState" where
  "state_of_meta m =
     \<lparr>col_status = snap_status m, col_bytes_stdout = bytes_stdout m, col_bytes_stderr = bytes_stderr m,
      col_truncated = truncated m, col_output_dir = output_dir m,
      col_stdout_path = stdout_path m, col_stderr_path = stderr_path m\<rparr>"

definition render :: "(string \<Rightarrow> string) \<Rightarrow> CollectObs \<Rightarrow> string \<Rightarrow> CollectState \<Rightarrow> (string \<times> json) list" where
  "render lossy ob i st =
     [(''task_id'', JString i), (''status'', JString (status_as_str (col_status st))),
      (''bytes_stdout'', JNumber (int (col_bytes_stdout st))),
      (''bytes_stderr'', JNumber (int (col_bytes_stderr st))),
      (''truncated'', JBool (col_truncated st)), (''output_path'', JString (col_output_dir st))]
     @ (case col_status st of Completed code \<Rightarrow> [(''exit_code'', JNumber code)] | _ \<Rightarrow> [])
     @ stream_view (read_capture lossy ob (col_stdout_path st)) ''stdout'' ''stdout_tail''
     @ stream_view (read_capture lossy ob (col_stderr_path st)) ''stderr'' ''stderr_tail''"

definition corrupt_meta :: "string \<Rightarrow> json" where
  "corrupt_meta i =
     JObject [(''error'', JString (''corrupt meta for task '' @ i
        @ '': recorded capture paths escape the task output dir; refusing to read''))]"

text \<open>One poll: \<open>None\<close> when the loop goes on.\<close>

definition collect_poll :: "(string \<Rightarrow> string) \<Rightarrow> string \<Rightarrow> string \<Rightarrow> CollectObs \<Rightarrow> json option" where
  "collect_poll lossy root i ob =
     (case registry_snapshot (obs_registry ob) i of
        Some sn \<Rightarrow>
          if is_terminal (snap_status sn) then Some (JObject (render lossy ob i (state_of_snapshot sn))) else None
      | None \<Rightarrow>
          (case obs_disk ob (meta_path root i) of
             Some m \<Rightarrow>
               if is_terminal (snap_status m) then
                 if \<not> meta_capture_paths_are_safe (obs_canonicalize ob) root i m then Some (corrupt_meta i)
                 else Some (JObject (render lossy ob i (state_of_meta m)))
               else None
           | None \<Rightarrow> Some (unknown_task i)))"

definition still_note :: "TaskStatus \<Rightarrow> nat \<Rightarrow> string \<Rightarrow> string \<times> json" where
  "still_note st wait_ms where_gone =
     (''note'', JString (''still '' @ status_as_str st @ '' after waiting '' @ nat_str wait_ms @ ''ms'' @ where_gone
        @ ''; call shell.collect again later''))"

text \<open>The report after the wait has elapsed.\<close>

definition collect_after :: "(string \<Rightarrow> string) \<Rightarrow> string \<Rightarrow> string \<Rightarrow> nat \<Rightarrow> CollectObs \<Rightarrow> json" where
  "collect_after lossy root i wait_ms ob =
     (case registry_snapshot (obs_registry ob) i of
        Some sn \<Rightarrow>
          JObject (render lossy ob i (state_of_snapshot sn) @ [still_note (snap_status sn) wait_ms []])
      | None \<Rightarrow>
          (case obs_disk ob (meta_path root i) of
             Some m \<Rightarrow>
               if \<not> meta_capture_paths_are_safe (obs_canonicalize ob) root i m then corrupt_meta i
               else JObject (render lossy ob i (state_of_meta m)
                      @ [still_note (snap_status m) wait_ms
                           ('' (registry entry gone '' @ em_dash @ '' daemon restart?)'')])
           | None \<Rightarrow> unknown_task i))"

partial_function (option) collect_loop ::
  "(string \<Rightarrow> string) \<Rightarrow> string \<Rightarrow> string \<Rightarrow> nat \<Rightarrow> nat \<Rightarrow> (nat \<Rightarrow> CollectObs) \<Rightarrow> nat \<Rightarrow> json option" where
  "collect_loop lossy root i wait_ms deadline obs k =
     (case collect_poll lossy root i (obs k) of
        Some r \<Rightarrow> Some r
      | None \<Rightarrow>
          if deadline \<le> obs_time (obs k) then Some (collect_after lossy root i wait_ms (obs (Suc k)))
          else collect_loop lossy root i wait_ms deadline obs (Suc k))"

definition shell_collect_invoke ::
  "(string \<Rightarrow> string) \<Rightarrow> string \<Rightarrow> (nat \<Rightarrow> CollectObs) \<Rightarrow> json \<Rightarrow> (json, KernelError) result option" where
  "shell_collect_invoke lossy root obs args =
     (case valid_task_id_arg args of
        Err e \<Rightarrow> Some (Err e)
      | Ok i \<Rightarrow>
          let wait_ms = min (case Option.bind (json_get args ''wait_ms'') json_as_u64 of
                               Some w \<Rightarrow> w | None \<Rightarrow> COLLECT_DEFAULT_WAIT_MS) MAX_WAIT_MS
          in map_option Ok (collect_loop lossy root i wait_ms (obs_time (obs 0) + wait_ms) obs 0))"

subsection \<open>The tool returns\<close>

text \<open>The clock of the polls advances by the sleep between them.\<close>

definition polls_sleep :: "(nat \<Rightarrow> CollectObs) \<Rightarrow> bool" where
  "polls_sleep obs \<longleftrightarrow> (\<forall>k. obs_time (obs k) + POLL_INTERVAL_MS \<le> obs_time (obs (Suc k)))"

text \<open>How many polls are left at most.\<close>

lemma collect_loop_returns:
  assumes "polls_sleep obs" "deadline \<le> obs_time (obs k) + n * POLL_INTERVAL_MS"
  shows "\<exists>r. collect_loop lossy root i w deadline obs k = Some r"
  using assms(2)
proof (induction n arbitrary: k)
  case 0
  then show ?case by (subst collect_loop.simps) (simp split: option.split)
next
  case (Suc n)
  from assms(1) have "obs_time (obs k) + POLL_INTERVAL_MS \<le> obs_time (obs (Suc k))"
    by (simp add: polls_sleep_def)
  with Suc.prems have "deadline \<le> obs_time (obs (Suc k)) + n * POLL_INTERVAL_MS" by simp
  from Suc.IH [OF this] show ?case
    by (subst collect_loop.simps) (simp split: option.split)
qed

text \<open>A finished task is reported as soon as a poll within the wait sees it.\<close>

lemma collect_loop_first:
  assumes "collect_poll lossy root i (obs (k + n)) = Some r"
    "\<forall>j < n. collect_poll lossy root i (obs (k + j)) = None \<and> obs_time (obs (k + j)) < deadline"
  shows "collect_loop lossy root i w deadline obs k = Some r"
  using assms
proof (induction n arbitrary: k)
  case 0
  then show ?case by (subst collect_loop.simps) simp
next
  case (Suc n)
  have "collect_loop lossy root i w deadline obs (Suc k) = Some r"
  proof (rule Suc.IH)
    show "\<forall>j < n. collect_poll lossy root i (obs (Suc k + j)) = None \<and> obs_time (obs (Suc k + j)) < deadline"
      using Suc.prems(2) by (metis Suc_less_eq add_Suc_shift)
  qed (use Suc.prems(1) in simp)
  moreover from Suc.prems(2) have "collect_poll lossy root i (obs k) = None" "obs_time (obs k) < deadline"
    by (metis add.right_neutral zero_less_Suc)+
  ultimately show ?case by (subst collect_loop.simps) simp
qed

text \<open>
  The tool always returns: as the polls sleep between them, the loop ends within the
  clamped wait, for every argument value and whatever the registry, the disk and the capture
  files show.
\<close>

theorem shell_collect_returns:
  assumes "\<forall>k. obs_time (obs k) + POLL_INTERVAL_MS \<le> obs_time (obs (Suc k))"
  shows "\<exists>r. shell_collect_invoke lossy root obs args = Some r"
proof (cases "valid_task_id_arg args")
  case (Ok i)
  let ?w = "min (case Option.bind (json_get args ''wait_ms'') json_as_u64 of
                   Some w \<Rightarrow> w | None \<Rightarrow> COLLECT_DEFAULT_WAIT_MS) MAX_WAIT_MS"
  have "?w \<le> 150 * POLL_INTERVAL_MS" by (simp add: MAX_WAIT_MS_def POLL_INTERVAL_MS_def)
  then obtain r where "collect_loop lossy root i ?w (obs_time (obs 0) + ?w) obs 0 = Some r"
    using collect_loop_returns [of obs "obs_time (obs 0) + ?w" 0 150 lossy root i ?w] assms
    by (auto simp: polls_sleep_def)
  with Ok show ?thesis by (simp add: shell_collect_invoke_def Let_def)
qed (simp add: shell_collect_invoke_def)

definition demo_obs :: "nat \<Rightarrow> CollectObs" where
  "demo_obs k = \<lparr>obs_registry = registry_new, obs_disk = Map.empty, obs_canonicalize = (\<lambda>p. Some p),
                 obs_file = (\<lambda>_. None), obs_time = 200 * k\<rparr>"

theorem shell_collect_returns_witness:
  "\<exists>r. shell_collect_invoke id ''/u'' demo_obs (JObject [(''task_id'', JString ''x'')]) = Some r"
  by (rule shell_collect_returns) (simp add: demo_obs_def POLL_INTERVAL_MS_def)

end
