(* ===== verification/Tool_Calls.thy ===== *)
theory Tool_Calls
  imports Json_Value "HOL-Library.Multiset"
begin

section \<open>Tool calls in model answers\<close>

text \<open>
  Model of the parts of \<open>crates/zen-agents/src/orchestrator.rs\<close> that read a model's answer: the
  parser of fenced \<open>```json\<close> blocks (\<open>parse_tool_invocations_verbose\<close>), the removal of those
  blocks from displayed text (\<open>strip_fenced_tool_blocks\<close>), the native-first dispatch policy
  (\<open>resolve_invocations\<close>) and the classification of mutating tools. The JSON parser and the
  normalizer \<open>ToolInvocation::new\<close> of the kernel crate are parameters; both return an error
  text on failure.
\<close>

type_synonym json_parser = "string \<Rightarrow> (json, string) result"
type_synonym 'i normalizer = "string \<Rightarrow> json \<Rightarrow> ('i, string) result"

definition fence :: string where "fence = replicate 3 (CHR 0x60)"
definition fence_json :: string where "fence_json = fence @ ''json''"

text \<open>
  Both loops cut the rest of the text at the next opening marker and at the first fence after
  it. \<open>Closed pre block rest\<close> is a closed block with what stands before and after it, \<open>Open pre\<close>
  an opening marker with no closing fence, \<open>NoFence\<close> no opening marker at all.
\<close>

datatype fence_cut = NoFence | Open string | Closed string string string

definition cut_fence :: "string \<Rightarrow> fence_cut" where
  "cut_fence rest =
     (case str_find rest fence_json of
        None \<Rightarrow> NoFence
      | Some start \<Rightarrow>
          let after_marker = drop (start + length fence_json) rest in
          case str_find after_marker fence of
            None \<Rightarrow> Open (take start rest)
          | Some end_pos \<Rightarrow> Closed (take start rest) (take end_pos after_marker) (drop (end_pos + 3) after_marker))"

lemma cut_fence_shorter: "cut_fence s = Closed pre block rest \<Longrightarrow> length rest < length s"
proof -
  assume c: "cut_fence s = Closed pre block rest"
  then obtain i j where i: "str_find s fence_json = Some i"
    and "rest = drop (j + 3) (drop (i + length fence_json) s)"
    by (auto simp: cut_fence_def Let_def split: option.splits)
  moreover have "0 < length s" using str_find_Some [OF i] by (auto simp: fence_json_def fence_def)
  ultimately show ?thesis by simp
qed

definition PARSE_PREVIEW_CHARS :: nat where "PARSE_PREVIEW_CHARS = 200"

definition preview :: "string \<Rightarrow> string" where
  "preview block =
     (let head = take_chars PARSE_PREVIEW_CHARS block
      in if PARSE_PREVIEW_CHARS < char_count block then head @ ellipsis else head)"

text \<open>One item of a block: an invocation or a diagnostic.\<close>

definition parse_item :: "'i normalizer \<Rightarrow> string \<Rightarrow> json \<Rightarrow> 'i list \<times> string list" where
  "parse_item norm block item =
     (case (json_get_str item ''tool'', json_get item ''args'') of
        (Some name, Some args) \<Rightarrow>
          (case norm name args of
             Ok invocation \<Rightarrow> ([invocation], [])
           | Err e \<Rightarrow> ([], [''tool call rejected by normalizer ('' @ name @ ''): '' @ e]))
      | _ \<Rightarrow> ([], [''fenced tool block missing '' @ [CHR 34] @ ''tool'' @ [CHR 34] @ ''/'' @ [CHR 34] @ ''args''
                   @ [CHR 34] @ '': '' @ preview block]))"

definition parse_block :: "json_parser \<Rightarrow> 'i normalizer \<Rightarrow> string \<Rightarrow> 'i list \<times> string list" where
  "parse_block pj norm block =
     (case pj block of
        Err e \<Rightarrow> ([], [''fenced tool block is not valid JSON ('' @ e @ ''): '' @ preview block])
      | Ok value \<Rightarrow>
          (case value of
             JArray items \<Rightarrow>
               (concat (map (fst \<circ> parse_item norm block) items), concat (map (snd \<circ> parse_item norm block) items))
           | JObject _ \<Rightarrow> parse_item norm block value
           | _ \<Rightarrow> ([], [''fenced tool block is not an object/array: '' @ preview block])))"

function parse_tool_invocations_verbose ::
  "json_parser \<Rightarrow> 'i normalizer \<Rightarrow> string \<Rightarrow> 'i list \<times> string list" where
  "parse_tool_invocations_verbose pj norm rest =
     (case cut_fence rest of
        NoFence \<Rightarrow> ([], [])
      | Open _ \<Rightarrow> ([], [''unclosed '' @ fence_json @ '' block (no closing fence)''])
      | Closed _ block rest' \<Rightarrow>
          let (is, es) = parse_block pj norm block; (is', es') = parse_tool_invocations_verbose pj norm rest'
          in (is @ is', es @ es'))"
  by pat_completeness auto
termination
  by (relation "measure (\<lambda>(pj, norm, s). length s)") (auto dest: cut_fence_shorter)

declare parse_tool_invocations_verbose.simps [simp del]

text \<open>\<open>strip_fenced_tool_blocks\<close>: on an unclosed block the text before it is returned as it is.\<close>

function strip_blocks :: "string \<Rightarrow> string \<Rightarrow> string" where
  "strip_blocks out rest =
     (case cut_fence rest of
        NoFence \<Rightarrow> trim (out @ rest)
      | Open pre \<Rightarrow> out @ pre
      | Closed pre _ rest' \<Rightarrow> strip_blocks (out @ pre) rest')"
  by pat_completeness auto
termination
  by (relation "measure (\<lambda>(out, s). length s)") (auto dest: cut_fence_shorter)

declare strip_blocks.simps [simp del]

definition strip_fenced_tool_blocks :: "string \<Rightarrow> string" where
  "strip_fenced_tool_blocks txt = strip_blocks [] txt"

text \<open>Native tool calls of the provider win over fenced blocks.\<close>

definition resolve_native :: "'i normalizer \<Rightarrow> (string \<times> json) list \<Rightarrow> 'i list \<times> string list" where
  "resolve_native norm calls =
     (let rs = map (\<lambda>(name, args). (name, norm name args)) calls
      in (concat (map (\<lambda>(_, r). case r of Ok i \<Rightarrow> [i] | Err _ \<Rightarrow> []) rs),
          concat (map (\<lambda>(name, r). case r of Ok _ \<Rightarrow> []
             | Err e \<Rightarrow> [''native tool call rejected ('' @ name @ ''): '' @ e]) rs)))"

definition resolve_invocations ::
  "json_parser \<Rightarrow> 'i normalizer \<Rightarrow> string \<Rightarrow> (string \<times> json) list \<Rightarrow> 'i list \<times> string list \<times> bool" where
  "resolve_invocations pj norm response native_calls =
     (if native_calls = [] then
        let (is, es) = parse_tool_invocations_verbose pj norm response in (is, es, False)
      else
        let (is, es) = resolve_native norm native_calls in (is, es, str_contains response fence_json))"

definition READ_ONLY_TOOLS :: "string list" where
  "READ_ONLY_TOOLS =
     [''fs.read'', ''fs.list'', ''fs.grep'', ''fs.glob'', ''tier2_search'', ''tier3_search'', ''tier4_search'',
      ''compute_embeddings'', ''web.fetch'', ''web.search'', ''system.health'', ''shell.collect'']"

definition is_mutating_tool :: "string \<Rightarrow> bool" where
  "is_mutating_tool name \<longleftrightarrow> \<not> starts_with name ''<'' \<and> name \<notin> set READ_ONLY_TOOLS"

subsection \<open>Answering the pending calls of a round\<close>

text \<open>
  A call the agent library reports as pending: its id, name and arguments, and an answer when
  the library has resolved it already. Answers belong to the library; \<open>tool_result\<close> builds one
  from an id, a name and a text.
\<close>

record 'u PendingToolCall =
  call_id :: string
  call_name :: string
  call_args :: json
  preresolved_result :: "'u option"

record ToolCallRecord =
  tool_name :: string
  tool_arguments :: string
  tool_result_text :: string

record ('i, 'u) BatchPlan =
  dispatch_calls :: "(string \<times> 'i) list"
  batch_answers :: "'u list"
  batch_rejected :: "ToolCallRecord list"

fun plan_tool_batch ::
  "(string \<Rightarrow> string \<Rightarrow> string \<Rightarrow> 'u) \<Rightarrow> (json \<Rightarrow> string) \<Rightarrow> 'i normalizer \<Rightarrow> 'u PendingToolCall list
   \<Rightarrow> ('i, 'u) BatchPlan" where
  "plan_tool_batch tool_result show_json norm [] = \<lparr>dispatch_calls = [], batch_answers = [], batch_rejected = []\<rparr>"
| "plan_tool_batch tool_result show_json norm (p # ps) =
     (let b = plan_tool_batch tool_result show_json norm ps in
      case preresolved_result p of
        Some pre \<Rightarrow> b\<lparr>batch_answers := pre # batch_answers b\<rparr>
      | None \<Rightarrow>
          (case norm (call_name p) (call_args p) of
             Ok invocation \<Rightarrow> b\<lparr>dispatch_calls := (call_id p, invocation) # dispatch_calls b\<rparr>
           | Err e \<Rightarrow>
               let reason = ''invalid arguments: '' @ e in
               b\<lparr>batch_rejected := \<lparr>tool_name = call_name p, tool_arguments = show_json (call_args p),
                                    tool_result_text = reason\<rparr> # batch_rejected b,
                 batch_answers := tool_result (call_id p) (call_name p) reason # batch_answers b\<rparr>))"

definition ensured_tool_results ::
  "(string \<Rightarrow> string \<Rightarrow> string \<Rightarrow> 'u) \<Rightarrow> (json \<Rightarrow> string) \<Rightarrow> 'u list \<Rightarrow> 'u PendingToolCall list \<Rightarrow> 'u list option" where
  "ensured_tool_results tool_result show_json answers pending =
     (if answers = [] then
        if pending = [] then None
        else Some (map (\<lambda>p. tool_result (call_id p) (call_name p)
                          (show_json (JObject [(''error'', JString ''tool dispatch produced no result'')]))) pending)
      else Some answers)"

definition warning_sign :: string where "warning_sign = [CHR 0xE2, CHR 0x9A, CHR 0xA0]"

definition answer_pending_at_round_cap ::
  "(string \<Rightarrow> string \<Rightarrow> string \<Rightarrow> 'u) \<Rightarrow> (json \<Rightarrow> string) \<Rightarrow> 'u PendingToolCall list \<Rightarrow> nat \<Rightarrow> string
   \<Rightarrow> 'u list \<times> ToolCallRecord list \<times> string \<times> string \<times> string" where
  "answer_pending_at_round_cap tool_result show_json calls max_tool_rounds final_response =
     (let error = show_json (JObject [(''error'', JString (''tool round cap reached ('' @ nat_str max_tool_rounds
                    @ '') '' @ em_dash @ '' tool intent not executed''))]);
          answers = map (\<lambda>p. tool_result (call_id p) (call_name p) error) calls;
          records = map (\<lambda>p. \<lparr>tool_name = call_name p, tool_arguments = show_json (call_args p),
                               tool_result_text = error\<rparr>) calls;
          round_entry = concat (map (\<lambda>p. ''tool: '' @ call_name p @ [CHR 10] @ ''args: '' @ show_json (call_args p)
                          @ [CHR 10] @ ''result: '' @ error @ [CHR 10] @ ''---'' @ [CHR 10]) calls);
          notice = warning_sign @ '' tool round cap ('' @ nat_str max_tool_rounds @ '') reached, ''
                   @ nat_str (length calls) @ '' tool intent(s) not executed'';
          stripped = strip_fenced_tool_blocks final_response;
          final' = (if stripped = [] then notice else notice @ [CHR 10, CHR 10] @ stripped)
      in (answers, records, round_entry, final', notice))"

subsection \<open>The history of tool results\<close>

definition TOOL_RESULTS_HISTORY_CAP_CHARS :: nat where "TOOL_RESULTS_HISTORY_CAP_CHARS = 16000"

definition is_char_boundary :: "string \<Rightarrow> nat \<Rightarrow> bool" where
  "is_char_boundary s i \<longleftrightarrow> i = 0 \<or> i = length s \<or> (i < length s \<and> \<not> is_cont_byte (s ! i))"

fun drop_oldest :: "nat \<Rightarrow> string list \<Rightarrow> nat \<times> string list" where
  "drop_oldest tot (r # r' # rs) =
     (if TOOL_RESULTS_HISTORY_CAP_CHARS < tot then drop_oldest (tot - length r) (r' # rs)
      else (tot, r # r' # rs))"
| "drop_oldest tot rs = (tot, rs)"

function next_boundary :: "string \<Rightarrow> nat \<Rightarrow> nat" where
  "next_boundary s pos = (if pos < length s \<and> \<not> is_char_boundary s pos then next_boundary s (Suc pos) else pos)"
  by pat_completeness auto
termination
  by (relation "measure (\<lambda>(s, pos). length s - pos)") auto

declare next_boundary.simps [simp del]

definition push_tool_results_history :: "string list \<Rightarrow> string \<Rightarrow> string list" where
  "push_tool_results_history history entry =
     (let (tot, h) = drop_oldest (sum_list (map length (history @ [entry]))) (history @ [entry]) in
      if TOOL_RESULTS_HISTORY_CAP_CHARS < tot then
        let newest = last h
        in butlast h @ [drop (next_boundary newest (length newest - TOOL_RESULTS_HISTORY_CAP_CHARS)) newest]
      else h)"

definition join_tool_results_history :: "string list \<Rightarrow> string" where
  "join_tool_results_history history = str_join ([CHR 10] @ ''---'' @ [CHR 10]) history"

subsection \<open>Every pending call is answered once\<close>

text \<open>
  Planning a batch leaves no pending call unanswered and answers none twice: the ids of
  the answers given at once and of the calls to dispatch are together exactly the ids of the
  pending calls, and results come back under the id of their call. The library's answers carry
  the id they are built with.
\<close>

theorem pending_calls_answered_once:
  assumes "\<forall>i n t. answer_id (tool_result i n t) = i"
    "\<forall>p \<in> set calls. \<forall>u. preresolved_result p = Some u \<longrightarrow> answer_id u = call_id p"
  shows "mset (map answer_id (batch_answers (plan_tool_batch tool_result show_json norm calls)))
         + mset (map fst (dispatch_calls (plan_tool_batch tool_result show_json norm calls)))
         = mset (map call_id calls)"
  using assms(2)
proof (induction calls)
  case (Cons p ps)
  then show ?case using assms(1)
    by (auto simp: Let_def split: option.split result.split)
qed simp

theorem pending_calls_answered_once_witness:
  "mset (map fst (batch_answers (plan_tool_batch (\<lambda>i n t. (i, t)) (\<lambda>_. [])
          (\<lambda>n a. if n = [] then Err ''empty'' else Ok n)
          [\<lparr>call_id = ''1'', call_name = [], call_args = JNull, preresolved_result = None\<rparr>,
           \<lparr>call_id = ''2'', call_name = ''fs.read'', call_args = JNull, preresolved_result = None\<rparr>])))
   + mset (map fst (dispatch_calls (plan_tool_batch (\<lambda>i n t. (i, t)) (\<lambda>_. [])
          (\<lambda>n a. if n = [] then Err ''empty'' else Ok n)
          [\<lparr>call_id = ''1'', call_name = [], call_args = JNull, preresolved_result = None\<rparr>,
           \<lparr>call_id = ''2'', call_name = ''fs.read'', call_args = JNull, preresolved_result = None\<rparr>])))
   = {#''1'', ''2''#}"
  using pending_calls_answered_once [of fst "\<lambda>i n t. (i, t)"
      "[\<lparr>call_id = ''1'', call_name = [], call_args = JNull, preresolved_result = None\<rparr>,
        \<lparr>call_id = ''2'', call_name = ''fs.read'', call_args = JNull, preresolved_result = None\<rparr>]"
      "\<lambda>_. []" "\<lambda>n a. if n = [] then Err ''empty'' else Ok n"]
  by simp

subsection \<open>The history stays within its cap\<close>

lemma drop_oldest_spec:
  assumes "drop_oldest tot h = (tot', h')" "tot = sum_list (map length h)" "h \<noteq> []"
  shows "tot' = sum_list (map length h') \<and> suffix h' h \<and> h' \<noteq> []
         \<and> (tot' \<le> TOOL_RESULTS_HISTORY_CAP_CHARS \<or> length h' = 1)"
  using assms
proof (induction tot h arbitrary: tot' h' rule: drop_oldest.induct)
  case (1 tot r r' rs)
  then show ?case by (cases "TOOL_RESULTS_HISTORY_CAP_CHARS < tot") (auto intro: suffix_ConsI)
qed auto

lemma next_boundary_bounds: "pos \<le> length s \<Longrightarrow> pos \<le> next_boundary s pos \<and> next_boundary s pos \<le> length s
    \<and> is_char_boundary s (next_boundary s pos)"
proof (induction s pos rule: next_boundary.induct)
  case (1 s pos)
  then show ?case
    by (cases "pos < length s \<and> \<not> is_char_boundary s pos")
       (auto simp: next_boundary.simps [of s pos] is_char_boundary_def)
qed

text \<open>
  The history of tool results never exceeds its cap; it keeps the newest round, whole
  if it fits and otherwise its end from a character boundary on, and before it an unbroken run
  of the most recent older rounds.
\<close>

theorem history_capped:
  "let h = push_tool_results_history history entry in
     h \<noteq> [] \<and> sum_list (map length h) \<le> TOOL_RESULTS_HISTORY_CAP_CHARS \<and> suffix (butlast h) history
     \<and> (\<exists>k. last h = drop k entry \<and> is_char_boundary entry k
            \<and> (k = 0 \<longleftrightarrow> length entry \<le> TOOL_RESULTS_HISTORY_CAP_CHARS))"
proof -
  obtain tot h where d: "drop_oldest (sum_list (map length (history @ [entry]))) (history @ [entry]) = (tot, h)"
    by force
  from drop_oldest_spec [OF d refl] have tot: "tot = sum_list (map length h)" and suf: "suffix h (history @ [entry])"
    and ne: "h \<noteq> []" and small: "tot \<le> TOOL_RESULTS_HISTORY_CAP_CHARS \<or> length h = 1" by auto
  from suf ne obtain h0 where h: "h = h0 @ [entry]" "suffix h0 history"
    by (metis append_butlast_last_id last_appendR not_Cons_self2 snoc_suffix_snoc suffix_def last_snoc butlast_snoc)
  show ?thesis
  proof (cases "TOOL_RESULTS_HISTORY_CAP_CHARS < tot")
    case True
    with small h have one: "h = [entry]" by (cases h0) auto
    let ?c = "length entry - TOOL_RESULTS_HISTORY_CAP_CHARS"
    from True one tot have big: "TOOL_RESULTS_HISTORY_CAP_CHARS < length entry" by simp
    from next_boundary_bounds [of ?c entry] have
      "?c \<le> next_boundary entry ?c" "is_char_boundary entry (next_boundary entry ?c)" by auto
    with True one big d show ?thesis
      by (auto simp: push_tool_results_history_def Let_def intro!: exI [of _ "next_boundary entry ?c"])
  next
    case False
    with h tot have "length entry \<le> TOOL_RESULTS_HISTORY_CAP_CHARS" by simp
    with False h tot d show ?thesis
      by (auto simp: push_tool_results_history_def Let_def is_char_boundary_def intro!: exI [of _ 0])
  qed
qed

end
