(* ===== verification/Delegate_Task.thy ===== *)
theory Delegate_Task
  imports Complex_Main Tool_Calls
begin

section \<open>Delegation to sub-agents\<close>

text \<open>
  Model of \<open>crates/zen-agents/src/delegate_task.rs\<close> (the tool \<open>delegate.task\<close>), of the agent table of
  \<open>registry.rs\<close> and \<open>delegate_tools.rs\<close> and of \<open>aggregate_weights.rs\<close>: parsing of requests, the
  gates in front of every delegation, the sub-turn with its rounds, the report markers, the
  honesty check and the assembly of the results.

  What happens outside is a parameter: the model call of one round, the dispatch of tool calls,
  the token reservation, the clock, the artifact check (sandbox and grants) and the JSON parser.
  Weights are exact fractions: the sources divide counts of at most 100 observations in \<open>f32\<close>,
  which keeps the order of such fractions.
\<close>

subsection \<open>Agents and the spawn hierarchy\<close>

datatype Role = Orchestrator | Planner | Specialist | Worker

fun role_str :: "Role \<Rightarrow> string" where
  "role_str Orchestrator = ''Orchestrator''"
| "role_str Planner = ''Planner''"
| "role_str Specialist = ''Specialist''"
| "role_str Worker = ''Worker''"

definition BUILTIN_AGENT_NAMES :: "string list" where
  "BUILTIN_AGENT_NAMES =
     [''Sisyphus'', ''Junior'', ''Hermes'', ''Metis'', ''Momus'', ''Oracle'', ''Prometheus'', ''Explore'',
      ''Librarian'', ''Argus'', ''Hephaestus'', ''Atlas'', ''Zeus'']"

definition is_builtin_agent :: "string \<Rightarrow> bool" where
  "is_builtin_agent name \<longleftrightarrow> name \<in> set BUILTIN_AGENT_NAMES"

definition builtin_agents :: "(string \<times> Role) list" where
  "builtin_agents =
     [(''Sisyphus'', Orchestrator), (''Junior'', Worker), (''Hermes'', Worker), (''Metis'', Planner),
      (''Momus'', Planner), (''Oracle'', Specialist), (''Prometheus'', Planner), (''Explore'', Specialist),
      (''Librarian'', Specialist), (''Argus'', Specialist), (''Hephaestus'', Worker), (''Atlas'', Worker),
      (''Zeus'', Planner)]"

definition role_of :: "string \<Rightarrow> (Role, string) result" where
  "role_of name =
     (case map_of builtin_agents name of
        Some r \<Rightarrow> Ok r
      | None \<Rightarrow> Err (''no profile for agent '' @ [CHR 34] @ name @ [CHR 34] @ '': agent not found: '' @ name))"

definition role_may_spawn :: "Role \<Rightarrow> Role \<Rightarrow> bool" where
  "role_may_spawn parent child =
     (case parent of
        Orchestrator \<Rightarrow> child \<noteq> Orchestrator
      | Planner \<Rightarrow> child \<noteq> Orchestrator \<and> child \<noteq> Planner
      | Specialist \<Rightarrow> False
      | Worker \<Rightarrow> False)"

definition spawn_allowed :: "string \<Rightarrow> string \<Rightarrow> (unit, string) result" where
  "spawn_allowed parent child =
     res_bind (role_of parent) (\<lambda>parent_role.
     res_bind (role_of child) (\<lambda>child_role.
       if role_may_spawn parent_role child_role then Ok ()
       else Err (''spawn hierarchy violation: '' @ role_str parent_role @ '' cannot spawn ''
                 @ role_str child_role @ '' (001 arch A.1)'')))"

definition DELEGATE_ROOT_PARENT :: string where "DELEGATE_ROOT_PARENT = ''Sisyphus''"

subsection \<open>Requests\<close>

record DelegateRequest =
  req_agent :: string
  req_prompt :: string
  req_description :: "string option"
  req_independent :: bool
  req_artifact :: "string option"

record DelegateContract =
  output_format :: "string option"
  task_boundaries :: "string option"

record ParsedDelegate =
  pd_request :: DelegateRequest
  pd_contract :: DelegateContract

definition FANOUT_MAX_TASKS :: nat where "FANOUT_MAX_TASKS = 8"
definition BOUNDED_PROMPT_CHARS :: nat where "BOUNDED_PROMPT_CHARS = 32000"
definition ADVISORY_TOKEN_LINE :: nat where "ADVISORY_TOKEN_LINE = 50000"

definition quoted :: "string \<Rightarrow> string" where
  "quoted s = [CHR 34] @ s @ [CHR 34]"

definition optional_nonempty_string :: "json \<Rightarrow> string \<Rightarrow> (string option, string) result" where
  "optional_nonempty_string args key =
     (case json_get args key of
        None \<Rightarrow> Ok None
      | Some JNull \<Rightarrow> Ok None
      | Some (JString v) \<Rightarrow>
          if trim v = [] then Err (quoted key @ '' must not be empty when present'') else Ok (Some v)
      | Some _ \<Rightarrow> Err (quoted key @ '' must be a string when present''))"

text \<open>The fields both forms share, read in the order of the struct literal.\<close>

definition parse_fields :: "json \<Rightarrow> string \<Rightarrow> string \<Rightarrow> (ParsedDelegate, string) result" where
  "parse_fields item agent prompt =
     res_bind (optional_nonempty_string item ''artifact'') (\<lambda>artifact.
     res_bind (optional_nonempty_string item ''output_format'') (\<lambda>fmt.
     res_bind (optional_nonempty_string item ''task_boundaries'') (\<lambda>bounds.
       Ok \<lparr>pd_request = \<lparr>req_agent = agent, req_prompt = prompt,
                         req_description = json_get_str item ''description'',
                         req_independent = (case Option.bind (json_get item ''independent'') json_as_bool of
                                              Some b \<Rightarrow> b | None \<Rightarrow> True),
                         req_artifact = artifact\<rparr>,
           pd_contract = \<lparr>output_format = fmt, task_boundaries = bounds\<rparr>\<rparr>)))"

definition parse_task_item :: "json \<Rightarrow> (ParsedDelegate, string) result" where
  "parse_task_item item =
     (case json_get_str item ''agent'' of
        None \<Rightarrow> Err (''each tasks[] item requires an '' @ quoted ''agent'' @ '' string'')
      | Some agent \<Rightarrow>
          (case json_get_str item ''prompt'' of
             None \<Rightarrow> Err (''each tasks[] item requires a '' @ quoted ''prompt'' @ '' string'')
           | Some prompt \<Rightarrow> parse_fields item agent prompt))"

fun parse_items :: "json list \<Rightarrow> (ParsedDelegate list, string) result" where
  "parse_items [] = Ok []"
| "parse_items (x # xs) =
     res_bind (parse_task_item x) (\<lambda>t. res_bind (parse_items xs) (\<lambda>ts. Ok (t # ts)))"

definition parse_requests :: "json \<Rightarrow> (ParsedDelegate list, string) result" where
  "parse_requests args =
     (case json_get_array args ''tasks'' of
        Some arr \<Rightarrow>
          if FANOUT_MAX_TASKS < length arr then
            Err (''fan-out batch of '' @ nat_str (length arr) @ '' tasks exceeds the hard cap of ''
                 @ nat_str FANOUT_MAX_TASKS @ ''; split the work into batches of at most ''
                 @ nat_str FANOUT_MAX_TASKS @ '' independent tasks'')
          else
            res_bind (parse_items arr) (\<lambda>ts. if ts = [] then Err ''tasks[] must not be empty'' else Ok ts)
      | None \<Rightarrow>
          (case json_get_str args ''agent'' of
             None \<Rightarrow> Err (''delegate.task requires an '' @ quoted ''agent'' @ '' string argument (or tasks[])'')
           | Some agent \<Rightarrow>
               (case json_get_str args ''prompt'' of
                  None \<Rightarrow> Err (''delegate.task requires a '' @ quoted ''prompt'' @ '' string argument (or tasks[])'')
                | Some prompt \<Rightarrow> res_bind (parse_fields args agent prompt) (\<lambda>t. Ok [t]))))"

subsection \<open>Gates\<close>

record GateReport =
  gate_independent :: bool
  consumer_decision :: bool
  bounded :: bool
  worth_it :: bool

definition evaluate_gates :: "DelegateRequest \<Rightarrow> nat \<Rightarrow> GateReport" where
  "evaluate_gates t batch_width =
     \<lparr>gate_independent = req_independent t,
      consumer_decision = batch_width \<le> 4,
      bounded = length (req_prompt t) \<le> BOUNDED_PROMPT_CHARS,
      worth_it = length (req_prompt t) div 4 + 1024 \<le> ADVISORY_TOKEN_LINE\<rparr>"

text \<open>The parts of the tool's configuration the operations below read.\<close>

record DelegateTool =
  max_depth :: nat
  delegate_concurrent :: nat
  artifact_check :: "string \<Rightarrow> string \<Rightarrow> (unit, string) result"
  weights :: "string \<rightharpoonup> rat"

definition validate_task :: "DelegateTool \<Rightarrow> string \<Rightarrow> nat \<Rightarrow> DelegateRequest \<Rightarrow> string option" where
  "validate_task tool parent depth t =
     (if \<not> is_builtin_agent (req_agent t) then Some (''unknown delegate agent '' @ quoted (req_agent t))
      else case spawn_allowed parent (req_agent t) of
             Err violation \<Rightarrow> Some violation
           | Ok _ \<Rightarrow>
               if max_depth tool < depth + 1 then
                 Some (''delegation depth cap reached ('' @ nat_str depth @ ''/'' @ nat_str (max_depth tool)
                       @ ''); returning to the parent loop'')
               else if BOUNDED_PROMPT_CHARS < length (req_prompt t) then
                 Some ''unbounded delegation rejected: prompt exceeds the bounded-task limit''
               else case req_artifact t of
                      None \<Rightarrow> None
                    | Some path \<Rightarrow>
                        (case artifact_check tool (req_agent t) path of Ok _ \<Rightarrow> None | Err e \<Rightarrow> Some e))"

text \<open>The grants of a sub-agent lose \<open>plan.execute\<close> always and \<open>delegate.*\<close> at the depth cap.\<close>

definition sub_agent_tools :: "bool \<Rightarrow> string list \<Rightarrow> string list" where
  "sub_agent_tools allow_child_delegation grants =
     filter (\<lambda>n. n \<noteq> ''plan.execute'')
       (if allow_child_delegation then grants else filter (\<lambda>n. \<not> starts_with n ''delegate.'') grants)"

subsection \<open>The brief and the report markers\<close>

definition nl2 :: string where "nl2 = [CHR 10, CHR 10]"

definition labeled_section :: "DelegateContract \<Rightarrow> string option" where
  "labeled_section c =
     (if output_format c = None \<and> task_boundaries c = None then None
      else Some (nl2 @ ''---'' @ [CHR 10] @ ''Delegation contract:''
             @ (case output_format c of Some f \<Rightarrow> [CHR 10] @ ''OUTPUT FORMAT:'' @ [CHR 10] @ f | None \<Rightarrow> [])
             @ (case task_boundaries c of Some b \<Rightarrow> [CHR 10] @ ''TASK BOUNDARIES:'' @ [CHR 10] @ b | None \<Rightarrow> [])
             @ [CHR 10] @ ''---''))"

definition REPORT_REQUEST :: string where
  "REPORT_REQUEST =
     nl2 @ ''---'' @ [CHR 10] @ ''When you have finished, end your answer with two optional lines:'' @ [CHR 10]
     @ ''REASONING: <one sentence on your approach>'' @ [CHR 10]
     @ ''VERIFICATION: <how you checked the result>'' @ [CHR 10] @ ''---''"

definition compose_sub_prompt :: "DelegateRequest \<Rightarrow> DelegateContract \<Rightarrow> string" where
  "compose_sub_prompt req c =
     req_prompt req
     @ (case labeled_section c of Some s \<Rightarrow> s | None \<Rightarrow> [])
     @ (case req_artifact req of
          Some path \<Rightarrow>
            nl2 @ ''---'' @ [CHR 10]
            @ ''ARTIFACT OUTPUT: write your full deliverable to the file at this exact path using the fs.write tool, then state the path in your answer: ''
            @ path @ [CHR 10] @ ''---''
        | None \<Rightarrow> [])
     @ REPORT_REQUEST"

definition ARTIFACT_SUMMARY_MAX_CHARS :: nat where "ARTIFACT_SUMMARY_MAX_CHARS = 4000"

definition bounded_summary :: "string \<Rightarrow> string" where
  "bounded_summary txt =
     take_chars ARTIFACT_SUMMARY_MAX_CHARS txt
     @ (if ARTIFACT_SUMMARY_MAX_CHARS < char_count txt then ellipsis @ ''[truncated]'' else [])"

definition take_marker :: "string \<Rightarrow> string \<Rightarrow> string option" where
  "take_marker line marker =
     (let trimmed = trim_start line; n = length marker in
      if n \<le> length trimmed \<and> is_char_boundary trimmed n \<and> to_lowercase (take n trimmed) = to_lowercase marker
      then Some (trim (drop n trimmed)) else None)"

text \<open>The loop over the lines: prose, the two report fields and whether a marker was found.\<close>

fun scan_report :: "string list \<Rightarrow> string list \<times> string option \<times> string option \<times> bool
    \<Rightarrow> string list \<times> string option \<times> string option \<times> bool" where
  "scan_report [] acc = acc"
| "scan_report (line # ls) (prose, reasoning, verification, found) =
     (case take_marker line ''reasoning:'' of
        Some v \<Rightarrow> scan_report ls (prose, Some v, verification, True)
      | None \<Rightarrow>
          (case take_marker line ''verification:'' of
             Some v \<Rightarrow> scan_report ls (prose, reasoning, Some v, True)
           | None \<Rightarrow> scan_report ls (prose @ [line], reasoning, verification, found)))"

definition trim_end :: "string \<Rightarrow> string" where
  "trim_end s = concat (rev (dropWhile is_white (rev (utf8_chars s))))"

definition split_report_markers :: "string \<Rightarrow> string \<times> string option \<times> string option" where
  "split_report_markers response =
     (case scan_report (str_lines response) ([], None, None, False) of
        (prose, reasoning, verification, found) \<Rightarrow>
          if found then (trim_end (str_join [CHR 10] prose), reasoning, verification)
          else (response, None, None))"

subsection \<open>The sub-turn\<close>

definition MAX_DELEGATE_ROUNDS :: nat where "MAX_DELEGATE_ROUNDS = 4"

text \<open>A hook termination or a budget denial blocks a dispatch; every other error is a tool failure.\<close>

datatype dispatch_error = DispatchBlocked string | ToolFailure string

fun dispatch_error_feedback :: "dispatch_error \<Rightarrow> string" where
  "dispatch_error_feedback (DispatchBlocked e) =
     ''tool dispatch blocked (approval/seatbelt/budget): '' @ e @ [CHR 10] @ ''Answer the user with what you have.''"
| "dispatch_error_feedback (ToolFailure e) =
     ''tool failed: '' @ e @ [CHR 10] @ ''Answer the user with what you have.''"

definition results_to_prompt :: "(json \<Rightarrow> string) \<Rightarrow> (string \<times> json \<times> json) list \<Rightarrow> string" where
  "results_to_prompt show_json rs =
     str_join ([CHR 10] @ ''---'' @ [CHR 10])
       (map (\<lambda>(name, args, output). ''tool: '' @ name @ [CHR 10] @ ''args: '' @ show_json args @ [CHR 10]
               @ ''result: '' @ show_json output) rs)"

record 'i SubTurnEnv =
  deadline_hit :: "nat \<Rightarrow> bool"
  llm_round :: "nat \<Rightarrow> string \<Rightarrow> string option"
  dispatch_tools :: "nat \<Rightarrow> 'i list \<Rightarrow> ((string \<times> json \<times> json) list, dispatch_error) result"
  env_parser :: json_parser
  env_normalizer :: "'i normalizer"
  env_show :: "json \<Rightarrow> string"
  agent_builds :: bool
  reserve_tokens :: "nat \<Rightarrow> (bool, string) result"
  elapsed_ms :: nat

datatype sub_turn = SubFailed | SubDone string nat bool

definition deadline_note :: string where
  "deadline_note = nl2 @ ''[delegate sub-turn exceeded its wall-clock budget; partial work returned]''"

definition reparse_feedback :: "string list \<Rightarrow> string" where
  "reparse_feedback errs =
     ''Your previous tool call block could not be parsed and was NOT executed:'' @ [CHR 10]
     @ str_join [CHR 10] errs @ [CHR 10] @ ''Re-emit exactly one valid '' @ fence_json @ '' block with {''
     @ quoted ''tool'' @ '': '' @ quoted ''<name>'' @ '', '' @ quoted ''args'' @ '': {...}}, or answer directly.''"

fun sub_loop :: "'i SubTurnEnv \<Rightarrow> nat \<Rightarrow> nat \<Rightarrow> string \<Rightarrow> string \<Rightarrow> sub_turn" where
  "sub_loop env 0 rounds feedback response = SubDone response rounds False"
| "sub_loop env (Suc n) rounds feedback response =
     (if deadline_hit env rounds then SubDone (response @ deadline_note) rounds True
      else case llm_round env rounds feedback of
             None \<Rightarrow> SubFailed
           | Some response' \<Rightarrow>
               (case parse_tool_invocations_verbose (env_parser env) (env_normalizer env) response' of
                  (invocations, parse_errors) \<Rightarrow>
                    if invocations = [] then
                      if parse_errors = [] then SubDone response' (Suc rounds) False
                      else sub_loop env n (Suc rounds) (reparse_feedback parse_errors) response'
                    else
                      sub_loop env n (Suc rounds)
                        (case dispatch_tools env rounds invocations of
                           Ok rs \<Rightarrow> results_to_prompt (env_show env) rs
                         | Err e \<Rightarrow> dispatch_error_feedback e)
                        response'))"

definition round_cap_note :: string where
  "round_cap_note = nl2 @ ''[delegate round cap reached; returning current answer]''"

definition sub_response_honesty_error ::
  "json_parser \<Rightarrow> 'i normalizer \<Rightarrow> string \<Rightarrow> string option \<Rightarrow> string \<Rightarrow> nat \<Rightarrow> string option" where
  "sub_response_honesty_error pj nrm agent artifact clean rounds =
     (if artifact \<noteq> None then None
      else if trim clean = [] then
        Some (''sub-agent '' @ quoted agent @ '' produced no response ('' @ nat_str rounds @ '' round(s))'')
      else if trim (strip_fenced_tool_blocks clean) = []
              \<and> fst (parse_tool_invocations_verbose pj nrm clean) \<noteq> [] then
        Some (''sub-agent '' @ quoted agent @ '' ended with unexecuted tool call(s) and no prose answer'')
      else None)"

text \<open>What follows the loop: the cap note, the report fields and the result object.\<close>

definition sub_result :: "'i SubTurnEnv \<Rightarrow> DelegateRequest \<Rightarrow> string \<Rightarrow> nat \<Rightarrow> (string \<times> json) list" where
  "sub_result env req response rounds =
     (case split_report_markers response of
        (clean, reasoning, verification) \<Rightarrow>
          case sub_response_honesty_error (env_parser env) (env_normalizer env) (req_agent req) (req_artifact req) clean rounds of
            Some error \<Rightarrow> [(''error'', JString error)]
          | None \<Rightarrow>
              [(''agent'', JString (req_agent req)), (''response'', JString clean),
               (''rounds'', JNumber (int rounds)), (''duration_ms'', JNumber (int (elapsed_ms env)))]
              @ (case req_artifact req of
                   Some path \<Rightarrow> [(''artifact_path'', JString path), (''summary'', JString (bounded_summary clean))]
                 | None \<Rightarrow> [])
              @ (case req_description req of Some d \<Rightarrow> [(''description'', JString d)] | None \<Rightarrow> [])
              @ (case reasoning of Some r \<Rightarrow> [(''reasoning'', JString r)] | None \<Rightarrow> [])
              @ (case verification of Some v \<Rightarrow> [(''verification'', JString v)] | None \<Rightarrow> []))"

definition run_single_composed :: "'i SubTurnEnv \<Rightarrow> nat \<Rightarrow> DelegateRequest \<Rightarrow> DelegateContract \<Rightarrow> json" where
  "run_single_composed env inherited_chars req contract =
     (let prompt = compose_sub_prompt req contract in
      if \<not> agent_builds env then
        JObject [(''error'', JString (''failed to build delegate agent '' @ quoted (req_agent req)))]
      else if map_of builtin_agents (req_agent req) = None then
        JObject [(''error'', JString (''no profile registered for delegate agent '' @ quoted (req_agent req)))]
      else case reserve_tokens env (length prompt div 4 + 1024 + inherited_chars div 4) of
             Err e \<Rightarrow> JObject [(''error'', JString (''token budget reservation failed: '' @ e))]
           | Ok False \<Rightarrow> JObject [(''error'', JString ''token budget exhausted; delegation refused'')]
           | Ok True \<Rightarrow>
               (case sub_loop env MAX_DELEGATE_ROUNDS 0 [] [] of
                  SubFailed \<Rightarrow>
                    JObject [(''error'', JString (''delegate agent '' @ quoted (req_agent req) @ '' LLM round failed''))]
                | SubDone response rounds timed_out \<Rightarrow>
                    JObject (sub_result env req
                      (if MAX_DELEGATE_ROUNDS \<le> rounds \<and> \<not> timed_out then response @ round_cap_note else response)
                      rounds)))"

definition run_single :: "'i SubTurnEnv \<Rightarrow> nat \<Rightarrow> DelegateRequest \<Rightarrow> json" where
  "run_single env inherited_chars req =
     run_single_composed env inherited_chars req \<lparr>output_format = None, task_boundaries = None\<rparr>"

subsection \<open>Accuracy weights\<close>

record GateObservation =
  obs_agent :: string
  obs_ok :: bool

definition WEIGHT_WINDOW :: nat where "WEIGHT_WINDOW = 100"

definition line_observations :: "json_parser \<Rightarrow> string \<Rightarrow> GateObservation list" where
  "line_observations pj line =
     (let l = trim line in
      if l = [] then []
      else case pj l of
             Err _ \<Rightarrow> []
           | Ok v \<Rightarrow>
               (case json_get_str v ''kind'' of
                  None \<Rightarrow> []
                | Some k \<Rightarrow>
                    if k = ''loop.delegate.outcome'' then
                      (case json_get_str v ''agent'' of
                         None \<Rightarrow> []
                       | Some a \<Rightarrow>
                           [\<lparr>obs_agent = a, obs_ok = (case Option.bind (json_get v ''ok'') json_as_bool of
                                                     Some b \<Rightarrow> b | None \<Rightarrow> False)\<rparr>])
                    else if k = ''loop.delegate.gates'' then
                      (case json_get_array v ''gates'' of
                         None \<Rightarrow> []
                       | Some gates \<Rightarrow>
                           concat (map (\<lambda>g. case json_get_str g ''agent'' of
                                      None \<Rightarrow> []
                                    | Some a \<Rightarrow>
                                        [\<lparr>obs_agent = a, obs_ok = (case Option.bind (json_get g ''bounded'') json_as_bool of
                                                                  Some b \<Rightarrow> b | None \<Rightarrow> False)\<rparr>]) gates))
                    else []))"

definition parse_gate_observations :: "json_parser \<Rightarrow> string \<Rightarrow> GateObservation list" where
  "parse_gate_observations pj audit = concat (map (line_observations pj) (str_lines audit))"

definition success_rates :: "GateObservation list \<Rightarrow> string \<rightharpoonup> rat" where
  "success_rates obs =
     (let window = drop (length obs - WEIGHT_WINDOW) obs in
      (\<lambda>a. let seen = filter (\<lambda>ob. obs_agent ob = a) window in
            if seen = [] then None
            else Some ((of_nat (length (filter obs_ok seen)) + 1) / (of_nat (length seen) + 2))))"

definition weight_of :: "(string \<rightharpoonup> rat) \<Rightarrow> json \<Rightarrow> rat" where
  "weight_of ws v =
     (case Option.bind (json_get_str v ''agent'') ws of Some w \<Rightarrow> w | None \<Rightarrow> 1 / 2)"

text \<open>A stable sort by descending weight; an empty weight map changes nothing.\<close>

definition order_values_by_weight :: "(string \<rightharpoonup> rat) \<Rightarrow> json list \<Rightarrow> json list" where
  "order_values_by_weight ws rs = sort_key (\<lambda>v. - weight_of ws v) rs"

subsection \<open>The tool\<close>

definition rejected_slot :: "nat \<Rightarrow> DelegateRequest \<Rightarrow> string \<Rightarrow> json" where
  "rejected_slot i req error =
     JObject [(''agent'', JString (req_agent req)), (''task_index'', JNumber (int i)), (''error'', JString error)]"

fun json_insert :: "string \<Rightarrow> json \<Rightarrow> json \<Rightarrow> json" where
  "json_insert k v (JObject ms) =
     JObject (if k \<in> set (map fst ms) then map (\<lambda>m. if fst m = k then (k, v) else m) ms else ms @ [(k, v)])"
| "json_insert k v j = j"

text \<open>
  \<open>slots[i]\<close> is the result of task \<open>i\<close>: the error of its gate or the outcome of its sub-turn,
  which runs with the others of its chunk; \<open>run\<close> is the sub-turn of a task. A chunk width of
  zero makes \<open>chunks\<close> panic, which is \<open>None\<close>.
\<close>

definition gate_slot :: "DelegateTool \<Rightarrow> string \<Rightarrow> nat \<Rightarrow> nat \<Rightarrow> nat \<Rightarrow> ParsedDelegate \<Rightarrow> json option" where
  "gate_slot tool parent depth width i t =
     (case validate_task tool parent depth (pd_request t) of
        Some error \<Rightarrow> Some (rejected_slot i (pd_request t) error)
      | None \<Rightarrow>
          if \<not> bounded (evaluate_gates (pd_request t) width) then
            Some (rejected_slot i (pd_request t)
              ''unbounded delegation rejected: prompt exceeds the bounded-task limit'')
          else None)"

fun chunks :: "nat \<Rightarrow> 'a list \<Rightarrow> 'a list list" where
  "chunks n [] = []"
| "chunks n (x # xs) = (if n = 0 then [] else (x # take (n - 1) xs) # chunks n (drop (n - 1) xs))"

fun run_chunks :: "(nat \<Rightarrow> json) \<Rightarrow> nat list list \<Rightarrow> json option list \<Rightarrow> json option list" where
  "run_chunks run [] slots = slots"
| "run_chunks run (c # cs) slots =
     run_chunks run cs (foldl (\<lambda>sl i. sl[i := Some (run i)]) slots c)"

definition delegate_invoke ::
  "DelegateTool \<Rightarrow> (nat \<Rightarrow> ParsedDelegate \<Rightarrow> json) \<Rightarrow> nat \<Rightarrow> string \<Rightarrow> json \<Rightarrow> json option" where
  "delegate_invoke tool run depth parent args =
     (case parse_requests args of
        Err e \<Rightarrow> Some (JObject [(''error'', JString e)])
      | Ok tasks \<Rightarrow>
          let slots = map (\<lambda>(i, t). gate_slot tool parent depth (length tasks) i t) (enumerate 0 tasks);
              runnable = filter (\<lambda>i. slots ! i = None) [0..<length tasks]
          in if delegate_concurrent tool = 0 then None
             else
               let filled = run_chunks (\<lambda>i. run i (tasks ! i)) (chunks (delegate_concurrent tool) runnable) slots;
                   results = map (\<lambda>(i, sl). json_insert ''task_index'' (JNumber (int i))
                                 (case sl of Some v \<Rightarrow> v
                                  | None \<Rightarrow> JObject [(''error'', JString ''delegation produced no result'')]))
                               (enumerate 0 filled)
               in if length tasks = 1 then
                    Some (case results of r # _ \<Rightarrow> r
                          | [] \<Rightarrow> JObject [(''error'', JString ''delegation produced no result'')])
                  else Some (JObject [(''results'', JArray (order_values_by_weight (weights tool) results))]))"

subsection \<open>Delegation chains are short\<close>

text \<open>Every agent of the table has a profile, and spawning goes strictly down the hierarchy.\<close>

fun rank :: "Role \<Rightarrow> nat" where
  "rank Orchestrator = 2"
| "rank Planner = 1"
| "rank Specialist = 0"
| "rank Worker = 0"

lemma role_may_spawn_rank: "role_may_spawn p c \<Longrightarrow> rank c < rank p"
  by (cases p; cases c) (auto simp: role_may_spawn_def)

lemma rank_le: "rank r \<le> 2"
  by (cases r) auto

lemma validate_task_None:
  "validate_task tool parent depth t = None \<longleftrightarrow>
     is_builtin_agent (req_agent t) \<and> spawn_allowed parent (req_agent t) = Ok ()
     \<and> depth + 1 \<le> max_depth tool \<and> length (req_prompt t) \<le> BOUNDED_PROMPT_CHARS
     \<and> (\<forall>path. req_artifact t = Some path \<longrightarrow> is_ok (artifact_check tool (req_agent t) path))"
  by (auto simp: validate_task_def not_less split: result.splits option.splits)

lemma spawn_allowed_Ok:
  "spawn_allowed parent child = Ok () \<longleftrightarrow>
     (\<exists>p c. role_of parent = Ok p \<and> role_of child = Ok c \<and> role_may_spawn p c)"
  by (auto simp: spawn_allowed_def split: if_splits)

text \<open>A chain of nested delegations, each admitted by the gates at its depth.\<close>

fun delegation_chain :: "DelegateTool \<Rightarrow> string \<Rightarrow> nat \<Rightarrow> DelegateRequest list \<Rightarrow> bool" where
  "delegation_chain tool parent depth [] \<longleftrightarrow> True"
| "delegation_chain tool parent depth (r # rs) \<longleftrightarrow>
     validate_task tool parent depth r = None \<and> delegation_chain tool (req_agent r) (Suc depth) rs"

lemma chain_rank:
  "delegation_chain tool parent depth rs \<Longrightarrow> role_of parent = Ok p \<Longrightarrow> length rs \<le> rank p"
proof (induction rs arbitrary: parent depth p)
  case (Cons r rs)
  then have "validate_task tool parent depth r = None" by simp
  with Cons.prems(2) obtain c where "role_of (req_agent r) = Ok c" "role_may_spawn p c"
    by (auto simp: validate_task_None spawn_allowed_Ok)
  moreover with Cons.IH [of "req_agent r" "Suc depth" c] Cons.prems(1) have "length rs \<le> rank c" by simp
  ultimately show ?case using role_may_spawn_rank by fastforce
qed simp

lemma chain_depth: "delegation_chain tool parent depth rs \<Longrightarrow> length rs \<le> max_depth tool - depth"
  by (induction rs arbitrary: parent depth) (force simp: validate_task_None)+

text \<open>
  Delegation cannot run away: a chain of nested delegations that starts at the
  orchestrator and passes the gates at every hop has at most two hops and no more than the
  depth cap, and none of its agents may be the orchestrator again.
\<close>

theorem delegation_chain_bounded:
  assumes "delegation_chain tool DELEGATE_ROOT_PARENT 0 rs"
  shows "length rs \<le> min 2 (max_depth tool) \<and> DELEGATE_ROOT_PARENT \<notin> req_agent ` set rs"
proof -
  have root: "role_of DELEGATE_ROOT_PARENT = Ok Orchestrator"
    by (simp add: role_of_def builtin_agents_def DELEGATE_ROOT_PARENT_def)
  have "req_agent r \<noteq> DELEGATE_ROOT_PARENT" if "delegation_chain tool parent depth rs'" "r \<in> set rs'" for r parent depth rs'
    using that
  proof (induction rs' arbitrary: parent depth)
    case (Cons x xs)
    then have "validate_task tool parent depth x = None" by simp
    then obtain p c where "role_of (req_agent x) = Ok c" "role_may_spawn p c"
      by (auto simp: validate_task_None spawn_allowed_Ok)
    then have "c \<noteq> Orchestrator" by (cases p) (auto simp: role_may_spawn_def)
    with root \<open>role_of (req_agent x) = Ok c\<close> have "req_agent x \<noteq> DELEGATE_ROOT_PARENT" by auto
    with Cons show ?case by auto
  qed simp
  from this [OF assms] have "DELEGATE_ROOT_PARENT \<notin> req_agent ` set rs" by (metis image_iff)
  with chain_rank [OF assms root] chain_depth [OF assms] show ?thesis by simp
qed

definition demo_request :: "string \<Rightarrow> DelegateRequest" where
  "demo_request a = \<lparr>req_agent = a, req_prompt = ''p'', req_description = None, req_independent = True,
                     req_artifact = None\<rparr>"

definition demo_tool :: DelegateTool where
  "demo_tool = \<lparr>max_depth = 3, delegate_concurrent = 4, artifact_check = (\<lambda>_ _. Ok ()), weights = Map.empty\<rparr>"

theorem delegation_chain_bounded_witness:
  "length [demo_request ''Metis'', demo_request ''Explore''] \<le> min 2 (max_depth demo_tool)"
proof -
  have "delegation_chain demo_tool DELEGATE_ROOT_PARENT 0 [demo_request ''Metis'', demo_request ''Explore'']"
    by (simp add: validate_task_def demo_request_def demo_tool_def is_builtin_agent_def BUILTIN_AGENT_NAMES_def
        spawn_allowed_def role_of_def builtin_agents_def role_may_spawn_def DELEGATE_ROOT_PARENT_def
        BOUNDED_PROMPT_CHARS_def)
  from delegation_chain_bounded [OF this] show ?thesis by simp
qed

subsection \<open>A sub-turn ends with an answer or an error\<close>

lemma sub_loop_rounds: "sub_loop env n k fb resp = SubDone x k' b \<Longrightarrow> k \<le> k' \<and> k' \<le> k + n"
proof (induction n arbitrary: k fb resp)
  case (Suc n)
  from Suc.prems show ?case
    by (auto split: if_splits option.splits prod.splits dest!: Suc.IH)
qed simp

lemma honesty_None: "sub_response_honesty_error pj nrm a art clean r = None \<Longrightarrow> art = None \<Longrightarrow> trim clean \<noteq> []"
  by (auto simp: sub_response_honesty_error_def split: if_splits)

definition answer_or_error :: "DelegateRequest \<Rightarrow> (string \<times> json) list \<Rightarrow> bool" where
  "answer_or_error req ms \<longleftrightarrow>
     (\<exists>e. ms = [(''error'', JString e)])
     \<or> (map_of ms ''error'' = None
        \<and> (\<exists>resp k. map_of ms ''response'' = Some (JString resp) \<and> map_of ms ''rounds'' = Some (JNumber (int k))
            \<and> k \<le> MAX_DELEGATE_ROUNDS \<and> (req_artifact req = None \<longrightarrow> trim resp \<noteq> [])))"

lemma map_of_opt_members [simp]:
  "k \<noteq> k' \<Longrightarrow> map_of (case x of None \<Rightarrow> [] | Some v \<Rightarrow> [(k', f v)]) k = None"
  "k \<noteq> k1 \<Longrightarrow> k \<noteq> k2 \<Longrightarrow> map_of (case x of None \<Rightarrow> [] | Some v \<Rightarrow> [(k1, f v), (k2, g v)]) k = None"
  by (cases x; simp)+

lemma sub_result_shape:
  assumes "k \<le> MAX_DELEGATE_ROUNDS"
  shows "answer_or_error req (sub_result env req resp k)"
proof -
  obtain clean rs vs where sp: "split_report_markers resp = (clean, rs, vs)" by (metis prod_cases3)
  show ?thesis
  proof (cases "sub_response_honesty_error (env_parser env) (env_normalizer env) (req_agent req) (req_artifact req) clean k")
    case (Some e)
    then show ?thesis by (simp add: sub_result_def sp answer_or_error_def)
  next
    case None
    have "map_of (sub_result env req resp k) ''error'' = None"
      "map_of (sub_result env req resp k) ''response'' = Some (JString clean)"
      "map_of (sub_result env req resp k) ''rounds'' = Some (JNumber (int k))"
      by (simp_all add: sub_result_def sp None map_add_def split: option.split)
    with None assms honesty_None show ?thesis unfolding answer_or_error_def by blast
  qed
qed

text \<open>
  A delegated sub-turn makes at most four model calls and returns an object with an error
  and nothing else, or one without error whose answer is not blank (unless the deliverable is an
  artifact). So the presence of \<open>error\<close> tells success from failure, which the plan executor and
  the weights rely on.
\<close>

theorem sub_turn_answer_or_error:
  "\<exists>ms. run_single_composed env inherited_chars req contract = JObject ms \<and> answer_or_error req ms"
proof -
  let ?tok = "length (compose_sub_prompt req contract) div 4 + 1024 + inherited_chars div 4"
  have err: "answer_or_error req [(''error'', JString e)]" for e
    unfolding answer_or_error_def by blast
  have ok: "answer_or_error req (sub_result env req r k)"
    if "sub_loop env MAX_DELEGATE_ROUNDS 0 [] [] = SubDone x k b" for r x k b
    using sub_loop_rounds [OF that] by (intro sub_result_shape) simp
  show ?thesis
    unfolding run_single_composed_def Let_def
    by (auto intro: err ok split: result.splits bool.splits sub_turn.splits)
qed

subsection \<open>A batch answers every task once\<close>

lemma concat_chunks: "0 < n \<Longrightarrow> concat (chunks n xs) = xs"
  by (induction n xs rule: chunks.induct) auto

lemma run_chunks_concat: "run_chunks run cs slots = foldl (\<lambda>sl i. sl[i := Some (run i)]) slots (concat cs)"
  by (induction cs arbitrary: slots) auto

lemma foldl_update_nth:
  "i < length slots \<Longrightarrow>
   foldl (\<lambda>sl i. sl[i := Some (run i)]) slots is ! i = (if i \<in> set is then Some (run i) else slots ! i)"
proof (induction "is" arbitrary: slots)
  case (Cons j js)
  from Cons.IH [of "slots[j := Some (run j)]"] Cons.prems show ?case by auto
qed simp

lemma foldl_update_length [simp]: "length (foldl (\<lambda>sl i. sl[i := Some (run i)]) slots is) = length slots"
  by (induction "is" arbitrary: slots) auto

lemma run_chunks_fill:
  assumes "0 < n"
  shows "run_chunks run (chunks n (filter (\<lambda>i. slots ! i = None) [0..<length slots])) slots
         = map (\<lambda>i. Some (case slots ! i of Some v \<Rightarrow> v | None \<Rightarrow> run i)) [0..<length slots]"
  by (rule nth_equalityI)
     (auto simp: run_chunks_concat concat_chunks [OF assms] foldl_update_nth split: option.split)

text \<open>What task \<open>i\<close> of a batch is answered with.\<close>

definition batch_answer ::
  "DelegateTool \<Rightarrow> (nat \<Rightarrow> ParsedDelegate \<Rightarrow> json) \<Rightarrow> nat \<Rightarrow> string \<Rightarrow> ParsedDelegate list \<Rightarrow> nat \<Rightarrow> json" where
  "batch_answer tool run depth parent tasks i =
     json_insert ''task_index'' (JNumber (int i))
       (case gate_slot tool parent depth (length tasks) i (tasks ! i) of Some v \<Rightarrow> v | None \<Rightarrow> run i (tasks ! i))"

text \<open>
  A parsed batch of several tasks is answered with one result per task, whatever the
  chunk width: the error of its gate or the outcome of its own sub-turn, tagged with its index.
  The weights only reorder: the results are sorted by descending weight, equal weights keep
  the order of the tasks.
\<close>

theorem delegate_batch_answers:
  assumes "parse_requests args = Ok tasks" "length tasks \<noteq> 1" "0 < delegate_concurrent tool"
  shows "\<exists>rs. delegate_invoke tool run depth parent args = Some (JObject [(''results'', JArray rs)])
    \<and> mset rs = mset (map (batch_answer tool run depth parent tasks) [0..<length tasks])
    \<and> sorted (map (\<lambda>v. - weight_of (weights tool) v) rs)
    \<and> (\<forall>w. filter (\<lambda>v. weight_of (weights tool) v = w) rs
           = filter (\<lambda>v. weight_of (weights tool) v = w) (map (batch_answer tool run depth parent tasks) [0..<length tasks]))"
proof -
  let ?slots = "map (\<lambda>(i, t). gate_slot tool parent depth (length tasks) i t) (enumerate 0 tasks)"
  let ?answers = "map (batch_answer tool run depth parent tasks) [0..<length tasks]"
  let ?run = "\<lambda>i. run i (tasks ! i)"
  have slot: "?slots ! i = gate_slot tool parent depth (length tasks) i (tasks ! i)" if "i < length tasks" for i
    using that by (simp add: nth_enumerate_eq)
  have filled: "run_chunks ?run (chunks (delegate_concurrent tool) (filter (\<lambda>i. ?slots ! i = None) [0..<length tasks])) ?slots
    = map (\<lambda>i. Some (case ?slots ! i of Some v \<Rightarrow> v | None \<Rightarrow> ?run i)) [0..<length tasks]" (is "?filled = _")
    using run_chunks_fill [OF assms(3), of ?run ?slots] by simp
  have results: "map (\<lambda>(i, sl). json_insert ''task_index'' (JNumber (int i))
      (case sl of Some v \<Rightarrow> v | None \<Rightarrow> JObject [(''error'', JString ''delegation produced no result'')])) (enumerate 0 ?filled)
    = ?answers"
    unfolding filled by (rule nth_equalityI) (auto simp: nth_enumerate_eq batch_answer_def cong: option.case_cong)
  have inv: "delegate_invoke tool run depth parent args
    = Some (JObject [(''results'', JArray (order_values_by_weight (weights tool) ?answers))])"
    using assms unfolding delegate_invoke_def by (simp only: result.case Let_def results) simp
  have "filter (\<lambda>v. weight_of (weights tool) v = w) (order_values_by_weight (weights tool) ?answers)
        = filter (\<lambda>v. weight_of (weights tool) v = w) ?answers" for w
    using sort_key_stable [of "\<lambda>v. - weight_of (weights tool) v" "- w" ?answers]
    by (simp add: order_values_by_weight_def)
  then show ?thesis unfolding inv
    by (intro exI [of _ "order_values_by_weight (weights tool) ?answers"]) (simp add: order_values_by_weight_def)
qed

definition demo_batch :: json where
  "demo_batch = JObject [(''tasks'', JArray
     [JObject [(''agent'', JString ''Explore''), (''prompt'', JString ''a'')],
      JObject [(''agent'', JString ''nobody''), (''prompt'', JString ''b'')]])]"

definition demo_parsed :: "ParsedDelegate list" where
  "demo_parsed =
     map (\<lambda>(a, p). \<lparr>pd_request = \<lparr>req_agent = a, req_prompt = p, req_description = None, req_independent = True,
                                    req_artifact = None\<rparr>,
                       pd_contract = \<lparr>output_format = None, task_boundaries = None\<rparr>\<rparr>)
       [(''Explore'', ''a''), (''nobody'', ''b'')]"

theorem delegate_batch_answers_witness:
  "\<exists>rs. delegate_invoke demo_tool (\<lambda>_ _. JObject []) 0 ''Sisyphus'' demo_batch = Some (JObject [(''results'', JArray rs)])
    \<and> mset rs = mset (map (batch_answer demo_tool (\<lambda>_ _. JObject []) 0 ''Sisyphus'' demo_parsed) [0..<length demo_parsed])"
proof -
  have "parse_requests demo_batch = Ok demo_parsed"
    by (simp add: parse_requests_def demo_batch_def demo_parsed_def json_get_array_def json_get_str_def
        FANOUT_MAX_TASKS_def parse_task_item_def parse_fields_def optional_nonempty_string_def)
  from delegate_batch_answers [OF this, of demo_tool "\<lambda>_ _. JObject []" 0 "''Sisyphus''"] show ?thesis
    by (auto simp: demo_parsed_def demo_tool_def)
qed

subsection \<open>Smoothed weights\<close>

text \<open>Without weights the order of the batch is untouched; a smoothed rate is never 0 or 1.\<close>

lemma order_empty_weights: "order_values_by_weight Map.empty rs = rs"
  by (simp add: order_values_by_weight_def weight_of_def sort_key_const split: option.split)

lemma success_rate_bounds: "success_rates obs a = Some w \<Longrightarrow> 0 < w \<and> w < 1"
proof -
  assume w: "success_rates obs a = Some w"
  define seen where "seen = filter (\<lambda>ob. obs_agent ob = a) (drop (length obs - WEIGHT_WINDOW) obs)"
  from w have "w = (of_nat (length (filter obs_ok seen)) + 1) / (of_nat (length seen) + 2)"
    by (auto simp: success_rates_def Let_def seen_def split: if_splits)
  moreover have "(of_nat (length (filter obs_ok seen)) :: rat) \<le> of_nat (length seen)"
    by (simp only: of_nat_le_iff) simp
  then have "(of_nat (length (filter obs_ok seen)) :: rat) < 1 + of_nat (length seen)" by linarith
  ultimately show ?thesis by (simp add: divide_less_eq)
qed

subsection \<open>The round cap and the honesty check\<close>

definition lone_tool_call :: string where
  "lone_tool_call = fence_json @ ''{'' @ quoted ''tool'' @ '':'' @ quoted ''fs.read'' @ '','' @ quoted ''args'' @ '':{}}'' @ fence"

lemma capped_split:
  "split_report_markers (lone_tool_call @ round_cap_note) = (lone_tool_call @ round_cap_note, None, None)"
  by code_simp

lemma capped_strip: "trim (strip_fenced_tool_blocks (lone_tool_call @ round_cap_note)) \<noteq> []"
  "trim (lone_tool_call @ round_cap_note) \<noteq> []" "trim lone_tool_call \<noteq> []"
  "trim (strip_fenced_tool_blocks lone_tool_call) = []"
  by code_simp+

lemma sub_loop_only_calls:
  assumes "\<And>k. \<not> deadline_hit env k" "\<And>k fb. llm_round env k fb = Some r"
    "fst (parse_tool_invocations_verbose (env_parser env) (env_normalizer env) r) \<noteq> []"
  shows "sub_loop env (Suc n) k fb resp = SubDone r (k + Suc n) False"
  using assms
proof (induction n arbitrary: k fb resp)
  case 0
  then show ?case by (simp split: prod.split)
next
  case (Suc n)
  obtain calls errs where "parse_tool_invocations_verbose (env_parser env) (env_normalizer env) r = (calls, errs)"
    by force
  with Suc.prems Suc.IH [OF Suc.prems] show ?case
    by (simp add: sub_loop.simps(2) [of env "Suc n" k fb resp] del: sub_loop.simps)
qed

text \<open>
  The honesty check does not see the last answer at the round cap: a sub-agent that only
  ever emits a tool call is stopped after four rounds, the cap note is appended to its answer,
  and the result is reported as a success whose response is the unexecuted call, although the
  check rejects that answer without the note.
\<close>

theorem round_cap_delivers_tool_json:
  assumes "\<forall>k. \<not> deadline_hit env k" "\<forall>k fb. llm_round env k fb = Some lone_tool_call"
    "fst (parse_tool_invocations_verbose (env_parser env) (env_normalizer env) lone_tool_call) \<noteq> []"
    "agent_builds env" "\<forall>n. reserve_tokens env n = Ok True" "req_artifact req = None"
    "map_of builtin_agents (req_agent req) \<noteq> None"
  shows "sub_response_honesty_error (env_parser env) (env_normalizer env) (req_agent req) None lone_tool_call 4 \<noteq> None
    \<and> (\<exists>ms. run_single_composed env inherited_chars req contract = JObject ms \<and> map_of ms ''error'' = None
         \<and> map_of ms ''response'' = Some (JString (lone_tool_call @ round_cap_note)))"
proof
  show "sub_response_honesty_error (env_parser env) (env_normalizer env) (req_agent req) None lone_tool_call 4 \<noteq> None"
    using assms(3) capped_strip by (simp add: sub_response_honesty_error_def)
  have "sub_loop env (Suc 3) 0 [] [] = SubDone lone_tool_call (0 + Suc 3) False"
    by (rule sub_loop_only_calls) (use assms in auto)
  then have loop: "sub_loop env MAX_DELEGATE_ROUNDS 0 [] [] = SubDone lone_tool_call 4 False"
    by (simp add: MAX_DELEGATE_ROUNDS_def)
  have "sub_response_honesty_error (env_parser env) (env_normalizer env) (req_agent req) (req_artifact req)
          (lone_tool_call @ round_cap_note) 4 = None"
    using capped_strip by (simp add: sub_response_honesty_error_def)
  then have "map_of (sub_result env req (lone_tool_call @ round_cap_note) 4) ''error'' = None"
    "map_of (sub_result env req (lone_tool_call @ round_cap_note) 4) ''response''
       = Some (JString (lone_tool_call @ round_cap_note))"
    by (simp_all add: sub_result_def capped_split map_add_def assms(6) split: option.split)
  with loop assms(4,5,7) show "\<exists>ms. run_single_composed env inherited_chars req contract = JObject ms
      \<and> map_of ms ''error'' = None \<and> map_of ms ''response'' = Some (JString (lone_tool_call @ round_cap_note))"
    by (auto simp: run_single_composed_def Let_def MAX_DELEGATE_ROUNDS_def)
qed

definition demo_turn :: "string SubTurnEnv" where
  "demo_turn =
     \<lparr>deadline_hit = (\<lambda>_. False), llm_round = (\<lambda>_ _. Some lone_tool_call), dispatch_tools = (\<lambda>_ _. Ok []),
      env_parser = (\<lambda>_. Ok (JObject [(''tool'', JString ''fs.read''), (''args'', JObject [])])),
      env_normalizer = (\<lambda>n _. Ok n), env_show = (\<lambda>_. []), agent_builds = True,
      reserve_tokens = (\<lambda>_. Ok True), elapsed_ms = 0\<rparr>"

theorem round_cap_delivers_tool_json_witness:
  "\<exists>ms. run_single_composed demo_turn 0 (demo_request ''Explore'') \<lparr>output_format = None, task_boundaries = None\<rparr> = JObject ms
     \<and> map_of ms ''error'' = None"
proof -
  have "fst (parse_tool_invocations_verbose (env_parser demo_turn) (env_normalizer demo_turn) lone_tool_call) = [''fs.read'']"
    by code_simp
  then show ?thesis
    using round_cap_delivers_tool_json [of demo_turn "demo_request ''Explore''" 0
        "\<lparr>output_format = None, task_boundaries = None\<rparr>"]
    by (auto simp: demo_turn_def demo_request_def builtin_agents_def)
qed

end
