(* ===== verification/Review_Rubrics.thy ===== *)
theory Review_Rubrics
  imports Rust_Prelude "HOL-Library.Word" "HOL-Library.Multiset"
begin

section \<open>The reviewers (zen-core/src/review, zen-agents/src/review/momus.rs)\<close>

text \<open>
  The four heuristic reviewers of the quality pipeline: Metis (advice on plans), Momus (the plan
  gate, with its seeded rubric order), Hermes (the deliverable check) and Zeus (escalation).
  A task is its identifier, input and metadata, the parts the reviewers read. The optimization score of
  Metis is kept exactly, as the penalty in hundredths, and not as the floating-point sum.
\<close>

unbundle bit_operations_syntax

subsection \<open>Sensitivity and tasks (zen-core/src/types.rs)\<close>

datatype Sensitivity = Public | Private | Confidential

fun sensitivity_rank :: "Sensitivity \<Rightarrow> nat" where
  "sensitivity_rank Public = 0"
| "sensitivity_rank Private = 1"
| "sensitivity_rank Confidential = 2"

lemma sensitivity_rank_inject [simp]: "sensitivity_rank a = sensitivity_rank b \<longleftrightarrow> a = b"
  by (cases a; cases b) auto

text \<open>The derived order: by position of the variant.\<close>

instantiation Sensitivity :: linorder
begin

definition less_eq_Sensitivity :: "Sensitivity \<Rightarrow> Sensitivity \<Rightarrow> bool" where
  "a \<le> b \<longleftrightarrow> sensitivity_rank a \<le> sensitivity_rank b"

definition less_Sensitivity :: "Sensitivity \<Rightarrow> Sensitivity \<Rightarrow> bool" where
  "a < b \<longleftrightarrow> sensitivity_rank a < sensitivity_rank b"

instance
  by standard (auto simp: less_eq_Sensitivity_def less_Sensitivity_def)

end

fun sensitivity_str :: "Sensitivity \<Rightarrow> string" where
  "sensitivity_str Public = ''Public''"
| "sensitivity_str Private = ''Private''"
| "sensitivity_str Confidential = ''Confidential''"

definition sensitivity_max :: "Sensitivity \<Rightarrow> Sensitivity \<Rightarrow> Sensitivity" where
  "sensitivity_max a b = (if b \<le> a then a else b)"

definition sensitivity_max_of :: "Sensitivity list \<Rightarrow> Sensitivity" where
  "sensitivity_max_of xs = (case xs of [] \<Rightarrow> Public | y # ys \<Rightarrow> foldl sensitivity_max y ys)"

lemma sensitivity_max_max: "sensitivity_max a b = max a b"
  using linear [of a b] by (auto simp: sensitivity_max_def max_def)

record ReviewTask =
  task_uid :: nat
  user_input :: string
  metadata :: "string \<rightharpoonup> string"

subsection \<open>Zeus (zeus.rs)\<close>

record ReviewContext =
  ctx_sensitivity :: Sensitivity
  token_budget :: nat
  hermes_rejections :: nat

definition parse_sensitivity :: "string option \<Rightarrow> Sensitivity" where
  "parse_sensitivity s =
     (if s = Some ''Confidential'' then Confidential else if s = Some ''Private'' then Private else Public)"

definition from_task :: "ReviewTask \<Rightarrow> ReviewContext" where
  "from_task t =
     \<lparr>ctx_sensitivity = Public, token_budget = length (user_input t) * 4, hermes_rejections = 0\<rparr>"

definition from_task_with_metadata :: "ReviewTask \<Rightarrow> nat \<Rightarrow> ReviewContext" where
  "from_task_with_metadata t rejections =
     \<lparr>ctx_sensitivity = parse_sensitivity (metadata t ''sensitivity''),
      token_budget = length (user_input t) * 4, hermes_rejections = rejections\<rparr>"

datatype ZeusFindingType = ValueMisalignment | GoalConformanceFailure | UnrecoverableConflict

record ZeusFinding =
  zeus_type :: ZeusFindingType
  zeus_description :: string
  requires_escalation :: bool

record ZeusReview =
  zeus_findings :: "ZeusFinding list"
  zeus_approved :: bool
  escalated :: bool
  zeus_reason :: string
  zeus_shield :: "string option"

definition should_escalate :: "Sensitivity \<Rightarrow> nat \<Rightarrow> nat \<Rightarrow> bool" where
  "should_escalate s rejections budget \<longleftrightarrow> s = Confidential \<or> 2 \<le> rejections \<or> 100000 < budget"

definition generate_athena_shield :: "ReviewContext \<Rightarrow> string" where
  "generate_athena_shield ctx =
     str_join [CHR 10]
       ([''# Athena Shield '' @ em_dash @ '' Human Handoff Guide'', [],
         ''## Escalation Context'',
         ''- Sensitivity: '' @ sensitivity_str (ctx_sensitivity ctx),
         ''- Token budget: '' @ nat_str (token_budget ctx),
         ''- Hermes rejections: '' @ nat_str (hermes_rejections ctx), [], ''## Failed Attempts'']
        @ (if 2 \<le> hermes_rejections ctx
           then [''- Hermes rejected '' @ nat_str (hermes_rejections ctx) @ '' times '' @ em_dash
                 @ '' possible deadlock''] else [])
        @ (if 100000 < token_budget ctx
           then [''- Token budget '' @ nat_str (token_budget ctx) @ '' exceeded 100K threshold''] else [])
        @ (if ctx_sensitivity ctx = Confidential
           then [''- Confidential sensitivity requires human review''] else [])
        @ [[], ''## Recommended Actions'', ''- Review task requirements'', ''- Consult domain expert'',
           ''- Consider alternative approach''])"

definition zeus_findings_of :: "ReviewContext \<Rightarrow> ZeusFinding list" where
  "zeus_findings_of ctx =
     (if 2 \<le> hermes_rejections ctx
      then [\<lparr>zeus_type = UnrecoverableConflict,
             zeus_description = ''Hermes rejected '' @ nat_str (hermes_rejections ctx) @ '' times ''
               @ em_dash @ '' deadlock indicator'', requires_escalation = True\<rparr>] else [])
     @ (if 100000 < token_budget ctx
        then [\<lparr>zeus_type = GoalConformanceFailure,
               zeus_description = ''Token budget '' @ nat_str (token_budget ctx) @ '' exceeds 100K threshold'',
               requires_escalation = False\<rparr>] else [])
     @ (if ctx_sensitivity ctx = Confidential
        then [\<lparr>zeus_type = ValueMisalignment,
               zeus_description = ''Confidential sensitivity requires Zeus escalation'',
               requires_escalation = True\<rparr>] else [])"

definition final_review :: "ReviewContext \<Rightarrow> ZeusReview" where
  "final_review ctx =
     (let deadlock = 2 \<le> hermes_rejections ctx;
          budget = 100000 < token_budget ctx;
          confidential = ctx_sensitivity ctx = Confidential
      in if \<not> (confidential \<or> budget \<or> deadlock) then
           \<lparr>zeus_findings = [], zeus_approved = True, escalated = False,
            zeus_reason = ''Low-risk task '' @ em_dash @ '' auto-approved'', zeus_shield = None\<rparr>
         else
           \<lparr>zeus_findings = zeus_findings_of ctx, zeus_approved = \<not> deadlock, escalated = True,
            zeus_reason =
              (if deadlock then ''Deadlock detected '' @ em_dash @ '' escalated to Zeus''
               else if confidential \<and> budget then ''High-risk review passed (confidential + budget)''
               else if confidential then ''High-risk review passed (confidential sensitivity)''
               else ''High-risk review passed (budget threshold)''),
            zeus_shield = (if deadlock then Some (generate_athena_shield ctx) else None)\<rparr>)"

subsection \<open>Hermes (hermes.rs)\<close>

datatype HermesFindingType = FactCheckFailure | FormatNonCompliance | ToneMismatch | DeliveryReadinessIssue

record HermesFinding =
  hermes_type :: HermesFindingType
  hermes_description :: string
  requires_revision :: bool

record HermesValidation =
  hermes_findings :: "HermesFinding list"
  delivery_ok :: bool
  revision_count :: nat

definition fact_check :: "string \<Rightarrow> string \<Rightarrow> HermesFinding list" where
  "fact_check deliverable blueprint =
     (if trim deliverable = [] then []
      else
        let significant =
              filter (\<lambda>w. 4 < length w \<and> w \<notin> set [''this'', ''that'', ''which'', ''there'', ''their''])
                (split_whitespace blueprint);
            lower = to_lowercase deliverable
        in map (\<lambda>w. \<lparr>hermes_type = FactCheckFailure,
                     hermes_description = ''Blueprint key term '' @ [CHR 39] @ w @ [CHR 39]
                       @ '' not found in deliverable'', requires_revision = True\<rparr>)
             (filter (\<lambda>w. \<not> str_contains lower (to_lowercase w)) significant))"

definition structural_line :: "string \<Rightarrow> bool" where
  "structural_line l =
     (let t = trim l
      in starts_with t ''#'' \<or> starts_with t ''-'' \<or> starts_with t ''*''
         \<or> (case t of [] \<Rightarrow> False | c # _ \<Rightarrow> is_digit c))"

definition check_format_compliance :: "string \<Rightarrow> HermesFinding list" where
  "check_format_compliance deliverable =
     (if trim deliverable = [] then []
      else
        let lines = str_lines deliverable
        in (if 10 < length lines \<and> \<not> list_ex structural_line lines
            then [\<lparr>hermes_type = FormatNonCompliance,
                   hermes_description = ''Long deliverable lacks structural elements (headings, lists, numbered steps)'',
                   requires_revision = True\<rparr>] else [])
           @ (if length (filter (\<lambda>b. b = CHR 96) deliverable) mod 2 \<noteq> 0
              then [\<lparr>hermes_type = FormatNonCompliance,
                     hermes_description = ''Unmatched backtick characters detected in formatting'',
                     requires_revision = False\<rparr>] else []))"

definition validate_deliverable :: "ReviewTask \<Rightarrow> string \<Rightarrow> HermesValidation" where
  "validate_deliverable t deliverable =
     (let findings = fact_check deliverable (user_input t) @ check_format_compliance deliverable
      in \<lparr>hermes_findings = findings, delivery_ok = (findings = []),
          revision_count =
            (case metadata t ''revision_count'' of
               Some s \<Rightarrow> (case parse_uint 256 s of Some n \<Rightarrow> n | None \<Rightarrow> 0)
             | None \<Rightarrow> 0)\<rparr>)"

definition can_push :: "HermesValidation \<Rightarrow> bool" where
  "can_push v \<longleftrightarrow> delivery_ok v \<and> hermes_findings v = []"

subsection \<open>Metis (metis.rs)\<close>

datatype MetisFindingType = LogicGap | MissingAssumption | TacticalFeasibility | PathOptimization

datatype FindingSeverity = Low | Medium | High

record MetisFinding =
  metis_type :: MetisFindingType
  metis_description :: string
  severity :: FindingSeverity
  suggestion :: string

record MetisReview =
  metis_findings :: "MetisFinding list"
  penalty :: nat

definition sentences_of :: "string \<Rightarrow> string list" where
  "sentences_of plan = filter (\<lambda>s. trim s \<noteq> []) (split_on (\<lambda>c. c = CHR ''.'' \<or> c = CHR 10) plan)"

definition word_count :: "string \<Rightarrow> nat" where
  "word_count plan = length (split_whitespace plan)"

definition mentions :: "string \<Rightarrow> string list \<Rightarrow> bool" where
  "mentions lower ts = list_ex (str_contains lower) ts"

definition metis_finding :: "MetisFindingType \<Rightarrow> string \<Rightarrow> FindingSeverity \<Rightarrow> string \<Rightarrow> MetisFinding" where
  "metis_finding k d s g = \<lparr>metis_type = k, metis_description = d, severity = s, suggestion = g\<rparr>"

text \<open>The findings on one sentence; \<open>prev\<close> is the sentence before it, if any.\<close>

definition sentence_gaps :: "nat \<Rightarrow> string option \<Rightarrow> string \<Rightarrow> MetisFinding list" where
  "sentence_gaps i prev sentence =
     (let lower = to_lowercase sentence
      in (if str_contains lower ''then'' \<and> (case prev of Some p \<Rightarrow> CHR ''.'' \<notin> set p | None \<Rightarrow> False)
          then [metis_finding LogicGap
                  (''Unsequenced '' @ [CHR 39] @ ''then'' @ [CHR 39] @ '' at position '' @ nat_str i
                   @ '' without preceding step'') Medium ''Ensure each step has a clear predecessor''] else [])
         @ (if str_contains lower ''TODO'' \<or> str_contains lower ''FIXME'' \<or> str_contains lower ''placeholder''
            then [metis_finding LogicGap (''Unresolved marker found: '' @ trim sentence) High
                    ''Replace all TODO/FIXME/placeholder markers with concrete actions''] else []))"

fun logic_gaps_from :: "nat \<Rightarrow> string option \<Rightarrow> string list \<Rightarrow> MetisFinding list" where
  "logic_gaps_from i prev [] = []"
| "logic_gaps_from i prev (s # ss) = sentence_gaps i prev s @ logic_gaps_from (Suc i) (Some s) ss"

definition has_undefined_abbreviation :: "string \<Rightarrow> bool" where
  "has_undefined_abbreviation s \<longleftrightarrow>
     3 \<le> length (filter is_upper s) \<and> \<not> str_contains s ''TODO'' \<and> \<not> str_contains s ''FIXME''"

definition analyze_logic_gaps :: "string \<Rightarrow> MetisFinding list" where
  "analyze_logic_gaps plan =
     (if trim plan = [] then []
      else
        let sentences = sentences_of plan
        in logic_gaps_from 0 None sentences
           @ (if list_ex has_undefined_abbreviation sentences \<and> 3 < length sentences
              then [metis_finding LogicGap ''Possible undefined abbreviations detected in plan'' Low
                      ''Define all abbreviations on first use''] else []))"

definition assumption_indicators :: "(string \<times> string) list" where
  "assumption_indicators =
     [(''assume'', ''Implicit assumption detected '' @ em_dash @ '' make it explicit''),
      (''obviously'', ''Assumed triviality '' @ em_dash @ '' verify the assumption''),
      (''naturally'', ''Assumed naturalness '' @ em_dash @ '' verify the assumption''),
      (''clearly'', ''Assumed clarity '' @ em_dash @ '' verify the assumption''),
      (''everyone knows'', ''Shared-knowledge assumption '' @ em_dash @ '' state it openly'')]"

definition validate_assumptions :: "string \<Rightarrow> MetisFinding list" where
  "validate_assumptions plan =
     (if trim plan = [] then []
      else
        let lower = to_lowercase plan
        in map (\<lambda>(w, s). metis_finding MissingAssumption
                  (''Assumption indicator '' @ [CHR 39] @ w @ [CHR 39] @ '' found in plan'') Medium s)
             (filter (\<lambda>(w, s). str_contains lower w) assumption_indicators)
           @ (if \<not> str_contains lower ''prerequisite'' \<and> \<not> str_contains lower ''requires'' \<and> 20 < word_count plan
              then [metis_finding MissingAssumption ''No prerequisites or requirements section detected'' Low
                      ''Add a prerequisites section for plans longer than 20 words''] else []))"

definition assess_tactical_feasibility :: "string \<Rightarrow> MetisFinding list" where
  "assess_tactical_feasibility plan =
     (if trim plan = [] then []
      else
        let lower = to_lowercase plan;
            actionable = mentions lower [''create'', ''update'', ''delete'', ''remove'', ''add'', ''replace'',
              ''deploy'', ''build'', ''test'', ''verify''];
            vague = mentions lower [''should'', ''might'', ''could'', ''probably'', ''eventually'', ''hopefully''];
            step_count = length (sentences_of plan)
        in (if \<not> actionable \<and> 5 < word_count plan
            then [metis_finding TacticalFeasibility ''Plan lacks concrete actionable verbs'' High
                    ''Replace abstract language with specific actionable steps''] else [])
           @ (if vague
              then [metis_finding TacticalFeasibility ''Plan contains non-committal language'' Medium
                      ''Replace hedging words with definitive action descriptions''] else [])
           @ (if step_count < 3 \<and> 15 < word_count plan
              then [metis_finding TacticalFeasibility
                      (''Plan has only '' @ nat_str step_count @ '' step(s) but '' @ nat_str (word_count plan)
                       @ '' words '' @ em_dash @ '' consider decomposition'') Medium
                      ''Break large plan into smaller, verifiable steps''] else []))"

definition suggest_optimizations :: "string \<Rightarrow> MetisFinding list" where
  "suggest_optimizations plan =
     (if trim plan = [] then []
      else
        (if 200 < word_count plan
         then [metis_finding PathOptimization
                 (''Plan is verbose ('' @ nat_str (word_count plan) @ '' words) '' @ em_dash
                  @ '' consider summarization'') Low
                 ''Condense plan to essential steps; move details to supporting docs''] else [])
        @ (if 3 < match_count (to_lowercase plan) ''and''
           then [metis_finding PathOptimization
                   (''Multiple compound steps detected '' @ em_dash @ '' parallelization may be possible'') Low
                   ''Consider splitting compound steps for parallel execution''] else []))"

fun severity_penalty :: "FindingSeverity \<Rightarrow> nat" where
  "severity_penalty Low = 5"
| "severity_penalty Medium = 15"
| "severity_penalty High = 30"

definition review_plan :: "string \<Rightarrow> MetisReview" where
  "review_plan plan =
     (let findings = analyze_logic_gaps plan @ validate_assumptions plan
                     @ assess_tactical_feasibility plan @ suggest_optimizations plan
      in \<lparr>metis_findings = findings,
          penalty = min 100 (sum_list (map (\<lambda>f. severity_penalty (severity f)) findings))\<rparr>)"

subsection \<open>Seeded rubric order (zen-agents/src/review/deanchored.rs)\<close>

definition DEBIAS_SEED_BASE :: "64 word" where
  "DEBIAS_SEED_BASE = 0x5EED1D8E5EED1D8E"

definition debias_seed :: "64 word \<Rightarrow> 64 word" where
  "debias_seed i = DEBIAS_SEED_BASE XOR i"

text \<open>\<open>splitmix64\<close>: the new state and the value drawn; all arithmetic wraps.\<close>

definition splitmix64 :: "64 word \<Rightarrow> 64 word \<times> 64 word" where
  "splitmix64 state =
     (let state' = state + 0x9E3779B97F4A7C15;
          z1 = (state' XOR drop_bit 30 state') * 0xBF58476D1CE4E5B9;
          z2 = (z1 XOR drop_bit 27 z1) * 0x94D049BB133111EB
      in (state', z2 XOR drop_bit 31 z2))"

definition swap :: "nat \<Rightarrow> nat \<Rightarrow> 'a list \<Rightarrow> 'a list" where
  "swap i j xs = xs[i := xs ! j, j := xs ! i]"

text \<open>The loop \<open>for i in (1..len).rev()\<close>.\<close>

fun shuffle_down :: "nat \<Rightarrow> 64 word \<Rightarrow> nat list \<Rightarrow> nat list" where
  "shuffle_down 0 state order = order"
| "shuffle_down (Suc i) state order =
     (let (state', z) = splitmix64 state
      in shuffle_down i state' (swap (Suc i) (unat z mod (Suc i + 1)) order))"

definition seeded_order :: "64 word \<Rightarrow> nat \<Rightarrow> nat list" where
  "seeded_order seed len = (if len < 2 then [0..<len] else shuffle_down (len - 1) seed [0..<len])"

lemma mset_swap: "i < length xs \<Longrightarrow> j < length xs \<Longrightarrow> mset (swap i j xs) = mset xs"
  unfolding swap_def by (rule mset_swap [where j = i and i = j, simplified])

lemma shuffle_down_mset: "i < length order \<Longrightarrow> mset (shuffle_down i state order) = mset order"
proof (induction i arbitrary: state order)
  case (Suc i)
  obtain state' z where z: "splitmix64 state = (state', z)" by force
  have "unat z mod (Suc i + 1) < Suc i + 1" by (rule mod_less_divisor) simp
  with Suc.prems have "unat z mod (Suc i + 1) < length order" by linarith
  with Suc.prems Suc.IH [of "swap (Suc i) (unat z mod (Suc i + 1)) order" state'] show ?case
    by (simp add: z mset_swap, simp add: swap_def)
qed simp

text \<open>The seeded order is a permutation of the indices, whatever the seed.\<close>

lemma seeded_order_mset: "mset (seeded_order seed n) = mset [0..<n]"
  by (simp add: seeded_order_def shuffle_down_mset)

subsection \<open>Momus (momus.rs)\<close>

datatype MomusFindingType =
  PlanInconsistency | UntestableAcceptanceCriteria | MissingVerifiability | AmbiguousScope

fun momus_type_str :: "MomusFindingType \<Rightarrow> string" where
  "momus_type_str PlanInconsistency = ''PlanInconsistency''"
| "momus_type_str UntestableAcceptanceCriteria = ''UntestableAcceptanceCriteria''"
| "momus_type_str MissingVerifiability = ''MissingVerifiability''"
| "momus_type_str AmbiguousScope = ''AmbiguousScope''"

record MomusFinding =
  momus_type :: MomusFindingType
  momus_description :: string
  is_blocking :: bool

record MomusReview =
  momus_findings :: "MomusFinding list"
  momus_approved :: bool
  veto_reason :: "string option"

definition momus_finding :: "MomusFindingType \<Rightarrow> string \<Rightarrow> bool \<Rightarrow> MomusFinding" where
  "momus_finding k d b = \<lparr>momus_type = k, momus_description = d, is_blocking = b\<rparr>"

definition check_plan_consistency :: "string \<Rightarrow> MomusFinding list" where
  "check_plan_consistency plan =
     (if trim plan = [] then []
      else
        let lower = to_lowercase plan;
            n = length (sentences_of plan);
            step_pattern = match_count lower ''step''
        in (if mentions lower [''create'', ''add'', ''new'', ''build'']
               \<and> mentions lower [''delete'', ''remove'', ''destroy'', ''drop''] \<and> 1 < n
            then [momus_finding PlanInconsistency
                    ''Plan contains both creation and deletion actions without ordering'' True] else [])
           @ (if mentions lower [''it will'', ''this should'', ''the above should'', ''that must''] \<and> n < 3
              then [momus_finding PlanInconsistency
                      ''Ambiguous reference detected without sufficient context'' False] else [])
           @ (if str_contains lower ''step'' \<and> 5 < step_pattern \<and> n < step_pattern
              then [momus_finding PlanInconsistency ''Possible circular step referencing detected'' True]
              else []))"

definition validate_acceptance_criteria :: "string \<Rightarrow> MomusFinding list" where
  "validate_acceptance_criteria plan =
     (if trim plan = [] then []
      else
        let lower = to_lowercase plan;
            has_criteria = mentions lower [''verify'', ''validate'', ''test'', ''check'', ''assert'', ''confirm''];
            has_metrics = mentions lower [''percent'', ''count'', ''score'', ''threshold'', ''minimum'',
              ''maximum'', ''less than'', ''more than'']
        in (if \<not> has_criteria \<and> 10 < word_count plan
            then [momus_finding UntestableAcceptanceCriteria
                    ''No verification or testing steps found in plan'' True] else [])
           @ (if \<not> has_metrics \<and> \<not> str_contains lower ''complete''
              then [momus_finding UntestableAcceptanceCriteria
                      ''No measurable acceptance criteria detected'' False] else []))"

definition assess_verifiability :: "string \<Rightarrow> MomusFinding list" where
  "assess_verifiability plan =
     (if trim plan = [] then []
      else
        let lower = to_lowercase plan;
            lines = filter (\<lambda>l. trim l \<noteq> []) (str_lines plan);
            without_subject = length (filter (\<lambda>l. starts_with (trim l) ''and'' \<or> starts_with (trim l) ''or''
              \<or> starts_with (trim l) ''then'') lines)
        in (if length lines div 2 < without_subject \<and> 2 < length lines
            then [momus_finding MissingVerifiability
                    (''Majority of steps lack clear subject '' @ em_dash @ '' hard to verify independently'') True]
            else [])
           @ (if str_contains lower ''updated'' \<and> \<not> str_contains lower ''update''
              then [momus_finding MissingVerifiability
                      ''Implied state changes without explicit update action'' False] else []))"

definition rubric_groups :: "string \<Rightarrow> MomusFinding list list" where
  "rubric_groups plan =
     [check_plan_consistency plan, validate_acceptance_criteria plan, assess_verifiability plan]"

definition gate_review_seeded :: "string \<Rightarrow> 64 word \<Rightarrow> MomusReview" where
  "gate_review_seeded plan seed =
     (let groups = rubric_groups plan;
          findings = concat (map (\<lambda>index. groups ! index) (seeded_order seed (length groups)));
          blocked = list_ex is_blocking findings
      in \<lparr>momus_findings = findings, momus_approved = \<not> blocked,
          veto_reason =
            (if blocked
             then Some (str_join ''; '' (map (\<lambda>f. ''['' @ momus_type_str (momus_type f) @ ''] '' @ momus_description f)
                    (filter is_blocking findings)))
             else None)\<rparr>)"

definition rubric_seed :: "ReviewTask \<Rightarrow> 64 word" where
  "rubric_seed t = debias_seed (of_nat (task_uid t mod 2 ^ 64))"

definition gate_review :: "ReviewTask \<Rightarrow> string \<Rightarrow> MomusReview" where
  "gate_review t plan = gate_review_seeded plan (rubric_seed t)"

definition can_veto :: "MomusReview \<Rightarrow> bool" where
  "can_veto review = list_ex is_blocking (momus_findings review)"

subsection \<open>Properties\<close>

lemma gate_findings_mset:
  "mset (momus_findings (gate_review_seeded plan seed)) = mset (concat (rubric_groups plan))"
proof -
  let ?g = "rubric_groups plan"
  have "mset (map (\<lambda>i. ?g ! i) (seeded_order seed (length ?g))) = mset (map (\<lambda>i. ?g ! i) [0..<length ?g])"
    unfolding mset_map seeded_order_mset ..
  then have "mset (map (\<lambda>i. ?g ! i) (seeded_order seed (length ?g))) = mset ?g"
    by (simp only: map_nth)
  then have "sum_mset (image_mset mset (mset (map (\<lambda>i. ?g ! i) (seeded_order seed (length ?g)))))
    = sum_mset (image_mset mset (mset ?g))" by simp
  then show ?thesis
    by (simp add: gate_review_seeded_def Let_def mset_concat sum_mset_sum_list flip: mset_map)
qed

lemma gate_findings_set:
  "set (momus_findings (gate_review_seeded plan seed)) = (\<Union>g \<in> set (rubric_groups plan). set g)"
  using gate_findings_mset [of plan seed] by (metis set_concat set_mset_mset)

lemma momus_approved_iff:
  "momus_approved (gate_review t plan) \<longleftrightarrow> \<not> list_ex (list_ex is_blocking) (rubric_groups plan)"
  using gate_findings_set [of plan "rubric_seed t"]
  by (auto simp: gate_review_def gate_review_seeded_def Let_def list_ex_iff)

text \<open>
  The seeded rubric order changes the order of Momus' findings and nothing else: for any two
  seeds the findings are the same as a multiset and the verdict is the same, namely that no check group
  has a blocking finding.
\<close>

theorem momus_verdict_ignores_seed:
  "mset (momus_findings (gate_review_seeded plan seed)) = mset (momus_findings (gate_review_seeded plan seed'))
   \<and> (momus_approved (gate_review_seeded plan seed) \<longleftrightarrow>
        \<not> (\<exists>g \<in> set (rubric_groups plan). \<exists>f \<in> set g. is_blocking f))
   \<and> (momus_approved (gate_review t plan) \<longleftrightarrow> \<not> can_veto (gate_review_seeded plan seed))"
proof -
  have "momus_approved (gate_review_seeded plan seed) \<longleftrightarrow>
      \<not> list_ex is_blocking (momus_findings (gate_review_seeded plan seed))"
    by (simp add: gate_review_seeded_def Let_def)
  with gate_findings_set [of plan seed] show ?thesis
    by (auto simp: gate_findings_mset momus_approved_iff list_ex_iff can_veto_def)
qed

text \<open>The sensitivity written into a task's metadata is the one the reviewers read back.\<close>

lemma sensitivity_roundtrip: "parse_sensitivity (Some (sensitivity_str s)) = s"
  by (cases s) (simp_all add: parse_sensitivity_def)

text \<open>
  Three conditions of the reviewers never hold: the capitalized markers of Metis, which are
  searched in lower-cased text, a previous sentence with a full stop, since sentences are split at full
  stops, and Momus' implied state change, since \<open>updated\<close> contains \<open>update\<close>.
\<close>

lemma todo_marker_never_found:
  "\<not> str_contains (to_lowercase s) ''TODO''" "\<not> str_contains (to_lowercase s) ''FIXME''"
  using str_contains_set [of "to_lowercase s"] to_lowercase_no_upper [of _ s]
  by (force simp: is_upper_def)+

lemma sentence_has_no_stop: "s \<in> set (sentences_of plan) \<Longrightarrow> CHR ''.'' \<notin> set s"
  using split_on_no_sep by (fastforce simp: sentences_of_def)

lemma implicit_state_never_found: "\<not> (str_contains lower ''updated'' \<and> \<not> str_contains lower ''update'')"
proof -
  have "str_contains lower ''update''" if "str_contains lower ''updated''"
  proof -
    from that obtain a b where "lower = a @ ''update'' @ (''d'' @ b)" by (auto simp: str_contains_iff)
    then show ?thesis unfolding str_contains_iff by blast
  qed
  then show ?thesis by blast
qed

text \<open>An unresolved upper-case marker therefore draws no finding from Metis by itself.\<close>

lemma todo_plan_has_no_marker_finding:
  "analyze_logic_gaps ''TODO write the migration'' = []"
  by code_simp

end
