(* ===== verification/Review_Pipeline.thy ===== *)
theory Review_Pipeline
  imports Review_Rubrics
begin

section \<open>The quality pipeline (zen-agents/src/review/pipeline.rs)\<close>

text \<open>
  The review of a plan and its deliverable: Metis' advice, the Momus gate with its retries, the
  Hermes loop with its revisions, the semantic reviewer for tasks of high blast radius and the
  escalation to Zeus. The deliverable callback and the semantic reviewer are functions (a model call), and
  so is the text of Metis' floating-point score. The two counters are \<open>u8\<close>: the addition that
  would overflow panics, which is the result \<open>None\<close>.
\<close>

subsection \<open>Configuration (zen-core/src/config.rs)\<close>

record ReviewConfig =
  cfg_max_momus_retries :: "nat option"
  cfg_max_hermes_revisions :: "nat option"
  cfg_llm_review_high_blast :: "bool option"

definition REVIEW_MAX_MOMUS_DEFAULT :: nat where
  "REVIEW_MAX_MOMUS_DEFAULT = 2"

definition REVIEW_MAX_MOMUS_MAX :: nat where
  "REVIEW_MAX_MOMUS_MAX = 5"

definition REVIEW_MAX_HERMES_DEFAULT :: nat where
  "REVIEW_MAX_HERMES_DEFAULT = 1"

definition REVIEW_MAX_HERMES_MAX :: nat where
  "REVIEW_MAX_HERMES_MAX = 5"

definition unwrap_or :: "'a option \<Rightarrow> 'a \<Rightarrow> 'a" where
  "unwrap_or v d = (case v of Some x \<Rightarrow> x | None \<Rightarrow> d)"

definition max_momus_retries_or_default :: "ReviewConfig \<Rightarrow> nat" where
  "max_momus_retries_or_default c =
     min (unwrap_or (cfg_max_momus_retries c) REVIEW_MAX_MOMUS_DEFAULT) REVIEW_MAX_MOMUS_MAX"

definition max_hermes_revisions_or_default :: "ReviewConfig \<Rightarrow> nat" where
  "max_hermes_revisions_or_default c =
     min (unwrap_or (cfg_max_hermes_revisions c) REVIEW_MAX_HERMES_DEFAULT) REVIEW_MAX_HERMES_MAX"

definition llm_review_high_blast_or_default :: "ReviewConfig \<Rightarrow> bool" where
  "llm_review_high_blast_or_default c = unwrap_or (cfg_llm_review_high_blast c) True"

subsection \<open>The pipeline\<close>

datatype BlastRadius = BlastLow | BlastHigh

definition classify_blast_radius :: "ReviewTask \<Rightarrow> BlastRadius" where
  "classify_blast_radius t =
     (if ctx_sensitivity (from_task_with_metadata t 0) = Confidential then BlastHigh else BlastLow)"

record SemanticVerdict =
  verdict_approved :: bool
  verdict_note :: string

type_synonym reviewer = "ReviewTask \<Rightarrow> string \<Rightarrow> string \<Rightarrow> SemanticVerdict"

record PipelineResult =
  plan_approved :: bool
  review_notes :: string
  delivery_ready :: bool
  athena_shield :: "string option"
  failed_attempts :: "string list"

record QualityPipeline =
  max_momus_retries :: nat
  max_hermes_revisions :: nat
  llm_review_high_blast :: bool
  semantic_reviewer :: "reviewer option"

definition pipeline_new :: QualityPipeline where
  "pipeline_new =
     \<lparr>max_momus_retries = 2, max_hermes_revisions = 1, llm_review_high_blast = True,
      semantic_reviewer = None\<rparr>"

definition with_limits :: "QualityPipeline \<Rightarrow> nat \<Rightarrow> nat \<Rightarrow> QualityPipeline" where
  "with_limits p momus hermes = p\<lparr>max_momus_retries := momus, max_hermes_revisions := hermes\<rparr>"

definition with_review_config :: "QualityPipeline \<Rightarrow> ReviewConfig \<Rightarrow> QualityPipeline" where
  "with_review_config p cfg =
     p\<lparr>max_momus_retries := max_momus_retries_or_default cfg,
       max_hermes_revisions := max_hermes_revisions_or_default cfg,
       llm_review_high_blast := llm_review_high_blast_or_default cfg\<rparr>"

definition with_semantic_reviewer :: "QualityPipeline \<Rightarrow> reviewer \<Rightarrow> QualityPipeline" where
  "with_semantic_reviewer p r = p\<lparr>semantic_reviewer := Some r\<rparr>"

definition pipeline_result ::
  "bool \<Rightarrow> string \<Rightarrow> bool \<Rightarrow> string option \<Rightarrow> string list \<Rightarrow> PipelineResult" where
  "pipeline_result ok notes ready shield failed =
     \<lparr>plan_approved = ok, review_notes = notes, delivery_ready = ready, athena_shield = shield,
      failed_attempts = failed\<rparr>"

abbreviation nl :: string where
  "nl \<equiv> [CHR 10]"

text \<open>The branch of a deliverable Hermes accepts: the semantic review for high blast radius, then delivery.\<close>

definition push_stage ::
  "QualityPipeline \<Rightarrow> ReviewTask \<Rightarrow> string \<Rightarrow> string \<Rightarrow> string \<Rightarrow> string list \<Rightarrow> PipelineResult" where
  "push_stage p t plan raw notes failed =
     (let ready = (\<lambda>notes. pipeline_result True (notes @ ''Hermes validation: DELIVERY READY'' @ nl) True None failed)
      in if classify_blast_radius t = BlastHigh \<and> llm_review_high_blast p then
           (case semantic_reviewer p of
              Some reviewer \<Rightarrow>
                let verdict = reviewer t plan raw
                in if verdict_approved verdict
                   then ready (notes @ ''LLM semantic review: APPROVED '' @ em_dash @ '' '' @ verdict_note verdict @ nl)
                   else pipeline_result True
                          (notes @ ''LLM semantic review: REJECTED '' @ em_dash @ '' '' @ verdict_note verdict @ nl)
                          False None (failed @ [''LLM semantic veto: '' @ verdict_note verdict])
            | None \<Rightarrow> ready (notes @ ''LLM semantic review: SKIPPED (no reviewer wired)'' @ nl))
         else ready notes)"

text \<open>The branch past the revision limit.\<close>

definition limit_stage :: "ReviewTask \<Rightarrow> nat \<Rightarrow> string \<Rightarrow> string list \<Rightarrow> PipelineResult" where
  "limit_stage t revisions notes failed =
     (let ctx = from_task_with_metadata t revisions
      in if should_escalate (ctx_sensitivity ctx) (hermes_rejections ctx) (token_budget ctx) then
           let review = final_review ctx
           in pipeline_result True (notes @ ''Hermes deadlock detected, escalating to Zeus'' @ nl)
                (zeus_approved review) (zeus_shield review) failed
         else pipeline_result True (notes @ ''Hermes revision limit reached, returning deliverable'' @ nl)
                False None failed)"

function hermes_loop ::
  "QualityPipeline \<Rightarrow> ReviewTask \<Rightarrow> ReviewTask \<Rightarrow> string \<Rightarrow> string \<Rightarrow> string \<Rightarrow> string list \<Rightarrow> nat
   \<Rightarrow> PipelineResult option" where
  "hermes_loop p t tr plan raw notes failed revisions =
     (let v = validate_deliverable tr raw
      in if can_push v then Some (push_stage p t plan raw notes failed)
         else if 255 \<le> revisions then None
         else if max_hermes_revisions p < revisions + 1 then Some (limit_stage t (revisions + 1) notes failed)
         else hermes_loop p t tr plan raw
                (notes @ ''Hermes revision '' @ nat_str (revisions + 1) @ ''/''
                 @ nat_str (max_hermes_revisions p) @ '': ''
                 @ str_join ''; '' (map hermes_description (hermes_findings v)) @ nl)
                failed (revisions + 1))"
  by pat_completeness auto
termination
  by (relation "measure (\<lambda>(p, t, tr, plan, raw, notes, failed, revisions). 255 - revisions)") auto

declare hermes_loop.simps [simp del]

text \<open>The attempts of the Momus gate that are left.\<close>

fun momus_loop ::
  "QualityPipeline \<Rightarrow> (string \<Rightarrow> string) \<Rightarrow> ReviewTask \<Rightarrow> string \<Rightarrow> string \<Rightarrow> string list \<Rightarrow> nat list
   \<Rightarrow> PipelineResult option" where
  "momus_loop p cb t plan notes failed [] = Some (pipeline_result False notes False None failed)"
| "momus_loop p cb t plan notes failed (attempt # rest) =
     (let review = gate_review t plan
      in if momus_approved review then
           hermes_loop p t (t\<lparr>metadata := (metadata t)(''revision_count'' \<mapsto> ''0'')\<rparr>) plan (cb plan)
             (notes @ ''Momus gate: APPROVED'' @ nl) failed 0
         else if 255 \<le> attempt then None
         else
           let why = unwrap_or (veto_reason review) ''unknown'';
               notes' = notes @ ''Momus gate: REJECTED (attempt '' @ nat_str (attempt + 1) @ '') '' @ em_dash
                        @ '' '' @ why @ nl;
               failed' = failed @ [''Momus veto '' @ nat_str (attempt + 1) @ '': '' @ why]
           in if max_momus_retries p \<le> attempt then
                Some (pipeline_result False notes' False
                        (zeus_shield (final_review (from_task_with_metadata t 0))) failed')
              else momus_loop p cb t plan notes' failed' rest)"

definition metis_notes :: "(nat \<Rightarrow> string) \<Rightarrow> string \<Rightarrow> string" where
  "metis_notes show_score plan =
     (let review = review_plan plan
      in (if metis_findings review \<noteq> []
          then ''Metis suggestions ('' @ nat_str (length (metis_findings review)) @ ''): ''
               @ str_join ''; '' (map metis_description (metis_findings review)) @ nl
          else [])
         @ ''Metis optimization score: '' @ show_score (penalty review) @ nl)"

definition execute ::
  "(nat \<Rightarrow> string) \<Rightarrow> QualityPipeline \<Rightarrow> ReviewTask \<Rightarrow> string \<Rightarrow> (string \<Rightarrow> string)
   \<Rightarrow> PipelineResult option" where
  "execute show_score p t plan cb =
     momus_loop p cb t plan (metis_notes show_score plan) [] [0..<Suc (max_momus_retries p)]"

subsection \<open>What the loops compute\<close>

text \<open>The deliverable is produced once, so Hermes' verdict is the same in every revision.\<close>

definition hermes_accepts :: "ReviewTask \<Rightarrow> string \<Rightarrow> bool" where
  "hermes_accepts t raw \<longleftrightarrow> can_push (validate_deliverable t raw)"

lemma hermes_accepts_metadata [simp]:
  "can_push (validate_deliverable (t\<lparr>metadata := m\<rparr>) raw) \<longleftrightarrow> hermes_accepts t raw"
  by (simp add: hermes_accepts_def can_push_def validate_deliverable_def Let_def)

lemma hermes_loop_accepted:
  "can_push (validate_deliverable tr raw) \<Longrightarrow>
   hermes_loop p t tr plan raw ns failed k = Some (push_stage p t plan raw ns failed)"
  by (simp add: hermes_loop.simps [of p t tr])

lemma hermes_loop_rejected:
  assumes "\<not> can_push (validate_deliverable tr raw)" "k \<le> max_hermes_revisions p" "max_hermes_revisions p < 255"
  shows "\<exists>ns'. hermes_loop p t tr plan raw ns failed k
           = Some (limit_stage t (max_hermes_revisions p + 1) ns' failed)"
  using assms
proof (induction "max_hermes_revisions p - k" arbitrary: k ns)
  case 0
  then have "k = max_hermes_revisions p" by simp
  with 0 show ?case by (auto simp: hermes_loop.simps [of p t tr] Let_def)
next
  case (Suc d)
  then have "Suc k \<le> max_hermes_revisions p" "d = max_hermes_revisions p - Suc k" by simp_all
  from Suc.hyps(1) [OF this(2) Suc.prems(1) this(1) Suc.prems(3)] Suc.prems \<open>Suc k \<le> _\<close> show ?case
    by (simp add: hermes_loop.simps [of p t tr _ _ _ _ k] Let_def)
qed

lemma momus_loop_step:
  assumes "\<not> momus_approved (gate_review t plan)" "k < max_momus_retries p" "k < 255"
  shows "\<exists>ns' x. momus_loop p cb t plan ns failed (k # ks) = momus_loop p cb t plan ns' (failed @ [x]) ks"
  using assms by (auto simp: Let_def)

lemma momus_loop_rejected:
  assumes "\<not> momus_approved (gate_review t plan)" "max_momus_retries p < 255" "k \<le> max_momus_retries p"
  shows "\<exists>ns' shield fs. momus_loop p cb t plan ns failed [k..<Suc (max_momus_retries p)]
           = Some (pipeline_result False ns' False shield (failed @ fs))
         \<and> length fs = Suc (max_momus_retries p) - k"
  using assms
proof (induction "max_momus_retries p - k" arbitrary: k ns failed)
  case 0
  then have k: "k = max_momus_retries p" by simp
  then have "[k..<Suc (max_momus_retries p)] = [k]" by simp
  with 0 k show ?case by (auto simp: Let_def pipeline_result_def)
next
  case (Suc d)
  then have "Suc k \<le> max_momus_retries p" "d = max_momus_retries p - Suc k" by simp_all
  note IH = Suc.hyps(1) [OF this(2) Suc.prems(1,2) this(1)]
  have "[k..<Suc (max_momus_retries p)] = k # [Suc k..<Suc (max_momus_retries p)]"
    using Suc.prems(3) by (simp add: upt_conv_Cons)
  moreover obtain ns1 x where "momus_loop p cb t plan ns failed (k # [Suc k..<Suc (max_momus_retries p)])
      = momus_loop p cb t plan ns1 (failed @ [x]) [Suc k..<Suc (max_momus_retries p)]"
    using momus_loop_step [of t plan k p cb] Suc.prems \<open>Suc k \<le> _\<close> by fastforce
  moreover from IH [of ns1 "failed @ [x]"] obtain ns' shield fs
    where "momus_loop p cb t plan ns1 (failed @ [x]) [Suc k..<Suc (max_momus_retries p)]
        = Some (pipeline_result False ns' False shield (failed @ x # fs))"
      "length (x # fs) = Suc (max_momus_retries p) - k"
    using \<open>Suc k \<le> _\<close> by auto
  ultimately show ?case by metis
qed

lemma execute_approved:
  assumes "momus_approved (gate_review t plan)"
  shows "\<exists>ns tr. (\<forall>raw. can_push (validate_deliverable tr raw) = hermes_accepts t raw)
           \<and> execute show_score p t plan cb = hermes_loop p t tr plan (cb plan) ns [] 0"
proof -
  let ?tr = "t\<lparr>metadata := (metadata t)(''revision_count'' \<mapsto> ''0'')\<rparr>"
  have "execute show_score p t plan cb
        = hermes_loop p t ?tr plan (cb plan) (metis_notes show_score plan @ ''Momus gate: APPROVED'' @ nl) [] 0"
    using assms by (simp add: execute_def upt_conv_Cons Let_def del: upt_Suc)
  moreover have "\<forall>raw. can_push (validate_deliverable ?tr raw) = hermes_accepts t raw" by simp
  ultimately show ?thesis by blast
qed

lemma limit_stage_ready:
  "delivery_ready (limit_stage t k ns failed) \<longleftrightarrow>
     k < 2 \<and> (parse_sensitivity (metadata t ''sensitivity'') = Confidential \<or> 25000 < length (user_input t))"
  by (auto simp: limit_stage_def should_escalate_def final_review_def from_task_with_metadata_def
      pipeline_result_def Let_def)

subsection \<open>Properties\<close>

lemma execute_total:
  assumes lim: "max_momus_retries p < 255" "max_hermes_revisions p < 255"
  shows "\<exists>r. execute show_score p t plan cb = Some r"
proof (cases "momus_approved (gate_review t plan)")
  case True
  from execute_approved [OF this, of show_score p cb] obtain ns tr
    where e: "execute show_score p t plan cb = hermes_loop p t tr plan (cb plan) ns [] 0" by blast
  show ?thesis
  proof (cases "can_push (validate_deliverable tr (cb plan))")
    case True
    with e show ?thesis by (simp add: hermes_loop_accepted)
  next
    case False
    from hermes_loop_rejected [OF this _ lim(2)] e show ?thesis by fastforce
  qed
next
  case False
  from momus_loop_rejected [OF this lim(1), of 0 cb "metis_notes show_score plan" "[]"] show ?thesis
    unfolding execute_def by auto
qed

text \<open>
  Under every review configuration the pipeline returns a result for every task, plan,
  callback and reviewer: the clamped retry and revision loops end, and the \<open>u8\<close> counters do not
  overflow.
\<close>

theorem execute_returns: "\<exists>r. execute show_score (with_review_config p cfg) t plan cb = Some r"
  by (rule execute_total)
     (simp_all add: with_review_config_def max_momus_retries_or_default_def
        max_hermes_revisions_or_default_def REVIEW_MAX_MOMUS_MAX_def REVIEW_MAX_HERMES_MAX_def)

lemma push_stage_result:
  "plan_approved (push_stage p t plan raw ns failed)
   \<and> (delivery_ready (push_stage p t plan raw ns failed) \<longleftrightarrow>
        \<not> (classify_blast_radius t = BlastHigh \<and> llm_review_high_blast p
           \<and> (\<exists>f. semantic_reviewer p = Some f \<and> \<not> verdict_approved (f t plan raw))))"
  by (auto simp: push_stage_def pipeline_result_def Let_def split: option.splits)

text \<open>
  Claim C12. What a delivery means: with at least one Hermes revision, the pipeline marks a task
  ready exactly when Momus has no blocking finding on the plan, Hermes has no finding on the deliverable, and,
  for a confidential task with the semantic stage enabled and wired, the reviewer approved it.
\<close>

theorem delivery_ready_iff:
  assumes "max_momus_retries p < 255" "1 \<le> max_hermes_revisions p" "max_hermes_revisions p < 255"
  shows "(\<exists>r. execute show_score p t plan cb = Some r \<and> delivery_ready r) \<longleftrightarrow>
         momus_approved (gate_review t plan) \<and> hermes_accepts t (cb plan)
         \<and> \<not> (classify_blast_radius t = BlastHigh \<and> llm_review_high_blast p
              \<and> (\<exists>f. semantic_reviewer p = Some f \<and> \<not> verdict_approved (f t plan (cb plan))))"
proof (cases "momus_approved (gate_review t plan)")
  case True
  from execute_approved [OF this, of show_score p cb] obtain ns tr
    where tr: "can_push (validate_deliverable tr (cb plan)) = hermes_accepts t (cb plan)"
      and e: "execute show_score p t plan cb = hermes_loop p t tr plan (cb plan) ns [] 0" by blast
  show ?thesis
  proof (cases "hermes_accepts t (cb plan)")
    case acc: True
    with tr e True push_stage_result [of p t plan "cb plan" ns "[]"] show ?thesis
      by (simp add: hermes_loop_accepted)
  next
    case False
    with tr hermes_loop_rejected [of tr "cb plan" 0 p t plan ns "[]"] assms obtain ns'
      where "execute show_score p t plan cb = Some (limit_stage t (max_hermes_revisions p + 1) ns' [])"
      using e by auto
    with False assms(2) show ?thesis by (simp add: limit_stage_ready)
  qed
next
  case False
  from momus_loop_rejected [OF this assms(1), of 0 cb "metis_notes show_score plan" "[]"] False show ?thesis
    by (auto simp: execute_def pipeline_result_def simp del: upt_Suc)
qed

text \<open>
  A plan Momus vetoes is never delivered and never executed: the result has the plan
  and the delivery refused, one failed attempt per try (the retries and the first), and does not depend on the
  callback that would have produced a deliverable.
\<close>

theorem momus_veto_blocks:
  assumes "\<not> momus_approved (gate_review t plan)" "max_momus_retries p < 255"
  shows "\<exists>r. (\<forall>cb. execute show_score p t plan cb = Some r) \<and> \<not> plan_approved r \<and> \<not> delivery_ready r
             \<and> length (failed_attempts r) = max_momus_retries p + 1"
proof -
  have indep: "momus_loop p cb t plan ns failed ks = momus_loop p cb' t plan ns failed ks" for cb cb' ns failed ks
    using assms(1) by (induction ks arbitrary: ns failed) (simp_all add: Let_def)
  from momus_loop_rejected [OF assms, of 0 id "metis_notes show_score plan" "[]"] obtain ns' shield fs
    where "execute show_score p t plan id = Some (pipeline_result False ns' False shield fs)"
      "length fs = Suc (max_momus_retries p)"
    by (auto simp: execute_def simp del: upt_Suc)
  then show ?thesis
    using indep unfolding execute_def
    by (intro exI [of _ "pipeline_result False ns' False shield fs"])
       (metis PipelineResult.select_convs Suc_eq_plus1 pipeline_result_def)
qed

text \<open>
  With the revision budget configured to zero, a confidential task whose deliverable
  Hermes rejects is marked ready for delivery: one rejection is below Zeus' deadlock
  threshold, so the escalation approves it and no semantic review takes place.
\<close>

theorem zero_revisions_deliver_rejected:
  assumes "momus_approved (gate_review t plan)" "\<not> hermes_accepts t (cb plan)"
    "max_hermes_revisions p = 0" "metadata t ''sensitivity'' = Some ''Confidential''"
  shows "\<exists>r. execute show_score p t plan cb = Some r \<and> delivery_ready r \<and> athena_shield r = None"
proof -
  from execute_approved [OF assms(1), of show_score p cb] obtain ns tr
    where tr: "can_push (validate_deliverable tr (cb plan)) = hermes_accepts t (cb plan)"
      and e: "execute show_score p t plan cb = hermes_loop p t tr plan (cb plan) ns [] 0" by blast
  from tr e hermes_loop_rejected [of tr "cb plan" 0 p t plan ns "[]"] assms(2,3) obtain ns'
    where "execute show_score p t plan cb = Some (limit_stage t 1 ns' [])" by auto
  with assms(4) show ?thesis
    by (auto simp: limit_stage_def should_escalate_def final_review_def from_task_with_metadata_def
        parse_sensitivity_def pipeline_result_def Let_def)
qed

subsection \<open>Instances\<close>

definition demo_task :: "string \<Rightarrow> ReviewTask" where
  "demo_task s =
     \<lparr>task_uid = 42, user_input = ''Summarize quarterly revenue'', metadata = [''sensitivity'' \<mapsto> s]\<rparr>"

definition demo_plan_text :: string where
  "demo_plan_text = ''Verify that the report is complete''"

definition demo_veto_text :: string where
  "demo_veto_text = ''Create the index. Drop the table.''"

lemma demo_momus:
  "momus_approved (gate_review t demo_plan_text)" "\<not> momus_approved (gate_review t demo_veto_text)"
proof -
  have "\<not> list_ex (list_ex is_blocking) (rubric_groups demo_plan_text)" by code_simp
  then show "momus_approved (gate_review t demo_plan_text)" by (simp add: momus_approved_iff)
  have "list_ex (list_ex is_blocking) (rubric_groups demo_veto_text)" by code_simp
  then show "\<not> momus_approved (gate_review t demo_veto_text)" by (simp add: momus_approved_iff)
qed

lemma demo_hermes:
  "hermes_accepts (demo_task ''Confidential'') ''We summarize the quarterly revenue.''"
  "\<not> hermes_accepts (demo_task ''Confidential'') ''Done.''"
  by code_simp+

theorem delivery_ready_iff_witness:
  "\<exists>r. execute (\<lambda>_. ''1'') pipeline_new (demo_task ''Confidential'') demo_plan_text
         (\<lambda>_. ''We summarize the quarterly revenue.'') = Some r \<and> delivery_ready r"
  using delivery_ready_iff [of pipeline_new "\<lambda>_. ''1''" "demo_task ''Confidential''" demo_plan_text
      "\<lambda>_. ''We summarize the quarterly revenue.''"]
  by (simp add: demo_momus demo_hermes pipeline_new_def)

theorem momus_veto_blocks_witness:
  "\<exists>r. (\<forall>cb. execute (\<lambda>_. ''1'') pipeline_new (demo_task ''Public'') demo_veto_text cb = Some r)
       \<and> \<not> plan_approved r \<and> \<not> delivery_ready r \<and> length (failed_attempts r) = 3"
  using momus_veto_blocks [OF demo_momus(2), of pipeline_new "\<lambda>_. ''1''" "demo_task ''Public''"]
  by (simp add: pipeline_new_def)

theorem zero_revisions_deliver_rejected_witness:
  "\<exists>r. execute (\<lambda>_. ''1'') (with_limits pipeline_new 2 0) (demo_task ''Confidential'') demo_plan_text
         (\<lambda>_. ''Done.'') = Some r \<and> delivery_ready r \<and> athena_shield r = None"
  by (rule zero_revisions_deliver_rejected)
     (simp_all add: demo_momus demo_hermes with_limits_def, simp add: demo_task_def)

end
