(* ===== verification/Workflow_Repo.thy ===== *)
theory Workflow_Repo
  imports Rust_Prelude "HOL-Library.AList" "HOL-Library.List_Lexorder" "HOL-Library.Char_ord" "HOL-Library.Multiset"
begin

section \<open>Plan persistence\<close>

text \<open>
  Model of \<open>crates/zen-repo/src/workflow_repo.rs\<close>: the rows of \<open>workflow_plans\<close> and
  \<open>workflow_tasks\<close> (migrations 006 and 007) and the statements on them. A statement runs alone
  on the single writer, so each operation is one atomic step; \<open>fault\<close> is the error of the
  database client when the call fails, in which case nothing changes. Timestamps are seconds
  as unbounded integers.
\<close>

record WorkflowPlanRow =
  wp_name :: "string option"
  wp_status :: string
  wp_spec_json :: string
  wp_summary :: "string option"
  wp_plan_approved :: "bool option"
  wp_delivery_ready :: "bool option"
  wp_created_at :: int
  wp_updated_at :: int
  wp_owner :: "string option"

record WorkflowTaskRow =
  wt_agent :: string
  wt_status :: string
  wt_response :: "string option"
  wt_error :: "string option"
  wt_updated_at :: int

record WorkflowDb =
  plan_rows :: "string \<rightharpoonup> WorkflowPlanRow"
  task_rows :: "((string \<times> string) \<times> WorkflowTaskRow) list"

definition empty_db :: WorkflowDb where
  "empty_db = \<lparr>plan_rows = Map.empty, task_rows = []\<rparr>"

datatype SqliteError = UniqueViolation | ClientFault string

definition STALE_CLAIM_SECS :: int where "STALE_CLAIM_SECS = 3600"

definition create_plan ::
  "string option \<Rightarrow> WorkflowDb \<Rightarrow> string \<Rightarrow> string option \<Rightarrow> string \<Rightarrow> int \<Rightarrow> WorkflowDb \<times> (unit, SqliteError) result" where
  "create_plan fault db pid nm spec now =
     (case fault of
        Some e \<Rightarrow> (db, Err (ClientFault e))
      | None \<Rightarrow>
          if plan_rows db pid \<noteq> None then (db, Err UniqueViolation)
          else
            (db\<lparr>plan_rows := (plan_rows db)(pid \<mapsto>
               \<lparr>wp_name = nm, wp_status = ''running'', wp_spec_json = spec, wp_summary = None,
                wp_plan_approved = None, wp_delivery_ready = None, wp_created_at = now, wp_updated_at = now,
                wp_owner = None\<rparr>)\<rparr>, Ok ()))"

definition checkpoint_task ::
  "string option \<Rightarrow> WorkflowDb \<Rightarrow> string \<Rightarrow> string \<Rightarrow> WorkflowTaskRow \<Rightarrow> WorkflowDb \<times> (unit, SqliteError) result" where
  "checkpoint_task fault db pid tid row =
     (case fault of
        Some e \<Rightarrow> (db, Err (ClientFault e))
      | None \<Rightarrow> (db\<lparr>task_rows := AList.update (pid, tid) row (task_rows db)\<rparr>, Ok ()))"

definition claimable :: "WorkflowPlanRow \<Rightarrow> string \<Rightarrow> int \<Rightarrow> bool" where
  "claimable row owner now \<longleftrightarrow>
     wp_status row = ''running''
     \<and> (wp_owner row = None \<or> wp_owner row = Some owner \<or> wp_updated_at row < now - STALE_CLAIM_SECS)"

definition claim_plan ::
  "string option \<Rightarrow> WorkflowDb \<Rightarrow> string \<Rightarrow> string \<Rightarrow> int \<Rightarrow> WorkflowDb \<times> (bool, SqliteError) result" where
  "claim_plan fault db pid owner now =
     (case fault of
        Some e \<Rightarrow> (db, Err (ClientFault e))
      | None \<Rightarrow>
          (case plan_rows db pid of
             None \<Rightarrow> (db, Ok False)
           | Some row \<Rightarrow>
               if claimable row owner now
               then (db\<lparr>plan_rows := (plan_rows db)(pid \<mapsto> row\<lparr>wp_owner := Some owner, wp_updated_at := now\<rparr>)\<rparr>, Ok True)
               else (db, Ok False)))"

definition complete_plan ::
  "string option \<Rightarrow> WorkflowDb \<Rightarrow> string \<Rightarrow> string \<Rightarrow> string option \<Rightarrow> bool option \<Rightarrow> bool option \<Rightarrow> int
   \<Rightarrow> WorkflowDb \<times> (unit, SqliteError) result" where
  "complete_plan fault db pid status summary approved ready now =
     (case fault of
        Some e \<Rightarrow> (db, Err (ClientFault e))
      | None \<Rightarrow>
          (case plan_rows db pid of
             None \<Rightarrow> (db, Ok ())
           | Some row \<Rightarrow>
               (db\<lparr>plan_rows := (plan_rows db)(pid \<mapsto> row\<lparr>wp_status := status, wp_summary := summary,
                  wp_plan_approved := approved, wp_delivery_ready := ready, wp_updated_at := now,
                  wp_owner := None\<rparr>)\<rparr>, Ok ())))"

definition load_plan ::
  "string option \<Rightarrow> WorkflowDb \<Rightarrow> string \<Rightarrow> (WorkflowPlanRow option, SqliteError) result" where
  "load_plan fault db pid = (case fault of Some e \<Rightarrow> Err (ClientFault e) | None \<Rightarrow> Ok (plan_rows db pid))"

definition load_task_rows ::
  "string option \<Rightarrow> WorkflowDb \<Rightarrow> string \<Rightarrow> ((string \<times> WorkflowTaskRow) list, SqliteError) result" where
  "load_task_rows fault db pid =
     (case fault of
        Some e \<Rightarrow> Err (ClientFault e)
      | None \<Rightarrow>
          Ok (sort_key fst (map (\<lambda>((_, tid), row). (tid, row)) (filter (\<lambda>((p, _), _). p = pid) (task_rows db)))))"

subsection \<open>The claim fence\<close>

datatype repo_op =
    OpCreate string "string option" string int
  | OpCheckpoint string string WorkflowTaskRow
  | OpClaim string string int
  | OpComplete string string "string option" "bool option" "bool option" int

fun apply_op :: "WorkflowDb \<Rightarrow> repo_op \<times> string option \<Rightarrow> WorkflowDb" where
  "apply_op db (OpCreate p n s now, f) = fst (create_plan f db p n s now)"
| "apply_op db (OpCheckpoint p t row, f) = fst (checkpoint_task f db p t row)"
| "apply_op db (OpClaim p ow now, f) = fst (claim_plan f db p ow now)"
| "apply_op db (OpComplete p st su a d now, f) = fst (complete_plan f db p st su a d now)"

text \<open>Operations that may happen between a claim at \<open>t\<close> and the end of its staleness window.\<close>

fun within_window :: "string \<Rightarrow> int \<Rightarrow> repo_op \<Rightarrow> bool" where
  "within_window pid t (OpClaim p ow now) \<longleftrightarrow> p \<noteq> pid \<or> (t \<le> now \<and> now \<le> t + STALE_CLAIM_SECS)"
| "within_window pid t (OpComplete p st su a d now) \<longleftrightarrow> p \<noteq> pid"
| "within_window pid t _ \<longleftrightarrow> True"

definition held_since :: "string \<Rightarrow> string \<Rightarrow> int \<Rightarrow> WorkflowDb \<Rightarrow> bool" where
  "held_since pid owner t db \<longleftrightarrow>
     (\<exists>row. plan_rows db pid = Some row \<and> wp_status row = ''running'' \<and> wp_owner row = Some owner
            \<and> t \<le> wp_updated_at row)"

lemma claim_holds: "claim_plan f db pid owner t = (db', Ok True) \<Longrightarrow> held_since pid owner t db'"
  by (auto simp: claim_plan_def held_since_def claimable_def split: option.splits if_splits)

lemma held_step: "held_since pid owner t db \<Longrightarrow> within_window pid t op \<Longrightarrow> held_since pid owner t (apply_op db (op, f))"
  by (cases op)
     (auto simp: held_since_def create_plan_def checkpoint_task_def claim_plan_def complete_plan_def claimable_def
        split: option.splits)

lemma held_run:
  "held_since pid owner t db \<Longrightarrow> list_all (within_window pid t \<circ> fst) ops
   \<Longrightarrow> held_since pid owner t (foldl apply_op db ops)"
  by (induction ops arbitrary: db) (auto simp: held_step)

text \<open>
  The claim fences concurrent resumes: after one run has claimed a plan, no other run
  obtains it within the staleness window, whatever operations on whatever plans happen in
  between, until the plan is completed.
\<close>

theorem claim_fences_resumes:
  assumes "claim_plan f db pid owner t = (db', Ok True)" "list_all (within_window pid t \<circ> fst) ops"
    "other \<noteq> owner" "now \<le> t + STALE_CLAIM_SECS"
  shows "claim_plan None (foldl apply_op db' ops) pid other now = (foldl apply_op db' ops, Ok False)
         \<and> (\<exists>row. plan_rows (foldl apply_op db' ops) pid = Some row \<and> wp_owner row = Some owner)"
proof -
  have "held_since pid owner t (foldl apply_op db' ops)"
    by (rule held_run [OF claim_holds [OF assms(1)] assms(2)])
  with assms(3,4) show ?thesis by (auto simp: held_since_def claim_plan_def claimable_def)
qed

text \<open>
  Checkpoints do not renew a claim: although the owner saves task after task, its plan
  can be taken by another run one second after the window that began with the claim.
\<close>

theorem checkpoints_do_not_renew_claim:
  assumes "claim_plan f db pid owner t = (db', Ok True)"
  shows "snd (claim_plan None (foldl (\<lambda>d (tid, row). fst (checkpoint_task None d pid tid row)) db' saves)
                pid other (t + STALE_CLAIM_SECS + 1)) = Ok True"
proof -
  have "plan_rows (foldl (\<lambda>d (tid, row). fst (checkpoint_task None d pid tid row)) d saves) = plan_rows d" for d
    by (induction saves arbitrary: d) (auto simp: checkpoint_task_def)
  moreover from assms obtain row where "plan_rows db' pid = Some row" "wp_status row = ''running''" "wp_updated_at row = t"
    by (auto simp: claim_plan_def claimable_def split: option.splits if_splits)
  ultimately show ?thesis by (simp add: claim_plan_def claimable_def)
qed

definition demo_db :: WorkflowDb where
  "demo_db = fst (create_plan None empty_db ''p'' None [] 0)"

lemma demo_claim: "claim_plan None demo_db ''p'' ''a'' 5 = (fst (claim_plan None demo_db ''p'' ''a'' 5), Ok True)"
  by (simp add: demo_db_def create_plan_def empty_db_def claim_plan_def claimable_def)

theorem claim_fences_resumes_witness:
  "claim_plan None (fst (claim_plan None demo_db ''p'' ''a'' 5)) ''p'' ''b'' 6
     = (fst (claim_plan None demo_db ''p'' ''a'' 5), Ok False)"
  using claim_fences_resumes [OF demo_claim, of "[]" "''b''" 6] by (simp add: STALE_CLAIM_SECS_def)

theorem checkpoints_do_not_renew_claim_witness:
  "snd (claim_plan None (fst (claim_plan None demo_db ''p'' ''a'' 5)) ''p'' ''b'' (5 + STALE_CLAIM_SECS + 1)) = Ok True"
  using checkpoints_do_not_renew_claim [OF demo_claim, of "[]" "''b''"] by simp

subsection \<open>Checkpoints\<close>

text \<open>Saving is idempotent per plan and task: the last checkpoint of a task is the one that is loaded.\<close>

lemma map_of_plan_tasks:
  "map_of (map (\<lambda>((_, t), r). (t, r)) (filter (\<lambda>((p, _), _). p = pid) rows)) tid = map_of rows (pid, tid)"
  by (induction rows) auto

lemma distinct_sort_key: "distinct (map fst (sort_key fst xs)) \<longleftrightarrow> distinct (map fst xs)"
  by (metis mset_eq_imp_distinct_iff mset_map mset_sort)

lemma distinct_plan_tasks:
  "distinct (map fst rows)
   \<Longrightarrow> distinct (map fst (map (\<lambda>((_, t), r). (t, r)) (filter (\<lambda>((p, _), _). p = pid) rows)))"
  by (induction rows) force+

lemma load_task_rows_Ok:
  assumes "distinct (map fst (task_rows db))"
  shows "\<exists>rows. load_task_rows None db pid = Ok rows \<and> distinct (map fst rows)
           \<and> (\<forall>tid. map_of rows tid = map_of (task_rows db) (pid, tid))"
proof -
  let ?xs = "map (\<lambda>((_, t), r). (t, r)) (filter (\<lambda>((p, _), _). p = pid) (task_rows db))"
  have d: "distinct (map fst ?xs)" by (rule distinct_plan_tasks [OF assms])
  then have "map_of (sort_key fst ?xs) = map_of ?xs"
    by (simp only: map_of_inject_set distinct_sort_key set_sort)
  with d show ?thesis
    by (auto simp: load_task_rows_def distinct_sort_key map_of_plan_tasks simp del: map_map)
qed

lemma load_after_checkpoint:
  assumes "distinct (map fst (task_rows db))"
  shows "\<exists>rows. load_task_rows None (fst (checkpoint_task None db pid tid row)) pid = Ok rows
           \<and> map_of rows tid = Some row"
  using load_task_rows_Ok [of "fst (checkpoint_task None db pid tid row)" pid] assms
  by (auto simp: checkpoint_task_def distinct_update update_conv)

end
