(* ===== verification/Plan_Execute.thy ===== *)
theory Plan_Execute
  imports Plan_Graph Delegate_Task Review_Pipeline Workflow_Repo
begin

section \<open>Running a plan (zen-agents/src/plan_task.rs)\<close>

text \<open>
  The executing half of \<open>plan.execute\<close>: the start of a fresh or resumed run with the claim and the
  replay of checkpoints, the walk over the layers (blocked tasks, the delegation gates, batches
  of concurrent sub-turns, the retry and halt edges, a checkpoint per outcome), and the
  assembly of the result, the review of the merged summary and the completion of the row.
  The environment supplies what lies outside: the outcome of opening \<open>state.db\<close> and of every
  database call, the clock and the fresh identifiers, the sub-turns of \<open>run_single\<close> by the number of
  the call, JSON printing, and the file the rewind memory is written to. An index out of
  range and the \<open>expect\<close> on a dependency, which panic in Rust, are the value \<open>None\<close>. The list
  \<open>rs_calls\<close> records the sub-turns that were started; no operation reads it except to number them.
\<close>

subsection \<open>State\<close>

record TaskOutcome =
  oc_status :: string  \<comment> \<open>ok, failed or skipped\<close>
  oc_value :: json

record 'i PlanEnv =
  pe_tool :: DelegateTool
  pe_pipeline :: QualityPipeline
  pe_max_concurrent :: nat
  state_db :: bool  \<comment> \<open>a path is configured\<close>
  open_client :: "nat \<Rightarrow> bool"
  db_fault :: "nat \<Rightarrow> string option"
  clock :: "nat \<Rightarrow> int"
  fresh_uuid :: string
  show_json :: "json \<Rightarrow> string"
  show_db_error :: "SqliteError \<Rightarrow> string"
  show_score :: "nat \<Rightarrow> string"
  session_sensitivity :: Sensitivity
  review_uid :: nat
  turn_env :: "nat \<Rightarrow> 'i SubTurnEnv"
  inherited :: "nat \<Rightarrow> nat"
  write_rewind :: "string \<Rightarrow> string \<Rightarrow> string option"
  plan_elapsed_ms :: nat

record RunState =
  rs_db :: WorkflowDb
  rs_client :: bool  \<comment> \<open>the cell that caches the opened client is set\<close>
  rs_tick :: nat
  rs_outcomes :: "TaskOutcome option list"
  rs_retried :: "bool list"
  rs_retries :: nat
  rs_calls :: "(nat \<times> DelegateRequest) list"

definition clamp_concurrent :: "nat \<Rightarrow> nat" where
  "clamp_concurrent n = max 1 (min 8 n)"

definition plan_db :: "'i PlanEnv \<Rightarrow> RunState \<Rightarrow> bool \<times> RunState" where
  "plan_db env st =
     (if rs_client st then (True, st)
      else if \<not> state_db env then (False, st)
      else if open_client env (rs_tick st) then (True, st\<lparr>rs_client := True, rs_tick := Suc (rs_tick st)\<rparr>)
      else (False, st\<lparr>rs_tick := Suc (rs_tick st)\<rparr>))"

definition checkpoint_row :: "PlanTaskSpec \<Rightarrow> TaskOutcome \<Rightarrow> int \<Rightarrow> WorkflowTaskRow" where
  "checkpoint_row t oc now =
     \<lparr>wt_agent = task_agent t, wt_status = oc_status oc, wt_response = json_get_str (oc_value oc) ''response'',
      wt_error = json_get_str (oc_value oc) ''error'', wt_updated_at = now\<rparr>"

definition checkpoint :: "'i PlanEnv \<Rightarrow> string \<Rightarrow> PlanTaskSpec \<Rightarrow> TaskOutcome \<Rightarrow> RunState \<Rightarrow> RunState" where
  "checkpoint env pid t oc st =
     (if pid = [] then st
      else case plan_db env st of
             (False, st') \<Rightarrow> st'
           | (True, st') \<Rightarrow>
               st'\<lparr>rs_db := fst (checkpoint_task (db_fault env (rs_tick st')) (rs_db st') pid (task_id t)
                                 (checkpoint_row t oc (clock env (rs_tick st')))),
                   rs_tick := Suc (rs_tick st')\<rparr>)"

subsection \<open>Prompts\<close>

definition UPSTREAM_SNIPPET_MAX_CHARS :: nat where "UPSTREAM_SNIPPET_MAX_CHARS = 4000"

definition upstream_snippet :: "(json \<Rightarrow> string) \<Rightarrow> json \<Rightarrow> string" where
  "upstream_snippet sj value =
     (let body = (case json_get_str value ''response'' of Some response \<Rightarrow> response | None \<Rightarrow> sj value)
      in take_chars UPSTREAM_SNIPPET_MAX_CHARS body
         @ (if UPSTREAM_SNIPPET_MAX_CHARS < char_count body then ellipsis @ ''[truncated]'' else []))"

definition compose_task_prompt :: "string \<Rightarrow> (string \<times> string) list \<Rightarrow> string" where
  "compose_task_prompt base upstream =
     (if upstream = [] then base
      else base @ nl2 @ ''## Upstream task outputs'' @ [CHR 10]
           @ ''Your task depends on the tasks below; their outputs are your inputs:''
           @ concat (map (\<lambda>(i, snippet). nl2 @ ''### upstream task `'' @ i @ ''` output'' @ [CHR 10] @ snippet) upstream))"

text \<open>The loop over \<open>depends_on\<close>: the outputs of the dependencies and whether one is not ok.\<close>

fun upstream_of :: "(json \<Rightarrow> string) \<Rightarrow> PlanTaskSpec list \<Rightarrow> TaskOutcome option list \<Rightarrow> string list
    \<Rightarrow> ((string \<times> string) list \<times> bool) option" where
  "upstream_of sj ts ocs [] = Some ([], False)"
| "upstream_of sj ts ocs (dep # deps) =
     (case index_of ts dep of
        None \<Rightarrow> None
      | Some j \<Rightarrow>
          if length ocs \<le> j then None
          else case upstream_of sj ts ocs deps of
                 None \<Rightarrow> None
               | Some (ups, blocked) \<Rightarrow>
                   (case ocs ! j of
                      None \<Rightarrow> Some (ups, True)
                    | Some oc \<Rightarrow>
                        if oc_status oc = ''ok'' then Some ((dep, upstream_snippet sj (oc_value oc)) # ups, blocked)
                        else Some (ups, True)))"

definition plan_request :: "PlanTaskSpec \<Rightarrow> (string \<times> string) list \<Rightarrow> DelegateRequest" where
  "plan_request t upstream =
     \<lparr>req_agent = task_agent t, req_prompt = compose_task_prompt (task_prompt t) upstream,
      req_description = Some (''plan task `'' @ task_id t @ ''`''), req_independent = True,
      req_artifact = artifact t\<rparr>"

subsection \<open>One layer\<close>

definition error_value :: "string \<Rightarrow> json" where
  "error_value e = JObject [(''error'', JString e)]"

definition record_outcome :: "'i PlanEnv \<Rightarrow> string \<Rightarrow> PlanTaskSpec \<Rightarrow> nat \<Rightarrow> TaskOutcome \<Rightarrow> RunState \<Rightarrow> RunState" where
  "record_outcome env pid t i oc st =
     (let st' = checkpoint env pid t oc st in st'\<lparr>rs_outcomes := (rs_outcomes st')[i := Some oc]\<rparr>)"

type_synonym staged = "RunState \<times> bool \<times> (nat \<times> DelegateRequest) list"  \<comment> \<open>with \<open>halt_hit\<close> and \<open>runnable\<close>\<close>

definition stage_task :: "'i PlanEnv \<Rightarrow> PlanSpec \<Rightarrow> string \<Rightarrow> nat \<Rightarrow> staged \<Rightarrow> staged option" where
  "stage_task env plan pid i acc =
     (case acc of (st, halt_hit, runnable) \<Rightarrow>
        if length (rs_outcomes st) \<le> i \<or> length (plan_tasks plan) \<le> i then None
        else if rs_outcomes st ! i \<noteq> None then Some (st, halt_hit, runnable)
        else
          let t = plan_tasks plan ! i in
          case upstream_of (show_json env) (plan_tasks plan) (rs_outcomes st) (depends_on t) of
            None \<Rightarrow> None
          | Some (upstream, blocked) \<Rightarrow>
              if blocked then
                Some (record_outcome env pid t i
                        \<lparr>oc_status = ''skipped'', oc_value = error_value ''upstream task did not complete OK''\<rparr> st,
                      halt_hit, runnable)
              else
                let req = plan_request t upstream in
                case validate_task (pe_tool env) DELEGATE_ROOT_PARENT 0 req of
                  Some error \<Rightarrow>
                    Some (record_outcome env pid t i \<lparr>oc_status = ''failed'', oc_value = error_value error\<rparr> st,
                          halt_hit \<or> on_failure t = Halt, runnable)
                | None \<Rightarrow> Some (st, halt_hit, runnable @ [(i, req)]))"

fun stage_layer :: "'i PlanEnv \<Rightarrow> PlanSpec \<Rightarrow> string \<Rightarrow> nat list \<Rightarrow> staged \<Rightarrow> staged option" where
  "stage_layer env plan pid [] acc = Some acc"
| "stage_layer env plan pid (i # is) acc = Option.bind (stage_task env plan pid i acc) (stage_layer env plan pid is)"

definition run_call :: "'i PlanEnv \<Rightarrow> nat \<Rightarrow> DelegateRequest \<Rightarrow> TaskOutcome" where
  "run_call env k req =
     (let value = run_single (turn_env env k) (inherited env k) req
      in \<lparr>oc_status = (if json_get value ''error'' \<noteq> None then ''failed'' else ''ok''), oc_value = value\<rparr>)"

text \<open>The scan for failure edges over a batch and its results.\<close>

fun retry_scan :: "PlanTaskSpec list \<Rightarrow> ((nat \<times> DelegateRequest) \<times> TaskOutcome) list
    \<Rightarrow> bool list \<times> bool \<times> (nat \<times> DelegateRequest) list \<Rightarrow> bool list \<times> bool \<times> (nat \<times> DelegateRequest) list" where
  "retry_scan ts [] acc = acc"
| "retry_scan ts (((i, req), oc) # rest) (retried, halt_hit, batch) =
     retry_scan ts rest
       (if oc_status oc \<noteq> ''failed'' then (retried, halt_hit, batch)
        else if on_failure (ts ! i) = Retry \<and> \<not> retried ! i then (retried[i := True], halt_hit, batch @ [(i, req)])
        else (retried, halt_hit \<or> on_failure (ts ! i) = Halt, batch))"

definition retry_task :: "'i PlanEnv \<Rightarrow> PlanSpec \<Rightarrow> string \<Rightarrow> RunState \<Rightarrow> nat \<times> DelegateRequest \<Rightarrow> RunState" where
  "retry_task env plan pid st call =
     (case call of (i, req) \<Rightarrow>
        let st' = record_outcome env pid (plan_tasks plan ! i) i (run_call env (length (rs_calls st)) req)
                    (st\<lparr>rs_calls := rs_calls st @ [(i, req)]\<rparr>)
        in st'\<lparr>rs_retries := Suc (rs_retries st')\<rparr>)"

definition batch_results :: "'i PlanEnv \<Rightarrow> nat \<Rightarrow> (nat \<times> DelegateRequest) list \<Rightarrow> TaskOutcome list" where
  "batch_results env k batch = map (\<lambda>(n, (_, req)). run_call env n req) (enumerate k batch)"

definition run_batch :: "'i PlanEnv \<Rightarrow> PlanSpec \<Rightarrow> string \<Rightarrow> (nat \<times> DelegateRequest) list \<Rightarrow> RunState \<times> bool \<Rightarrow> RunState \<times> bool" where
  "run_batch env plan pid batch acc =
     (case acc of (st, halt_hit) \<Rightarrow>
        let results = batch_results env (length (rs_calls st)) batch;
            st1 = st\<lparr>rs_calls := rs_calls st @ batch\<rparr>;
            outcomes = zip batch results
        in case retry_scan (plan_tasks plan) outcomes (rs_retried st1, halt_hit, []) of
             (retried, halt_hit', retry_batch) \<Rightarrow>
               let st2 = foldl (\<lambda>s ((i, _), oc). checkpoint env pid (plan_tasks plan ! i) oc s)
                           (st1\<lparr>rs_retried := retried\<rparr>) outcomes;
                   st3 = st2\<lparr>rs_outcomes := foldl (\<lambda>os ((i, _), oc). os[i := Some oc]) (rs_outcomes st2) outcomes\<rparr>
               in (foldl (retry_task env plan pid) st3 retry_batch, halt_hit'))"

definition run_layer :: "'i PlanEnv \<Rightarrow> PlanSpec \<Rightarrow> string \<Rightarrow> nat list \<Rightarrow> RunState \<Rightarrow> (RunState \<times> bool) option" where
  "run_layer env plan pid layer st =
     (case stage_layer env plan pid layer (st, False, []) of
        None \<Rightarrow> None
      | Some (st', halt_hit, runnable) \<Rightarrow>
          Some (foldl (\<lambda>acc batch. run_batch env plan pid batch acc) (st', halt_hit)
                  (chunks (max 1 (pe_max_concurrent env)) runnable)))"

fun run_layers :: "'i PlanEnv \<Rightarrow> PlanSpec \<Rightarrow> string \<Rightarrow> nat list list \<Rightarrow> RunState \<Rightarrow> (RunState \<times> bool) option" where
  "run_layers env plan pid [] st = Some (st, False)"
| "run_layers env plan pid (layer # layers) st =
     (case run_layer env plan pid layer st of
        None \<Rightarrow> None
      | Some (st', halt_hit) \<Rightarrow> if halt_hit then Some (st', True) else run_layers env plan pid layers st')"

subsection \<open>Starting a run\<close>

text \<open>The replay of checkpoints: the rows of the plan that are ok and still name the same agent.\<close>

fun replay_rows :: "PlanTaskSpec list \<Rightarrow> int \<Rightarrow> (string \<times> WorkflowTaskRow) list
    \<Rightarrow> TaskOutcome option list \<times> (string \<times> int) list \<Rightarrow> TaskOutcome option list \<times> (string \<times> int) list" where
  "replay_rows ts now [] acc = acc"
| "replay_rows ts now ((tid, row) # rows) (outcomes, ages) =
     replay_rows ts now rows
       (if wt_status row \<noteq> ''ok'' then (outcomes, ages)
        else case index_of ts tid of
               None \<Rightarrow> (outcomes, ages)
             | Some i \<Rightarrow>
                 if task_agent (ts ! i) \<noteq> wt_agent row then (outcomes, ages)
                 else (outcomes[i := Some \<lparr>oc_status = ''ok'',
                         oc_value = JObject [(''response'', JString (case wt_response row of Some r \<Rightarrow> r | None \<Rightarrow> []))]\<rparr>],
                       ages @ [(tid, max 0 (now - wt_updated_at row))]))"

record PlanStart =
  ps_plan_id :: string
  ps_resumed :: bool
  ps_ages :: "(string \<times> int) list"

definition start_resumed ::
  "'i PlanEnv \<Rightarrow> PlanSpec \<Rightarrow> string \<Rightarrow> RunState \<Rightarrow> (PlanStart, string) result \<times> RunState" where
  "start_resumed env plan rid st =
     (let k = rs_tick st in
      case load_plan (db_fault env k) (rs_db st) rid of
        Err e \<Rightarrow> (Err (''plan store read failed: '' @ show_db_error env e), st\<lparr>rs_tick := Suc k\<rparr>)
      | Ok None \<Rightarrow> (Err (''unknown plan '' @ rid), st\<lparr>rs_tick := Suc k\<rparr>)
      | Ok (Some row) \<Rightarrow>
          if wp_status row \<noteq> ''running'' then
            (Err (''plan '' @ rid @ '' already terminal ('' @ wp_status row @ '')''), st\<lparr>rs_tick := Suc k\<rparr>)
          else
            (case claim_plan (db_fault env (k + 1)) (rs_db st) rid (fresh_uuid env) (clock env (k + 1)) of
               (db', claimed) \<Rightarrow>
                 let st' = st\<lparr>rs_db := db', rs_tick := k + 2\<rparr> in
                 case claimed of
                   Err e \<Rightarrow> (Err (''plan claim failed: '' @ show_db_error env e), st')
                 | Ok False \<Rightarrow> (Err (''plan '' @ rid @ '' is already being resumed by another run''), st')
                 | Ok True \<Rightarrow>
                     (case replay_rows (plan_tasks plan) (clock env (k + 2))
                             (case load_task_rows (db_fault env (k + 3)) db' rid of Ok rows \<Rightarrow> rows | Err _ \<Rightarrow> [])
                             (rs_outcomes st', []) of
                        (outcomes, ages) \<Rightarrow>
                          (Ok \<lparr>ps_plan_id = rid, ps_resumed = True, ps_ages = ages\<rparr>,
                           st'\<lparr>rs_outcomes := outcomes, rs_tick := k + 4\<rparr>))))"

definition start_fresh :: "'i PlanEnv \<Rightarrow> PlanSpec \<Rightarrow> json \<Rightarrow> RunState \<Rightarrow> PlanStart \<times> RunState" where
  "start_fresh env plan args st =
     (let k = rs_tick st in
      (\<lparr>ps_plan_id = fresh_uuid env, ps_resumed = False, ps_ages = []\<rparr>,
       st\<lparr>rs_db := fst (create_plan (db_fault env k) (rs_db st) (fresh_uuid env) (plan_name plan) (show_json env args)
                         (clock env k)),
          rs_tick := Suc k\<rparr>))"

definition plan_start :: "'i PlanEnv \<Rightarrow> PlanSpec \<Rightarrow> json \<Rightarrow> RunState \<Rightarrow> (PlanStart, string) result \<times> RunState" where
  "plan_start env plan args st =
     (case plan_db env st of (have_db, st') \<Rightarrow>
        case (have_db, json_get_str args ''resume_plan_id'') of
          (True, Some rid) \<Rightarrow> start_resumed env plan rid st'
        | (True, None) \<Rightarrow> (case start_fresh env plan args st' of (ps, st'') \<Rightarrow> (Ok ps, st''))
        | (False, Some _) \<Rightarrow> (Err ''plan store unavailable; resume is impossible without state.db'', st')
        | (False, None) \<Rightarrow> (Ok \<lparr>ps_plan_id = [], ps_resumed = False, ps_ages = []\<rparr>, st'))"

subsection \<open>The result of a run\<close>

definition final_outcome :: "TaskOutcome option \<Rightarrow> TaskOutcome" where
  "final_outcome oc =
     (case oc of Some x \<Rightarrow> x
      | None \<Rightarrow> \<lparr>oc_status = ''skipped'', oc_value = error_value ''never scheduled''\<rparr>)"

definition outcome_excerpt :: "json \<Rightarrow> string" where
  "outcome_excerpt v =
     (case json_get_str v ''response'' of
        Some r \<Rightarrow> r
      | None \<Rightarrow> (case json_get_str v ''error'' of Some e \<Rightarrow> e | None \<Rightarrow> []))"

definition summary_line :: "PlanTaskSpec \<Rightarrow> TaskOutcome \<Rightarrow> string" where
  "summary_line t oc =
     ''['' @ oc_status oc @ ''] '' @ task_id t @ ''/'' @ task_agent t @ '': '' @ take_chars 300 (outcome_excerpt (oc_value oc))"

definition copied :: "json \<Rightarrow> string \<Rightarrow> (string \<times> json) list" where
  "copied v k = (case json_get v k of Some x \<Rightarrow> [(k, x)] | None \<Rightarrow> [])"

definition task_row :: "PlanTaskSpec \<Rightarrow> TaskOutcome \<Rightarrow> json" where
  "task_row t oc =
     JObject ([(''id'', JString (task_id t)), (''agent'', JString (task_agent t)), (''status'', JString (oc_status oc))]
       @ copied (oc_value oc) ''response'' @ copied (oc_value oc) ''error''
       @ copied (oc_value oc) ''artifact_path'' @ copied (oc_value oc) ''summary'')"

definition review_task :: "'i PlanEnv \<Rightarrow> string \<Rightarrow> ReviewTask" where
  "review_task env summary =
     \<lparr>task_uid = review_uid env, user_input = summary,
      metadata = [''sensitivity'' \<mapsto> sensitivity_str (session_sensitivity env)]\<rparr>"

definition json_opt_str :: "string option \<Rightarrow> json" where
  "json_opt_str s = (case s of Some x \<Rightarrow> JString x | None \<Rightarrow> JNull)"

fun first_failed :: "PlanTaskSpec list \<Rightarrow> TaskOutcome option list \<Rightarrow> (string \<times> string) option" where
  "first_failed (t # ts) (oc # ocs) =
     (case oc of
        Some x \<Rightarrow>
          if oc_status x = ''failed'' then
            Some (task_id t, case json_get_str (oc_value x) ''error'' of Some e \<Rightarrow> e | None \<Rightarrow> ''task failed'')
          else first_failed ts ocs
      | None \<Rightarrow> first_failed ts ocs)"
| "first_failed _ _ = None"

definition unnamed :: "PlanSpec \<Rightarrow> string" where
  "unnamed plan = (case plan_name plan of Some n \<Rightarrow> n | None \<Rightarrow> ''<unnamed>'')"

definition record_plan_rewind :: "'i PlanEnv \<Rightarrow> PlanSpec \<Rightarrow> TaskOutcome option list \<Rightarrow> string option" where
  "record_plan_rewind env plan outcomes =
     (case first_failed (plan_tasks plan) outcomes of
        None \<Rightarrow> None
      | Some (tid, error) \<Rightarrow>
          write_rewind env (''plan `'' @ unnamed plan @ ''` task `'' @ tid @ ''` failed'') error)"

record Tally =
  n_ok :: nat
  n_failed :: nat
  n_skipped :: nat

definition tally :: "TaskOutcome list \<Rightarrow> Tally" where
  "tally ocs =
     \<lparr>n_ok = length (filter (\<lambda>oc. oc_status oc = ''ok'') ocs),
      n_failed = length (filter (\<lambda>oc. oc_status oc = ''failed'') ocs),
      n_skipped = length (filter (\<lambda>oc. oc_status oc \<noteq> ''ok'' \<and> oc_status oc \<noteq> ''failed'') ocs)\<rparr>"

definition final_status :: "Tally \<Rightarrow> string" where
  "final_status n = (if n_failed n + n_skipped n = 0 then ''completed'' else ''failed'')"

definition plan_audit :: "'i PlanEnv \<Rightarrow> PlanSpec \<Rightarrow> PlanStart \<Rightarrow> Tally \<Rightarrow> PipelineResult \<Rightarrow> RunState \<Rightarrow> bool \<Rightarrow> json" where
  "plan_audit env plan ps n gate st halted =
     JObject ([(''kind'', JString ''loop.plan.completed''),
               (''plan'', JString (unnamed plan)),
               (''plan_id'', if ps_plan_id ps = [] then JNull else JString (ps_plan_id ps)),
               (''tasks_total'', JNumber (int (length (plan_tasks plan)))),
               (''tasks_ok'', JNumber (int (n_ok n))),
               (''tasks_failed'', JNumber (int (n_failed n))),
               (''tasks_skipped'', JNumber (int (n_skipped n))),
               (''plan_approved'', JBool (plan_approved gate)),
               (''delivery_ready'', JBool (delivery_ready gate)),
               (''duration_ms'', JNumber (int (plan_elapsed_ms env)))]
       @ (if ps_resumed ps \<and> ps_ages ps \<noteq> [] then
            [(''replayed_checkpoints'', JArray (map (\<lambda>(tid, age). JObject [(''task'', JString tid),
                (''checkpoint_age_secs'', JNumber age)]) (ps_ages ps)))] else [])
       @ (if 0 < rs_retries st then [(''task_retries'', JNumber (int (rs_retries st)))] else [])
       @ (if halted then [(''halted'', JBool True)] else [])
       @ (if 0 < n_failed n then
            (case record_plan_rewind env plan (rs_outcomes st) of
               Some path \<Rightarrow> [(''rewind'', JString path)] | None \<Rightarrow> []) else []))"

definition complete_row :: "'i PlanEnv \<Rightarrow> string \<Rightarrow> string \<Rightarrow> string \<Rightarrow> PipelineResult \<Rightarrow> RunState \<Rightarrow> RunState" where
  "complete_row env pid status summary gate st =
     (if pid = [] then st
      else case plan_db env st of
             (False, st') \<Rightarrow> st'
           | (True, st') \<Rightarrow>
               st'\<lparr>rs_db := fst (complete_plan (db_fault env (rs_tick st')) (rs_db st') pid status (Some summary)
                        (Some (plan_approved gate)) (Some (delivery_ready gate)) (clock env (rs_tick st'))),
                   rs_tick := Suc (rs_tick st')\<rparr>)"

definition plan_output :: "PlanSpec \<Rightarrow> PlanStart \<Rightarrow> json list \<Rightarrow> string \<Rightarrow> PipelineResult \<Rightarrow> json" where
  "plan_output plan ps rows summary gate =
     JObject ([(''plan'', json_opt_str (plan_name plan)), (''tasks'', JArray rows), (''summary'', JString summary),
               (''hermes'', JObject [(''plan_approved'', JBool (plan_approved gate)),
                                    (''delivery_ready'', JBool (delivery_ready gate))]),
               (''resumed'', JBool (ps_resumed ps))]
       @ (if ps_plan_id ps = [] then [] else [(''plan_id'', JString (ps_plan_id ps))]))"

record PlanRun =
  pr_output :: json
  pr_audit :: "json option"
  pr_start :: "PlanStart option"
  pr_state :: RunState
  pr_halted :: bool

definition plan_refused :: "string \<Rightarrow> RunState \<Rightarrow> PlanRun" where
  "plan_refused e st =
     \<lparr>pr_output = error_value e, pr_audit = None, pr_start = None, pr_state = st, pr_halted = False\<rparr>"

definition plan_finish :: "'i PlanEnv \<Rightarrow> PlanSpec \<Rightarrow> json \<Rightarrow> PlanStart \<Rightarrow> RunState \<Rightarrow> bool \<Rightarrow> PlanRun option" where
  "plan_finish env plan args ps st halted =
     (let outcomes = map final_outcome (rs_outcomes st);
          rows = map2 task_row (plan_tasks plan) outcomes;
          summary = str_join [CHR 10] (map2 summary_line (plan_tasks plan) outcomes);
          n = tally outcomes
      in case execute (show_score env) (pe_pipeline env) (review_task env summary) (show_json env args) (\<lambda>d. d) of
           None \<Rightarrow> None
         | Some gate \<Rightarrow>
             Some \<lparr>pr_output = plan_output plan ps rows summary gate,
                   pr_audit = Some (plan_audit env plan ps n gate st halted),
                   pr_start = Some ps,
                   pr_state = complete_row env (ps_plan_id ps) (final_status n) summary gate st,
                   pr_halted = halted\<rparr>)"

definition fresh_state :: "WorkflowDb \<Rightarrow> bool \<Rightarrow> PlanSpec \<Rightarrow> RunState" where
  "fresh_state db cached plan =
     \<lparr>rs_db = db, rs_client = cached, rs_tick = 0, rs_outcomes = replicate (length (plan_tasks plan)) None,
      rs_retried = replicate (length (plan_tasks plan)) False, rs_retries = 0, rs_calls = []\<rparr>"

definition plan_invoke :: "'i PlanEnv \<Rightarrow> WorkflowDb \<Rightarrow> bool \<Rightarrow> json \<Rightarrow> PlanRun option" where
  "plan_invoke env db cached args =
     (case parse_plan args of
        Err e \<Rightarrow> Some (plan_refused e (fresh_state db cached \<lparr>plan_name = None, plan_tasks = []\<rparr>))
      | Ok plan \<Rightarrow>
     (case topological_layers plan of
        None \<Rightarrow> None
      | Some (Err e) \<Rightarrow> Some (plan_refused e (fresh_state db cached plan))
      | Some (Ok layers) \<Rightarrow>
     (case plan_start env plan args (fresh_state db cached plan) of
        (Err e, st) \<Rightarrow> Some (plan_refused e st)
      | (Ok ps, st) \<Rightarrow>
     (case run_layers env plan (ps_plan_id ps) layers st of
        None \<Rightarrow> None
      | Some (st', halted) \<Rightarrow> plan_finish env plan args ps st' halted))))"

end
