(* ===== verification/Plan_Run.thy ===== *)
theory Plan_Run
  imports Plan_Execute
begin

section \<open>What a run of a plan guarantees\<close>

text \<open>
  The correctness of the walk of \<open>Plan_Execute\<close>. An invariant says which tasks are settled and that
  the others are untouched; it is established for a staged task, a batch, a layer and the
  whole walk, and gives the order of execution, the bound on sub-turns and the meaning of the
  halt edge.
\<close>

subsection \<open>Frame lemmas\<close>

lemma plan_db_frame [simp]:
  "rs_outcomes (snd (plan_db env st)) = rs_outcomes st" "rs_retried (snd (plan_db env st)) = rs_retried st"
  "rs_calls (snd (plan_db env st)) = rs_calls st" "rs_db (snd (plan_db env st)) = rs_db st"
  by (simp_all add: plan_db_def)

lemma checkpoint_frame [simp]:
  "rs_outcomes (checkpoint env pid t oc st) = rs_outcomes st" "rs_retried (checkpoint env pid t oc st) = rs_retried st"
  "rs_calls (checkpoint env pid t oc st) = rs_calls st"
  using plan_db_frame [of env st] by (cases "plan_db env st"; auto simp: checkpoint_def split: bool.split)+

lemma record_outcome_frame [simp]:
  "rs_outcomes (record_outcome env pid t i oc st) = (rs_outcomes st)[i := Some oc]"
  "rs_retried (record_outcome env pid t i oc st) = rs_retried st"
  "rs_calls (record_outcome env pid t i oc st) = rs_calls st"
  by (simp_all add: record_outcome_def Let_def)

lemma checkpoints_frame [simp]:
  "rs_outcomes (foldl (\<lambda>s ((i, _), oc). checkpoint env pid (ts ! i) oc s) st zs) = rs_outcomes st"
  "rs_retried (foldl (\<lambda>s ((i, _), oc). checkpoint env pid (ts ! i) oc s) st zs) = rs_retried st"
  "rs_calls (foldl (\<lambda>s ((i, _), oc). checkpoint env pid (ts ! i) oc s) st zs) = rs_calls st"
  by (induction zs arbitrary: st) (auto split: prod.split)

subsection \<open>The outputs of dependencies\<close>

definition ok_at :: "TaskOutcome option list \<Rightarrow> nat \<Rightarrow> bool" where
  "ok_at ocs j \<longleftrightarrow> (\<exists>oc. ocs ! j = Some oc \<and> oc_status oc = ''ok'')"

definition dep_indices :: "PlanTaskSpec list \<Rightarrow> nat \<Rightarrow> nat set" where
  "dep_indices ts i = {j. \<exists>dep\<in>set (depends_on (ts ! i)). index_of ts dep = Some j}"

lemma upstream_of_total:
  assumes "set deps \<subseteq> task_id ` set ts" "length ocs = length ts"
  shows "\<exists>ups b. upstream_of sj ts ocs deps = Some (ups, b)"
  using assms
proof (induction deps)
  case (Cons dep deps)
  then obtain j where "index_of ts dep = Some j" by (metis index_of_None_iff insert_subset list.simps(15) not_Some_eq)
  with Cons index_of_Some [OF this] show ?case by (auto split: option.splits)
qed auto

lemma upstream_of_cong:
  assumes "length ocs' = length ocs" "\<forall>dep\<in>set deps. \<forall>j. index_of ts dep = Some j \<longrightarrow> ocs' ! j = ocs ! j"
  shows "upstream_of sj ts ocs' deps = upstream_of sj ts ocs deps"
  using assms(2)
proof (induction deps)
  case (Cons dep deps)
  then have IH: "upstream_of sj ts ocs' deps = upstream_of sj ts ocs deps" by simp
  have "index_of ts dep = Some j \<Longrightarrow> ocs' ! j = ocs ! j" for j using Cons.prems by simp
  then show ?case
    by (cases "index_of ts dep"; cases "upstream_of sj ts ocs deps") (auto simp: assms(1) IH)
qed simp

lemma upstream_of_blocked:
  "upstream_of sj ts ocs deps = Some (ups, b)
   \<Longrightarrow> b \<longleftrightarrow> (\<exists>dep\<in>set deps. \<exists>j. index_of ts dep = Some j \<and> \<not> ok_at ocs j)"
  by (induction deps arbitrary: ups b) (auto simp: ok_at_def split: option.splits if_splits, blast)

subsection \<open>Positions of calls\<close>

definition calls_of :: "(nat \<times> 'r) list \<Rightarrow> nat \<Rightarrow> nat list" where
  "calls_of cs i = filter (\<lambda>k. fst (cs ! k) = i) [0..<length cs]"

lemma calls_of_append: "calls_of (xs @ ys) i = calls_of xs i @ map ((+) (length xs)) (calls_of ys i)"
proof -
  have "[length xs..<length xs + length ys] = map ((+) (length xs)) [0..<length ys]"
    by (rule nth_equalityI) auto
  then have "calls_of (xs @ ys) i = filter (\<lambda>k. fst ((xs @ ys) ! k) = i) [0..<length xs]
      @ filter (\<lambda>k. fst ((xs @ ys) ! k) = i) (map ((+) (length xs)) [0..<length ys])"
    by (simp add: calls_of_def upt_add_eq_append [of 0 "length xs" "length ys"])
  also have "filter (\<lambda>k. fst ((xs @ ys) ! k) = i) [0..<length xs] = calls_of xs i"
    unfolding calls_of_def by (rule filter_cong) (auto simp: nth_append)
  also have "filter (\<lambda>k. fst ((xs @ ys) ! k) = i) (map ((+) (length xs)) [0..<length ys])
      = map ((+) (length xs)) (calls_of ys i)"
    by (simp add: calls_of_def filter_map comp_def nth_append)
  finally show ?thesis .
qed

lemma calls_of_Nil_iff: "calls_of cs i = [] \<longleftrightarrow> i \<notin> fst ` set cs"
proof -
  have "calls_of cs i = [] \<longleftrightarrow> (\<forall>k<length cs. fst (cs ! k) \<noteq> i)" by (auto simp: calls_of_def filter_empty_conv)
  also have "\<dots> \<longleftrightarrow> i \<notin> set (map fst cs)" by (metis in_set_conv_nth length_map nth_map)
  finally show ?thesis by simp
qed

lemma filter_eq_upt: "p < n \<Longrightarrow> filter (\<lambda>k. k = p) [0..<n] = [p]"
  by (induction n) (auto simp: less_Suc_eq)

lemma calls_of_distinct:
  assumes "distinct (map fst cs)" "p < length cs"
  shows "calls_of cs (fst (cs ! p)) = [p]"
proof -
  have eq: "fst (cs ! k) = fst (cs ! p) \<longleftrightarrow> k = p" if "k < length cs" for k
    using nth_eq_iff_index_eq [OF assms(1), of k p] assms(2) that by simp
  have "calls_of cs (fst (cs ! p)) = filter (\<lambda>k. k = p) [0..<length cs]"
    unfolding calls_of_def by (rule filter_cong) (auto simp: eq)
  also have "\<dots> = [p]"
    by (rule filter_eq_upt [OF assms(2)])
  finally show ?thesis .
qed

lemma retry_scan_spec:
  assumes "distinct (map (fst \<circ> fst) zs)" "\<forall>z\<in>set zs. fst (fst z) < length r \<and> \<not> r ! fst (fst z)"
  shows "\<exists>r' h'. retry_scan ts zs (r, h, b) =
           (r', h', b @ map fst (filter (\<lambda>((i, _), oc). oc_status oc = ''failed'' \<and> on_failure (ts ! i) = Retry) zs))
         \<and> length r' = length r \<and> (\<forall>j. j \<notin> (fst \<circ> fst) ` set zs \<longrightarrow> r' ! j = r ! j)
         \<and> (h' \<longleftrightarrow> h \<or> (\<exists>((i, _), oc)\<in>set zs. oc_status oc = ''failed'' \<and> on_failure (ts ! i) = Halt))"
  using assms
proof (induction zs arbitrary: r h b)
  case (Cons z zs)
  obtain i req oc where z: "z = ((i, req), oc)" by (metis surj_pair)
  show ?case
  proof (cases "oc_status oc = ''failed'' \<and> on_failure (ts ! i) = Retry")
    case True
    have "\<forall>z\<in>set zs. fst (fst z) < length (r[i := True]) \<and> \<not> r[i := True] ! fst (fst z)"
      using Cons.prems z by (auto simp: nth_list_update)
    from Cons.IH [OF _ this, of h "b @ [(i, req)]"] Cons.prems(1) True Cons.prems(2) z show ?thesis
      by (auto simp: nth_list_update)
  next
    case False
    let ?h = "h \<or> oc_status oc = ''failed'' \<and> on_failure (ts ! i) = Halt"
    have h2: "retry_scan ts (z # zs) (r, h, b) = retry_scan ts zs (r, ?h, b)" using False z Cons.prems(2) by auto
    from Cons.IH [of r ?h b] Cons.prems False z show ?thesis unfolding h2 by auto
  qed
qed simp

lemma foldl_outcomes:
  assumes "distinct (map (fst \<circ> fst) zs)"
  shows "length (foldl (\<lambda>os ((i, _), oc). os[i := Some oc]) os zs) = length os"
    "j \<notin> (fst \<circ> fst) ` set zs \<Longrightarrow> foldl (\<lambda>os ((i, _), oc). os[i := Some oc]) os zs ! j = os ! j"
    "((j, req), oc) \<in> set zs \<Longrightarrow> j < length os \<Longrightarrow> foldl (\<lambda>os ((i, _), oc). os[i := Some oc]) os zs ! j = Some oc"
  using assms
proof (induction zs arbitrary: os)
  case (Cons z zs)
  obtain i r c where z: "z = ((i, r), c)" by (metis surj_pair)
  { case 1 then show ?case using Cons.IH(1) [of "os[i := Some c]"] z by simp }
  { case 2 then show ?case using Cons.IH(2) [of "os[i := Some c]"] z by auto }
  { case 3
    then show ?case using Cons.IH(2) [of "os[i := Some c]"] Cons.IH(3) [of "os[i := Some c]"] z
      by (cases "((j, req), oc) \<in> set zs") auto }
qed auto

lemma retry_fold_conj:
  assumes "distinct (map fst rb)" "\<forall>c\<in>set rb. fst c < length (rs_outcomes st)"
  shows "rs_calls (foldl (retry_task env plan pid) st rb) = rs_calls st @ rb
    \<and> rs_retried (foldl (retry_task env plan pid) st rb) = rs_retried st
    \<and> length (rs_outcomes (foldl (retry_task env plan pid) st rb)) = length (rs_outcomes st)
    \<and> (\<forall>j. j \<notin> fst ` set rb \<longrightarrow> rs_outcomes (foldl (retry_task env plan pid) st rb) ! j = rs_outcomes st ! j)
    \<and> (\<forall>p<length rb. rs_outcomes (foldl (retry_task env plan pid) st rb) ! fst (rb ! p)
           = Some (run_call env (length (rs_calls st) + p) (snd (rb ! p))))"
  using assms
proof (induction rb arbitrary: st)
  case (Cons c rb)
  let ?s = "retry_task env plan pid st c"
  have s: "rs_calls ?s = rs_calls st @ [c]" "rs_retried ?s = rs_retried st"
    "rs_outcomes ?s = (rs_outcomes st)[fst c := Some (run_call env (length (rs_calls st)) (snd c))]"
    by (auto simp: retry_task_def Let_def split: prod.split)
  have d: "distinct (map fst rb)" "\<forall>c\<in>set rb. fst c < length (rs_outcomes ?s)" "fst c \<notin> fst ` set rb"
    using Cons.prems by (auto simp: s)
  from Cons.IH [OF d(1,2)] d(3) Cons.prems(2) show ?case
    by (auto simp: s nth_Cons split: nat.split)
qed simp

lemma retry_fold:
  assumes "distinct (map fst rb)" "\<forall>c\<in>set rb. fst c < length (rs_outcomes st)"
  shows "rs_calls (foldl (retry_task env plan pid) st rb) = rs_calls st @ rb"
    "rs_retried (foldl (retry_task env plan pid) st rb) = rs_retried st"
    "length (rs_outcomes (foldl (retry_task env plan pid) st rb)) = length (rs_outcomes st)"
    "j \<notin> fst ` set rb \<Longrightarrow> rs_outcomes (foldl (retry_task env plan pid) st rb) ! j = rs_outcomes st ! j"
    "p < length rb \<Longrightarrow> rs_outcomes (foldl (retry_task env plan pid) st rb) ! fst (rb ! p)
       = Some (run_call env (length (rs_calls st) + p) (snd (rb ! p)))"
  using retry_fold_conj [OF assms] by blast+

subsection \<open>A batch\<close>

text \<open>What the calls of one task and its outcome look like: one call, or two when it failed and its
  edge is \<open>retry\<close>; always with the same request; the outcome is that of the last call.\<close>

definition ran :: "'i PlanEnv \<Rightarrow> FailureAction \<Rightarrow> (nat \<times> DelegateRequest) list \<Rightarrow> nat \<Rightarrow> DelegateRequest
    \<Rightarrow> TaskOutcome option \<Rightarrow> bool" where
  "ran env act cs i req oc \<longleftrightarrow>
     (\<forall>k\<in>set (calls_of cs i). snd (cs ! k) = req) \<and>
     ((\<exists>k. calls_of cs i = [k] \<and> oc = Some (run_call env k req)
           \<and> \<not> (act = Retry \<and> oc_status (run_call env k req) = ''failed''))
      \<or> (\<exists>k k'. calls_of cs i = [k, k'] \<and> act = Retry \<and> oc_status (run_call env k req) = ''failed''
               \<and> oc = Some (run_call env k' req)))"

definition halting :: "PlanSpec \<Rightarrow> TaskOutcome option list \<Rightarrow> nat \<Rightarrow> bool" where
  "halting plan ocs i \<longleftrightarrow>
     on_failure (plan_tasks plan ! i) = Halt \<and> (\<exists>oc. ocs ! i = Some oc \<and> oc_status oc = ''failed'')"

lemma length_batch_results [simp]: "length (batch_results env k batch) = length batch"
  by (simp add: batch_results_def)

lemma batch_results_nth:
  "m < length batch \<Longrightarrow> batch_results env k batch ! m = run_call env (k + m) (snd (batch ! m))"
  by (simp add: batch_results_def nth_enumerate_eq split: prod.split)

lemma map_fst_zip_batch [simp]: "map (fst \<circ> fst) (zip batch (batch_results env k batch)) = map fst batch"
  by (metis length_batch_results map_fst_zip map_map)

lemma idx_zip_batch [simp]: "(fst \<circ> fst) ` set (zip batch (batch_results env k batch)) = fst ` set batch"
  by (metis list.set_map map_fst_zip_batch)

lemma distinct_map_filter_fst:
  "distinct (map (fst \<circ> fst) zs) \<Longrightarrow> distinct (map fst (map fst (filter Q zs)))"
  by (induction zs) auto

lemma run_batch_spec:
  fixes batch :: "(nat \<times> DelegateRequest) list"
  assumes dist: "distinct (map fst batch)"
    and ok: "\<forall>c\<in>set batch. fst c < length (rs_outcomes st) \<and> fst c < length (rs_retried st)
               \<and> \<not> rs_retried st ! fst c \<and> fst c \<notin> fst ` set (rs_calls st)"
    and run: "run_batch env plan pid batch (st, h) = (st', h')"
  obtains rb where "rs_calls st' = rs_calls st @ batch @ rb" "fst ` set rb \<subseteq> fst ` set batch"
    "length (rs_outcomes st') = length (rs_outcomes st)" "length (rs_retried st') = length (rs_retried st)"
    "\<And>j. j \<notin> fst ` set batch \<Longrightarrow> rs_outcomes st' ! j = rs_outcomes st ! j \<and> rs_retried st' ! j = rs_retried st ! j"
    "\<And>i req. (i, req) \<in> set batch
       \<Longrightarrow> ran env (on_failure (plan_tasks plan ! i)) (rs_calls st') i req (rs_outcomes st' ! i)"
    "h' \<longleftrightarrow> h \<or> (\<exists>i\<in>fst ` set batch. halting plan (rs_outcomes st') i)"
proof -
  let ?k = "length (rs_calls st)"
  define zs where "zs = zip batch (batch_results env ?k batch)"
  define Q where "Q = (\<lambda>((i, _ :: DelegateRequest), oc :: TaskOutcome). oc_status oc = ''failed'' \<and> on_failure (plan_tasks plan ! i) = Retry)"
  define rb where "rb = map fst (filter Q zs)"
  have dz: "distinct (map (fst \<circ> fst) zs)" using dist by (simp add: zs_def)
  have okz: "\<forall>z\<in>set zs. fst (fst z) < length (rs_retried st) \<and> \<not> rs_retried st ! fst (fst z)"
    using ok by (fastforce simp: zs_def dest: set_zip_leftD)
  from retry_scan_spec [OF dz okz, of "plan_tasks plan" h "[]"] obtain r' h2 where
    scan: "retry_scan (plan_tasks plan) zs (rs_retried st, h, []) = (r', h2, rb)"
    and r': "length r' = length (rs_retried st)" "\<And>j. j \<notin> fst ` set batch \<Longrightarrow> r' ! j = rs_retried st ! j"
    and h2: "h2 \<longleftrightarrow> h \<or> (\<exists>((i, _), oc)\<in>set zs. oc_status oc = ''failed'' \<and> on_failure (plan_tasks plan ! i) = Halt)"
    by (auto simp: rb_def Q_def zs_def simp flip: idx_zip_batch [of batch env ?k])
  define st2 where "st2 = foldl (\<lambda>s ((i, _), oc). checkpoint env pid (plan_tasks plan ! i) oc s)
      (st\<lparr>rs_calls := rs_calls st @ batch, rs_retried := r'\<rparr>) zs"
  define st3 where "st3 = st2\<lparr>rs_outcomes := foldl (\<lambda>os ((i, _), oc). os[i := Some oc]) (rs_outcomes st2) zs\<rparr>"
  have st': "st' = foldl (retry_task env plan pid) st3 rb" "h' = h2"
    using run scan by (simp_all add: run_batch_def Let_def st2_def st3_def zs_def)
  have c3: "rs_calls st3 = rs_calls st @ batch" "rs_retried st3 = r'" "rs_outcomes st2 = rs_outcomes st"
    by (simp_all add: st3_def st2_def)
  have l3: "length (rs_outcomes st3) = length (rs_outcomes st)"
    using foldl_outcomes(1) [OF dz] by (simp add: st3_def c3(3))
  have drb: "distinct (map fst rb)" unfolding rb_def by (rule distinct_map_filter_fst [OF dz])
  have srb: "set rb \<subseteq> set batch" by (auto simp: rb_def zs_def dest: set_zip_leftD)
  then have brb: "\<forall>c\<in>set rb. fst c < length (rs_outcomes st3)" using ok l3 by auto
  note rf = retry_fold [OF drb brb, where env = env and plan = plan and pid = pid, folded st'(1)]
  have calls: "rs_calls st' = rs_calls st @ batch @ rb" using rf(1) c3 by simp
  have other: "rs_outcomes st' ! j = rs_outcomes st ! j \<and> rs_retried st' ! j = rs_retried st ! j"
    if "j \<notin> fst ` set batch" for j
  proof -
    have "j \<notin> fst ` set rb" using that srb by auto
    moreover have "rs_outcomes st3 ! j = rs_outcomes st ! j"
      using foldl_outcomes(2) [OF dz, of j "rs_outcomes st"] that idx_zip_batch [of batch env ?k]
      by (simp add: st3_def c3(3) zs_def comp_def)
    ultimately show ?thesis using that rf(2,4) r'(2) c3 by simp
  qed
  have mine: "ran env (on_failure (plan_tasks plan ! i)) (rs_calls st') i req (rs_outcomes st' ! i)"
    if mem: "(i, req) \<in> set batch" for i req
  proof -
    from mem obtain m where m: "m < length batch" "batch ! m = (i, req)" by (auto simp: in_set_conv_nth)
    let ?oc = "run_call env (?k + m) req"
    have zm: "zs ! m = ((i, req), ?oc)" "m < length zs" using m by (simp_all add: zs_def batch_results_nth)
    then have zmem: "((i, req), ?oc) \<in> set zs" by (metis nth_mem)
    have "calls_of (rs_calls st) i = []" using ok mem by (fastforce simp: calls_of_Nil_iff)
    moreover have "calls_of batch i = [m]" using calls_of_distinct [OF dist m(1)] m(2) by simp
    ultimately have co: "calls_of (rs_calls st') i = (?k + m) # map ((+) (?k + length batch)) (calls_of rb i)"
      by (simp add: calls calls_of_append)
    have nm: "rs_calls st' ! (?k + m) = (i, req)" using m by (simp add: calls nth_append)
    have o3: "rs_outcomes st3 ! i = Some ?oc"
      using foldl_outcomes(3) [OF dz zmem, of "rs_outcomes st2"] ok mem by (auto simp: st3_def c3)
    show ?thesis
    proof (cases "Q ((i, req), ?oc)")
      case True
      with zmem have "(i, req) \<in> set rb" by (force simp: rb_def)
      then obtain p where p: "p < length rb" "rb ! p = (i, req)" by (auto simp: in_set_conv_nth)
      with calls_of_distinct [OF drb p(1)] have "calls_of rb i = [p]" by simp
      moreover have "rs_calls st' ! (?k + length batch + p) = (i, req)" using p by (simp add: calls nth_append)
      moreover have "rs_outcomes st' ! i = Some (run_call env (?k + length batch + p) req)"
        using rf(5) [OF p(1)] p(2) c3 by simp
      ultimately show ?thesis using True co nm by (auto simp: ran_def Q_def)
    next
      case False
      have "i \<notin> fst ` set rb"
      proof
        assume "i \<in> fst ` set rb"
        then obtain z where "z \<in> set zs" "Q z" "fst (fst z) = i" by (auto simp: rb_def)
        with zmem dz have "z = ((i, req), ?oc)"
          by (metis (no_types, lifting) comp_apply distinct_map fst_conv inj_on_def)
        with \<open>Q z\<close> False show False by simp
      qed
      then have "calls_of rb i = []" "rs_outcomes st' ! i = Some ?oc" using rf(4) o3 by (auto simp: calls_of_Nil_iff)
      with False co nm show ?thesis by (auto simp: ran_def Q_def)
    qed
  qed
  have "oc_status oc = ''failed'' \<and> on_failure (plan_tasks plan ! i) = Halt \<longleftrightarrow> halting plan (rs_outcomes st') i"
    if z: "((i, req), oc) \<in> set zs" for i req oc
  proof (cases "on_failure (plan_tasks plan ! i) = Halt")
    case True
    have "i \<notin> fst ` set rb"
    proof
      assume "i \<in> fst ` set rb"
      then obtain z' where "z' \<in> set zs" "Q z'" "fst (fst z') = i" by (auto simp: rb_def)
      then show False using True by (auto simp: Q_def)
    qed
    moreover have "i < length (rs_outcomes st2)" using z ok c3(3) by (fastforce simp: zs_def dest: set_zip_leftD)
    ultimately have "rs_outcomes st' ! i = Some oc"
      using rf(4) foldl_outcomes(3) [OF dz z, of "rs_outcomes st2"] by (simp add: st3_def)
    then show ?thesis using True by (simp add: halting_def)
  qed (simp add: halting_def)
  then have "(\<exists>((i, _), oc)\<in>set zs. oc_status oc = ''failed'' \<and> on_failure (plan_tasks plan ! i) = Halt)
      \<longleftrightarrow> (\<exists>i\<in>(fst \<circ> fst) ` set zs. halting plan (rs_outcomes st') i)" by force
  then have hh: "h' \<longleftrightarrow> h \<or> (\<exists>i\<in>fst ` set batch. halting plan (rs_outcomes st') i)"
    unfolding st'(2) h2 zs_def idx_zip_batch by simp
  show ?thesis
    by (rule that [OF calls _ _ _ other mine hh]) (use srb rf(2,3) l3 r'(1) c3 in auto)
qed

subsection \<open>The invariant of a run\<close>

text \<open>
  A task is settled when its outcome is what the code prescribes: a replayed outcome is kept and
  the task not run; a task with a dependency that is not ok is skipped and not run; one the
  gates refuse is failed and not run; any other was run on the prompt composed from the
  outcomes of its dependencies.
\<close>

definition settled :: "'i PlanEnv \<Rightarrow> PlanSpec \<Rightarrow> TaskOutcome option list \<Rightarrow> TaskOutcome option list
    \<Rightarrow> (nat \<times> DelegateRequest) list \<Rightarrow> nat \<Rightarrow> bool" where
  "settled env plan init ocs cs i \<longleftrightarrow>
     (if init ! i \<noteq> None then ocs ! i = init ! i \<and> i \<notin> fst ` set cs
      else case upstream_of (show_json env) (plan_tasks plan) ocs (depends_on (plan_tasks plan ! i)) of
             None \<Rightarrow> False
           | Some (ups, True) \<Rightarrow> i \<notin> fst ` set cs
               \<and> ocs ! i = Some \<lparr>oc_status = ''skipped'', oc_value = error_value ''upstream task did not complete OK''\<rparr>
           | Some (ups, False) \<Rightarrow>
               (let req = plan_request (plan_tasks plan ! i) ups in
                case validate_task (pe_tool env) DELEGATE_ROOT_PARENT 0 req of
                  Some e \<Rightarrow> i \<notin> fst ` set cs \<and> ocs ! i = Some \<lparr>oc_status = ''failed'', oc_value = error_value e\<rparr>
                | None \<Rightarrow> ran env (on_failure (plan_tasks plan ! i)) cs i req (ocs ! i)))"

lemma ran_append:
  assumes "i \<notin> fst ` set xs"
  shows "ran env act (cs @ xs) i req oc \<longleftrightarrow> ran env act cs i req oc"
proof -
  from assms have eq: "calls_of (cs @ xs) i = calls_of cs i"
    using calls_of_Nil_iff [of xs i] by (simp add: calls_of_append)
  have "\<forall>k\<in>set (calls_of cs i). (cs @ xs) ! k = cs ! k" by (simp add: calls_of_def nth_append)
  then show ?thesis by (simp add: ran_def eq cong: ball_cong)
qed

lemma settled_frame:
  assumes "settled env plan init ocs cs i" "length ocs' = length ocs" "i \<notin> fst ` set xs"
    "\<And>j. j = i \<or> j \<in> dep_indices (plan_tasks plan) i \<Longrightarrow> ocs' ! j = ocs ! j"
  shows "settled env plan init ocs' (cs @ xs) i"
proof -
  have up: "upstream_of (show_json env) (plan_tasks plan) ocs' (depends_on (plan_tasks plan ! i))
      = upstream_of (show_json env) (plan_tasks plan) ocs (depends_on (plan_tasks plan ! i))"
    by (rule upstream_of_cong [OF assms(2)]) (auto intro!: assms(4) simp: dep_indices_def)
  have oc: "ocs' ! i = ocs ! i" by (simp add: assms(4))
  have cs: "i \<in> fst ` set (cs @ xs) \<longleftrightarrow> i \<in> fst ` set cs" using assms(3) by auto
  show ?thesis using assms(1) unfolding settled_def ran_append [OF assms(3)] up oc cs .
qed

definition run_inv :: "'i PlanEnv \<Rightarrow> PlanSpec \<Rightarrow> TaskOutcome option list \<Rightarrow> nat set \<Rightarrow> RunState \<Rightarrow> bool" where
  "run_inv env plan init D st \<longleftrightarrow>
     length init = length (plan_tasks plan) \<and> length (rs_outcomes st) = length (plan_tasks plan)
     \<and> length (rs_retried st) = length (plan_tasks plan) \<and> D \<subseteq> {..<length (plan_tasks plan)}
     \<and> fst ` set (rs_calls st) \<subseteq> D
     \<and> (\<forall>i\<in>D. settled env plan init (rs_outcomes st) (rs_calls st) i)
     \<and> (\<forall>i<length (plan_tasks plan). i \<notin> D \<longrightarrow> rs_outcomes st ! i = init ! i \<and> \<not> rs_retried st ! i)"

lemma run_inv_advance:
  assumes inv: "run_inv env plan init D st"
    and new: "N \<inter> D = {}" "N \<subseteq> {..<length (plan_tasks plan)}" "\<And>i. i \<in> D \<Longrightarrow> dep_indices (plan_tasks plan) i \<inter> N = {}"
    and len: "length (rs_outcomes st') = length (rs_outcomes st)" "length (rs_retried st') = length (rs_retried st)"
    and same: "\<And>j. j \<notin> N \<Longrightarrow> rs_outcomes st' ! j = rs_outcomes st ! j \<and> rs_retried st' ! j = rs_retried st ! j"
    and calls: "rs_calls st' = rs_calls st @ xs" "fst ` set xs \<subseteq> N"
    and set: "\<And>i. i \<in> N \<Longrightarrow> settled env plan init (rs_outcomes st') (rs_calls st') i"
  shows "run_inv env plan init (D \<union> N) st'"
proof -
  have "settled env plan init (rs_outcomes st') (rs_calls st') i" if "i \<in> D" for i
    unfolding calls(1)
  proof (rule settled_frame [OF _ len(1)])
    show "settled env plan init (rs_outcomes st) (rs_calls st) i" using inv that by (auto simp: run_inv_def)
    show "i \<notin> fst ` set xs" using that new(1) calls(2) by auto
    show "rs_outcomes st' ! j = rs_outcomes st ! j" if "j = i \<or> j \<in> dep_indices (plan_tasks plan) i" for j
      using that \<open>i \<in> D\<close> new(1,3) same by blast
  qed
  with inv new(2) len same calls set show ?thesis by (auto simp: run_inv_def)
qed

definition pending :: "'i PlanEnv \<Rightarrow> PlanSpec \<Rightarrow> TaskOutcome option list \<Rightarrow> TaskOutcome option list
    \<Rightarrow> nat \<times> DelegateRequest \<Rightarrow> bool" where
  "pending env plan init ocs c \<longleftrightarrow>
     fst c < length (plan_tasks plan) \<and> init ! fst c = None
     \<and> (\<exists>ups. upstream_of (show_json env) (plan_tasks plan) ocs (depends_on (plan_tasks plan ! fst c)) = Some (ups, False)
          \<and> snd c = plan_request (plan_tasks plan ! fst c) ups
          \<and> validate_task (pe_tool env) DELEGATE_ROOT_PARENT 0 (snd c) = None)"

lemma pending_frame:
  assumes "pending env plan init ocs c" "length ocs' = length ocs"
    "\<And>j. j \<in> dep_indices (plan_tasks plan) (fst c) \<Longrightarrow> ocs' ! j = ocs ! j"
  shows "pending env plan init ocs' c"
proof -
  have "upstream_of (show_json env) (plan_tasks plan) ocs' (depends_on (plan_tasks plan ! fst c))
      = upstream_of (show_json env) (plan_tasks plan) ocs (depends_on (plan_tasks plan ! fst c))"
    by (rule upstream_of_cong [OF assms(2)]) (auto intro!: assms(3) simp: dep_indices_def)
  with assms(1) show ?thesis by (simp add: pending_def)
qed

text \<open>Inside a layer: \<open>P\<close> holds the earlier layers, with the outcomes \<open>base\<close>, \<open>L\<close> the part of the layer seen
  so far, the calls \<open>rn\<close> are still to be made, and \<open>h\<close> tells whether a halt edge was taken.\<close>

definition layer_inv :: "'i PlanEnv \<Rightarrow> PlanSpec \<Rightarrow> TaskOutcome option list \<Rightarrow> nat set \<Rightarrow> TaskOutcome option list \<Rightarrow> nat set
    \<Rightarrow> RunState \<Rightarrow> bool \<Rightarrow> (nat \<times> DelegateRequest) list \<Rightarrow> bool" where
  "layer_inv env plan init P base L st h rn \<longleftrightarrow>
     run_inv env plan init (P \<union> (L - fst ` set rn)) st \<and> L \<inter> P = {} \<and> fst ` set rn \<subseteq> L \<and> distinct (map fst rn)
     \<and> (\<forall>c\<in>set rn. pending env plan init (rs_outcomes st) c)
     \<and> (\<forall>i\<in>P \<union> L. dep_indices (plan_tasks plan) i \<subseteq> P)
     \<and> (\<forall>j\<in>P. rs_outcomes st ! j = base ! j)
     \<and> (h \<longleftrightarrow> (\<exists>i\<in>L - fst ` set rn. init ! i = None \<and> halting plan (rs_outcomes st) i))"

lemma halting_cong: "ocs' ! i = ocs ! i \<Longrightarrow> halting plan ocs' i = halting plan ocs i"
  by (simp add: halting_def)

lemma layer_inv_settle:
  assumes inv: "layer_inv env plan init P base L st h rn"
    and i: "i < length (plan_tasks plan)" "i \<notin> P" "i \<notin> L" "dep_indices (plan_tasks plan) i \<subseteq> P"
    and st': "rs_outcomes st' = (rs_outcomes st)[i := oc]" "rs_retried st' = rs_retried st" "rs_calls st' = rs_calls st"
    and set: "settled env plan init (rs_outcomes st') (rs_calls st) i"
    and halt: "h' \<longleftrightarrow> h \<or> init ! i = None \<and> halting plan (rs_outcomes st') i"
  shows "layer_inv env plan init P base (insert i L) st' h' rn"
proof -
  let ?D = "P \<union> (L - fst ` set rn)"
  from inv have li: "run_inv env plan init ?D st" "L \<inter> P = {}" "fst ` set rn \<subseteq> L" "distinct (map fst rn)"
      "\<forall>i\<in>P \<union> L. dep_indices (plan_tasks plan) i \<subseteq> P"
      "\<forall>c\<in>set rn. pending env plan init (rs_outcomes st) c" "\<forall>j\<in>P. rs_outcomes st ! j = base ! j"
      "h \<longleftrightarrow> (\<exists>i\<in>L - fst ` set rn. init ! i = None \<and> halting plan (rs_outcomes st) i)"
    unfolding layer_inv_def by auto
  have "run_inv env plan init (?D \<union> {i}) st'"
  proof (rule run_inv_advance [OF li(1), where xs = "[]"])
    show "dep_indices (plan_tasks plan) k \<inter> {i} = {}" if "k \<in> ?D" for k using that li(5) i(2) by blast
    show "settled env plan init (rs_outcomes st') (rs_calls st') k" if "k \<in> {i}" for k using that set st'(3) by simp
  qed (use i st' in auto)
  moreover have "?D \<union> {i} = P \<union> (insert i L - fst ` set rn)" using i(3) li(3) by blast
  moreover have "\<forall>c\<in>set rn. pending env plan init (rs_outcomes st') c"
  proof
    fix c assume c: "c \<in> set rn"
    then have "fst c \<in> L" using li(3) by auto
    then have "dep_indices (plan_tasks plan) (fst c) \<subseteq> P" using li(5) by simp
    then have ji: "j \<noteq> i" if "j \<in> dep_indices (plan_tasks plan) (fst c)" for j using that i(2) by blast
    show "pending env plan init (rs_outcomes st') c"
      by (rule pending_frame [OF li(6) [rule_format, OF c]]) (simp_all add: st'(1) ji [symmetric])
  qed
  moreover have "\<forall>j\<in>P. rs_outcomes st' ! j = base ! j" using li(7) i(2) st'(1) by (metis nth_list_update_neq)
  moreover have "h' \<longleftrightarrow> (\<exists>k\<in>insert i L - fst ` set rn. init ! k = None \<and> halting plan (rs_outcomes st') k)"
  proof -
    have "halting plan (rs_outcomes st') k = halting plan (rs_outcomes st) k" if "k \<in> L" for k
      by (rule halting_cong) (metis i(3) nth_list_update_neq st'(1) that)
    moreover have "insert i L - fst ` set rn = insert i (L - fst ` set rn)" using i(3) li(3) by auto
    ultimately show ?thesis unfolding halt li(8) by auto
  qed
  ultimately show ?thesis using li(2-5) i(2-4) unfolding layer_inv_def by auto
qed

lemma layer_inv_batch:
  assumes inv: "layer_inv env plan init P base L st h (batch @ rn)"
    and run: "run_batch env plan pid batch (st, h) = (st', h')"
  shows "layer_inv env plan init P base L st' h' rn"
proof -
  let ?D = "P \<union> (L - fst ` set (batch @ rn))" and ?N = "fst ` set batch"
  from inv have li: "run_inv env plan init ?D st" "L \<inter> P = {}" "fst ` set (batch @ rn) \<subseteq> L" "distinct (map fst (batch @ rn))"
      "\<forall>c\<in>set (batch @ rn). pending env plan init (rs_outcomes st) c"
      "\<forall>i\<in>P \<union> L. dep_indices (plan_tasks plan) i \<subseteq> P" "\<forall>j\<in>P. rs_outcomes st ! j = base ! j"
      "h \<longleftrightarrow> (\<exists>i\<in>L - fst ` set (batch @ rn). init ! i = None \<and> halting plan (rs_outcomes st) i)"
    unfolding layer_inv_def by auto
  have N: "?N \<inter> ?D = {}" "?N \<subseteq> {..<length (plan_tasks plan)}" "?N \<inter> P = {}"
    using li(2,3,5) by (auto simp: pending_def)
  have db: "distinct (map fst batch)" using li(4) by simp
  have ok: "\<forall>c\<in>set batch. fst c < length (rs_outcomes st) \<and> fst c < length (rs_retried st)
               \<and> \<not> rs_retried st ! fst c \<and> fst c \<notin> fst ` set (rs_calls st)"
  proof
    fix c assume c: "c \<in> set batch"
    then have "fst c \<notin> ?D" using N(1) by blast
    moreover have "fst c < length (plan_tasks plan)" using N(2) c by auto
    ultimately show "fst c < length (rs_outcomes st) \<and> fst c < length (rs_retried st)
               \<and> \<not> rs_retried st ! fst c \<and> fst c \<notin> fst ` set (rs_calls st)"
      using li(1) unfolding run_inv_def by auto
  qed
  obtain rb where
    rb: "rs_calls st' = rs_calls st @ batch @ rb" "fst ` set rb \<subseteq> ?N"
    and len: "length (rs_outcomes st') = length (rs_outcomes st)" "length (rs_retried st') = length (rs_retried st)"
    and same: "\<And>j. j \<notin> ?N \<Longrightarrow> rs_outcomes st' ! j = rs_outcomes st ! j \<and> rs_retried st' ! j = rs_retried st ! j"
    and rn: "\<And>i req. (i, req) \<in> set batch
       \<Longrightarrow> ran env (on_failure (plan_tasks plan ! i)) (rs_calls st') i req (rs_outcomes st' ! i)"
    and hh: "h' \<longleftrightarrow> h \<or> (\<exists>i\<in>?N. halting plan (rs_outcomes st') i)"
    by (rule run_batch_spec [OF db ok run]) blast
  have keep: "pending env plan init (rs_outcomes st') c" if c: "c \<in> set (batch @ rn)" for c
  proof (rule pending_frame [OF li(5) [rule_format, OF c] len(1)])
    fix j assume j: "j \<in> dep_indices (plan_tasks plan) (fst c)"
    have "fst c \<in> P \<union> L" using c li(3) by blast
    with li(6) j have "j \<in> P" by blast
    then have "j \<notin> ?N" using N(3) by blast
    then show "rs_outcomes st' ! j = rs_outcomes st ! j" using same by simp
  qed
  have "settled env plan init (rs_outcomes st') (rs_calls st') i" if i: "i \<in> ?N" for i
  proof -
    from i obtain req where c: "(i, req) \<in> set batch" by auto
    from keep [of "(i, req)"] c rn [OF c] show ?thesis
      by (auto simp: pending_def settled_def Let_def)
  qed
  note set = this
  have "run_inv env plan init (?D \<union> ?N) st'"
  proof (rule run_inv_advance [OF li(1), where xs = "batch @ rb"])
    show "dep_indices (plan_tasks plan) k \<inter> ?N = {}" if "k \<in> ?D" for k
      using that li(6) N(3) by blast
    show "fst ` set (batch @ rb) \<subseteq> ?N" using rb(2) by auto
  qed (fact N rb(1) len same set)+
  moreover have "?D \<union> ?N = P \<union> (L - fst ` set rn)" using li(3,4) by auto
  moreover have "\<forall>j\<in>P. rs_outcomes st' ! j = base ! j"
  proof
    fix j assume j: "j \<in> P"
    then have "j \<notin> ?N" using N(3) by blast
    from same [OF this] li(7) j show "rs_outcomes st' ! j = base ! j" by simp
  qed
  moreover have "h' \<longleftrightarrow> (\<exists>k\<in>L - fst ` set rn. init ! k = None \<and> halting plan (rs_outcomes st') k)"
  proof -
    let ?A = "L - fst ` set (batch @ rn)"
    have "halting plan (rs_outcomes st') k = halting plan (rs_outcomes st) k" if "k \<in> ?A" for k
      by (rule halting_cong) (use that same in auto)
    then have A: "(\<exists>k\<in>?A. init ! k = None \<and> halting plan (rs_outcomes st') k)
        \<longleftrightarrow> (\<exists>k\<in>?A. init ! k = None \<and> halting plan (rs_outcomes st) k)" by (intro bex_cong refl) simp
    have N': "(\<exists>k\<in>?N. init ! k = None \<and> halting plan (rs_outcomes st') k) \<longleftrightarrow> (\<exists>k\<in>?N. halting plan (rs_outcomes st') k)"
      by (intro bex_cong refl) (use li(5) in \<open>auto simp: pending_def\<close>)
    have "L - fst ` set rn = ?A \<union> ?N" using li(3,4) by auto
    then show ?thesis unfolding hh li(8) by (simp only: bex_Un A N')
  qed
  ultimately show ?thesis using li(2-4,6) keep unfolding layer_inv_def by auto
qed

lemma stage_task_inv:
  assumes inv: "layer_inv env plan init P base L st h rn"
    and i: "i < length (plan_tasks plan)" "i \<notin> P" "i \<notin> L" "dep_indices (plan_tasks plan) i \<subseteq> P"
    and known: "deps_known (plan_tasks plan)"
  shows "\<exists>st' h' rn'. stage_task env plan pid i (st, h, rn) = Some (st', h', rn')
           \<and> layer_inv env plan init P base (insert i L) st' h' rn'"
proof -
  let ?ts = "plan_tasks plan" and ?D = "P \<union> (L - fst ` set rn)"
  from inv have li: "run_inv env plan init ?D st" unfolding layer_inv_def by simp
  have lens: "length (rs_outcomes st) = length ?ts" using li by (simp add: run_inv_def)
  have "i \<notin> ?D" using i by blast
  then have fresh: "rs_outcomes st ! i = init ! i" "i \<notin> fst ` set (rs_calls st)"
    using li i(1) by (auto simp: run_inv_def)
  have "set (depends_on (?ts ! i)) \<subseteq> task_id ` set ?ts" using known i(1) by (simp add: deps_known_def)
  from upstream_of_total [OF this lens, of "show_json env"] obtain ups b where
    up: "upstream_of (show_json env) ?ts (rs_outcomes st) (depends_on (?ts ! i)) = Some (ups, b)" by blast
  have up': "upstream_of (show_json env) ?ts ((rs_outcomes st)[i := oc]) (depends_on (?ts ! i)) = Some (ups, b)" for oc
  proof -
    have "j \<noteq> i" if "dep \<in> set (depends_on (?ts ! i))" "index_of ?ts dep = Some j" for dep j
      using that i(2,4) by (auto simp: dep_indices_def)
    then have "upstream_of (show_json env) ?ts ((rs_outcomes st)[i := oc]) (depends_on (?ts ! i))
        = upstream_of (show_json env) ?ts (rs_outcomes st) (depends_on (?ts ! i))"
      by (intro upstream_of_cong) (simp, metis nth_list_update_neq)
    with up show ?thesis by simp
  qed
  let ?req = "plan_request (?ts ! i) ups"
  consider (replayed) "init ! i \<noteq> None" | (blocked) "init ! i = None" "b"
    | (refused) e where "init ! i = None" "\<not> b" "validate_task (pe_tool env) DELEGATE_ROOT_PARENT 0 ?req = Some e"
    | (run) "init ! i = None" "\<not> b" "validate_task (pe_tool env) DELEGATE_ROOT_PARENT 0 ?req = None" by blast
  then show ?thesis
  proof cases
    case replayed
    have "stage_task env plan pid i (st, h, rn) = Some (st, h, rn)"
      using replayed fresh i(1) lens by (simp add: stage_task_def)
    moreover have "layer_inv env plan init P base (insert i L) st h rn"
      by (rule layer_inv_settle [OF inv i, where oc = "rs_outcomes st ! i"])
         (simp, simp, simp, use replayed fresh in \<open>simp add: settled_def\<close>, use replayed in auto)
    ultimately show ?thesis by blast
  next
    case blocked
    let ?oc = "\<lparr>oc_status = ''skipped'', oc_value = error_value ''upstream task did not complete OK''\<rparr>"
    let ?st = "record_outcome env pid (?ts ! i) i ?oc st"
    have "stage_task env plan pid i (st, h, rn) = Some (?st, h, rn)"
      using blocked fresh i(1) lens up by (simp add: stage_task_def Let_def)
    moreover have "layer_inv env plan init P base (insert i L) ?st h rn"
      by (rule layer_inv_settle [OF inv i, where oc = "Some ?oc"])
         (use blocked fresh i(1) lens up' in \<open>simp_all add: settled_def halting_def\<close>)
    ultimately show ?thesis by blast
  next
    case refused
    let ?oc = "\<lparr>oc_status = ''failed'', oc_value = error_value e\<rparr>"
    let ?st = "record_outcome env pid (?ts ! i) i ?oc st"
    have "stage_task env plan pid i (st, h, rn) = Some (?st, h \<or> on_failure (?ts ! i) = Halt, rn)"
      using refused fresh i(1) lens up by (simp add: stage_task_def Let_def)
    moreover have "layer_inv env plan init P base (insert i L) ?st (h \<or> on_failure (?ts ! i) = Halt) rn"
      by (rule layer_inv_settle [OF inv i, where oc = "Some ?oc"])
         (use refused fresh i(1) lens up' in \<open>simp_all add: settled_def Let_def halting_def\<close>)
    ultimately show ?thesis by blast
  next
    case run
    have "stage_task env plan pid i (st, h, rn) = Some (st, h, rn @ [(i, ?req)])"
      using run fresh i(1) lens up by (simp add: stage_task_def Let_def)
    moreover have "P \<union> (insert i L - fst ` set (rn @ [(i, ?req)])) = ?D" using i(3) by auto
    moreover have "insert i L - fst ` set (rn @ [(i, ?req)]) = L - fst ` set rn" using i(3) by auto
    moreover have "pending env plan init (rs_outcomes st) (i, ?req)"
      using run up i(1) by (simp add: pending_def)
    ultimately show ?thesis using inv i unfolding layer_inv_def by auto
  qed
qed

lemma stage_layer_inv:
  assumes "layer_inv env plan init P base L st h rn" "deps_known (plan_tasks plan)" "distinct layer"
    "\<forall>i\<in>set layer. i < length (plan_tasks plan) \<and> i \<notin> P \<and> i \<notin> L \<and> dep_indices (plan_tasks plan) i \<subseteq> P"
  shows "\<exists>st' h' rn'. stage_layer env plan pid layer (st, h, rn) = Some (st', h', rn')
           \<and> layer_inv env plan init P base (L \<union> set layer) st' h' rn'"
  using assms
proof (induction layer arbitrary: L st h rn)
  case (Cons i layer)
  have i: "i < length (plan_tasks plan)" "i \<notin> P" "i \<notin> L" "dep_indices (plan_tasks plan) i \<subseteq> P"
    using Cons.prems(4) by simp_all
  from stage_task_inv [OF Cons.prems(1) i Cons.prems(2), of pid] obtain st1 h1 rn1 where
    1: "stage_task env plan pid i (st, h, rn) = Some (st1, h1, rn1)" "layer_inv env plan init P base (insert i L) st1 h1 rn1"
    by blast
  from Cons.IH [OF 1(2) Cons.prems(2)] Cons.prems(3,4) 1(1) show ?case by auto
qed simp

lemma run_batches_inv:
  assumes "layer_inv env plan init P base L st h (concat batches)"
  shows "\<exists>st' h'. foldl (\<lambda>acc batch. run_batch env plan pid batch acc) (st, h) batches = (st', h')
           \<and> layer_inv env plan init P base L st' h' []"
  using assms
proof (induction batches arbitrary: st h)
  case (Cons batch batches)
  obtain st1 h1 where 1: "run_batch env plan pid batch (st, h) = (st1, h1)" by (metis surj_pair)
  from layer_inv_batch [OF _ 1] Cons.prems have "layer_inv env plan init P base L st1 h1 (concat batches)" by simp
  from Cons.IH [OF this] 1 show ?case by simp
qed simp

lemma run_layer_inv:
  assumes inv: "run_inv env plan init P st" and known: "deps_known (plan_tasks plan)" and dist: "distinct layer"
    and layer: "\<forall>i\<in>set layer. i < length (plan_tasks plan) \<and> i \<notin> P \<and> dep_indices (plan_tasks plan) i \<subseteq> P"
    and closed: "\<forall>i\<in>P. dep_indices (plan_tasks plan) i \<subseteq> P"
  shows "\<exists>st' h'. run_layer env plan pid layer st = Some (st', h') \<and> run_inv env plan init (P \<union> set layer) st'
    \<and> (\<forall>j\<in>P. rs_outcomes st' ! j = rs_outcomes st ! j)
    \<and> (h' \<longleftrightarrow> (\<exists>i\<in>set layer. init ! i = None \<and> halting plan (rs_outcomes st') i))"
proof -
  have "layer_inv env plan init P (rs_outcomes st) {} st False []" using inv closed by (simp add: layer_inv_def)
  from stage_layer_inv [OF this known dist, of pid] layer obtain st1 h1 rn where
    1: "stage_layer env plan pid layer (st, False, []) = Some (st1, h1, rn)" "layer_inv env plan init P (rs_outcomes st) (set layer) st1 h1 rn"
    by auto
  let ?cs = "chunks (max 1 (pe_max_concurrent env)) rn"
  have "layer_inv env plan init P (rs_outcomes st) (set layer) st1 h1 (concat ?cs)" using 1(2) by (simp add: concat_chunks)
  from run_batches_inv [OF this, of pid] 1(1) show ?thesis
    by (auto simp: run_layer_def layer_inv_def)
qed

text \<open>What the layering gives the walk.\<close>

definition layers_ok :: "PlanTaskSpec list \<Rightarrow> nat set \<Rightarrow> nat list list \<Rightarrow> bool" where
  "layers_ok ts P layers \<longleftrightarrow>
     distinct (concat layers) \<and> P \<inter> set (concat layers) = {} \<and> set (concat layers) \<subseteq> {..<length ts}
     \<and> (\<forall>i\<in>P. dep_indices ts i \<subseteq> P)
     \<and> (\<forall>k<length layers. \<forall>i\<in>set (layers ! k). dep_indices ts i \<subseteq> P \<union> set (concat (take k layers)))"

lemma layers_ok_Cons:
  assumes "layers_ok ts P (layer # layers)"
  shows "layers_ok ts (P \<union> set layer) layers" "distinct layer"
    "\<forall>i\<in>set layer. i < length ts \<and> i \<notin> P \<and> dep_indices ts i \<subseteq> P" "\<forall>i\<in>P. dep_indices ts i \<subseteq> P"
proof -
  have dep: "\<forall>i\<in>set layer. dep_indices ts i \<subseteq> P" using assms unfolding layers_ok_def by fastforce
  have "dep_indices ts i \<subseteq> P \<union> set layer \<union> set (concat (take k layers))" if "k < length layers" "i \<in> set (layers ! k)" for k i
  proof -
    have "\<forall>i\<in>set ((layer # layers) ! Suc k). dep_indices ts i \<subseteq> P \<union> set (concat (take (Suc k) (layer # layers)))"
      using assms that(1) unfolding layers_ok_def by (metis Suc_less_eq length_Cons)
    with that(2) show ?thesis by (simp add: Un_assoc)
  qed
  with assms dep show "layers_ok ts (P \<union> set layer) layers" unfolding layers_ok_def by auto
  show "distinct layer" "\<forall>i\<in>set layer. i < length ts \<and> i \<notin> P \<and> dep_indices ts i \<subseteq> P" "\<forall>i\<in>P. dep_indices ts i \<subseteq> P"
    using assms dep unfolding layers_ok_def by auto
qed

lemma run_layers_inv:
  assumes "run_inv env plan init P st" "deps_known (plan_tasks plan)" "layers_ok (plan_tasks plan) P layers"
    "\<not> (\<exists>i\<in>P. init ! i = None \<and> halting plan (rs_outcomes st) i)"
  shows "\<exists>st' halted m. run_layers env plan pid layers st = Some (st', halted)
           \<and> run_inv env plan init (P \<union> set (concat (take m layers))) st' \<and> (\<not> halted \<longrightarrow> m = length layers)
           \<and> (halted \<longleftrightarrow> (\<exists>i\<in>P \<union> set (concat (take m layers)). init ! i = None \<and> halting plan (rs_outcomes st') i))"
  using assms
proof (induction layers arbitrary: P st)
  case Nil
  then show ?case by auto
next
  case (Cons layer layers)
  note lc = layers_ok_Cons [OF Cons.prems(3)]
  from run_layer_inv [OF Cons.prems(1,2) lc(2-4), of pid] obtain st1 h1 where
    1: "run_layer env plan pid layer st = Some (st1, h1)" "run_inv env plan init (P \<union> set layer) st1"
      "\<forall>j\<in>P. rs_outcomes st1 ! j = rs_outcomes st ! j"
      "h1 \<longleftrightarrow> (\<exists>i\<in>set layer. init ! i = None \<and> halting plan (rs_outcomes st1) i)" by blast
  have P: "\<not> (\<exists>i\<in>P. init ! i = None \<and> halting plan (rs_outcomes st1) i)"
    using Cons.prems(4) 1(3) halting_cong by metis
  show ?case
  proof (cases h1)
    case True
    then show ?thesis using 1 P by (intro exI [of _ st1] exI [of _ True] exI [of _ "Suc 0"]) auto
  next
    case False
    with P 1(4) have "\<not> (\<exists>i\<in>P \<union> set layer. init ! i = None \<and> halting plan (rs_outcomes st1) i)" by blast
    from Cons.IH [OF 1(2) Cons.prems(2) lc(1) this] obtain st' halted m where
      2: "run_layers env plan pid layers st1 = Some (st', halted)"
      "run_inv env plan init (P \<union> set layer \<union> set (concat (take m layers))) st'" "\<not> halted \<longrightarrow> m = length layers"
      "halted \<longleftrightarrow> (\<exists>i\<in>P \<union> set layer \<union> set (concat (take m layers)). init ! i = None \<and> halting plan (rs_outcomes st') i)"
      by blast
    have D: "P \<union> set (concat (take (Suc m) (layer # layers))) = P \<union> set layer \<union> set (concat (take m layers))" by auto
    moreover have "run_layers env plan pid (layer # layers) st = Some (st', halted)" using 1(1) False 2(1) by simp
    moreover have "\<not> halted \<longrightarrow> Suc m = length (layer # layers)" using 2(3) by simp
    ultimately show ?thesis using 2(2,4) unfolding D [symmetric] by blast
  qed
qed

lemma dep_indices_rel: "i < length ts \<Longrightarrow> j \<in> dep_indices ts i \<longleftrightarrow> (j, i) \<in> depends_rel ts"
  by (auto simp: dep_indices_def depends_rel_def)

lemma topological_layers_ok:
  assumes "topological_layers plan = Some (Ok layers)"
  shows "layers_ok (plan_tasks plan) {} layers" "set (concat layers) = {..<length (plan_tasks plan)}"
proof -
  note tl = topological_layers_Ok [OF assms]
  then show s: "set (concat layers) = {..<length (plan_tasks plan)}" by blast
  have "j \<in> set (concat (take k layers))"
    if "k < length layers" "i \<in> set (layers ! k)" "j \<in> dep_indices (plan_tasks plan) i" for i j k
  proof -
    have "layers ! k \<in> set layers" using that(1) by simp
    with that(2) have "i \<in> set (concat layers)" by auto
    then have "(j, i) \<in> depends_rel (plan_tasks plan)" using s that(3) dep_indices_rel by blast
    with tl that(1,2) show ?thesis by blast
  qed
  with tl show "layers_ok (plan_tasks plan) {} layers" unfolding layers_ok_def by blast
qed

subsection \<open>The start and the end of a run\<close>

lemma replay_rows_spec:
  assumes "distinct (map fst rows)" "distinct (map task_id ts)" "length ocs = length ts"
  shows "length (fst (replay_rows ts now rows (ocs, ages))) = length ts
    \<and> (\<forall>i<length ts. fst (replay_rows ts now rows (ocs, ages)) ! i =
          (case map_of rows (task_id (ts ! i)) of
             None \<Rightarrow> ocs ! i
           | Some row \<Rightarrow>
               if wt_status row = ''ok'' \<and> wt_agent row = task_agent (ts ! i)
               then Some \<lparr>oc_status = ''ok'',
                      oc_value = JObject [(''response'', JString (case wt_response row of Some r \<Rightarrow> r | None \<Rightarrow> []))]\<rparr>
               else ocs ! i))"
  using assms
proof (induction rows arbitrary: ocs ages)
  case (Cons x rows)
  obtain tid row where x: "x = (tid, row)" by fastforce
  let ?oc = "\<lparr>oc_status = ''ok'',
      oc_value = JObject [(''response'', JString (case wt_response row of Some r \<Rightarrow> r | None \<Rightarrow> []))]\<rparr>"
  have nin: "map_of rows tid = None" using Cons.prems(1) x by (simp add: map_of_eq_None_iff)
  have here: "index_of ts (task_id (ts ! i)) = Some i" if "i < length ts" for i
    unfolding index_of_def by (rule position_distinct [OF Cons.prems(2) that])
  show ?case
  proof (cases "wt_status row = ''ok'' \<and> (\<exists>i. index_of ts tid = Some i \<and> wt_agent row = task_agent (ts ! i))")
    case True
    then obtain i where i: "index_of ts tid = Some i" "wt_status row = ''ok''" "wt_agent row = task_agent (ts ! i)" by blast
    have b: "i < length ts" "task_id (ts ! i) = tid" using index_of_Some [OF i(1)] by simp_all
    have other: "k = i" if "k < length ts" "task_id (ts ! k) = tid" for k using here [OF that(1)] that(2) i(1) by simp
    let ?ages = "ages @ [(tid, max 0 (now - wt_updated_at row))]"
    have step: "replay_rows ts now (x # rows) (ocs, ages) = replay_rows ts now rows (ocs[i := Some ?oc], ?ages)"
      using i x by simp
    have "distinct (map fst rows)" "length (ocs[i := Some ?oc]) = length ts" using Cons.prems by simp_all
    note IH = Cons.IH [OF this(1) Cons.prems(2) this(2), of ?ages]
    show ?thesis unfolding step
    proof (intro conjI allI impI)
      show "length (fst (replay_rows ts now rows (ocs[i := Some ?oc], ?ages))) = length ts" using IH by blast
      fix k assume k: "k < length ts"
      note IHk = IH [THEN conjunct2, rule_format, OF k]
      show "fst (replay_rows ts now rows (ocs[i := Some ?oc], ?ages)) ! k =
          (case map_of (x # rows) (task_id (ts ! k)) of None \<Rightarrow> ocs ! k
           | Some row \<Rightarrow> if wt_status row = ''ok'' \<and> wt_agent row = task_agent (ts ! k)
               then Some \<lparr>oc_status = ''ok'',
                      oc_value = JObject [(''response'', JString (case wt_response row of Some r \<Rightarrow> r | None \<Rightarrow> []))]\<rparr>
               else ocs ! k)"
      proof (cases "k = i")
        case True
        then show ?thesis using IHk i(2,3) b nin x Cons.prems(3) by simp
      next
        case False
        then have "task_id (ts ! k) \<noteq> tid" using other k by blast
        then show ?thesis using IHk False x by (cases "map_of rows (task_id (ts ! k))") simp_all
      qed
    qed
  next
    case False
    then have skip: "replay_rows ts now (x # rows) (ocs, ages) = replay_rows ts now rows (ocs, ages)"
      by (auto simp: x split: option.split)
    from Cons.IH [of ocs ages] Cons.prems
    show ?thesis unfolding skip using x nin False here by (auto split: option.split)
  qed
qed simp

lemma replay_rows_length: "length (fst (replay_rows ts now rows acc)) = length (fst acc)"
  by (induction ts now rows acc rule: replay_rows.induct) (auto split: option.split)

lemma start_resumed_frame:
  assumes "start_resumed env plan rid st = (r, st')"
  shows "rs_calls st' = rs_calls st \<and> rs_retried st' = rs_retried st \<and> length (rs_outcomes st') = length (rs_outcomes st)"
proof -
  have "length ocs = length (fst acc)" if "replay_rows ts now rows acc = (ocs, ages)" for ts now rows acc ocs ages
    using replay_rows_length [of ts now rows acc] that by simp
  then show ?thesis
    using assms unfolding start_resumed_def Let_def
    by (auto split: result.splits option.splits if_splits prod.splits bool.splits)
qed

lemma plan_db_eq:
  assumes "plan_db env st = (b, s)"
  shows "rs_outcomes s = rs_outcomes st" "rs_retried s = rs_retried st" "rs_calls s = rs_calls st" "rs_db s = rs_db st"
  using plan_db_frame [of env st] unfolding assms by simp_all

lemma plan_start_frame:
  assumes "plan_start env plan args (fresh_state db c plan) = (r, st)"
  shows "rs_calls st = []" "rs_retried st = replicate (length (plan_tasks plan)) False"
    "length (rs_outcomes st) = length (plan_tasks plan)"
proof -
  obtain b s0 where s0: "plan_db env (fresh_state db c plan) = (b, s0)" by fastforce
  from plan_db_eq [OF s0] have f: "rs_calls s0 = []" "rs_retried s0 = replicate (length (plan_tasks plan)) False"
      "rs_outcomes s0 = replicate (length (plan_tasks plan)) None"
    by (simp_all add: fresh_state_def)
  have "rs_calls st = [] \<and> rs_retried st = replicate (length (plan_tasks plan)) False
      \<and> length (rs_outcomes st) = length (plan_tasks plan)"
  proof (cases "b \<and> json_get_str args ''resume_plan_id'' \<noteq> None")
    case True
    then obtain rid where "start_resumed env plan rid s0 = (r, st)" using assms s0 by (auto simp: plan_start_def)
    from start_resumed_frame [OF this] f show ?thesis by simp
  next
    case False
    then show ?thesis
      using assms s0 f by (auto simp: plan_start_def start_fresh_def Let_def split: bool.splits option.splits)
  qed
  then show "rs_calls st = []" "rs_retried st = replicate (length (plan_tasks plan)) False"
    "length (rs_outcomes st) = length (plan_tasks plan)" by blast+
qed

lemma run_inv_start:
  assumes "plan_start env plan args (fresh_state db c plan) = (r, st)"
  shows "run_inv env plan (rs_outcomes st) {} st"
  using plan_start_frame [OF assms] by (simp add: run_inv_def)

lemma walk_from_start:
  assumes start: "plan_start env plan args (fresh_state db c plan) = (r, st)"
    and known: "deps_known (plan_tasks plan)" and tl: "topological_layers plan = Some (Ok layers)"
  obtains st' h m where "run_layers env plan pid layers st = Some (st', h)"
    "run_inv env plan (rs_outcomes st) (set (concat (take m layers))) st'" "\<not> h \<longrightarrow> m = length layers"
    "h \<longleftrightarrow> (\<exists>i\<in>set (concat (take m layers)). rs_outcomes st ! i = None \<and> halting plan (rs_outcomes st') i)"
proof -
  have "\<not> (\<exists>i\<in>{}. rs_outcomes st ! i = None \<and> halting plan (rs_outcomes st) i)" by simp
  from run_layers_inv [OF run_inv_start [OF start] known topological_layers_ok(1) [OF tl] this, of pid]
  show ?thesis unfolding Un_empty_left by (elim exE conjE) (rule that)
qed

lemma complete_row_frame [simp]:
  "rs_outcomes (complete_row env pid status summary gate st) = rs_outcomes st"
  "rs_calls (complete_row env pid status summary gate st) = rs_calls st"
  using plan_db_frame [of env st] by (cases "plan_db env st"; auto simp: complete_row_def split: bool.split)+

lemma plan_finish_Some:
  assumes "plan_finish env plan args ps st halted = Some r"
  shows "rs_outcomes (pr_state r) = rs_outcomes st" "rs_calls (pr_state r) = rs_calls st"
    "pr_start r = Some ps" "pr_halted r = halted"
  using assms by (auto simp: plan_finish_def Let_def split: option.splits)

text \<open>The two ways a call ends: refused before any task runs, or with every task settled that the
  walk reached (all of them unless a halt edge stopped it) and the others as they were.\<close>

lemma plan_invoke_run:
  assumes parse: "parse_plan args = Ok plan" and run: "plan_invoke env db c args = Some r"
  obtains (refused) "pr_start r = None" "rs_calls (pr_state r) = []"
  | (walked) layers ps st st' m where "topological_layers plan = Some (Ok layers)"
      "plan_start env plan args (fresh_state db c plan) = (Ok ps, st)"
      "run_layers env plan (ps_plan_id ps) layers st = Some (st', pr_halted r)"
      "plan_finish env plan args ps st' (pr_halted r) = Some r"
      "run_inv env plan (rs_outcomes st) (set (concat (take m layers))) st'"
      "\<not> pr_halted r \<Longrightarrow> m = length layers"
      "pr_halted r \<longleftrightarrow> (\<exists>i\<in>set (concat (take m layers)). rs_outcomes st ! i = None \<and> halting plan (rs_outcomes st') i)"
proof -
  have known: "deps_known (plan_tasks plan)" using parse_plan_wf [OF parse] by (simp add: plan_wf_def)
  from run parse obtain tl where tl: "topological_layers plan = Some tl"
    by (auto simp: plan_invoke_def split: option.splits)
  show ?thesis
  proof (cases tl)
    case (Err e)
    then have "r = plan_refused e (fresh_state db c plan)" using run parse tl by (simp add: plan_invoke_def)
    then show ?thesis by (intro refused) (simp_all add: plan_refused_def fresh_state_def)
  next
    case (Ok layers)
    obtain ps st where start: "plan_start env plan args (fresh_state db c plan) = (ps, st)" by fastforce
    show ?thesis
    proof (cases ps)
      case (Err e)
      then have "r = plan_refused e st" using run parse tl Ok start by (simp add: plan_invoke_def)
      then show ?thesis using plan_start_frame(1) [OF start] by (intro refused) (simp_all add: plan_refused_def)
    next
      case ok: (Ok start')
      obtain st' h m where walk: "run_layers env plan (ps_plan_id start') layers st = Some (st', h)"
        "run_inv env plan (rs_outcomes st) (set (concat (take m layers))) st'" "\<not> h \<longrightarrow> m = length layers"
        "h \<longleftrightarrow> (\<exists>i\<in>set (concat (take m layers)). rs_outcomes st ! i = None \<and> halting plan (rs_outcomes st') i)"
        by (rule walk_from_start [OF start known tl [unfolded Ok]])
      have fin: "plan_finish env plan args start' st' h = Some r"
        using walk(1) run parse tl Ok start ok by (simp add: plan_invoke_def)
      have "h = pr_halted r" using plan_finish_Some(4) [OF fin] by simp
      note w = walk [unfolded this] and fin = fin [unfolded this]
      show ?thesis
        by (rule walked [OF tl [unfolded Ok] start [unfolded ok] w(1) fin w(2) w(3) [rule_format] w(4)])
    qed
  qed
qed

lemma settled_call:
  assumes "settled env plan init ocs cs i" "(i, req) \<in> set cs"
  shows "init ! i = None
    \<and> (\<exists>ups. upstream_of (show_json env) (plan_tasks plan) ocs (depends_on (plan_tasks plan ! i)) = Some (ups, False)
         \<and> req = plan_request (plan_tasks plan ! i) ups)
    \<and> validate_task (pe_tool env) DELEGATE_ROOT_PARENT 0 req = None
    \<and> ran env (on_failure (plan_tasks plan ! i)) cs i req (ocs ! i)"
proof -
  have i: "i \<in> fst ` set cs \<longleftrightarrow> True" using assms(2) by force
  from assms(2) obtain k where k: "k < length cs" "cs ! k = (i, req)" by (auto simp: in_set_conv_nth)
  then have "k \<in> set (calls_of cs i)" by (simp add: calls_of_def)
  then have "req' = req" if "ran env act cs i req' oc" for act req' oc
    using that k(2) by (auto simp: ran_def dest: bspec)
  then show ?thesis
    using assms(1) unfolding settled_def Let_def i by (auto split: if_splits option.splits bool.splits)
qed

lemma calls_of_last:
  assumes "calls_of cs i = ks @ [k]"
  shows "k < length cs \<and> fst (cs ! k) = i \<and> (\<forall>k'>k. k' < length cs \<longrightarrow> fst (cs ! k') \<noteq> i)"
proof -
  have s: "sorted_wrt (<) (calls_of cs i)" unfolding calls_of_def by (simp add: sorted_wrt_filter)
  have m: "k' \<in> set (calls_of cs i) \<longleftrightarrow> k' < length cs \<and> fst (cs ! k') = i" for k' by (auto simp: calls_of_def)
  have "k' \<le> k" if "k' \<in> set (calls_of cs i)" for k'
    using s that unfolding assms by (auto simp: sorted_wrt_append intro: less_imp_le)
  with m [of k] m show ?thesis unfolding assms by (metis in_set_conv_decomp leD)
qed

lemma ran_last:
  assumes "ran env act cs i req oc"
  shows "\<exists>k<length cs. cs ! k = (i, req) \<and> oc = Some (run_call env k req)
         \<and> (\<forall>k'>k. k' < length cs \<longrightarrow> fst (cs ! k') \<noteq> i)"
proof -
  from assms obtain ks k where k: "calls_of cs i = ks @ [k]" "oc = Some (run_call env k req)"
    by (auto simp: ran_def)
  moreover have "snd (cs ! k) = req" using assms k(1) by (simp add: ran_def)
  ultimately show ?thesis using calls_of_last [OF k(1)] by (metis prod.collapse)
qed

lemma calls_of_count: "length (calls_of cs i) = count_list (map fst cs) i"
proof (induction cs rule: rev_induct)
  case (snoc c cs)
  have "calls_of [c] i = (if fst c = i then [0] else [])" by (simp add: calls_of_def)
  with snoc show ?case by (simp add: calls_of_append)
qed (simp add: calls_of_def)

lemma settled_calls_le:
  assumes "settled env plan init ocs cs i"
  shows "length (calls_of cs i) \<le> (if on_failure (plan_tasks plan ! i) = Retry then 2 else 1)"
proof (cases "i \<in> fst ` set cs")
  case True
  then obtain req where "(i, req) \<in> set cs" by force
  with settled_call [OF assms] have "ran env (on_failure (plan_tasks plan ! i)) cs i req (ocs ! i)" by blast
  then show ?thesis by (auto simp: ran_def)
next
  case False
  then have "calls_of cs i = []" by (simp add: calls_of_Nil_iff)
  then show ?thesis by simp
qed

text \<open>
  Claim C4. No task runs against stale inputs: every sub-turn of a plan is for a task whose
  dependencies all ended ok, on the prompt composed from their final outputs, admitted by the
  delegation gates, and never for a task whose outcome was replayed. The outcome of the task is that of its last sub-turn.
\<close>

theorem plan_runs_after_dependencies:
  assumes "parse_plan args = Ok plan" "plan_invoke env db c args = Some r" "(i, req) \<in> set (rs_calls (pr_state r))"
  shows "(\<forall>j. (j, i) \<in> depends_rel (plan_tasks plan) \<longrightarrow> ok_at (rs_outcomes (pr_state r)) j)
    \<and> (\<exists>ups. upstream_of (show_json env) (plan_tasks plan) (rs_outcomes (pr_state r)) (depends_on (plan_tasks plan ! i))
               = Some (ups, False)
         \<and> req = plan_request (plan_tasks plan ! i) ups)
    \<and> validate_task (pe_tool env) DELEGATE_ROOT_PARENT 0 req = None
    \<and> (\<exists>st. snd (plan_start env plan args (fresh_state db c plan)) = st \<and> rs_outcomes st ! i = None)
    \<and> (\<exists>k<length (rs_calls (pr_state r)). rs_calls (pr_state r) ! k = (i, req)
         \<and> rs_outcomes (pr_state r) ! i = Some (run_call env k req)
         \<and> (\<forall>k'>k. k' < length (rs_calls (pr_state r)) \<longrightarrow> fst (rs_calls (pr_state r) ! k') \<noteq> i))"
  using assms(1,2)
proof (cases rule: plan_invoke_run)
  case refused
  then show ?thesis using assms(3) by simp
next
  case (walked layers ps st st' m)
  note f = plan_finish_Some [OF walked(4)]
  have mem: "(i, req) \<in> set (rs_calls st')" using assms(3) f by simp
  then have "i \<in> set (concat (take m layers))" "i < length (plan_tasks plan)"
    using walked(5) by (force simp: run_inv_def)+
  then have "settled env plan (rs_outcomes st) (rs_outcomes st') (rs_calls st') i"
    using walked(5) unfolding run_inv_def by blast
  note sc = settled_call [OF this mem]
  then obtain ups where ups: "upstream_of (show_json env) (plan_tasks plan) (rs_outcomes st') (depends_on (plan_tasks plan ! i))
      = Some (ups, False)" by blast
  have deps: "\<forall>j. (j, i) \<in> depends_rel (plan_tasks plan) \<longrightarrow> ok_at (rs_outcomes st') j"
    using upstream_of_blocked [OF ups] by (auto simp: depends_rel_def)
  have "ran env (on_failure (plan_tasks plan ! i)) (rs_calls st') i req (rs_outcomes st' ! i)" using sc by blast
  then have lst: "\<exists>k<length (rs_calls st'). rs_calls st' ! k = (i, req) \<and> rs_outcomes st' ! i = Some (run_call env k req)
         \<and> (\<forall>k'>k. k' < length (rs_calls st') \<longrightarrow> fst (rs_calls st' ! k') \<noteq> i)"
    by (rule ran_last)
  from sc deps lst walked(2) show ?thesis unfolding f by auto
qed

text \<open>
  A plan never runs away: a task is run at most once, or twice when its failure edge is
  \<open>retry\<close>, and a plan starts at most twenty-four sub-turns.
\<close>

theorem plan_calls_bounded:
  assumes "parse_plan args = Ok plan" "plan_invoke env db c args = Some r"
  shows "(\<forall>i. count_list (map fst (rs_calls (pr_state r))) i
             \<le> (if i < length (plan_tasks plan) then if on_failure (plan_tasks plan ! i) = Retry then 2 else 1 else 0))
         \<and> length (rs_calls (pr_state r)) \<le> 2 * MAX_PLAN_TASKS"
  using assms
proof (cases rule: plan_invoke_run)
  case refused
  then show ?thesis by simp
next
  case (walked layers ps st st' m)
  let ?D = "set (concat (take m layers))" and ?n = "length (plan_tasks plan)"
  let ?c = "count_list (map fst (rs_calls st'))"
  have D: "?D \<subseteq> {..<?n}" "set (map fst (rs_calls st')) \<subseteq> ?D"
    and set: "\<forall>i\<in>?D. settled env plan (rs_outcomes st) (rs_outcomes st') (rs_calls st') i"
    using walked(5) unfolding run_inv_def by auto
  have le: "?c i \<le> (if i < ?n then if on_failure (plan_tasks plan ! i) = Retry then 2 else 1 else 0)" for i
  proof (cases "i \<in> ?D")
    case True
    with set have "settled env plan (rs_outcomes st) (rs_outcomes st') (rs_calls st') i" by blast
    from settled_calls_le [OF this] True D show ?thesis by (auto simp: calls_of_count)
  next
    case False
    then have "i \<notin> set (map fst (rs_calls st'))" using D by blast
    then show ?thesis by (metis count_list_0_iff le0)
  qed
  have "length (rs_calls st') = (\<Sum>i<?n. ?c i)"
    using sum_count_set [of "map fst (rs_calls st')" "{..<?n}"] D by simp
  also have "\<dots> \<le> (\<Sum>i<?n. 2)"
  proof (rule sum_mono)
    show "?c i \<le> 2" for i using le [of i] by (simp split: if_splits)
  qed
  also have "\<dots> \<le> 2 * MAX_PLAN_TASKS" using parse_plan_wf [OF assms(1)] by (simp add: plan_wf_def)
  finally show ?thesis using le plan_finish_Some(2) [OF walked(4)] by simp
qed

lemma plan_invoke_total:
  assumes "max_momus_retries (pe_pipeline env) < 255" "max_hermes_revisions (pe_pipeline env) < 255"
  shows "\<exists>r. plan_invoke env db c args = Some r"
proof (cases "parse_plan args")
  case (Err e)
  then show ?thesis by (simp add: plan_invoke_def)
next
  case (Ok plan)
  then have known: "deps_known (plan_tasks plan)" using parse_plan_wf by (auto simp: plan_wf_def)
  obtain tl where tl: "topological_layers plan = Some tl" by (rule topological_layers_known [OF known refl]) blast
  obtain ps st where start: "plan_start env plan args (fresh_state db c plan) = (ps, st)" by fastforce
  show ?thesis
  proof (cases "\<exists>layers s. tl = Ok layers \<and> ps = Ok s")
    case True
    then obtain layers s where ok: "tl = Ok layers" "ps = Ok s" by blast
    obtain st' h where "run_layers env plan (ps_plan_id s) layers st = Some (st', h)"
      by (rule walk_from_start [OF start known tl [unfolded ok]])
    moreover have "\<exists>r. plan_finish env plan args s st' h = Some r"
      using execute_total [OF assms] unfolding plan_finish_def Let_def by (metis (no_types, lifting) option.case(2))
    ultimately show ?thesis using Ok tl ok start by (simp add: plan_invoke_def)
  next
    case False
    then show ?thesis using Ok tl start by (cases tl; cases ps) (simp_all add: plan_invoke_def)
  qed
qed


text \<open>
  Claim C10. Every task comes out as prescribed: a plan stops early exactly when a task it ran or
  refused failed with a \<open>halt\<close> edge; otherwise every task is settled, that is replayed, skipped
  because a dependency is not ok, refused by the gates, or run with its outcome recorded.
\<close>

theorem plan_settles_every_task:
  assumes "parse_plan args = Ok plan" "plan_invoke env db c args = Some r" "pr_start r = Some ps"
  shows "let init = rs_outcomes (snd (plan_start env plan args (fresh_state db c plan)));
             final = rs_outcomes (pr_state r)
         in (pr_halted r \<longleftrightarrow> (\<exists>i<length (plan_tasks plan). init ! i = None \<and> halting plan final i))
            \<and> (\<not> pr_halted r \<longrightarrow> (\<forall>i<length (plan_tasks plan). settled env plan init final (rs_calls (pr_state r)) i))"
  using assms(1,2)
proof (cases rule: plan_invoke_run)
  case refused
  then show ?thesis using assms(3) by simp
next
  case (walked layers ps' st st' m)
  let ?D = "set (concat (take m layers))" and ?n = "length (plan_tasks plan)"
  note f = plan_finish_Some [OF walked(4)]
  have D: "?D \<subseteq> {..<?n}" and set: "\<forall>i\<in>?D. settled env plan (rs_outcomes st) (rs_outcomes st') (rs_calls st') i"
    and open': "\<forall>i<?n. i \<notin> ?D \<longrightarrow> rs_outcomes st' ! i = rs_outcomes st ! i"
    using walked(5) unfolding run_inv_def by auto
  have "pr_halted r \<longleftrightarrow> (\<exists>i<?n. rs_outcomes st ! i = None \<and> halting plan (rs_outcomes st') i)"
    unfolding walked(7)
  proof
    assume "\<exists>i<?n. rs_outcomes st ! i = None \<and> halting plan (rs_outcomes st') i"
    then obtain i where i: "i < ?n" "rs_outcomes st ! i = None" "halting plan (rs_outcomes st') i" by blast
    with open' have "i \<in> ?D" by (auto simp: halting_def)
    with i show "\<exists>i\<in>?D. rs_outcomes st ! i = None \<and> halting plan (rs_outcomes st') i" by blast
  qed (use D in blast)
  moreover have "settled env plan (rs_outcomes st) (rs_outcomes st') (rs_calls st') i" if "\<not> pr_halted r" "i < ?n" for i
  proof -
    have "?D = {..<?n}" using walked(6) [OF that(1)] topological_layers_ok(2) [OF walked(1)] by simp
    then show ?thesis using set that(2) by blast
  qed
  ultimately show ?thesis using walked(2) f by (simp add: Let_def)
qed

end
