(* ===== verification/Plan_Store.thy ===== *)
theory Plan_Store
  imports Plan_Run
begin

section \<open>The stored plan and its resumption\<close>

text \<open>
  What the database holds of a run. The locale \<open>plan_walk\<close> is the interface: whatever recording an
  outcome and the book-keeping keep, the walk keeps. Its interpretations carry the plan rows
  and the mirror of the outcomes in the checkpoints, on which the recorded status and the
  resumption rest. The instances at the end are for the properties of \<open>Plan_Run\<close> too.
\<close>

subsection \<open>What the walk keeps\<close>

text \<open>The walk changes the state by recording outcomes, each with its checkpoint, and by book-keeping;
  what both keep, the walk keeps.\<close>

lemma checkpoint_outcomes_upd [simp]:
  "checkpoint env pid t oc (st\<lparr>rs_outcomes := os\<rparr>) = (checkpoint env pid t oc st)\<lparr>rs_outcomes := os\<rparr>"
  by (simp add: checkpoint_def plan_db_def)

lemma batch_record:
  "(foldl (\<lambda>s ((i, _), oc). checkpoint env pid (ts ! i) oc s) st zs)
     \<lparr>rs_outcomes := foldl (\<lambda>os ((i, _), oc). os[i := Some oc]) (rs_outcomes st) zs\<rparr>
   = foldl (\<lambda>s ((i, _), oc). record_outcome env pid (ts ! i) i oc s) st zs"
proof (induction zs arbitrary: st)
  case (Cons z zs)
  obtain i r oc where z: "z = ((i, r), oc)" by (metis surj_pair)
  let ?s = "checkpoint env pid (ts ! i) oc st" and ?os = "(rs_outcomes st)[i := Some oc]"
  have up: "foldl (\<lambda>s ((i, _), oc). checkpoint env pid (ts ! i) oc s) (s\<lparr>rs_outcomes := os\<rparr>) zs
      = (foldl (\<lambda>s ((i, _), oc). checkpoint env pid (ts ! i) oc s) s zs)\<lparr>rs_outcomes := os\<rparr>" for s os
    by (induction zs arbitrary: s) (auto split: prod.split)
  have "record_outcome env pid (ts ! i) i oc st = ?s\<lparr>rs_outcomes := ?os\<rparr>" by (simp add: record_outcome_def Let_def)
  with Cons.IH [of "?s\<lparr>rs_outcomes := ?os\<rparr>"] show ?case by (simp add: z up)
qed simp

locale plan_walk =
  fixes env :: "'i PlanEnv" and plan :: PlanSpec and pid :: string and J :: "RunState \<Rightarrow> bool"
  assumes outcome: "J st \<Longrightarrow> i < length (plan_tasks plan) \<Longrightarrow> J (record_outcome env pid (plan_tasks plan ! i) i oc st)"
    and calls: "J st \<Longrightarrow> J (st\<lparr>rs_calls := cs\<rparr>)"
    and retried: "J st \<Longrightarrow> J (st\<lparr>rs_retried := bs\<rparr>)"
    and retries: "J st \<Longrightarrow> J (st\<lparr>rs_retries := n\<rparr>)"
begin

lemma stage_task_keeps:
  assumes "stage_task env plan pid i (st, h, rn) = Some (st', h', rn')" "J st"
    "list_all (\<lambda>c. fst c < length (plan_tasks plan)) rn"
  shows "J st' \<and> list_all (\<lambda>c. fst c < length (plan_tasks plan)) rn'"
  using assms outcome by (auto simp: stage_task_def Let_def split: if_splits option.splits)

lemma stage_layer_keeps:
  assumes "stage_layer env plan pid layer (st, h, rn) = Some (st', h', rn')" "J st"
    "list_all (\<lambda>c. fst c < length (plan_tasks plan)) rn"
  shows "J st' \<and> list_all (\<lambda>c. fst c < length (plan_tasks plan)) rn'"
  using assms
proof (induction layer arbitrary: st h rn)
  case (Cons i layer)
  then obtain s1 h1 r1 where 1: "stage_task env plan pid i (st, h, rn) = Some (s1, h1, r1)"
    "stage_layer env plan pid layer (s1, h1, r1) = Some (st', h', rn')" by (auto simp: bind_eq_Some_conv)
  with stage_task_keeps [OF 1(1) Cons.prems(2,3)] show ?case by (intro Cons.IH [OF 1(2)]) blast+
qed simp

lemma records_keep:
  assumes "J st" "\<forall>z\<in>set zs. fst (fst z) < length (plan_tasks plan)"
  shows "J (foldl (\<lambda>s ((i, _), oc). record_outcome env pid (plan_tasks plan ! i) i oc s) st zs)"
  using assms
proof (induction zs arbitrary: st)
  case (Cons z zs)
  obtain i r oc where z: "z = ((i, r), oc)" by (metis surj_pair)
  with Cons.prems have "J (record_outcome env pid (plan_tasks plan ! i) i oc st)" by (simp add: outcome)
  from Cons.IH [OF this] Cons.prems(2) show ?case by (simp add: z)
qed simp

lemma retries_keep:
  assumes "J st" "\<forall>c\<in>set rb. fst c < length (plan_tasks plan)"
  shows "J (foldl (retry_task env plan pid) st rb)"
  using assms
proof (induction rb arbitrary: st)
  case (Cons c rb)
  have "J (retry_task env plan pid st c)"
    using Cons.prems by (auto simp: retry_task_def Let_def intro!: retries outcome calls split: prod.split)
  then show ?case using Cons by simp
qed simp

lemma retry_scan_sub:
  "retry_scan ts zs (r, h, b) = (r', h', b') \<Longrightarrow> set b' \<subseteq> set b \<union> fst ` set zs"
  by (induction ts zs "(r, h, b)" arbitrary: r h b rule: retry_scan.induct) (fastforce split: if_splits)+

lemma run_batch_keeps:
  assumes "run_batch env plan pid batch (st, h) = (st', h')" "J st" "\<forall>c\<in>set batch. fst c < length (plan_tasks plan)"
  shows "J st'"
proof -
  let ?zs = "zip batch (batch_results env (length (rs_calls st)) batch)"
  obtain r' h2 rb where scan: "retry_scan (plan_tasks plan) ?zs (rs_retried st, h, []) = (r', h2, rb)" by (metis prod_cases3)
  let ?s1 = "st\<lparr>rs_calls := rs_calls st @ batch, rs_retried := r'\<rparr>"
  have "st' = foldl (retry_task env plan pid)
      (foldl (\<lambda>s ((i, _), oc). record_outcome env pid (plan_tasks plan ! i) i oc s) ?s1 ?zs) rb"
    using assms(1) scan batch_record [where env = env and pid = pid and ts = "plan_tasks plan" and st = ?s1 and zs = ?zs] by (simp add: run_batch_def Let_def)
  moreover have b: "\<forall>z\<in>set ?zs. fst (fst z) < length (plan_tasks plan)"
    using assms(3) by (fastforce dest: set_zip_leftD)
  moreover have "\<forall>c\<in>set rb. fst c < length (plan_tasks plan)"
    using retry_scan_sub [OF scan] b by fastforce
  ultimately show ?thesis using assms(2) by (simp add: retries_keep records_keep calls retried)
qed

lemma run_batches_keep:
  assumes "foldl (\<lambda>acc batch. run_batch env plan pid batch acc) (st, h) batches = (st', h')" "J st"
    "\<forall>c\<in>set (concat batches). fst c < length (plan_tasks plan)"
  shows "J st'"
  using assms
proof (induction batches arbitrary: st h)
  case (Cons batch batches)
  obtain s1 h1 where 1: "run_batch env plan pid batch (st, h) = (s1, h1)" by fastforce
  have "J s1" by (rule run_batch_keeps [OF 1]) (use Cons.prems in auto)
  with Cons 1 show ?case by auto
qed simp

lemma run_layer_keeps:
  assumes "run_layer env plan pid layer st = Some (st', h')" "J st"
  shows "J st'"
proof -
  from assms(1) obtain s1 h1 rn where 1: "stage_layer env plan pid layer (st, False, []) = Some (s1, h1, rn)"
    and 2: "foldl (\<lambda>acc batch. run_batch env plan pid batch acc) (s1, h1)
              (chunks (max 1 (pe_max_concurrent env)) rn) = (st', h')"
    by (auto simp: run_layer_def split: option.splits)
  from stage_layer_keeps [OF 1 assms(2)] have "J s1" "\<forall>c\<in>set rn. fst c < length (plan_tasks plan)"
    by (simp_all add: list_all_iff)
  with run_batches_keep [OF 2] show ?thesis by (simp add: concat_chunks)
qed

lemma run_layers_keep: "run_layers env plan pid layers st = Some (st', h') \<Longrightarrow> J st \<Longrightarrow> J st'"
  by (induction layers arbitrary: st) (auto dest: run_layer_keeps split: option.splits if_splits)

end

text \<open>The rows of plans stay, and an opened client stays open.\<close>

lemma checkpoint_plan_rows:
  "plan_rows (rs_db (checkpoint env pid t oc st)) = plan_rows (rs_db st)"
  "rs_client st \<Longrightarrow> rs_client (checkpoint env pid t oc st)"
  by (auto simp: checkpoint_def plan_db_def checkpoint_task_def split: option.split)

interpretation rows: plan_walk env plan pid "\<lambda>st. plan_rows (rs_db st) = R \<and> rs_client st"
  for env :: "'i PlanEnv" and plan pid R
  by unfold_locales (simp_all add: record_outcome_def Let_def checkpoint_plan_rows)

text \<open>The rows of the plan's tasks hold their outcomes, as far as a replay reads them.\<close>

definition response_text :: "TaskOutcome \<Rightarrow> string" where
  "response_text oc = (case json_get_str (oc_value oc) ''response'' of Some s \<Rightarrow> s | None \<Rightarrow> [])"

definition row_holds :: "PlanTaskSpec \<Rightarrow> TaskOutcome option \<Rightarrow> WorkflowTaskRow option \<Rightarrow> bool" where
  "row_holds t oc row \<longleftrightarrow>
     (case oc of
        Some x \<Rightarrow> (\<exists>w. row = Some w \<and> wt_agent w = task_agent t \<and> wt_status w = oc_status x
                      \<and> (case wt_response w of Some s \<Rightarrow> s | None \<Rightarrow> []) = response_text x)
      | None \<Rightarrow> (\<forall>w. row = Some w \<longrightarrow> \<not> (wt_status w = ''ok'' \<and> wt_agent w = task_agent t)))"

definition db_mirrors :: "PlanTaskSpec list \<Rightarrow> string \<Rightarrow> RunState \<Rightarrow> bool" where
  "db_mirrors ts pid st \<longleftrightarrow>
     rs_client st \<and> length (rs_outcomes st) = length ts \<and> distinct (map fst (task_rows (rs_db st)))
     \<and> (\<forall>i<length ts. row_holds (ts ! i) (rs_outcomes st ! i) (map_of (task_rows (rs_db st)) (pid, task_id (ts ! i))))"

definition quiet :: "'i PlanEnv \<Rightarrow> bool" where
  "quiet env \<longleftrightarrow> (\<forall>k. db_fault env k = None)"

lemma db_mirrors_record:
  assumes m: "db_mirrors ts pid st" and q: "quiet env" and "pid \<noteq> []" "distinct (map task_id ts)" "i < length ts"
  shows "db_mirrors ts pid (record_outcome env pid (ts ! i) i oc st)"
proof -
  let ?rows = "AList.update (pid, task_id (ts ! i)) (checkpoint_row (ts ! i) oc (clock env (rs_tick st))) (task_rows (rs_db st))"
  have rec: "task_rows (rs_db (record_outcome env pid (ts ! i) i oc st)) = ?rows"
    "rs_client (record_outcome env pid (ts ! i) i oc st)"
    using assms by (auto simp: record_outcome_def Let_def checkpoint_def plan_db_def db_mirrors_def quiet_def checkpoint_task_def)
  have "task_id (ts ! k) \<noteq> task_id (ts ! i)" if "k < length ts" "k \<noteq> i" for k
    using nth_eq_iff_index_eq [OF assms(4), of k i] that assms(5) by simp
  then have "row_holds (ts ! k) ((rs_outcomes st)[i := Some oc] ! k) (map_of ?rows (pid, task_id (ts ! k)))" if "k < length ts" for k
    using m that by (cases "k = i")
      (auto simp: db_mirrors_def row_holds_def update_conv checkpoint_row_def response_text_def)
  with m show ?thesis by (simp add: db_mirrors_def rec distinct_update)
qed

lemma db_mirrors_bookkeeping [simp]:
  "db_mirrors ts pid (st\<lparr>rs_calls := cs\<rparr>) \<longleftrightarrow> db_mirrors ts pid st"
  "db_mirrors ts pid (st\<lparr>rs_retried := bs\<rparr>) \<longleftrightarrow> db_mirrors ts pid st"
  "db_mirrors ts pid (st\<lparr>rs_retries := n\<rparr>) \<longleftrightarrow> db_mirrors ts pid st"
  by (simp_all add: db_mirrors_def)

interpretation mirror: plan_walk env plan pid
    "\<lambda>st. quiet env \<and> pid \<noteq> [] \<and> distinct (map task_id (plan_tasks plan)) \<and> db_mirrors (plan_tasks plan) pid st"
  for env :: "'i PlanEnv" and plan pid
  by unfold_locales (auto intro: db_mirrors_record)

subsection \<open>The record of a plan\<close>

lemma plan_db_client: "plan_db env st = (True, s) \<Longrightarrow> rs_client s"
  by (auto simp: plan_db_def split: if_splits)

lemma start_row:
  assumes "plan_start env plan args st = (Ok ps, st')" "ps_plan_id ps \<noteq> []" "quiet env"
  shows "rs_client st' \<and> plan_rows (rs_db st') (ps_plan_id ps) \<noteq> None"
proof -
  obtain b s0 where s0: "plan_db env st = (b, s0)" by fastforce
  with assms have b by (auto simp: plan_start_def split: bool.splits option.splits)
  with s0 have c: "rs_client s0" using plan_db_client [of env st s0] by simp
  show ?thesis
  proof (cases "json_get_str args ''resume_plan_id''")
    case None
    then show ?thesis using assms s0 \<open>b\<close> c
      by (auto simp: plan_start_def start_fresh_def Let_def create_plan_def quiet_def)
  next
    case (Some rid)
    then show ?thesis using assms s0 \<open>b\<close> c
      by (auto simp: plan_start_def start_resumed_def Let_def load_plan_def claim_plan_def claimable_def quiet_def
          split: option.splits if_splits prod.splits)
  qed
qed

lemma tally_completed: "final_status (tally ocs) = ''completed'' \<longleftrightarrow> (\<forall>oc\<in>set ocs. oc_status oc = ''ok'')"
proof -
  have "final_status (tally ocs) = ''completed'' \<longleftrightarrow>
      (\<forall>oc\<in>set ocs. oc_status oc \<noteq> ''failed'') \<and> (\<forall>oc\<in>set ocs. oc_status oc = ''ok'' \<or> oc_status oc = ''failed'')"
    by (auto simp: final_status_def tally_def filter_empty_conv)
  also have "\<dots> \<longleftrightarrow> (\<forall>oc\<in>set ocs. oc_status oc = ''ok'')" by force
  finally show ?thesis .
qed

lemma final_status_cases: "final_status n = ''completed'' \<or> final_status n = ''failed''"
  by (simp add: final_status_def)

lemma final_outcomes_ok:
  "(\<forall>oc\<in>set (map final_outcome ocs). oc_status oc = ''ok'') \<longleftrightarrow> (\<forall>i<length ocs. ok_at ocs i)"
  by (auto simp: all_set_conv_all_nth final_outcome_def ok_at_def split: option.splits)

text \<open>
  What the stored plan says: when the database works, a run with a plan row ends with the row
  released and its status \<open>completed\<close> exactly when every task of the plan ended ok, and \<open>failed\<close> otherwise.
\<close>

theorem plan_status_recorded:
  assumes "parse_plan args = Ok plan" "plan_invoke env db c args = Some r" "pr_start r = Some ps"
    "ps_plan_id ps \<noteq> []" "quiet env"
  shows "\<exists>row. plan_rows (rs_db (pr_state r)) (ps_plan_id ps) = Some row \<and> wp_owner row = None
    \<and> (wp_status row = ''completed'' \<longleftrightarrow> (\<forall>i<length (plan_tasks plan). ok_at (rs_outcomes (pr_state r)) i))
    \<and> (wp_status row = ''completed'' \<or> wp_status row = ''failed'')"
  using assms(1,2)
proof (cases rule: plan_invoke_run)
  case refused
  then show ?thesis using assms(3) by simp
next
  case (walked layers ps' st st' m)
  have ps: "ps' = ps" using plan_finish_Some(3) [OF walked(4)] assms(3) by simp
  from start_row [of env plan args "fresh_state db c plan" ps st] walked(2) ps assms(4,5)
  obtain row0 where st: "rs_client st" "plan_rows (rs_db st) (ps_plan_id ps) = Some row0" by auto
  from rows.run_layers_keep [OF walked(3), of "plan_rows (rs_db st)"] st
  have st': "rs_client st'" "plan_rows (rs_db st') (ps_plan_id ps) = Some row0" by auto
  let ?ocs = "map final_outcome (rs_outcomes st')"
  from walked(4) obtain summary gate where
    r: "pr_state r = complete_row env (ps_plan_id ps) (final_status (tally ?ocs)) summary gate st'"
    unfolding plan_finish_def Let_def ps by (metis (no_types, lifting) PlanRun.select_convs(4) option.case_eq_if option.distinct(1) option.inject)
  have "length (rs_outcomes st') = length (plan_tasks plan)" using walked(5) by (simp add: run_inv_def)
  then have "(final_status (tally ?ocs) = ''completed'') \<longleftrightarrow> (\<forall>i<length (plan_tasks plan). ok_at (rs_outcomes (pr_state r)) i)"
    unfolding tally_completed final_outcomes_ok r by simp
  moreover have "plan_rows (rs_db (pr_state r)) (ps_plan_id ps) =
      Some (row0\<lparr>wp_status := final_status (tally ?ocs), wp_summary := Some summary, wp_plan_approved := Some (plan_approved gate),
        wp_delivery_ready := Some (delivery_ready gate), wp_updated_at := clock env (rs_tick st'), wp_owner := None\<rparr>)"
    using st' assms(4,5) by (simp add: r complete_row_def plan_db_def complete_plan_def quiet_def)
  ultimately show ?thesis using final_status_cases [of "tally ?ocs"] by simp
qed

subsection \<open>Resuming\<close>

lemma mirror_fresh:
  assumes "\<forall>tid. map_of (task_rows (rs_db st)) (pid, tid) = None" "rs_client st" "distinct (map fst (task_rows (rs_db st)))"
    "rs_outcomes st = replicate (length ts) None"
  shows "db_mirrors ts pid st"
  using assms by (simp add: db_mirrors_def row_holds_def)

text \<open>The outcome a replay rebuilds from a checkpoint.\<close>

definition replayed :: "TaskOutcome option \<Rightarrow> TaskOutcome option" where
  "replayed oc =
     (case oc of
        Some x \<Rightarrow> if oc_status x = ''ok''
                  then Some \<lparr>oc_status = ''ok'', oc_value = JObject [(''response'', JString (response_text x))]\<rparr> else None
      | None \<Rightarrow> None)"

lemma replay_mirrors:
  assumes m: "db_mirrors ts pid st" and d: "distinct (map task_id ts)"
    and rows: "load_task_rows None (rs_db st) pid = Ok rows"
  shows "fst (replay_rows ts now rows (replicate (length ts) None, [])) = map replayed (rs_outcomes st)"
proof (rule nth_equalityI)
  from m have dr: "distinct (map fst (task_rows (rs_db st)))" by (simp add: db_mirrors_def)
  from load_task_rows_Ok [OF this, of pid] rows have
    r: "distinct (map fst rows)" "\<And>tid. map_of rows tid = map_of (task_rows (rs_db st)) (pid, tid)" by auto
  have len: "length (replicate (length ts) None) = length ts" by simp
  note spec = replay_rows_spec [OF r(1) d len, of now "[]"]
  then show "length (fst (replay_rows ts now rows (replicate (length ts) None, []))) = length (map replayed (rs_outcomes st))"
    using m by (simp add: db_mirrors_def)
  fix i assume "i < length (fst (replay_rows ts now rows (replicate (length ts) None, [])))"
  then have i: "i < length ts" using spec by simp
  have "row_holds (ts ! i) (rs_outcomes st ! i) (map_of rows (task_id (ts ! i)))" using m i r(2) by (simp add: db_mirrors_def)
  with spec i m show "fst (replay_rows ts now rows (replicate (length ts) None, [])) ! i = map replayed (rs_outcomes st) ! i"
    by (auto simp: row_holds_def replayed_def db_mirrors_def split: option.splits)
qed

lemma fresh_start_row:
  assumes "plan_start env plan args (fresh_state db c plan) = (Ok ps, st)" "ps_plan_id ps \<noteq> []"
    "json_get_str args ''resume_plan_id'' = None" "quiet env" "plan_rows db (fresh_uuid env) = None"
  shows "ps_plan_id ps = fresh_uuid env" "rs_client st" "task_rows (rs_db st) = task_rows db"
    "rs_outcomes st = replicate (length (plan_tasks plan)) None"
    "\<exists>row. plan_rows (rs_db st) (fresh_uuid env) = Some row \<and> wp_status row = ''running'' \<and> wp_owner row = None"
proof -
  obtain b s0 where s0: "plan_db env (fresh_state db c plan) = (b, s0)" by fastforce
  with assms have b by (auto simp: plan_start_def split: bool.splits option.splits)
  then have c: "rs_client s0" using plan_db_client [of env "fresh_state db c plan" s0] s0 by simp
  from plan_db_eq [OF s0] have f: "rs_db s0 = db" "rs_outcomes s0 = replicate (length (plan_tasks plan)) None"
    by (simp_all add: fresh_state_def)
  have "ps_plan_id ps = fresh_uuid env \<and> st = snd (start_fresh env plan args s0)"
    using assms(1,3) s0 \<open>b\<close> by (auto simp: plan_start_def start_fresh_def Let_def)
  then show "ps_plan_id ps = fresh_uuid env" "rs_client st" "task_rows (rs_db st) = task_rows db"
    "rs_outcomes st = replicate (length (plan_tasks plan)) None"
    "\<exists>row. plan_rows (rs_db st) (fresh_uuid env) = Some row \<and> wp_status row = ''running'' \<and> wp_owner row = None"
    using assms(4,5) c f by (simp_all add: start_fresh_def Let_def create_plan_def quiet_def)
qed

text \<open>
  Claim C8. A run that stops between two layers is resumed from its checkpoints: with a working
  database a new run may claim the plan at once, and it starts with exactly the tasks that had
  ended ok, each with its recorded answer; all others are open again. The same holds while
  the first run is still going: a fresh run does not own its row, so nothing fences it.
\<close>

theorem fresh_run_resumes:
  assumes parse: "parse_plan args = Ok plan" and fresh: "json_get_str args ''resume_plan_id'' = None"
    and start: "plan_start env plan args (fresh_state db c plan) = (Ok ps, st)" "ps_plan_id ps \<noteq> []"
    and run: "run_layers env plan (ps_plan_id ps) layers st = Some (st', h)"
    and q: "quiet env" "quiet env2" and db: "distinct (map fst (task_rows db))" "plan_rows db (fresh_uuid env) = None"
      "\<forall>tid. map_of (task_rows db) (fresh_uuid env, tid) = None"
    and resume: "json_get_str args2 ''resume_plan_id'' = Some (ps_plan_id ps)"
  shows "\<exists>ps2 st2. plan_start env2 plan args2 (fresh_state (rs_db st') True plan) = (Ok ps2, st2)
    \<and> ps_plan_id ps2 = ps_plan_id ps \<and> ps_resumed ps2 \<and> rs_outcomes st2 = map replayed (rs_outcomes st')"
proof -
  have d: "distinct (map task_id (plan_tasks plan))" using parse_plan_wf [OF parse] by (simp add: plan_wf_def)
  note f = fresh_start_row [OF start fresh q(1) db(2)]
  from f(5) obtain row where row: "plan_rows (rs_db st) (ps_plan_id ps) = Some row" "wp_status row = ''running''" "wp_owner row = None"
    using f(1) by auto
  have "db_mirrors (plan_tasks plan) (ps_plan_id ps) st" by (rule mirror_fresh) (use f db in simp_all)
  with mirror.run_layers_keep [OF run] q(1) start(2) d have m: "db_mirrors (plan_tasks plan) (ps_plan_id ps) st'" by simp
  have row': "plan_rows (rs_db st') (ps_plan_id ps) = Some row"
    using rows.run_layers_keep [OF run, of "plan_rows (rs_db st)"] f(2) row(1) by simp
  let ?t = "clock env2 1"
  let ?db = "(rs_db st')\<lparr>plan_rows := (plan_rows (rs_db st'))(ps_plan_id ps \<mapsto>
      row\<lparr>wp_owner := Some (fresh_uuid env2), wp_updated_at := ?t\<rparr>)\<rparr>"
  from load_task_rows_Ok [of "rs_db st'" "ps_plan_id ps"] m obtain ts where
    ts: "load_task_rows None (rs_db st') (ps_plan_id ps) = Ok ts" by (auto simp: db_mirrors_def)
  then have ts': "load_task_rows None ?db (ps_plan_id ps) = Ok ts" by (simp add: load_task_rows_def)
  have "start_resumed env2 plan (ps_plan_id ps) (fresh_state (rs_db st') True plan) =
      (Ok \<lparr>ps_plan_id = ps_plan_id ps, ps_resumed = True,
           ps_ages = snd (replay_rows (plan_tasks plan) (clock env2 2) ts (replicate (length (plan_tasks plan)) None, []))\<rparr>,
       (fresh_state (rs_db st') True plan)\<lparr>rs_db := ?db,
         rs_outcomes := fst (replay_rows (plan_tasks plan) (clock env2 2) ts (replicate (length (plan_tasks plan)) None, [])),
         rs_tick := 4\<rparr>)"
    using row' row(2,3) ts' q(2)
    by (simp add: start_resumed_def fresh_state_def Let_def load_plan_def claim_plan_def claimable_def quiet_def
        numeral_2_eq_2 split: prod.split)
  with resume replay_mirrors [OF m d ts, of "clock env2 2"] show ?thesis
    by (simp add: plan_start_def plan_db_def fresh_state_def)
qed

subsection \<open>Instances\<close>

text \<open>The demonstration plan with a working database; the sub-turns answer at once.\<close>

definition demo_env :: "string PlanEnv" where
  "demo_env =
     \<lparr>pe_tool = demo_tool, pe_pipeline = pipeline_new, pe_max_concurrent = clamp_concurrent 4, state_db = True,
      open_client = (\<lambda>_. True), db_fault = (\<lambda>_. None), clock = int, fresh_uuid = ''p1'',
      show_json = (\<lambda>_. []), show_db_error = (\<lambda>_. []), show_score = (\<lambda>_. []), session_sensitivity = Public,
      review_uid = 0, turn_env = (\<lambda>k. demo_turn\<lparr>llm_round := (\<lambda>_ _. Some ''fine''), env_parser := (\<lambda>_. Err [])\<rparr>),
      inherited = (\<lambda>_. 0), write_rewind = (\<lambda>_ _. None), plan_elapsed_ms = 7\<rparr>"

definition two_args :: json where
  "two_args = JObject [(''tasks'', JArray [Plan_Graph.demo_item ''a'' [], Plan_Graph.demo_item ''b'' [''a'']])]"

definition two_task :: "string \<Rightarrow> string list \<Rightarrow> PlanTaskSpec" where
  "two_task i deps = \<lparr>task_id = i, task_agent = ''Explore'', task_prompt = ''go'', depends_on = deps, on_failure = Skip, artifact = None\<rparr>"

definition two_plan :: PlanSpec where
  "two_plan = \<lparr>plan_name = None, plan_tasks = [two_task ''a'' [], two_task ''b'' [''a'']]\<rparr>"

lemma two_parse: "parse_plan two_args = Ok two_plan"
  unfolding two_plan_def two_task_def by code_simp

lemma two_layers: "topological_layers two_plan = Some (Ok [[0], [1]])"
  by code_simp

lemma demo_answers:
  assumes "req_agent req = ''Explore''" "req_artifact req = None"
  shows "oc_status (run_call demo_env k req) = ''ok''" "json_get_str (oc_value (run_call demo_env k req)) ''response'' = Some ''fine''"
proof -
  let ?env = "turn_env demo_env k"
  have env: "?env = demo_turn\<lparr>llm_round := (\<lambda>_ _. Some ''fine''), env_parser := (\<lambda>_. Err [])\<rparr>" by (simp add: demo_env_def)
  have loop: "sub_loop ?env MAX_DELEGATE_ROUNDS 0 [] [] = SubDone ''fine'' 1 False" unfolding env by code_simp
  have sp: "split_report_markers ''fine'' = (''fine'', None, None)" by code_simp
  have h: "sub_response_honesty_error (env_parser ?env) (env_normalizer ?env) ''Explore'' None ''fine'' (Suc 0) = None"
    unfolding env by code_simp
  have b: "agent_builds ?env" "\<And>n. reserve_tokens ?env n = Ok True" unfolding env by (simp_all add: demo_turn_def)
  have "run_single ?env (inherited demo_env k) req = JObject (sub_result ?env req ''fine'' 1)"
    by (simp add: run_single_def run_single_composed_def Let_def b loop assms builtin_agents_def)
       (simp add: MAX_DELEGATE_ROUNDS_def)
  moreover have "map_of (sub_result ?env req ''fine'' 1) ''error'' = None"
    "map_of (sub_result ?env req ''fine'' 1) ''response'' = Some (JString ''fine'')"
    by (simp_all add: sub_result_def sp h assms map_add_def split: option.split)
  ultimately show "oc_status (run_call demo_env k req) = ''ok''"
    "json_get_str (oc_value (run_call demo_env k req)) ''response'' = Some ''fine''"
    by (simp_all add: run_call_def Let_def json_get_str_def)
qed

lemma demo_admits:
  assumes "req_agent req = ''Explore''" "req_artifact req = None" "length (req_prompt req) \<le> 32000"
  shows "validate_task (pe_tool demo_env) DELEGATE_ROOT_PARENT 0 req = None"
proof -
  have "spawn_allowed DELEGATE_ROOT_PARENT ''Explore'' = Ok ()" "is_builtin_agent ''Explore''" by code_simp+
  then show ?thesis using assms by (simp add: validate_task_None demo_env_def demo_tool_def BOUNDED_PROMPT_CHARS_def)
qed

lemma demo_limits: "max_momus_retries (pe_pipeline demo_env) < 255" "max_hermes_revisions (pe_pipeline demo_env) < 255"
  by (simp_all add: demo_env_def pipeline_new_def)

lemma demo_quiet: "quiet demo_env"
  by (simp add: quiet_def demo_env_def)

definition two_start :: PlanStart where
  "two_start = \<lparr>ps_plan_id = ''p1'', ps_resumed = False, ps_ages = []\<rparr>"

lemma two_fresh:
  "\<exists>st. plan_start demo_env two_plan two_args (fresh_state empty_db False two_plan) = (Ok two_start, st)
      \<and> rs_outcomes st = [None, None]"
proof -
  have "json_get_str two_args ''resume_plan_id'' = None" by code_simp
  then show ?thesis
    by (simp add: plan_start_def plan_db_def fresh_state_def start_fresh_def two_start_def Let_def demo_env_def two_plan_def)
qed

lemma two_run:
  obtains r req where "plan_invoke demo_env empty_db False two_args = Some r" "pr_start r = Some two_start"
    "(1, req) \<in> set (rs_calls (pr_state r))"
proof -
  from plan_invoke_total [OF demo_limits] obtain r where r: "plan_invoke demo_env empty_db False two_args = Some r" by blast
  from two_fresh obtain st where st: "plan_start demo_env two_plan two_args (fresh_state empty_db False two_plan) = (Ok two_start, st)"
    "rs_outcomes st = [None, None]" by blast
  from two_parse r show ?thesis
  proof (cases rule: plan_invoke_run)
    case refused
    then show ?thesis using r st two_parse two_layers
      by (auto simp: plan_invoke_def plan_finish_def Let_def split: option.splits)
  next
    case (walked layers ps st1 st' m)
    have eq: "layers = [[0], [1]]" "ps = two_start" "st1 = st" using walked(1,2) two_layers st by auto
    have nh: "\<not> halting two_plan ocs i" if "i < 2" for ocs i
      using that by (auto simp: halting_def two_plan_def two_task_def less_2_cases_iff)
    have n: "length (plan_tasks two_plan) = 2" by (simp add: two_plan_def)
    have sub: "set (concat (take m layers)) \<subseteq> {..<2}" using walked(5) unfolding run_inv_def n by blast
    have "\<not> pr_halted r" unfolding walked(7) using nh sub by blast
    from walked(6) [OF this] have "m = 2" by (simp add: eq(1))
    have set: "settled demo_env two_plan [None, None] (rs_outcomes st') (rs_calls st') i" if "i < 2" for i
      using walked(5) that \<open>m = 2\<close> unfolding run_inv_def eq st(2) by (auto simp: less_2_cases_iff)
    have len: "length (rs_outcomes st') = 2" using walked(5) by (simp add: run_inv_def two_plan_def)
    let ?req = "plan_request (plan_tasks two_plan ! 0) []"
    have "ran demo_env Skip (rs_calls st') 0 ?req (rs_outcomes st' ! 0)"
      using set [of 0] demo_admits [of ?req]
      by (simp add: settled_def two_plan_def two_task_def plan_request_def compose_task_prompt_def Let_def)
    from ran_last [OF this] obtain k where k: "rs_outcomes st' ! 0 = Some (run_call demo_env k ?req)" by blast
    have a: "req_agent ?req = ''Explore''" "req_artifact ?req = None"
      by (simp_all add: two_plan_def two_task_def plan_request_def)
    let ?ups = "[(''a'', upstream_snippet (show_json demo_env) (oc_value (run_call demo_env k ?req)))]"
    have up: "upstream_of (show_json demo_env) (plan_tasks two_plan) (rs_outcomes st') (depends_on (plan_tasks two_plan ! 1)) = Some (?ups, False)"
      using k len demo_answers(1) [OF a] by (simp add: two_plan_def two_task_def index_of_def)
    have sn: "snd (hd ?ups) = ''fine''" unfolding upstream_snippet_def demo_answers(2) [OF a] Let_def
      by code_simp
    let ?req1 = "plan_request (plan_tasks two_plan ! 1) ?ups"
    have "validate_task (pe_tool demo_env) DELEGATE_ROOT_PARENT 0 ?req1 = None"
      using sn by (intro demo_admits) (simp_all add: two_plan_def two_task_def plan_request_def compose_task_prompt_def nl2_def)
    with set [of 1] up have "ran demo_env (on_failure (plan_tasks two_plan ! 1)) (rs_calls st') 1 ?req1 (rs_outcomes st' ! 1)"
      by (simp add: settled_def Let_def)
    from ran_last [OF this] obtain k1 where "k1 < length (rs_calls st')" "rs_calls st' ! k1 = (1, ?req1)" by blast
    then have "(1, ?req1) \<in> set (rs_calls st')" by (metis nth_mem)
    then show ?thesis using that r plan_finish_Some [OF walked(4)] eq(2) by metis
  qed
qed

theorem plan_runs_after_dependencies_witness:
  "\<exists>r. plan_invoke demo_env empty_db False two_args = Some r \<and> ok_at (rs_outcomes (pr_state r)) 0"
proof -
  obtain r req where r: "plan_invoke demo_env empty_db False two_args = Some r" "(1, req) \<in> set (rs_calls (pr_state r))"
    by (rule two_run)
  have "(0, 1) \<in> depends_rel (plan_tasks two_plan)"
    by (simp add: depends_rel_def two_plan_def two_task_def index_of_def)
  with plan_runs_after_dependencies [OF two_parse r] r(1) show ?thesis by blast
qed

theorem plan_calls_bounded_witness:
  "\<exists>r. plan_invoke demo_env empty_db False two_args = Some r \<and> count_list (map fst (rs_calls (pr_state r))) 1 \<le> 1"
proof -
  obtain r req where r: "plan_invoke demo_env empty_db False two_args = Some r" by (rule two_run)
  from plan_calls_bounded [OF two_parse r, THEN conjunct1, rule_format, of 1] r show ?thesis
    by (auto simp: two_plan_def two_task_def)
qed


theorem plan_settles_every_task_witness:
  "\<exists>r. plan_invoke demo_env empty_db False two_args = Some r \<and> \<not> pr_halted r"
proof -
  obtain r req where r: "plan_invoke demo_env empty_db False two_args = Some r" "pr_start r = Some two_start" by (rule two_run)
  have "\<not> halting two_plan ocs i" if "i < length (plan_tasks two_plan)" for ocs i
    using that by (auto simp: halting_def two_plan_def two_task_def less_Suc_eq)
  with plan_settles_every_task [OF two_parse r] r(1) show ?thesis by (auto simp: Let_def)
qed

theorem plan_status_recorded_witness:
  "\<exists>r row. plan_invoke demo_env empty_db False two_args = Some r
     \<and> plan_rows (rs_db (pr_state r)) ''p1'' = Some row \<and> wp_owner row = None"
proof -
  obtain r req where r: "plan_invoke demo_env empty_db False two_args = Some r" "pr_start r = Some two_start" by (rule two_run)
  have "ps_plan_id two_start \<noteq> []" by (simp add: two_start_def)
  from plan_status_recorded [OF two_parse r this demo_quiet] r(1) show ?thesis by (auto simp: two_start_def)
qed

theorem fresh_run_resumes_witness:
  "\<exists>st st' h ps2 st2. plan_start demo_env two_plan two_args (fresh_state empty_db False two_plan) = (Ok two_start, st)
     \<and> run_layers demo_env two_plan ''p1'' [[0]] st = Some (st', h)
     \<and> plan_start demo_env two_plan (JObject [(''resume_plan_id'', JString ''p1'')]) (fresh_state (rs_db st') True two_plan) = (Ok ps2, st2)
     \<and> rs_outcomes st2 = map replayed (rs_outcomes st')"
proof -
  from two_fresh obtain st where st: "plan_start demo_env two_plan two_args (fresh_state empty_db False two_plan) = (Ok two_start, st)"
    by blast
  have id: "ps_plan_id two_start = ''p1''" "ps_plan_id two_start \<noteq> []" by (simp_all add: two_start_def)
  have known: "deps_known (plan_tasks two_plan)" by (simp add: deps_known_def two_plan_def two_task_def)
  have "\<forall>i\<in>set [0]. i < length (plan_tasks two_plan) \<and> i \<notin> {} \<and> dep_indices (plan_tasks two_plan) i \<subseteq> {}"
    by (simp add: two_plan_def two_task_def dep_indices_def)
  from run_layer_inv [OF run_inv_start [OF st] known _ this, of "''p1''"] obtain st' h
    where "run_layer demo_env two_plan ''p1'' [0] st = Some (st', h)" by auto
  then have run: "run_layers demo_env two_plan (ps_plan_id two_start) [[0]] st = Some (st', h)" by (simp add: id)
  have no: "json_get_str two_args ''resume_plan_id'' = None" by code_simp
  have rid: "json_get_str (JObject [(''resume_plan_id'', JString ''p1'')]) ''resume_plan_id'' = Some (ps_plan_id two_start)"
    by (simp add: json_get_str_def id)
  have db: "distinct (map fst (task_rows empty_db))" "plan_rows empty_db (fresh_uuid demo_env) = None"
    "\<forall>tid. map_of (task_rows empty_db) (fresh_uuid demo_env, tid) = None" by (simp_all add: empty_db_def)
  from fresh_run_resumes [OF two_parse no st id(2) run demo_quiet demo_quiet db rid] st run id show ?thesis by metis
qed

end
