(* ===== verification/Sandbox_Gate.thy ===== *)
theory Sandbox_Gate
  imports Role_Validate Json_Value
begin

section \<open>The sandbox (zen-core/src/sandbox.rs)\<close>

text \<open>
  The in-process sandbox: modes, the lexical path checks, the symlink check, the command blocklist,
  the seatbelt policy on tool calls and the profile and command line of the operating-system
  sandbox. A path is its string and is compared by its components; the file system is a record
  with the answers of \<open>symlink_metadata\<close>, \<open>canonicalize\<close> and \<open>exists\<close> on component lists.
\<close>

subsection \<open>Modes\<close>

datatype SandboxMode = ReadOnly | WorkspaceWrite | Ask | DangerFullAccess

fun sandbox_mode_str :: "SandboxMode \<Rightarrow> string" where
  "sandbox_mode_str ReadOnly = ''read-only''"
| "sandbox_mode_str WorkspaceWrite = ''workspace-write''"
| "sandbox_mode_str Ask = ''ask''"
| "sandbox_mode_str DangerFullAccess = ''danger-full-access''"

definition sandbox_mode_parse :: "string \<Rightarrow> SandboxMode option" where
  "sandbox_mode_parse s =
     (if s \<in> {''read-only'', ''readonly'', ''ro''} then Some ReadOnly
      else if s \<in> {''workspace-write'', ''workspacemode'', ''ww''} then Some WorkspaceWrite
      else if s \<in> {''ask'', ''askme''} then Some Ask
      else if s \<in> {''danger-full-access'', ''full'', ''unsafe''} then Some DangerFullAccess
      else None)"

subsection \<open>Lexical checks\<close>

definition PROTECTED_PATHS :: "string list" where
  "PROTECTED_PATHS = [''.git'', ''.zen'', ''.ssh'', ''.aws'', ''.gnupg'', ''.env'']"

definition BLOCKED_COMMAND_PATTERNS :: "string list" where
  "BLOCKED_COMMAND_PATTERNS = [''rm -rf /'', ''rm -rf ~'', ''sudo '', ''chmod 777'']"

definition BLOCKED_NETWORK_COMMANDS :: "string list" where
  "BLOCKED_NETWORK_COMMANDS = [''curl'', ''wget'']"

fun comp_str :: "component \<Rightarrow> string" where
  "comp_str RootDir = ''/''"
| "comp_str CurDir = ''.''"
| "comp_str ParentDir = ''..''"
| "comp_str (Normal s) = s"

text \<open>The path a list of components is pushed into.\<close>

definition path_of :: "component list \<Rightarrow> string" where
  "path_of cs =
     (case cs of
        RootDir # rest \<Rightarrow> CHR ''/'' # str_join ''/'' (map comp_str rest)
      | _ \<Rightarrow> str_join ''/'' (map comp_str cs))"

definition is_env_file :: "component list \<Rightarrow> bool" where
  "is_env_file cs \<longleftrightarrow>
     list_ex (\<lambda>c. let name = comp_str c in
       name = ''.env'' \<or> starts_with name ''.env.'' \<or> ends_with name ''.env'') cs"

definition is_zen_path :: "component list \<Rightarrow> bool" where
  "is_zen_path cs \<longleftrightarrow> list_ex (\<lambda>c. comp_str c = ''.zen'') cs"

definition is_metadata_path :: "component list \<Rightarrow> bool" where
  "is_metadata_path cs \<longleftrightarrow> is_env_file cs \<or> list_ex (\<lambda>c. comp_str c \<in> set PROTECTED_PATHS) cs"

text \<open>The loop of \<open>lexical_normalize\<close>; \<open>out\<close> is kept reversed.\<close>

fun normalize_step :: "component list \<Rightarrow> component \<Rightarrow> component list" where
  "normalize_step out CurDir = out"
| "normalize_step out ParentDir = (case out of Normal _ # rest \<Rightarrow> rest | _ \<Rightarrow> out)"
| "normalize_step out c = c # out"

definition lexical_normalize :: "component list \<Rightarrow> component list" where
  "lexical_normalize cs =
     (let out = rev (foldl normalize_step [] cs) in if out = [] then [CurDir] else out)"

definition is_within_root :: "component list \<Rightarrow> component list \<Rightarrow> bool" where
  "is_within_root path root \<longleftrightarrow> prefix (lexical_normalize root) (lexical_normalize path)"

subsection \<open>The file system and symbolic links\<close>

record FileSystem =
  symlink_metadata :: "component list \<Rightarrow> bool option"  \<comment> \<open>whether the entry is a link; None: an error\<close>
  canonicalize :: "component list \<Rightarrow> (component list, string) result"
  path_exists :: "component list \<Rightarrow> bool"

text \<open>\<open>Path::parent\<close> and \<open>Path::file_name\<close> on components.\<close>

definition parent :: "component list \<Rightarrow> component list option" where
  "parent cs = (if cs = [] \<or> last cs = RootDir then None else Some (butlast cs))"

definition last_name :: "component list \<Rightarrow> string list" where
  "last_name cs = (case rev cs of Normal s # _ \<Rightarrow> [s] | _ \<Rightarrow> [])"

function walk_up :: "FileSystem \<Rightarrow> component list \<Rightarrow> component list \<Rightarrow> string list \<Rightarrow> (component list, string) result" where
  "walk_up fs path current missing =
     (case parent current of
        None \<Rightarrow> canonicalize fs path
      | Some p \<Rightarrow>
          if p = [] then canonicalize fs path
          else
            let missing' = missing @ last_name current in
            if symlink_metadata fs p \<noteq> None then
              (case canonicalize fs p of
                 Err e \<Rightarrow> Err e
               | Ok c \<Rightarrow> Ok (c @ map Normal (rev missing')))
            else walk_up fs path p missing')"
  by pat_completeness auto
termination
  by (relation "measure (\<lambda>(fs, path, current, missing). length current)")
     (auto simp: parent_def split: if_splits)

declare walk_up.simps [simp del]

definition canonicalize_for_check :: "FileSystem \<Rightarrow> component list \<Rightarrow> (component list, string) result" where
  "canonicalize_for_check fs path =
     (case canonicalize fs path of
        Ok c \<Rightarrow> Ok c
      | Err _ \<Rightarrow>
          if symlink_metadata fs path = Some True then canonicalize fs path
          else walk_up fs path path [])"

fun contains_symlink :: "FileSystem \<Rightarrow> component list \<Rightarrow> component list \<Rightarrow> bool" where
  "contains_symlink fs current [] = False"
| "contains_symlink fs current (c # cs) =
     (case symlink_metadata fs (current @ [c]) of
        Some True \<Rightarrow> True
      | Some False \<Rightarrow> contains_symlink fs (current @ [c]) cs
      | None \<Rightarrow> False)"

definition path_contains_symlink :: "FileSystem \<Rightarrow> component list \<Rightarrow> bool" where
  "path_contains_symlink fs path = contains_symlink fs [] path"

definition GLOBAL_ROOT_SUBTREES :: "string list" where
  "GLOBAL_ROOT_SUBTREES = [''vault'', ''memories'', ''logs'', ''skills'']"

text \<open>\<open>resolve_agent_path\<close>, with the global root as a parameter; \<open>join\<close> with a relative path appends.\<close>

definition resolve_agent_path :: "FileSystem \<Rightarrow> component list \<Rightarrow> component list \<Rightarrow> component list" where
  "resolve_agent_path fs user_root path =
     (if path \<noteq> [] \<and> hd path = RootDir then path
      else if path_exists fs path then path
      else
        let anchored = user_root @ filter (\<lambda>c. c \<noteq> CurDir) path in
        if path_exists fs anchored then anchored
        else case path of
               first # _ \<Rightarrow> if comp_str first \<in> set GLOBAL_ROOT_SUBTREES then anchored else path
             | [] \<Rightarrow> path)"

subsection \<open>Commands\<close>

definition is_blocked_command :: "string \<Rightarrow> string option" where
  "is_blocked_command cmd =
     (let cmd_lower = to_lowercase cmd in
      case find (\<lambda>pattern. str_contains cmd_lower (to_lowercase pattern)) BLOCKED_COMMAND_PATTERNS of
        Some pattern \<Rightarrow> Some pattern
      | None \<Rightarrow>
          find (\<lambda>blocked. (case split_whitespace cmd_lower of w # _ \<Rightarrow> w | [] \<Rightarrow> []) = blocked) BLOCKED_NETWORK_COMMANDS)"

definition known_hosts :: "string list" where
  "known_hosts = [''localhost'', ''127.0.0.1'', ''0.0.0.0'', ''api.openai.com'', ''api.anthropic.com'', ''github.com'',
     ''raw.githubusercontent.com'']"

function trim_start_matches :: "string \<Rightarrow> string \<Rightarrow> string" where
  "trim_start_matches p s = (if p \<noteq> [] \<and> starts_with s p then trim_start_matches p (drop (length p) s) else s)"
  by pat_completeness auto
termination
  by (relation "measure (\<lambda>(p, s). length s)") (auto simp: prefix_def)

declare trim_start_matches.simps [simp del]

definition first_word :: "string \<Rightarrow> string" where
  "first_word s = (case split_whitespace s of w # _ \<Rightarrow> w | [] \<Rightarrow> [])"

definition target_host :: "string \<Rightarrow> string" where
  "target_host arg =
     hd (split_on (\<lambda>c. c = CHR ''/'') (trim_start_matches ''https://'' (trim_start_matches ''http://'' arg)))"

definition network_hit :: "string \<Rightarrow> string \<Rightarrow> bool" where
  "network_hit cmd_trimmed host =
     (let first_token = first_word cmd_trimmed;
          binary_name = last (split_on (\<lambda>c. c = CHR ''/'') first_token);
          pattern = host @ '' '' in
      if binary_name = host \<and> cmd_trimmed = first_token then True
      else case str_find cmd_trimmed pattern of
             None \<Rightarrow> False
           | Some k \<Rightarrow>
               \<not> list_ex (\<lambda>known. str_contains (target_host (first_word (drop (k + length pattern) cmd_trimmed))) known) known_hosts)"

definition is_dangerous_network_target :: "string \<Rightarrow> bool" where
  "is_dangerous_network_target cmd = list_ex (network_hit (trim cmd)) BLOCKED_NETWORK_COMMANDS"

subsection \<open>The validator\<close>

record SandboxValidator =
  sv_mode :: SandboxMode
  sv_roots :: "component list list"
  protected_set :: "string set"

definition sandbox_validator_new :: "SandboxMode \<Rightarrow> component list list \<Rightarrow> SandboxValidator" where
  "sandbox_validator_new mode roots =
     \<lparr>sv_mode = mode, sv_roots = roots,
      protected_set = set PROTECTED_PATHS \<union> set (map tl (filter (\<lambda>p. starts_with p ''.'') PROTECTED_PATHS))\<rparr>"

definition hits_protected :: "SandboxValidator \<Rightarrow> component list \<Rightarrow> bool" where
  "hits_protected v cs \<longleftrightarrow> list_ex (\<lambda>c. comp_str c \<in> protected_set v) cs"

definition check_symlink_escape :: "FileSystem \<Rightarrow> SandboxValidator \<Rightarrow> string \<Rightarrow> (unit, string) result" where
  "check_symlink_escape fs v path =
     (if \<not> path_contains_symlink fs (components path) then Ok ()
      else case canonicalize_for_check fs (components path) of
             Err e \<Rightarrow> Err (''sandbox blocked: cannot canonicalize symlink path '' @ path @ '': '' @ e)
           | Ok canonical \<Rightarrow>
               if is_env_file canonical then
                 Err (''sandbox blocked: symlink '' @ path @ '' resolves to environment file '' @ path_of canonical)
               else if hits_protected v canonical then
                 Err (''sandbox blocked: symlink '' @ path @ '' resolves to protected path '' @ path_of canonical)
               else if sv_roots v \<noteq> []
                  \<and> \<not> list_ex (\<lambda>root. is_within_root canonical
                        (case canonicalize fs root of Ok r \<Rightarrow> r | Err _ \<Rightarrow> root)) (sv_roots v) then
                 Err (''sandbox blocked: symlink '' @ path @ '' escapes workspace root (resolves to ''
                      @ path_of canonical @ '')'')
               else Ok ())"

definition validate_path_for_write :: "FileSystem \<Rightarrow> SandboxValidator \<Rightarrow> string \<Rightarrow> (unit, string) result" where
  "validate_path_for_write fs v path =
     (if sv_mode v = ReadOnly then Err ''sandbox is in read-only mode, no write allowed''
      else if sv_mode v = DangerFullAccess then Ok ()
      else
        let normalized = lexical_normalize (components path) in
        if is_env_file normalized then Err (''write blocked: '' @ path @ '' is an environment file'')
        else if is_zen_path normalized then Ok ()
        else if hits_protected v normalized then
          Err (''write blocked: '' @ path_of normalized @ '' is a protected metadata path'')
        else if sv_roots v = [] then
          Err (''no workspace roots configured '' @ em_dash
               @ '' run zen workspace init or use vault/... (vault is global ~/.zen/vault/ per ZenPaths invariant)'')
        else if \<not> list_ex (is_within_root (components path)) (sv_roots v) then
          Err (''write denied: '' @ path_of normalized @ '' is not under any workspace root '' @ em_dash
               @ '' use vault/... (e.g. vault/resources/<slug>.md) or run zen workspace init'')
        else check_symlink_escape fs v path)"

definition validate_path_for_read :: "FileSystem \<Rightarrow> SandboxValidator \<Rightarrow> string \<Rightarrow> (unit, string) result" where
  "validate_path_for_read fs v path =
     (if sv_mode v = DangerFullAccess then Ok ()
      else
        let normalized = lexical_normalize (components path) in
        if is_env_file normalized then Err (''read blocked: '' @ path @ '' is an environment file'')
        else if is_zen_path normalized then Ok ()
        else if hits_protected v normalized then Err (''read blocked: '' @ path @ '' is a protected metadata path'')
        else check_symlink_escape fs v path)"

definition sandbox_validate_command :: "SandboxValidator \<Rightarrow> string \<Rightarrow> (unit, string) result" where
  "sandbox_validate_command v cmd =
     (case is_blocked_command cmd of
        Some pattern \<Rightarrow> Err (''blocked command pattern: '' @ pattern)
      | None \<Rightarrow>
          if is_dangerous_network_target cmd \<and> sv_mode v \<noteq> DangerFullAccess
          then Err ''blocked network command to unknown host'' else Ok ())"

subsection \<open>The seatbelt\<close>

record ToolArgEntry =
  path_args :: "string list"
  command_args :: "string list"

record SeatbeltPolicy =
  sp_mode :: SandboxMode
  sp_roots :: "component list list"
  timeout_secs :: nat
  arg_registry :: "string \<rightharpoonup> ToolArgEntry"

definition seatbelt_new :: "SandboxMode \<Rightarrow> component list list \<Rightarrow> SeatbeltPolicy" where
  "seatbelt_new mode roots = \<lparr>sp_mode = mode, sp_roots = roots, timeout_secs = 300, arg_registry = Map.empty\<rparr>"

definition register_tool_args :: "string \<Rightarrow> string list \<Rightarrow> string list \<Rightarrow> (string \<rightharpoonup> ToolArgEntry) \<Rightarrow> (string \<rightharpoonup> ToolArgEntry)" where
  "register_tool_args tool paths commands reg = reg(tool \<mapsto> \<lparr>path_args = paths, command_args = commands\<rparr>)"

definition is_write_allowed :: "SeatbeltPolicy \<Rightarrow> component list \<Rightarrow> bool" where
  "is_write_allowed p path =
     (if sp_mode p = ReadOnly then False
      else if sp_mode p = DangerFullAccess then True
      else if is_metadata_path path then False
      else if sp_roots p = [] then False
      else list_ex (is_within_root path) (sp_roots p))"

datatype ToolDispatchAction = Continue | Terminate string

definition check_command_arg :: "SeatbeltPolicy \<Rightarrow> string \<Rightarrow> ToolDispatchAction option" where
  "check_command_arg p arg =
     (case is_blocked_command arg of
        Some pattern \<Rightarrow> Some (Terminate (''sandbox blocked command matching pattern: \"'' @ pattern @ ''\"''))
      | None \<Rightarrow>
          if is_dangerous_network_target arg \<and> sp_mode p \<noteq> DangerFullAccess
          then Some (Terminate ''sandbox blocked network command to unknown host'') else None)"

definition check_path_arg :: "json \<Rightarrow> string \<Rightarrow> ToolDispatchAction option" where
  "check_path_arg args path =
     (if is_metadata_path (components path) then
        (case json_get_str args ''operation'' of
           Some op \<Rightarrow>
             if op \<in> {''write'', ''delete'', ''remove'', ''modify''}
             then Some (Terminate (''sandbox blocked write operation on metadata path: \"'' @ path @ ''\"'')) else None
         | None \<Rightarrow> None)
      else None)"

fun first_termination :: "(string \<Rightarrow> ToolDispatchAction option) \<Rightarrow> json \<Rightarrow> string list \<Rightarrow> ToolDispatchAction option" where
  "first_termination check args [] = None"
| "first_termination check args (key # keys) =
     (case Option.bind (json_get_str args key) check of
        Some termination \<Rightarrow> Some termination
      | None \<Rightarrow> first_termination check args keys)"

definition validate_invocation :: "SeatbeltPolicy \<Rightarrow> string \<Rightarrow> json \<Rightarrow> ToolDispatchAction" where
  "validate_invocation p tool args =
     (let (command_keys, path_keys) =
            (case arg_registry p tool of
               Some entry \<Rightarrow> (command_args entry, path_args entry)
             | None \<Rightarrow> ([''command''], [''path'']))
      in case first_termination (check_command_arg p) args command_keys of
           Some termination \<Rightarrow> termination
         | None \<Rightarrow>
             (case first_termination (check_path_arg args) args path_keys of
                Some termination \<Rightarrow> termination
              | None \<Rightarrow> Continue))"

subsection \<open>The operating-system sandbox\<close>

record OsSandboxProfile =
  readable_roots :: "component list list"
  writable_roots :: "component list list"
  os_network :: bool
  sandboxed :: bool

definition profile_from_mode :: "SandboxMode \<Rightarrow> component list list \<Rightarrow> bool \<Rightarrow> OsSandboxProfile" where
  "profile_from_mode mode roots network =
     (case mode of
        ReadOnly \<Rightarrow> \<lparr>readable_roots = roots, writable_roots = [], os_network = network, sandboxed = True\<rparr>
      | DangerFullAccess \<Rightarrow> \<lparr>readable_roots = [], writable_roots = [], os_network = network, sandboxed = False\<rparr>
      | _ \<Rightarrow> \<lparr>readable_roots = roots, writable_roots = roots, os_network = network, sandboxed = True\<rparr>)"

definition DENIAL_KEYWORDS :: "string list" where
  "DENIAL_KEYWORDS = [''operation not permitted'', ''permission denied'', ''read-only file system'', ''sandbox'', ''landlock'',
     ''seccomp'', ''failed to write file'']"

definition is_likely_sandbox_denied :: "int option \<Rightarrow> string \<Rightarrow> bool" where
  "is_likely_sandbox_denied exit_code stderr \<longleftrightarrow>
     (case exit_code of Some code \<Rightarrow> code \<in> {2, 126, 127} \<or> code = 128 + 31 | None \<Rightarrow> False)
     \<or> list_ex (str_contains (to_lowercase stderr)) DENIAL_KEYWORDS"

record Command =
  cmd_program :: string
  cmd_args :: "string list"
  cmd_envs :: "(string \<times> string option) list"
  cmd_cwd :: "string option"

text \<open>The bubblewrap command line; roots are valid UTF-8 here, so their check cannot fail.\<close>

definition wrap_bubblewrap :: "bool \<Rightarrow> Command \<Rightarrow> OsSandboxProfile \<Rightarrow> bool \<Rightarrow> (Command, string) result" where
  "wrap_bubblewrap have_bwrap cmd profile allow_network =
     (if \<not> have_bwrap then
        Err ''OS sandbox unavailable: bubblewrap (bwrap) not found; install via: sudo apt install bubblewrap''
      else
        Ok \<lparr>cmd_program = ''bwrap'',
            cmd_args =
              [''--ro-bind'', ''/'', ''/'', ''--dev'', ''/dev'', ''--proc'', ''/proc'', ''--unshare-pid'',
               ''--die-with-parent'', ''--new-session'']
              @ (if allow_network then [] else [''--unshare-net''])
              @ concat (map (\<lambda>root.
                    if root \<in> set (writable_roots profile) then [''--bind'', path_of root, path_of root]
                    else [''--ro-bind'', path_of root, path_of root]) (readable_roots profile))
              @ (case cmd_cwd cmd of Some dir \<Rightarrow> [''--chdir'', dir] | None \<Rightarrow> [])
              @ [''--'', cmd_program cmd] @ cmd_args cmd,
            cmd_envs = cmd_envs cmd, cmd_cwd = None\<rparr>)"

subsection \<open>Where a path leads\<close>

text \<open>The walk along a path in a tree without links: \<open>..\<close> goes to the parent and stays at the root.\<close>

fun walk :: "string list \<Rightarrow> component \<Rightarrow> string list" where
  "walk dir RootDir = []"
| "walk dir CurDir = dir"
| "walk dir ParentDir = tl dir"
| "walk dir (Normal n) = n # dir"

definition location :: "component list \<Rightarrow> string list" where
  "location cs = rev (foldl walk [] cs)"

definition abs_path :: "component list \<Rightarrow> bool" where
  "abs_path cs \<longleftrightarrow> cs \<noteq> [] \<and> hd cs = RootDir \<and> RootDir \<notin> set (tl cs)"

lemma normalize_walk:
  "RootDir \<notin> set cs \<Longrightarrow>
   foldl normalize_step (map Normal dir @ [RootDir]) cs = map Normal (foldl walk dir cs) @ [RootDir]"
proof (induction cs arbitrary: dir)
  case (Cons c cs)
  show ?case
  proof (cases c)
    case RootDir
    with Cons.prems show ?thesis by simp
  next
    case CurDir
    with Cons show ?thesis by simp
  next
    case ParentDir
    with Cons show ?thesis by (cases dir) (simp_all add: Cons.IH [of "[]", simplified])
  next
    case (Normal n)
    with Cons Cons.IH [of "n # dir"] show ?thesis by simp
  qed
qed simp

lemma lexical_normalize_abs:
  assumes "abs_path cs"
  shows "lexical_normalize cs = RootDir # map Normal (location cs)"
proof -
  from assms obtain rest where cs: "cs = RootDir # rest" "RootDir \<notin> set rest"
    by (cases cs) (auto simp: abs_path_def)
  with normalize_walk [of rest "[]"] show ?thesis
    by (simp add: lexical_normalize_def location_def rev_map Let_def)
qed

lemma normalize_walk_rel:
  "RootDir \<notin> set cs \<Longrightarrow> foldl normalize_step (map Normal dir) cs = map Normal (foldl walk dir cs)"
proof (induction cs arbitrary: dir)
  case (Cons c cs)
  show ?case
  proof (cases c)
    case ParentDir
    with Cons Cons.IH [of "tl dir"] show ?thesis by (cases dir) simp_all
  next
    case (Normal n)
    with Cons Cons.IH [of "n # dir"] show ?thesis by simp
  qed (use Cons in simp_all)
qed simp

lemma normalize_rel:
  "RootDir \<notin> set cs \<Longrightarrow> RootDir \<notin> set out \<Longrightarrow> RootDir \<notin> set (foldl normalize_step out cs)"
proof (induction cs arbitrary: out)
  case (Cons c cs)
  have "RootDir \<notin> set (normalize_step out c)"
    using Cons.prems by (cases "(out, c)" rule: normalize_step.cases) (auto split: list.split component.split)
  with Cons show ?case by simp
qed simp

lemma no_root_parts: "RootDir \<notin> set (map part_component ss)"
  by auto

lemma components_shape:
  "RootDir \<notin> set (tl (components p))" "hd (components p) \<noteq> RootDir \<Longrightarrow> RootDir \<notin> set (components p)"
proof -
  let ?ps = "map part_component (filter (\<lambda>s. s \<noteq> [] \<and> s \<noteq> ''.'') (split_on (\<lambda>c. c = CHR ''/'') p))"
  have "components p = RootDir # ?ps \<or> components p = CurDir # ?ps \<or> components p = ?ps"
    by (simp add: components_def Let_def)
  moreover have "RootDir \<notin> set ?ps" by (rule no_root_parts)
  moreover have "RootDir \<notin> set (tl ?ps)" using no_root_parts by (metis list.sel(2) list.set_sel(2))
  ultimately show "RootDir \<notin> set (tl (components p))" "hd (components p) \<noteq> RootDir \<Longrightarrow> RootDir \<notin> set (components p)"
    by (auto simp del: set_map)
qed

lemma components_abs: "abs_path (components p) \<longleftrightarrow> components p \<noteq> [] \<and> hd (components p) = RootDir"
  using components_shape by (auto simp: abs_path_def)

text \<open>On absolute operands the lexical test decides whether the walk ends below the root.\<close>

lemma is_within_root_iff:
  assumes "abs_path path" "abs_path root"
  shows "is_within_root path root \<longleftrightarrow> prefix (location root) (location path)"
  using assms by (auto simp: is_within_root_def lexical_normalize_abs prefix_map_rightE inj_def map_mono_prefix
      dest: prefix_map_rightE)

lemma within_abs_root_abs:
  assumes "is_within_root (components p) root" "abs_path root"
  shows "abs_path (components p)"
proof (rule ccontr)
  assume "\<not> abs_path (components p)"
  then have "components p = [] \<or> hd (components p) \<noteq> RootDir" by (simp add: components_abs)
  then have "RootDir \<notin> set (components p)" using components_shape(2) by (cases "components p = []") auto
  then have "RootDir \<notin> set (lexical_normalize (components p))"
    using normalize_rel [of "components p" "[]"] by (simp add: lexical_normalize_def Let_def)
  with assms show False by (auto simp: is_within_root_def lexical_normalize_abs prefix_def)
qed

subsection \<open>Properties\<close>

lemma is_zen_path_location: "is_zen_path (lexical_normalize (components p)) \<longleftrightarrow> ''.zen'' \<in> set (location (components p))"
proof (cases "abs_path (components p)")
  case True
  then show ?thesis by (auto simp: is_zen_path_def lexical_normalize_abs list_ex_iff)
next
  case False
  then have "RootDir \<notin> set (components p)" using components_shape(2) by (cases "components p = []") (auto simp: components_abs)
  from normalize_walk_rel [OF this, of "[]"] show ?thesis
    by (auto simp: is_zen_path_def lexical_normalize_def location_def list_ex_iff Let_def)
qed

lemma validate_path_for_write_Ok:
  "validate_path_for_write fs v path = Ok () \<longleftrightarrow>
     sv_mode v \<noteq> ReadOnly
     \<and> (sv_mode v = DangerFullAccess
        \<or> (\<not> is_env_file (lexical_normalize (components path))
           \<and> (is_zen_path (lexical_normalize (components path))
              \<or> (\<not> hits_protected v (lexical_normalize (components path)) \<and> sv_roots v \<noteq> []
                 \<and> list_ex (is_within_root (components path)) (sv_roots v) \<and> check_symlink_escape fs v path = Ok ()))))"
  by (simp add: validate_path_for_write_def Let_def)

text \<open>What the link check lets through.\<close>

lemma check_symlink_escape_Ok:
  "check_symlink_escape fs v path = Ok () \<longleftrightarrow>
     (path_contains_symlink fs (components path) \<longrightarrow>
        (\<exists>c. canonicalize_for_check fs (components path) = Ok c \<and> \<not> is_env_file c \<and> \<not> hits_protected v c
           \<and> (sv_roots v = [] \<or> (\<exists>root\<in>set (sv_roots v).
                is_within_root c (case canonicalize fs root of Ok r \<Rightarrow> r | Err _ \<Rightarrow> root)))))"
  by (auto simp: check_symlink_escape_def list_ex_iff split: result.splits if_splits)

lemma hits_protected_abs:
  "abs_path cs \<Longrightarrow> hits_protected v (lexical_normalize cs) \<longleftrightarrow>
     ''/'' \<in> protected_set v \<or> (\<exists>n\<in>set (location cs). n \<in> protected_set v)"
  by (auto simp: hits_protected_def lexical_normalize_abs list_ex_iff)


text \<open>
  A component \<open>.zen\<close> opens the gate: in the workspace modes every path with that name
  anywhere in it and no environment file is accepted for writing and reading, whatever the
  roots are, whatever protected names it has besides and wherever its links lead.
\<close>

theorem zen_component_bypasses_gate:
  assumes "mode \<noteq> ReadOnly" "''.zen'' \<in> set (location (components path))"
    "\<not> is_env_file (lexical_normalize (components path))"
  shows "validate_path_for_write fs (sandbox_validator_new mode roots) path = Ok ()
         \<and> validate_path_for_read fs (sandbox_validator_new mode roots) path = Ok ()"
  using assms is_zen_path_location [of path]
  by (simp add: validate_path_for_write_Ok validate_path_for_read_def sandbox_validator_new_def Let_def)

text \<open>A relative root does not confine: leading \<open>..\<close> are dropped by the normalization.\<close>

lemma relative_root_escapes:
  "is_within_root (components ''../ws/x'') (components ''ws'')"
  by code_simp

text \<open>The names without their dot are protected too, so an ordinary directory called \<open>git\<close> is closed.\<close>

lemma plain_names_protected:
  "validate_path_for_read fs (sandbox_validator_new WorkspaceWrite roots) ''/home/u/git/project/a.rs''
   = Err ''read blocked: /home/u/git/project/a.rs is a protected metadata path''"
proof -
  have "hits_protected (sandbox_validator_new WorkspaceWrite roots) (lexical_normalize (components ''/home/u/git/project/a.rs''))"
    unfolding sandbox_validator_new_def hits_protected_def by code_simp
  moreover have "\<not> is_env_file (lexical_normalize (components ''/home/u/git/project/a.rs''))"
    "\<not> is_zen_path (lexical_normalize (components ''/home/u/git/project/a.rs''))" by code_simp+
  ultimately show ?thesis by (simp add: validate_path_for_read_def sandbox_validator_new_def Let_def)
qed

text \<open>A host is known when it contains a known name, so a foreign domain with that prefix passes.\<close>

lemma lookalike_host_passes:
  "is_blocked_command ''env curl http://github.com.evil.org/x'' = None"
  "\<not> is_dangerous_network_target ''env curl http://github.com.evil.org/x''"
  by code_simp+

subsection \<open>Instances\<close>

definition plain_fs :: FileSystem where
  "plain_fs = \<lparr>symlink_metadata = (\<lambda>_. None), canonicalize = (\<lambda>_. Err ''not found''), path_exists = (\<lambda>_. False)\<rparr>"


theorem zen_component_bypasses_gate_witness:
  "validate_path_for_write plain_fs (sandbox_validator_new WorkspaceWrite []) ''/root/.ssh/.zen/authorized_keys'' = Ok ()"
proof -
  have z: "''.zen'' \<in> set (location (components ''/root/.ssh/.zen/authorized_keys''))"
    and e: "\<not> is_env_file (lexical_normalize (components ''/root/.ssh/.zen/authorized_keys''))" by code_simp+
  from zen_component_bypasses_gate [OF _ z e] show ?thesis by simp
qed

end
