(* ===== verification/Model_Meta.thy ===== *)
theory Model_Meta
  imports Rust_Prelude Complex_Main "HOL-Library.AList"
begin

section \<open>Model metadata, pricing and telemetry (zen-provider/src/model\_meta.rs, cache.rs)\<close>

text \<open>
  Prices and costs are the exact rationals that the floating-point values stand for. A hash map
  is an association list in the order its iterator visits it. The locks are taken and released
  within one operation, so an operation is one step on the state behind them. A panic is \<open>None\<close>.
\<close>

subsection \<open>Pricing\<close>

record ModelMetadata =
  meta_name :: string
  meta_provider :: string
  context_window :: nat
  meta_input_cost :: rat
  meta_output_cost :: rat
  capabilities :: "string list"
  meta_is_local :: bool

definition capability_score :: "ModelMetadata \<Rightarrow> nat" where
  "capability_score m = context_window m div 1000 + length (capabilities m) * 10"

definition total_cost :: "ModelMetadata \<Rightarrow> rat" where
  "total_cost m = meta_input_cost m + meta_output_cost m"

definition cost_efficiency :: "ModelMetadata \<Rightarrow> rat" where
  "cost_efficiency m = of_nat (max (capability_score m) 1) / max (total_cost m) (1 / 1000)"

definition usage_to_cost_usd :: "ModelMetadata \<Rightarrow> nat \<Rightarrow> nat \<Rightarrow> rat" where
  "usage_to_cost_usd m input_tokens output_tokens =
     (if meta_is_local m then 0
      else of_nat input_tokens / 1000000 * max (meta_input_cost m) 0
           + of_nat output_tokens / 1000000 * max (meta_output_cost m) 0)"

definition CACHE_WRITE_MULTIPLIER :: rat where
  "CACHE_WRITE_MULTIPLIER = 5 / 4"

definition CACHE_READ_MULTIPLIER :: rat where
  "CACHE_READ_MULTIPLIER = 1 / 10"

record CachedTokenUsage =
  uncached_input_tokens :: nat
  cache_write_tokens :: nat
  cache_read_tokens :: nat
  cached_output_tokens :: nat

definition sat_add64 :: "nat \<Rightarrow> nat \<Rightarrow> nat" where
  "sat_add64 a b = min (a + b) (2 ^ 64 - 1)"

definition cached_total_tokens :: "CachedTokenUsage \<Rightarrow> nat" where
  "cached_total_tokens u =
     sat_add64 (sat_add64 (sat_add64 (uncached_input_tokens u) (cache_write_tokens u)) (cache_read_tokens u))
       (cached_output_tokens u)"

definition cached_total_input_tokens :: "CachedTokenUsage \<Rightarrow> nat" where
  "cached_total_input_tokens u =
     sat_add64 (sat_add64 (uncached_input_tokens u) (cache_write_tokens u)) (cache_read_tokens u)"

definition cached_is_empty :: "CachedTokenUsage \<Rightarrow> bool" where
  "cached_is_empty u \<longleftrightarrow> cached_total_tokens u = 0"

definition cached_usage_to_cost_usd :: "ModelMetadata \<Rightarrow> CachedTokenUsage \<Rightarrow> rat" where
  "cached_usage_to_cost_usd m u =
     (if meta_is_local m then 0
      else
        let base = max (meta_input_cost m) 0;
            uncached = of_nat (uncached_input_tokens u) * base;
            written = of_nat (cache_write_tokens u) * base * CACHE_WRITE_MULTIPLIER;
            cached = of_nat (cache_read_tokens u) * base * CACHE_READ_MULTIPLIER;
            output = of_nat (cached_output_tokens u) * max (meta_output_cost m) 0
        in (uncached + written + cached + output) / 1000000)"

subsection \<open>Choice of a model\<close>

datatype ComplexityLevel = Simple | Standard | Complex | Critical

text \<open>
  \<open>Iterator::min_by\<close> keeps the first of equal elements, \<open>max_by\<close> the last; the argument says
  when the comparison gives \<open>Greater\<close>.
\<close>

fun min_by :: "('a \<Rightarrow> 'a \<Rightarrow> bool) \<Rightarrow> 'a list \<Rightarrow> 'a option" where
  "min_by gt [] = None"
| "min_by gt (x # xs) = Some (fold (\<lambda>y acc. if gt acc y then y else acc) xs x)"

fun max_by :: "('a \<Rightarrow> 'a \<Rightarrow> bool) \<Rightarrow> 'a list \<Rightarrow> 'a option" where
  "max_by gt [] = None"
| "max_by gt (x # xs) = Some (fold (\<lambda>y acc. if gt acc y then acc else y) xs x)"

type_synonym model_entry = "string \<times> ModelMetadata"

definition simple_gt :: "model_entry \<Rightarrow> model_entry \<Rightarrow> bool" where
  "simple_gt a b \<longleftrightarrow>
     (if total_cost (snd a) \<noteq> total_cost (snd b) then total_cost (snd b) < total_cost (snd a)
      else meta_is_local (snd b) \<and> \<not> meta_is_local (snd a))"

definition standard_gt :: "model_entry \<Rightarrow> model_entry \<Rightarrow> bool" where
  "standard_gt a b \<longleftrightarrow> cost_efficiency (snd b) < cost_efficiency (snd a)"

definition complex_gt :: "model_entry \<Rightarrow> model_entry \<Rightarrow> bool" where
  "complex_gt a b \<longleftrightarrow>
     (if capability_score (snd a) \<noteq> capability_score (snd b)
      then capability_score (snd b) < capability_score (snd a)
      else total_cost (snd a) < total_cost (snd b))"

definition critical_gt :: "model_entry \<Rightarrow> model_entry \<Rightarrow> bool" where
  "critical_gt a b \<longleftrightarrow> capability_score (snd b) < capability_score (snd a)"

record ModelRouter =
  router_models :: "(string \<times> string) list"
  router_metadata :: "model_entry list"
  router_default_model :: string

definition model_router_new :: "string \<Rightarrow> ModelRouter" where
  "model_router_new d = \<lparr>router_models = [], router_metadata = [], router_default_model = d\<rparr>"

definition register_model :: "ModelRouter \<Rightarrow> string \<Rightarrow> ModelMetadata \<Rightarrow> ModelRouter" where
  "register_model r name m =
     r\<lparr>router_models := AList.update name name (router_models r),
       router_metadata := AList.update name m (router_metadata r)\<rparr>"

definition choose_entry :: "ComplexityLevel \<Rightarrow> model_entry list \<Rightarrow> model_entry option" where
  "choose_entry c ms =
     (case c of
        Simple \<Rightarrow> min_by simple_gt ms
      | Standard \<Rightarrow> max_by standard_gt ms
      | Complex \<Rightarrow> max_by complex_gt ms
      | Critical \<Rightarrow> max_by critical_gt ms)"

definition route_task :: "ModelRouter \<Rightarrow> ComplexityLevel \<Rightarrow> string" where
  "route_task r c =
     (if router_metadata r = [] then router_default_model r
      else case choose_entry c (router_metadata r) of
             Some (name, _) \<Rightarrow> name
           | None \<Rightarrow> router_default_model r)"

definition get_metadata :: "ModelRouter \<Rightarrow> string \<Rightarrow> ModelMetadata option" where
  "get_metadata r name = map_of (router_metadata r) name"

definition list_models :: "ModelRouter \<Rightarrow> string list" where
  "list_models r = map fst (router_metadata r)"

definition swap_model :: "ModelRouter \<Rightarrow> string \<Rightarrow> ModelMetadata \<Rightarrow> ModelMetadata option \<times> ModelRouter" where
  "swap_model r name m =
     (map_of (router_metadata r) name, r\<lparr>router_metadata := AList.update name m (router_metadata r)\<rparr>)"

definition remove_model :: "ModelRouter \<Rightarrow> string \<Rightarrow> ModelMetadata option \<times> ModelRouter" where
  "remove_model r name =
     (map_of (router_metadata r) name,
      r\<lparr>router_models := AList.delete name (router_models r),
        router_metadata := AList.delete name (router_metadata r)\<rparr>)"

subsection \<open>Telemetry\<close>

record PromptTelemetry =
  tel_model :: string
  prompt_length :: nat
  response_length :: nat
  tokens_used :: nat
  latency_ms :: nat
  timestamp :: string

record PromptHookTelemetry =
  tel_records :: "PromptTelemetry list"
  max_records :: nat

definition telemetry_new :: "nat \<Rightarrow> PromptHookTelemetry" where
  "telemetry_new n = \<lparr>tel_records = [], max_records = n\<rparr>"

definition telemetry_entry :: "string \<Rightarrow> string \<Rightarrow> string \<Rightarrow> nat \<Rightarrow> string \<Rightarrow> PromptTelemetry" where
  "telemetry_entry model prompt response latency now =
     \<lparr>tel_model = model, prompt_length = length prompt, response_length = length response,
      tokens_used = (length prompt + length response) div 4, latency_ms = latency, timestamp = now\<rparr>"

definition telemetry_record ::
  "PromptHookTelemetry \<Rightarrow> string \<Rightarrow> string \<Rightarrow> string \<Rightarrow> nat \<Rightarrow> string \<Rightarrow> PromptHookTelemetry option" where
  "telemetry_record t model prompt response latency now =
     (let e = telemetry_entry model prompt response latency now
      in if max_records t \<le> length (tel_records t)
         then case tel_records t of
                [] \<Rightarrow> None
              | _ # rs \<Rightarrow> Some (t\<lparr>tel_records := rs @ [e]\<rparr>)
         else Some (t\<lparr>tel_records := tel_records t @ [e]\<rparr>))"

record ModelStats =
  total_requests :: nat
  stats_total_tokens :: nat
  avg_latency_ms :: nat

definition get_stats :: "PromptHookTelemetry \<Rightarrow> string \<Rightarrow> ModelStats" where
  "get_stats t model =
     (let rs = filter (\<lambda>e. tel_model e = model) (tel_records t)
      in if rs = [] then \<lparr>total_requests = 0, stats_total_tokens = 0, avg_latency_ms = 0\<rparr>
         else \<lparr>total_requests = length rs,
               stats_total_tokens = sum_list (map tokens_used rs),
               avg_latency_ms = sum_list (map latency_ms rs) div length rs\<rparr>)"

subsection \<open>Prompt segments (cache.rs)\<close>

datatype SegmentKind = SegSystem | SegDoc | SegSummary | SegWhitelist

type_synonym PromptSegment = "SegmentKind \<times> string"

definition segments_build :: "string \<Rightarrow> string list \<Rightarrow> string \<Rightarrow> string list \<Rightarrow> PromptSegment list" where
  "segments_build system docs summary whitelist =
     [(SegSystem, system)] @ map (\<lambda>d. (SegDoc, d)) docs
     @ [(SegSummary, summary)] @ [(SegWhitelist, str_join [CHR 0x0A] whitelist)]"

definition to_single_prompt :: "PromptSegment list \<Rightarrow> string" where
  "to_single_prompt segs = str_join [CHR 0x0A, CHR 0x0A] (map snd segs)"

subsection \<open>The chosen element is a best one\<close>

locale comparison =
  fixes gt :: "'a \<Rightarrow> 'a \<Rightarrow> bool"
  assumes gt_asym: "gt x y \<Longrightarrow> \<not> gt y x"
    and gt_negtrans: "gt x z \<Longrightarrow> gt x y \<or> gt y z"
begin

lemma gt_irrefl: "\<not> gt x x"
  using gt_asym by blast

lemma fold_min:
  "fold (\<lambda>y acc. if gt acc y then y else acc) xs a = r \<Longrightarrow> r \<in> set (a # xs) \<and> (\<forall>x \<in> set (a # xs). \<not> gt r x)"
proof (induction xs arbitrary: a)
  case Nil
  then show ?case using gt_irrefl by simp
next
  case (Cons y xs)
  let ?b = "if gt a y then y else a"
  have "fold (\<lambda>y acc. if gt acc y then y else acc) xs ?b = r" using Cons.prems by simp
  from Cons.IH [OF this] have r: "r \<in> set (?b # xs)" "\<forall>x \<in> set (?b # xs). \<not> gt r x" by blast+
  have "\<not> gt r a \<and> \<not> gt r y"
    using r(2) gt_asym gt_negtrans by (cases "gt a y") (auto, blast+)
  with r show ?case by (auto split: if_splits)
qed

lemma fold_max:
  "fold (\<lambda>y acc. if gt acc y then acc else y) xs a = r \<Longrightarrow> r \<in> set (a # xs) \<and> (\<forall>x \<in> set (a # xs). \<not> gt x r)"
proof (induction xs arbitrary: a)
  case Nil
  then show ?case using gt_irrefl by simp
next
  case (Cons y xs)
  let ?b = "if gt a y then a else y"
  have "fold (\<lambda>y acc. if gt acc y then acc else y) xs ?b = r" using Cons.prems by simp
  from Cons.IH [OF this] have r: "r \<in> set (?b # xs)" "\<forall>x \<in> set (?b # xs). \<not> gt x r" by blast+
  have "\<not> gt a r \<and> \<not> gt y r"
    using r(2) gt_asym gt_negtrans by (cases "gt a y") (auto, blast+)
  with r show ?case by (auto split: if_splits)
qed

lemma min_by_best: "min_by gt xs = Some r \<Longrightarrow> r \<in> set xs \<and> (\<forall>x \<in> set xs. \<not> gt r x)"
  by (cases xs) (simp_all add: fold_min del: set_simps)

lemma max_by_best: "max_by gt xs = Some r \<Longrightarrow> r \<in> set xs \<and> (\<forall>x \<in> set xs. \<not> gt x r)"
  by (cases xs) (simp_all add: fold_max del: set_simps)

end

interpretation simple: comparison simple_gt
  by unfold_locales (auto simp: simple_gt_def split: if_splits)

interpretation standard: comparison standard_gt
  by unfold_locales (auto simp: standard_gt_def)

interpretation complex: comparison complex_gt
  by unfold_locales (auto simp: complex_gt_def split: if_splits)

interpretation critical: comparison critical_gt
  by unfold_locales (auto simp: critical_gt_def)

lemma min_by_some: "xs \<noteq> [] \<Longrightarrow> min_by gt xs \<noteq> None"
  by (cases xs) simp_all

lemma max_by_some: "xs \<noteq> [] \<Longrightarrow> max_by gt xs \<noteq> None"
  by (cases xs) simp_all

lemma choose_entry_some: "ms \<noteq> [] \<Longrightarrow> choose_entry c ms \<noteq> None"
  using min_by_some max_by_some by (cases c) (simp_all only: choose_entry_def ComplexityLevel.case not_False_eq_True)

lemma choose_entry_best:
  assumes "choose_entry c ms = Some r"
  shows "r \<in> set ms \<and>
    (\<forall>x \<in> set ms.
       case c of
         Simple \<Rightarrow> total_cost (snd r) < total_cost (snd x)
                   \<or> total_cost (snd r) = total_cost (snd x) \<and> (meta_is_local (snd r) \<or> \<not> meta_is_local (snd x))
       | Standard \<Rightarrow> cost_efficiency (snd x) \<le> cost_efficiency (snd r)
       | Complex \<Rightarrow> capability_score (snd x) < capability_score (snd r)
                   \<or> capability_score (snd x) = capability_score (snd r) \<and> total_cost (snd r) \<le> total_cost (snd x)
       | Critical \<Rightarrow> capability_score (snd x) \<le> capability_score (snd r))"
proof (cases c)
  case Simple
  with assms simple.min_by_best [of ms r] show ?thesis
    by (fastforce simp: choose_entry_def simple_gt_def split: if_splits)
next
  case Standard
  with assms standard.max_by_best [of ms r] show ?thesis
    by (fastforce simp: choose_entry_def standard_gt_def)
next
  case Complex
  with assms complex.max_by_best [of ms r] show ?thesis
    by (fastforce simp: choose_entry_def complex_gt_def split: if_splits)
next
  case Critical
  with assms critical.max_by_best [of ms r] show ?thesis
    by (fastforce simp: choose_entry_def critical_gt_def)
qed

text \<open>
  A task goes to a registered model that is best for its complexity: the cheapest one for
  simple tasks (a local one among equals), the one with the best ratio of capability to cost for
  standard tasks, the most capable one for complex tasks (the cheapest among equals) and for
  critical tasks.
\<close>

theorem route_task_optimal:
  assumes "router_metadata r \<noteq> []"
  shows "\<exists>m. (route_task r c, m) \<in> set (router_metadata r) \<and>
    (\<forall>x \<in> set (router_metadata r).
       case c of
         Simple \<Rightarrow> total_cost m < total_cost (snd x)
                   \<or> total_cost m = total_cost (snd x) \<and> (meta_is_local m \<or> \<not> meta_is_local (snd x))
       | Standard \<Rightarrow> cost_efficiency (snd x) \<le> cost_efficiency m
       | Complex \<Rightarrow> capability_score (snd x) < capability_score m
                   \<or> capability_score (snd x) = capability_score m \<and> total_cost m \<le> total_cost (snd x)
       | Critical \<Rightarrow> capability_score (snd x) \<le> capability_score m)"
proof -
  from choose_entry_some [OF assms] obtain e where e: "choose_entry c (router_metadata r) = Some e" by blast
  with assms have "route_task r c = fst e" by (simp add: route_task_def case_prod_unfold)
  then have "(route_task r c, snd e) = e" by simp
  with choose_entry_best [OF e] show ?thesis by (intro exI [of _ "snd e"] conjI) (simp, blast)
qed

definition demo_meta :: "rat \<Rightarrow> nat \<Rightarrow> bool \<Rightarrow> ModelMetadata" where
  "demo_meta cost window loc =
     \<lparr>meta_name = ''m'', meta_provider = ''p'', context_window = window, meta_input_cost = cost,
      meta_output_cost = cost, capabilities = [], meta_is_local = loc\<rparr>"

definition demo_router :: ModelRouter where
  "demo_router =
     register_model (register_model (model_router_new ''d'') ''cloud'' (demo_meta 1 9000 False))
       ''local'' (demo_meta 0 8000 True)"

theorem route_task_optimal_witness:
  "route_task demo_router Simple = ''local''
   \<and> (\<exists>m. (''local'', m) \<in> set (router_metadata demo_router) \<and> total_cost m \<le> total_cost (demo_meta 1 9000 False))"
proof
  show route: "route_task demo_router Simple = ''local''" by code_simp
  have mem: "(''cloud'', demo_meta 1 9000 False) \<in> set (router_metadata demo_router)" by code_simp
  then have "router_metadata demo_router \<noteq> []" by auto
  from route_task_optimal [OF this, of Simple] mem route
  show "\<exists>m. (''local'', m) \<in> set (router_metadata demo_router) \<and> total_cost m \<le> total_cost (demo_meta 1 9000 False)"
    by fastforce
qed

subsection \<open>Registration\<close>

lemma get_metadata_register [simp]:
  "get_metadata (register_model r n m) k = (if k = n then Some m else get_metadata r k)"
  by (simp add: get_metadata_def register_model_def update_conv)

lemma get_metadata_swap [simp]:
  "get_metadata (snd (swap_model r n m)) k = (if k = n then Some m else get_metadata r k)"
  by (simp add: get_metadata_def swap_model_def update_conv)

lemma get_metadata_remove [simp]:
  "get_metadata (snd (remove_model r n)) k = (if k = n then None else get_metadata r k)"
  by (simp add: get_metadata_def remove_model_def delete_conv')

definition router_ok :: "ModelRouter \<Rightarrow> bool" where
  "router_ok r \<longleftrightarrow> distinct (list_models r) \<and> dom (map_of (router_models r)) \<subseteq> dom (get_metadata r)"

lemma router_ok_new: "router_ok (model_router_new d)"
  by (simp add: router_ok_def model_router_new_def list_models_def)

lemma router_ok_register:
  assumes "router_ok r"
  shows "router_ok (register_model r n m)"
proof -
  have "get_metadata (register_model r n m) = (get_metadata r)(n \<mapsto> m)" by (rule ext) simp
  moreover have "map_of (router_models (register_model r n m)) = (map_of (router_models r))(n \<mapsto> n)"
    by (simp add: register_model_def update_conv')
  moreover have "distinct (list_models (register_model r n m))"
    using assms by (simp add: router_ok_def register_model_def list_models_def distinct_update)
  ultimately show ?thesis using assms by (auto simp: router_ok_def)
qed

lemma router_ok_remove:
  assumes "router_ok r"
  shows "router_ok (snd (remove_model r n))"
proof -
  have "get_metadata (snd (remove_model r n)) = (get_metadata r)(n := None)" by (rule ext) simp
  moreover have "map_of (router_models (snd (remove_model r n))) = (map_of (router_models r))(n := None)"
    by (simp add: remove_model_def delete_conv')
  moreover have "distinct (list_models (snd (remove_model r n)))"
    using assms by (simp add: router_ok_def remove_model_def list_models_def distinct_delete)
  ultimately show ?thesis using assms by (auto simp: router_ok_def)
qed

subsection \<open>Costs\<close>

lemma usage_cost_nonneg: "0 \<le> usage_to_cost_usd m i j"
  by (simp add: usage_to_cost_usd_def)

lemma usage_cost_mono: "i \<le> i' \<Longrightarrow> j \<le> j' \<Longrightarrow> usage_to_cost_usd m i j \<le> usage_to_cost_usd m i' j'"
  by (auto simp: usage_to_cost_usd_def intro!: add_mono mult_right_mono divide_right_mono)

text \<open>Without cache traffic the two prices agree.\<close>

lemma cached_cost_without_cache:
  "cached_usage_to_cost_usd m \<lparr>uncached_input_tokens = i, cache_write_tokens = 0, cache_read_tokens = 0, cached_output_tokens = j\<rparr>
   = usage_to_cost_usd m i j"
  by (simp add: cached_usage_to_cost_usd_def usage_to_cost_usd_def Let_def add_divide_distrib)

text \<open>A cached prompt costs at most as much as writing all of it, and at least a tenth of the base price.\<close>

lemma cached_cost_bounds:
  assumes "\<not> meta_is_local m"
  shows "cached_usage_to_cost_usd m u \<le>
      (of_nat (uncached_input_tokens u + cache_write_tokens u + cache_read_tokens u) * max (meta_input_cost m) 0 * CACHE_WRITE_MULTIPLIER
       + of_nat (cached_output_tokens u) * max (meta_output_cost m) 0) / 1000000"
  using assms by (simp add: cached_usage_to_cost_usd_def Let_def CACHE_WRITE_MULTIPLIER_def CACHE_READ_MULTIPLIER_def
      divide_right_mono algebra_simps)

lemma cached_is_empty_iff:
  "cached_is_empty u \<longleftrightarrow>
     uncached_input_tokens u = 0 \<and> cache_write_tokens u = 0 \<and> cache_read_tokens u = 0 \<and> cached_output_tokens u = 0"
  by (auto simp: cached_is_empty_def cached_total_tokens_def sat_add64_def)

subsection \<open>Telemetry keeps the most recent entries\<close>

fun telemetry_run :: "PromptHookTelemetry \<Rightarrow> (string \<times> string \<times> string \<times> nat \<times> string) list \<Rightarrow> PromptHookTelemetry option" where
  "telemetry_run t [] = Some t"
| "telemetry_run t ((model, p, q, l, now) # es) =
     (case telemetry_record t model p q l now of None \<Rightarrow> None | Some t' \<Rightarrow> telemetry_run t' es)"

lemma telemetry_record_recent:
  assumes "0 < max_records t" "tel_records t = drop (length all - max_records t) all"
  shows "\<exists>t'. telemetry_record t model p q l now = Some t' \<and> max_records t' = max_records t
          \<and> tel_records t' = drop (length (all @ [telemetry_entry model p q l now]) - max_records t)
              (all @ [telemetry_entry model p q l now])"
proof (cases "max_records t \<le> length all")
  case True
  with assms(2) have len: "length (tel_records t) = max_records t" by simp
  with assms(1) obtain e rs where rs: "tel_records t = e # rs" by (cases "tel_records t") auto
  have "rs = drop (Suc (length all - max_records t)) all"
    using rs assms(2) by (metis drop_Suc list.sel(3) tl_drop)
  with True len rs assms(1) show ?thesis
    by (simp add: telemetry_record_def Let_def Suc_diff_le)
next
  case False
  with assms(2) show ?thesis by (simp add: telemetry_record_def Let_def)
qed

text \<open>
  The telemetry buffer of positive capacity never fails and holds exactly the most recent
  entries, at most its capacity.
\<close>

theorem telemetry_keeps_recent:
  assumes "0 < n"
  shows "\<exists>t. telemetry_run (telemetry_new n) es = Some t
    \<and> tel_records t = drop (length es - n) (map (\<lambda>(model, p, q, l, now). telemetry_entry model p q l now) es)
    \<and> length (tel_records t) \<le> n"
proof -
  let ?e = "\<lambda>(model, p, q, l, now). telemetry_entry model p q l now"
  have run: "\<exists>t'. telemetry_run t es = Some t' \<and> tel_records t' = drop (length (all @ map ?e es) - n) (all @ map ?e es)"
    if "max_records t = n" "tel_records t = drop (length all - n) all" for t all
    using that
  proof (induction es arbitrary: t all)
    case Nil
    then show ?case by simp
  next
    case (Cons x es)
    obtain model p q l now where x: "x = (model, p, q, l, now)" by (cases x)
    from telemetry_record_recent [of t all model p q l now] Cons.prems assms obtain t' where
      t': "telemetry_record t model p q l now = Some t'" "max_records t' = n"
        "tel_records t' = drop (length (all @ [?e x]) - n) (all @ [?e x])" using x by auto
    from Cons.IH [OF t'(2,3)] t'(1) x show ?case by simp
  qed
  from run [of "telemetry_new n" "[]"] obtain t where
    "telemetry_run (telemetry_new n) es = Some t" "tel_records t = drop (length (map ?e es) - n) (map ?e es)"
    by (auto simp: telemetry_new_def)
  then show ?thesis by (intro exI [of _ t]) simp
qed

text \<open>A telemetry buffer of capacity zero panics at the first entry.\<close>

lemma telemetry_zero_panics: "telemetry_record (telemetry_new 0) model p q l now = None"
  by (simp add: telemetry_record_def telemetry_new_def)

end
