(* ===== verification/Provider_Router.thy ===== *)
theory Provider_Router
  imports Secrets_Guard Review_Rubrics Model_Meta
begin

section \<open>The provider router (zen-provider/src/router.rs, zen-auth/src/resolver.rs)\<close>

text \<open>
  Routing of a completion request to a provider, with the sensitivity rule, the secrets guard at the
  egress and the metering of the reply. The network, the key chain and the regular-expression
  engine are the fields of \<open>World\<close>; a health probe and a provider call are numbered, so they may
  answer differently each time. The router's provider cache, the process-wide set of key chain
  services known to fail and the log of what was sent are the state \<open>DefaultRouter\<close>, which the
  operations take and return. Hash maps are association lists; temperatures and prices are
  rationals; token counts are below \<open>2^64\<close> and their sum wraps, as in a release build.
\<close>

subsection \<open>Errors and providers\<close>

datatype LlmError = ProviderUnavailable string string | Routing string | Call string

fun llm_error_str :: "LlmError \<Rightarrow> string" where
  "llm_error_str (ProviderUnavailable provider reason) =
     ''provider unavailable: '' @ provider @ '' '' @ em_dash @ '' '' @ reason"
| "llm_error_str (Routing reason) = ''routing failed: '' @ reason"
| "llm_error_str (Call reason) = ''call failed: '' @ reason"

fun is_transient :: "LlmError \<Rightarrow> bool" where
  "is_transient (ProviderUnavailable _ _) = True"
| "is_transient (Call _) = True"
| "is_transient (Routing _) = False"

datatype RetryClass = Transient | Permanent

fun classify :: "LlmError \<Rightarrow> RetryClass" where
  "classify (ProviderUnavailable _ _) = Transient"
| "classify (Call _) = Transient"
| "classify (Routing _) = Permanent"

datatype Provider =
  OpenAI | Anthropic | DeepSeek | Aliyun | Mistral | Groq | Moonshot | XAI | Perplexity | Gemini
  | QQBot | Ollama | Mock | Unknown string

fun provider_str :: "Provider \<Rightarrow> string" where
  "provider_str OpenAI = ''openai''"
| "provider_str Anthropic = ''anthropic''"
| "provider_str DeepSeek = ''deepseek''"
| "provider_str Aliyun = ''aliyun''"
| "provider_str Mistral = ''mistral''"
| "provider_str Groq = ''groq''"
| "provider_str Moonshot = ''moonshot''"
| "provider_str XAI = ''xai''"
| "provider_str Perplexity = ''perplexity''"
| "provider_str Gemini = ''gemini''"
| "provider_str QQBot = ''qqbot''"
| "provider_str Ollama = ''ollama''"
| "provider_str Mock = ''mock''"
| "provider_str (Unknown name) = name"

definition parse_provider_name :: "string \<Rightarrow> Provider" where
  "parse_provider_name name =
     (let n = to_lowercase name in
      if n \<in> {''openai'', ''oa''} then OpenAI
      else if n \<in> {''anthropic'', ''an''} then Anthropic
      else if n \<in> {''deepseek'', ''ds'', ''deep_seek''} then DeepSeek
      else if n \<in> {''aliyun'', ''qwen'', ''alibaba''} then Aliyun
      else if n \<in> {''mistral'', ''mi''} then Mistral
      else if n = ''groq'' then Groq
      else if n \<in> {''moonshot'', ''ms''} then Moonshot
      else if n = ''xai'' then XAI
      else if n = ''perplexity'' then Perplexity
      else if n \<in> {''gemini'', ''ge''} then Gemini
      else if n \<in> {''qq'', ''qqbot'', ''qq_bot''} then QQBot
      else if n \<in> {''ollama'', ''local'', ''ollama-local''} then Ollama
      else Unknown n)"

subsection \<open>Usage\<close>

definition estimate_tokens :: "string \<Rightarrow> nat" where
  "estimate_tokens text = length text div 4"

record SyncUsage =
  su_input :: nat
  su_output :: nat

record UsedCompletion =
  uc_text :: string
  uc_usage :: "SyncUsage option"

definition reconcile_usage :: "SyncUsage option \<Rightarrow> nat \<Rightarrow> nat \<Rightarrow> nat \<times> nat" where
  "reconcile_usage usage fallback_input fallback_output =
     (case usage of
        Some u \<Rightarrow>
          if 0 < (su_input u + su_output u) mod 2 ^ 64 then (su_input u, su_output u)
          else (fallback_input, fallback_output)
      | None \<Rightarrow> (fallback_input, fallback_output))"

definition mock_complete :: "string \<Rightarrow> string \<Rightarrow> string \<Rightarrow> string" where
  "mock_complete response task prompt =
     ''[mock] task='' @ task @ '' prompt_len='' @ nat_str (length prompt) @ '' reply='' @ response"

subsection \<open>Configuration\<close>

datatype SecretRef = KeychainRef string | EnvRef string

record ModelOptions =
  temperature :: "rat option"
  max_tokens :: "nat option"
  reasoning_effort :: "string option"
  top_p :: "rat option"
  opt_model :: "string option"

definition options_default :: ModelOptions where
  "options_default = \<lparr>temperature = None, max_tokens = None, reasoning_effort = None, top_p = None, opt_model = None\<rparr>"

record VariantConfig =
  v_temperature :: "rat option"
  v_max_tokens :: "nat option"

record ModelEntry =
  entry_options :: "ModelOptions option"
  entry_variants :: "(string \<times> VariantConfig) list"

record ProviderConfig =
  provider_type :: "string option"
  base_url :: "string option"
  api_key :: "SecretRef option"
  api_key_env :: "string option"
  pc_default_model :: "string option"
  pc_models :: "(string \<times> ModelEntry) list"
  input_cost_per_million :: "rat option"
  output_cost_per_million :: "rat option"

definition provider_config_default :: ProviderConfig where
  "provider_config_default =
     \<lparr>provider_type = None, base_url = None, api_key = None, api_key_env = None, pc_default_model = None,
      pc_models = [], input_cost_per_million = None, output_cost_per_million = None\<rparr>"

record FallbackStep =
  step_provider :: string
  step_model :: "string option"

record AgentConfig =
  agent_provider :: "string option"
  agent_model :: "string option"
  agent_fallbacks :: "FallbackStep list"

record ZenConfig =
  default_provider :: "string option"
  cfg_default_model :: "string option"
  providers :: "(string \<times> ProviderConfig) list"
  agents :: "(string \<times> AgentConfig) list"

record LlmTaskConfig =
  tc_provider :: "string option"
  tc_model :: "string option"
  tc_base_url :: "string option"
  tc_api_key_env :: "string option"

record LlmConfig =
  llm_default_provider :: "string option"
  notion_extraction :: "LlmTaskConfig option"
  dispatch_task :: "LlmTaskConfig option"

datatype TaskContext = NotionExtraction | ContradictionDetection | Synthesis | Dispatch | DefaultTask

fun config_key :: "TaskContext \<Rightarrow> string" where
  "config_key NotionExtraction = ''notion_extraction''"
| "config_key ContradictionDetection = ''contradiction_detection''"
| "config_key Synthesis = ''synthesis''"
| "config_key Dispatch = ''dispatch''"
| "config_key DefaultTask = ''default''"

definition from_label :: "string \<Rightarrow> TaskContext" where
  "from_label label =
     (if label \<in> {''notion_extraction'', ''extraction''} then NotionExtraction
      else if label \<in> {''contradiction_detection'', ''contradiction''} then ContradictionDetection
      else if label = ''synthesis'' then Synthesis
      else if label = ''dispatch'' then Dispatch
      else DefaultTask)"

subsection \<open>Provider instances\<close>

datatype ProviderInstance =
  AnthropicInst string string
| AnthropicCompatible string string string
| CohereInst string string
| GeminiInst string string
| MistralInst string string
| OllamaInst string string
| OpenAICompatible string string string
| MockInst string

definition OLLAMA_BASE_URL :: string where "OLLAMA_BASE_URL = ''http://127.0.0.1:11434''"
definition OPENAI_BASE_URL :: string where "OPENAI_BASE_URL = ''https://api.openai.com/v1''"
definition OLLAMA_DEFAULT_MODEL :: string where "OLLAMA_DEFAULT_MODEL = ''qwen3-coder''"
definition OPENAI_DEFAULT_MODEL :: string where "OPENAI_DEFAULT_MODEL = ''gpt-4o-mini''"
definition ANTHROPIC_DEFAULT_MODEL :: string where "ANTHROPIC_DEFAULT_MODEL = ''claude-haiku-4-5''"
definition COHERE_DEFAULT_MODEL :: string where "COHERE_DEFAULT_MODEL = ''command-r''"
definition GEMINI_DEFAULT_MODEL :: string where "GEMINI_DEFAULT_MODEL = ''gemini-2.0-flash''"
definition MISTRAL_DEFAULT_MODEL :: string where "MISTRAL_DEFAULT_MODEL = ''mistral-large-latest''"

definition mock_default :: string where
  "mock_default = ''mock completion response''"

definition or_default :: "'a option \<Rightarrow> 'a \<Rightarrow> 'a" where
  "or_default x d = (case x of Some v \<Rightarrow> v | None \<Rightarrow> d)"

fun model_name :: "ProviderInstance \<Rightarrow> string" where
  "model_name (AnthropicInst k m) = m"
| "model_name (AnthropicCompatible k m u) = m"
| "model_name (CohereInst k m) = m"
| "model_name (GeminiInst k m) = m"
| "model_name (MistralInst k m) = m"
| "model_name (OllamaInst u m) = m"
| "model_name (OpenAICompatible k m u) = m"
| "model_name (MockInst r) = ''mock''"

fun instance_base_url :: "ProviderInstance \<Rightarrow> string option" where
  "instance_base_url (AnthropicCompatible k m u) = Some u"
| "instance_base_url (OllamaInst u m) = Some u"
| "instance_base_url (OpenAICompatible k m u) = Some u"
| "instance_base_url _ = None"

definition create_provider_instance_with_key :: "ProviderConfig \<Rightarrow> string option \<Rightarrow> ProviderInstance option" where
  "create_provider_instance_with_key cfg key =
     (let t = or_default (provider_type cfg) ''openai-compatible'';
          model = or_default (pc_default_model cfg) in
      if t = ''ollama'' then
        Some (OllamaInst (or_default (base_url cfg) OLLAMA_BASE_URL) (model OLLAMA_DEFAULT_MODEL))
      else if t = ''mock'' then Some (MockInst mock_default)
      else case key of
        None \<Rightarrow> None
      | Some k \<Rightarrow>
          if t = ''anthropic'' then Some (AnthropicInst k (model ANTHROPIC_DEFAULT_MODEL))
          else if t = ''anthropic-compatible'' then
            map_option (AnthropicCompatible k (model ANTHROPIC_DEFAULT_MODEL)) (base_url cfg)
          else if t = ''cohere'' then Some (CohereInst k (model COHERE_DEFAULT_MODEL))
          else if t = ''gemini'' then Some (GeminiInst k (model GEMINI_DEFAULT_MODEL))
          else if t = ''mistral'' then Some (MistralInst k (model MISTRAL_DEFAULT_MODEL))
          else if t = ''openai'' then
            Some (OpenAICompatible k (model OPENAI_DEFAULT_MODEL) (or_default (base_url cfg) OPENAI_BASE_URL))
          else map_option (OpenAICompatible k (model OPENAI_DEFAULT_MODEL)) (base_url cfg))"

subsection \<open>The world and the router\<close>

datatype AuthError =
  KeychainAccessDenied string
| CredentialNotFound string string
| KeychainError string
| EnvVarNotSet string
| ResolutionFailed string
| KeychainUnavailable string string

record World =
  process_env :: env
  keychain :: "string \<Rightarrow> (string, AuthError) result"  \<comment> \<open>\<open>Keychain::retrieve(service, "zen")\<close>\<close>
  health :: "nat \<Rightarrow> string \<Rightarrow> bool"  \<comment> \<open>the n-th probe of an Ollama server at an address\<close>
  completion :: "nat \<Rightarrow> ProviderInstance \<Rightarrow> string \<Rightarrow> ModelOptions \<Rightarrow> (UsedCompletion, LlmError) result"
  captures_iter :: captures
  guard_state :: bool  \<comment> \<open>\<open>secrets_guard_state()\<close>\<close>

record DefaultRouter =
  config :: ZenConfig
  mock_response :: string
  provider_cache :: "(string \<times> ProviderInstance) list"
  current_variant :: "string option"
  unavailable :: "string list"  \<comment> \<open>\<open>KEYCHAIN_UNAVAILABLE\<close>\<close>
  probes :: nat
  egress :: "(ProviderInstance \<times> string) list"  \<comment> \<open>what was sent, oldest first\<close>

subsection \<open>Resolution of an API key\<close>

definition resolve_secret_ref :: "World \<Rightarrow> SecretRef \<Rightarrow> (string, AuthError) result" where
  "resolve_secret_ref w ref =
     (case ref of
        KeychainRef k \<Rightarrow> keychain w k
      | EnvRef e \<Rightarrow>
          (case map_of (process_env w) e of
             Some v \<Rightarrow> Ok v
           | None \<Rightarrow> Err (CredentialNotFound (''env:'' @ e) ''zen'')))"

definition resolver_resolve ::
  "World \<Rightarrow> DefaultRouter \<Rightarrow> string \<Rightarrow> string \<Rightarrow> (string, AuthError) result \<times> DefaultRouter" where
  "resolver_resolve w r service var =
     (let exhausted = Err (CredentialNotFound service (''env:'' @ var)) in
      case map_of (process_env w) var of
        Some v \<Rightarrow> (Ok v, r)
      | None \<Rightarrow>
          if service \<in> set (unavailable r) then (exhausted, r)
          else case keychain w service of
                 Ok v \<Rightarrow> (Ok v, r)
               | Err (KeychainAccessDenied _) \<Rightarrow> (exhausted, r\<lparr>unavailable := service # unavailable r\<rparr>)
               | Err (CredentialNotFound _ _) \<Rightarrow> (exhausted, r\<lparr>unavailable := service # unavailable r\<rparr>)
               | Err (KeychainUnavailable _ _) \<Rightarrow> (exhausted, r\<lparr>unavailable := service # unavailable r\<rparr>)
               | Err e \<Rightarrow> (Err e, r))"

definition resolve_api_key :: "World \<Rightarrow> DefaultRouter \<Rightarrow> ProviderConfig \<Rightarrow> string \<Rightarrow> string option \<times> DefaultRouter" where
  "resolve_api_key w r p name =
     (let default_env = to_uppercase name @ ''_API_KEY'' in
      case resolver_resolve w r (''zen-'' @ name @ ''-api-key'') default_env of
        (Ok key, r') \<Rightarrow> (Some key, r')
      | (Err _, r') \<Rightarrow>
          (case map_option (resolve_secret_ref w) (api_key p) of
             Some (Ok key) \<Rightarrow> (Some key, r')
           | _ \<Rightarrow> (map_of (process_env w) (or_default (api_key_env p) default_env), r')))"

definition create_provider_instance ::
  "World \<Rightarrow> DefaultRouter \<Rightarrow> string \<Rightarrow> ProviderConfig \<Rightarrow> ProviderInstance option \<times> DefaultRouter" where
  "create_provider_instance w r name cfg =
     (let (key, r') = resolve_api_key w r cfg name in (create_provider_instance_with_key cfg key, r'))"

definition provider_instance :: "World \<Rightarrow> DefaultRouter \<Rightarrow> string \<Rightarrow> ProviderInstance option \<times> DefaultRouter" where
  "provider_instance w r name =
     (case map_of (provider_cache r) name of
        Some i \<Rightarrow> (Some i, r)
      | None \<Rightarrow>
          (case map_of (providers (config r)) name of
             None \<Rightarrow> (None, r)
           | Some cfg \<Rightarrow>
               (case create_provider_instance w r name cfg of
                  (None, r') \<Rightarrow> (None, r')
                | (Some i, r') \<Rightarrow> (Some i, r'\<lparr>provider_cache := AList.update name i (provider_cache r')\<rparr>))))"

subsection \<open>Construction\<close>

definition from_agentic :: "ZenConfig \<Rightarrow> string list \<Rightarrow> DefaultRouter" where
  "from_agentic cfg failed =
     \<lparr>config = cfg, mock_response = mock_default,
      provider_cache =
        concat (map (\<lambda>(name, p).
          if or_default (provider_type p) [] \<in> {''ollama'', ''mock''}
          then (case create_provider_instance_with_key p None of Some i \<Rightarrow> [(name, i)] | None \<Rightarrow> [])
          else []) (providers cfg)),
      current_variant = None, unavailable = failed, probes = 0, egress = []\<rparr>"

definition with_mock_response :: "DefaultRouter \<Rightarrow> string \<Rightarrow> DefaultRouter" where
  "with_mock_response r response = r\<lparr>mock_response := response\<rparr>"

definition from_config_override :: "ZenConfig \<Rightarrow> string \<Rightarrow> string \<Rightarrow> string list \<Rightarrow> DefaultRouter" where
  "from_config_override cfg name model failed =
     (let p = (case map_of (providers cfg) name of
                 Some c \<Rightarrow> c\<lparr>pc_default_model := Some model\<rparr>
               | None \<Rightarrow> provider_config_default\<lparr>provider_type := Some ''openai-compatible'',
                                                  pc_default_model := Some model\<rparr>)
      in from_agentic (cfg\<lparr>default_provider := Some name, providers := AList.update name p (providers cfg)\<rparr>) failed)"

text \<open>\<open>DefaultRouter::new\<close> of the legacy configuration.\<close>

definition legacy_ollama :: "LlmConfig \<Rightarrow> (string \<times> ProviderInstance) list" where
  "legacy_ollama c =
     (case notion_extraction c of
        Some tc \<Rightarrow>
          if tc_provider tc = Some ''ollama''
          then [(''ollama'', OllamaInst (or_default (tc_base_url tc) ''http://127.0.0.1:11434'')
                                        (or_default (tc_model tc) ''llama3.2''))]
          else []
      | None \<Rightarrow> [])"

definition legacy_cloud :: "World \<Rightarrow> LlmConfig \<Rightarrow> (string \<times> ProviderInstance) list" where
  "legacy_cloud w c =
     (case dispatch_task c of
        None \<Rightarrow> []
      | Some tc \<Rightarrow>
          (case tc_provider tc of
             None \<Rightarrow> []
           | Some name \<Rightarrow>
               if name \<in> {''ollama'', ''mock''} then []
               else
                 let var = (if name = ''aliyun'' then ''DASHSCOPE_API_KEY''
                            else or_default (tc_api_key_env tc) (to_uppercase name @ ''_API_KEY''))
                 in case (map_of (process_env w) var, tc_base_url tc) of
                      (Some key, Some url) \<Rightarrow>
                        [(name, OpenAICompatible key (or_default (tc_model tc) OPENAI_DEFAULT_MODEL) url)]
                    | _ \<Rightarrow> []))"

definition router_new :: "World \<Rightarrow> LlmConfig \<Rightarrow> string list \<Rightarrow> DefaultRouter" where
  "router_new w c failed =
     \<lparr>config = \<lparr>default_provider = llm_default_provider c, cfg_default_model = None, providers = [], agents = []\<rparr>,
      mock_response = mock_default,
      provider_cache = legacy_cloud w c @ legacy_ollama c,
      current_variant = None, unavailable = failed, probes = 0, egress = []\<rparr>"

subsection \<open>Routing\<close>

definition resolve_provider :: "ZenConfig \<Rightarrow> TaskContext \<Rightarrow> Provider option" where
  "resolve_provider cfg ctx =
     (case Option.bind (map_of (agents cfg) (config_key ctx)) agent_provider of
        Some name \<Rightarrow> Some (parse_provider_name name)
      | None \<Rightarrow> map_option parse_provider_name (default_provider cfg))"

definition has_configured_provider :: "DefaultRouter \<Rightarrow> bool" where
  "has_configured_provider r \<longleftrightarrow> resolve_provider (config r) DefaultTask \<noteq> None"

definition default_provider_name :: "DefaultRouter \<Rightarrow> string" where
  "default_provider_name r = or_default (default_provider (config r)) ''ollama''"

text \<open>The first test of \<open>is_local\<close>: an entry \<open>ollama\<close> with a loopback address. It does not look at the provider.\<close>

definition loopback_ollama :: "ZenConfig \<Rightarrow> bool" where
  "loopback_ollama cfg \<longleftrightarrow>
     (case Option.bind (map_of (providers cfg) ''ollama'') base_url of
        Some bu \<Rightarrow> starts_with bu ''http://localhost'' \<or> starts_with bu ''http://127.0.0.1''
      | None \<Rightarrow> False)"

definition is_local :: "DefaultRouter \<Rightarrow> Provider \<Rightarrow> bool" where
  "is_local r p \<longleftrightarrow> loopback_ollama (config r) \<or> p = Ollama"

definition is_local_llm_available :: "World \<Rightarrow> DefaultRouter \<Rightarrow> bool \<times> DefaultRouter" where
  "is_local_llm_available w r =
     (case provider_instance w r ''ollama'' of
        (Some (OllamaInst url model), r') \<Rightarrow> (health w (probes r') url, r'\<lparr>probes := Suc (probes r')\<rparr>)
      | (_, r') \<Rightarrow> (False, r'))"

definition local_unavailable :: "Provider \<Rightarrow> Sensitivity \<Rightarrow> LlmError" where
  "local_unavailable p s =
     ProviderUnavailable (provider_str p)
       (''Local LLM unavailable. Start Ollama or configure a local provider. '' @ sensitivity_str s
        @ '' data cannot be routed to cloud.'')"

definition local_fallback :: "World \<Rightarrow> DefaultRouter \<Rightarrow> Provider \<Rightarrow> Sensitivity \<Rightarrow> (Provider, LlmError) result \<times> DefaultRouter" where
  "local_fallback w r p s =
     (let (up, r') = is_local_llm_available w r in
      if \<not> up then (Err (local_unavailable p s), r')
      else case resolve_provider (config r') NotionExtraction of
             Some l \<Rightarrow> (if is_local r' l then Ok l else Err (local_unavailable p s), r')
           | None \<Rightarrow> (Err (local_unavailable p s), r'))"

definition enforce_sensitivity ::
  "World \<Rightarrow> DefaultRouter \<Rightarrow> Provider \<Rightarrow> Sensitivity \<Rightarrow> (Provider, LlmError) result \<times> DefaultRouter" where
  "enforce_sensitivity w r p s =
     (case s of
        Public \<Rightarrow> (Ok p, r)
      | _ \<Rightarrow>
          if is_local r p then
            let (up, r') = is_local_llm_available w r in if up then (Ok p, r') else local_fallback w r' p s
          else local_fallback w r p s)"

definition no_provider :: LlmError where
  "no_provider = ProviderUnavailable ''none''
     ''No provider configured; set default_provider and a [providers.<name>] section in config.toml (or run `zen provider`)''"

definition route :: "World \<Rightarrow> DefaultRouter \<Rightarrow> Sensitivity \<Rightarrow> (Provider, LlmError) result \<times> DefaultRouter" where
  "route w r s =
     (case resolve_provider (config r) DefaultTask of
        None \<Rightarrow> (Err no_provider, r)
      | Some p \<Rightarrow> enforce_sensitivity w r p s)"

datatype LlmPreference = AnyLlm | LocalOnly | CloudOnly | PreferProvider string

fun route_with_preferences ::
  "World \<Rightarrow> DefaultRouter \<Rightarrow> Sensitivity \<Rightarrow> LlmPreference list \<Rightarrow> (Provider, LlmError) result \<times> DefaultRouter" where
  "route_with_preferences w r s [] = route w r s"
| "route_with_preferences w r s (AnyLlm # ps) = route_with_preferences w r s ps"
| "route_with_preferences w r s (LocalOnly # ps) =
     (let (up, r') = is_local_llm_available w r
      in if up then (Ok Ollama, r') else route_with_preferences w r' s ps)"
| "route_with_preferences w r s (CloudOnly # ps) =
     (case default_provider (config r) of
        None \<Rightarrow> route_with_preferences w r s ps
      | Some name \<Rightarrow>
          if \<not> is_local r (parse_provider_name name) then enforce_sensitivity w r (parse_provider_name name) s
          else route_with_preferences w r s ps)"
| "route_with_preferences w r s (PreferProvider name # ps) = enforce_sensitivity w r (parse_provider_name name) s"

definition build_fallback_chain :: "DefaultRouter \<Rightarrow> string \<Rightarrow> (Provider \<times> string option) list" where
  "build_fallback_chain r agent_name =
     (let agent = map_of (agents (config r)) agent_name;
          primary = (case agent of
                       Some a \<Rightarrow> (case agent_provider a of
                                    Some n \<Rightarrow> [(parse_provider_name n, agent_model a)] | None \<Rightarrow> [])
                     | None \<Rightarrow> []);
          steps = (case agent of
                     Some a \<Rightarrow> map (\<lambda>st. (parse_provider_name (step_provider st), step_model st)) (agent_fallbacks a)
                   | None \<Rightarrow> []);
          chain = primary @ steps;
          chain' = (if chain = [] then
                      (case default_provider (config r) of
                         Some n \<Rightarrow> [(parse_provider_name n, cfg_default_model (config r))] | None \<Rightarrow> [])
                    else chain)
      in chain' @ [(Mock, None)])"

subsection \<open>Options and metadata\<close>

definition apply_variant :: "ModelOptions \<Rightarrow> VariantConfig \<Rightarrow> ModelOptions" where
  "apply_variant base v =
     (let b = (case v_temperature v of Some t \<Rightarrow> base\<lparr>temperature := Some t\<rparr> | None \<Rightarrow> base)
      in case v_max_tokens v of Some m \<Rightarrow> b\<lparr>max_tokens := Some m\<rparr> | None \<Rightarrow> b)"

definition resolve_effective_options :: "DefaultRouter \<Rightarrow> string \<Rightarrow> ModelOptions option" where
  "resolve_effective_options r name =
     Option.bind (map_of (providers (config r)) name) (\<lambda>p.
     Option.bind (pc_default_model p) (\<lambda>m.
     Option.bind (map_of (pc_models p) m) (\<lambda>e.
       let base = or_default (entry_options e) options_default
       in Some (case Option.bind (current_variant r) (map_of (entry_variants e)) of
                  Some v \<Rightarrow> apply_variant base v
                | None \<Rightarrow> base))))"

definition stream_options :: "DefaultRouter \<Rightarrow> string \<Rightarrow> string option \<Rightarrow> ModelOptions" where
  "stream_options r name override =
     (let o' = or_default (resolve_effective_options r name) options_default
      in case override of Some m \<Rightarrow> o'\<lparr>opt_model := Some m\<rparr> | None \<Rightarrow> o')"

definition model_metadata :: "DefaultRouter \<Rightarrow> string \<Rightarrow> string \<Rightarrow> ModelMetadata" where
  "model_metadata r name model =
     (let cfg = map_of (providers (config r)) name
      in \<lparr>meta_name = model, meta_provider = name, context_window = 0,
          meta_input_cost = or_default (Option.bind cfg input_cost_per_million) 0,
          meta_output_cost = or_default (Option.bind cfg output_cost_per_million) 0,
          capabilities = [],
          meta_is_local = or_default (Option.bind cfg provider_type) ''openai-compatible'' = ''ollama''\<rparr>)"

definition list_providers :: "DefaultRouter \<Rightarrow> (string \<times> string) list" where
  "list_providers r =
     (let entry = (\<lambda>(name, cfg).
            (name, or_default (pc_default_model cfg)
               (let t = or_default (provider_type cfg) [] in
                if t = ''ollama'' then OLLAMA_DEFAULT_MODEL
                else if t \<in> {''anthropic'', ''anthropic-compatible''} then ANTHROPIC_DEFAULT_MODEL
                else if t = ''gemini'' then GEMINI_DEFAULT_MODEL
                else if t = ''mistral'' then MISTRAL_DEFAULT_MODEL
                else OPENAI_DEFAULT_MODEL)));
          result = map entry (providers (config r))
      in if result = [] then
           (case default_provider (config r) of
              Some n \<Rightarrow> [(n, or_default (cfg_default_model (config r)) OPENAI_DEFAULT_MODEL)]
            | None \<Rightarrow> [])
         else result)"

subsection \<open>The secrets guard at the egress and the calls\<close>

definition secrets_guard_active :: "World \<Rightarrow> DefaultRouter \<Rightarrow> Provider \<Rightarrow> bool" where
  "secrets_guard_active w r p \<longleftrightarrow> guard_state w \<and> \<not> is_local r p"

definition secrets_guard_redact :: "World \<Rightarrow> DefaultRouter \<Rightarrow> Provider \<Rightarrow> string \<Rightarrow> string \<times> secret_map option" where
  "secrets_guard_redact w r p prompt =
     (if \<not> secrets_guard_active w r p then (prompt, None)
      else
        let (rd, text) = redactor_redact (captures_iter w) (redactor_new (env_corpus (process_env w))) prompt
        in if redactor_map rd = [] then (text, None) else (text, Some (redactor_map rd)))"

definition secrets_guard_restore :: "string \<Rightarrow> secret_map option \<Rightarrow> string" where
  "secrets_guard_restore text m = (case m of None \<Rightarrow> text | Some sm \<Rightarrow> restored (restore text sm))"

definition not_configured :: "string \<Rightarrow> LlmError" where
  "not_configured name =
     ProviderUnavailable name
       (''Provider '' @ [CHR 0x27] @ name @ [CHR 0x27] @ '' not configured. Add to ~/.zen/config.toml: [providers.''
        @ name @ '']'')"

text \<open>
  \<open>ProviderInstance::complete_with_usage\<close>: a mock instance answers itself, the others over the
  network. \<open>complete\<close> is its text.
\<close>

definition instance_complete ::
  "World \<Rightarrow> DefaultRouter \<Rightarrow> ProviderInstance \<Rightarrow> string \<Rightarrow> ModelOptions \<Rightarrow> (UsedCompletion, LlmError) result \<times> DefaultRouter" where
  "instance_complete w r i prompt options =
     (case i of
        MockInst response \<Rightarrow> (Ok \<lparr>uc_text = mock_complete response ''call'' prompt, uc_usage = None\<rparr>, r)
      | _ \<Rightarrow> (completion w (length (egress r)) i prompt options, r\<lparr>egress := egress r @ [(i, prompt)]\<rparr>))"

definition call_with_usage ::
  "World \<Rightarrow> DefaultRouter \<Rightarrow> Provider \<Rightarrow> string \<Rightarrow> (UsedCompletion, LlmError) result \<times> DefaultRouter" where
  "call_with_usage w r p prompt =
     (let (guarded, sm) = secrets_guard_redact w r p prompt;
          name = provider_str p in
      if name = ''mock'' then
        (Ok \<lparr>uc_text = secrets_guard_restore (mock_complete (mock_response r) ''call'' guarded) sm, uc_usage = None\<rparr>, r)
      else
        let options = or_default (resolve_effective_options r name) options_default in
        case provider_instance w r name of
          (None, r') \<Rightarrow> (Err (not_configured name), r')
        | (Some i, r') \<Rightarrow>
            (case instance_complete w r' i guarded options of
               (Err e, r2) \<Rightarrow> (Err e, r2)
             | (Ok c, r2) \<Rightarrow>
                 (Ok \<lparr>uc_text = secrets_guard_restore (uc_text c) sm, uc_usage = uc_usage c\<rparr>, r2)))"

definition call :: "World \<Rightarrow> DefaultRouter \<Rightarrow> Provider \<Rightarrow> string \<Rightarrow> (string, LlmError) result \<times> DefaultRouter" where
  "call w r p prompt =
     (let (guarded, sm) = secrets_guard_redact w r p prompt;
          name = provider_str p in
      if name = ''mock'' then
        (Ok (secrets_guard_restore (mock_complete (mock_response r) ''call'' guarded) sm), r)
      else
        let options = or_default (resolve_effective_options r name) options_default in
        case provider_instance w r name of
          (None, r') \<Rightarrow> (Err (not_configured name), r')
        | (Some i, r') \<Rightarrow>
            (case instance_complete w r' i guarded options of
               (Err e, r2) \<Rightarrow> (Err e, r2)
             | (Ok c, r2) \<Rightarrow> (Ok (secrets_guard_restore (uc_text c) sm), r2)))"

subsection \<open>Metered completion\<close>

datatype AgenticError = LlmProviderUnavailable string string | LlmRoutingFailed string string

definition route_zen_error :: "LlmError \<Rightarrow> AgenticError" where
  "route_zen_error e = LlmRoutingFailed ''unknown'' (llm_error_str e)"

fun call_zen_error :: "Provider \<Rightarrow> LlmError \<Rightarrow> AgenticError" where
  "call_zen_error p (ProviderUnavailable provider reason) = LlmProviderUnavailable provider reason"
| "call_zen_error p (Routing reason) = LlmRoutingFailed (provider_str p) reason"
| "call_zen_error p (Call reason) = LlmProviderUnavailable (provider_str p) (''call failed: '' @ reason)"

definition complete :: "World \<Rightarrow> DefaultRouter \<Rightarrow> string \<Rightarrow> Sensitivity \<Rightarrow> (string, AgenticError) result \<times> DefaultRouter" where
  "complete w r request s =
     (case route w r s of
        (Err e, r') \<Rightarrow> (Err (route_zen_error e), r')
      | (Ok p, r') \<Rightarrow>
          (case call w r' p request of
             (Err e, r2) \<Rightarrow> (Err (call_zen_error p e), r2)
           | (Ok text, r2) \<Rightarrow> (Ok text, r2)))"

record MeteredCompletion =
  mc_text :: string
  mc_provider :: string
  mc_model :: string
  mc_input_tokens :: nat
  mc_output_tokens :: nat
  mc_cost_usd :: rat

definition metered_model :: "World \<Rightarrow> DefaultRouter \<Rightarrow> string \<Rightarrow> string \<times> DefaultRouter" where
  "metered_model w r name =
     (if name = ''mock'' then (''mock'', r)
      else let (i, r') = provider_instance w r name
           in (case i of Some inst \<Rightarrow> model_name inst | None \<Rightarrow> ''unknown'', r'))"

definition complete_metered ::
  "World \<Rightarrow> DefaultRouter \<Rightarrow> string \<Rightarrow> Sensitivity \<Rightarrow> (MeteredCompletion, AgenticError) result \<times> DefaultRouter" where
  "complete_metered w r request s =
     (case route w r s of
        (Err e, r') \<Rightarrow> (Err (route_zen_error e), r')
      | (Ok p, r') \<Rightarrow>
          (case call_with_usage w r' p request of
             (Err e, r2) \<Rightarrow> (Err (call_zen_error p e), r2)
           | (Ok c, r2) \<Rightarrow>
               let name = provider_str p;
                   (model, r3) = metered_model w r2 name;
                   meta = model_metadata r3 name model;
                   (i, j) = reconcile_usage (uc_usage c) (estimate_tokens request) (estimate_tokens (uc_text c))
               in (Ok \<lparr>mc_text = uc_text c, mc_provider = name, mc_model = model, mc_input_tokens = i,
                       mc_output_tokens = j, mc_cost_usd = usage_to_cost_usd meta i j\<rparr>, r3)))"

end
