(* ===== verification/Router_Privacy.thy ===== *)
theory Router_Privacy
  imports Provider_Router Secrets_Roundtrip
begin

section \<open>Where sensitive text may go\<close>

text \<open>
  What the router sends, to whom and in which form: the frame of the key and instance look-ups, the
  sensitivity rule and the guard on the text that leaves.
\<close>

subsection \<open>What the look-ups leave alone\<close>

text \<open>The parts of the router that decide routing and record the egress.\<close>

definition frame :: "DefaultRouter \<Rightarrow> ZenConfig \<times> string \<times> string option \<times> (ProviderInstance \<times> string) list" where
  "frame r = (config r, mock_response r, current_variant r, egress r)"

lemma frame_eqD:
  assumes "frame r' = frame r"
  shows "config r' = config r" "mock_response r' = mock_response r" "egress r' = egress r"
    "current_variant r' = current_variant r"
  using assms by (simp_all add: frame_def)

lemma frame_update [simp]:
  "frame (r\<lparr>unavailable := u\<rparr>) = frame r" "frame (r\<lparr>provider_cache := c\<rparr>) = frame r" "frame (r\<lparr>probes := n\<rparr>) = frame r"
  by (simp_all add: frame_def)

lemma resolver_resolve_frame:
  "frame (snd (resolver_resolve w r service var)) = frame r
   \<and> provider_cache (snd (resolver_resolve w r service var)) = provider_cache r"
  by (simp add: resolver_resolve_def Let_def split: option.split result.split AuthError.split)

lemma resolve_api_key_frame:
  "frame (snd (resolve_api_key w r p name)) = frame r
   \<and> provider_cache (snd (resolve_api_key w r p name)) = provider_cache r"
proof -
  obtain res r0 where res: "resolver_resolve w r (''zen-'' @ name @ ''-api-key'') (to_uppercase name @ ''_API_KEY'') = (res, r0)"
    by force
  from resolver_resolve_frame [of w r "''zen-'' @ name @ ''-api-key''" "to_uppercase name @ ''_API_KEY''", unfolded res]
  have fr: "frame r0 = frame r" "provider_cache r0 = provider_cache r" by simp_all
  have "snd (resolve_api_key w r p name) = r0"
    unfolding resolve_api_key_def Let_def res by (simp split: result.split option.split)
  with fr show ?thesis by simp
qed

lemma provider_instance_frame:
  assumes "provider_instance w r name = (i, r')"
  shows "frame r' = frame r"
proof -
  have "frame (snd (create_provider_instance w r name cfg)) = frame r" for cfg
    using resolve_api_key_frame [of w r cfg name] by (simp add: create_provider_instance_def case_prod_beta Let_def)
  with assms show ?thesis
    by (auto simp: provider_instance_def split: option.splits prod.splits) (metis snd_conv)+
qed

text \<open>An instance, once found, is found again.\<close>

lemma provider_instance_cached:
  assumes "provider_instance w r name = (Some i, r')"
  shows "map_of (provider_cache r') name = Some i"
  using assms by (auto simp: provider_instance_def update_conv split: option.splits prod.splits)

lemma provider_instance_again:
  "map_of (provider_cache r) name = Some i \<Longrightarrow> provider_instance w r name = (Some i, r)"
  by (simp add: provider_instance_def)

subsection \<open>Probes and routing\<close>

text \<open>The instance of the local provider is one that answered a probe.\<close>

definition probed :: "World \<Rightarrow> DefaultRouter \<Rightarrow> bool" where
  "probed w r \<longleftrightarrow> (\<exists>url m k. map_of (provider_cache r) ''ollama'' = Some (OllamaInst url m) \<and> health w k url)"

lemma is_local_llm_available_cases:
  assumes "is_local_llm_available w r = (up, r')"
  shows "frame r' = frame r \<and> (up \<longrightarrow> probed w r')"
proof -
  obtain i r0 where i: "provider_instance w r ''ollama'' = (i, r0)" by force
  note fr = provider_instance_frame [OF i]
  show ?thesis
  proof (cases "\<exists>url m. i = Some (OllamaInst url m)")
    case True
    then obtain url m where inst: "i = Some (OllamaInst url m)" by blast
    from provider_instance_cached [OF i [unfolded inst]] assms i inst fr show ?thesis
      by (auto simp: is_local_llm_available_def probed_def)
  next
    case False
    with assms i fr show ?thesis
      by (auto simp: is_local_llm_available_def split: option.splits ProviderInstance.splits)
  qed
qed

lemma is_local_frame: "frame r' = frame r \<Longrightarrow> is_local r' p \<longleftrightarrow> is_local r p"
  by (simp add: is_local_def frame_def)

lemma local_fallback_cases:
  assumes "local_fallback w r p s = (res, r')"
  shows "frame r' = frame r \<and> (res = Err (local_unavailable p s) \<or> (\<exists>l. res = Ok l \<and> is_local r l \<and> probed w r'))"
proof -
  obtain up r0 where up: "is_local_llm_available w r = (up, r0)" by force
  from is_local_llm_available_cases [OF up] have fr: "frame r0 = frame r" "up \<Longrightarrow> probed w r0" by blast+
  from assms up fr is_local_frame [OF fr(1)] show ?thesis
    by (cases up) (auto simp: local_fallback_def split: option.splits if_splits)
qed

lemma enforce_sensitivity_cases:
  assumes "enforce_sensitivity w r p s = (res, r')" "s \<noteq> Public"
  shows "frame r' = frame r \<and> (res = Err (local_unavailable p s) \<or> (\<exists>l. res = Ok l \<and> is_local r l \<and> probed w r'))"
proof (cases "is_local r p")
  case True
  obtain up r0 where up: "is_local_llm_available w r = (up, r0)" by force
  from is_local_llm_available_cases [OF up] have fr: "frame r0 = frame r" "up \<Longrightarrow> probed w r0" by blast+
  show ?thesis
  proof (cases up)
    case True
    with assms up fr \<open>is_local r p\<close> show ?thesis
      by (auto simp: enforce_sensitivity_def split: Sensitivity.splits)
  next
    case False
    with assms up \<open>is_local r p\<close> have "local_fallback w r0 p s = (res, r')"
      by (cases s) (simp_all add: enforce_sensitivity_def)
    from local_fallback_cases [OF this] fr(1) is_local_frame [OF fr(1)] show ?thesis by auto
  qed
next
  case False
  with assms have "local_fallback w r p s = (res, r')"
    by (cases s) (simp_all add: enforce_sensitivity_def)
  from local_fallback_cases [OF this] show ?thesis .
qed

lemma route_cases:
  assumes "route w r s = (res, r')" "s \<noteq> Public"
  shows "frame r' = frame r \<and> (\<forall>p. res = Ok p \<longrightarrow> is_local r p \<and> probed w r')"
proof (cases "resolve_provider (config r) DefaultTask")
  case None
  with assms show ?thesis by (auto simp: route_def)
next
  case (Some p)
  with assms(1) have "enforce_sensitivity w r p s = (res, r')" by (simp add: route_def)
  from enforce_sensitivity_cases [OF this assms(2)] show ?thesis by auto
qed

lemma route_with_preferences_cases:
  assumes "route_with_preferences w r s prefs = (res, r')" "s \<noteq> Public"
  shows "frame r' = frame r \<and> (\<forall>p. res = Ok p \<longrightarrow> is_local r p \<and> probed w r')"
  using assms
proof (induction w r s prefs rule: route_with_preferences.induct)
  case (1 w r s)
  then show ?case using route_cases by simp
next
  case (2 w r s ps)
  then show ?case by simp
next
  case (3 w r s ps)
  obtain up r0 where up: "is_local_llm_available w r = (up, r0)" by force
  from is_local_llm_available_cases [OF up] have fr: "frame r0 = frame r" "up \<Longrightarrow> probed w r0" by blast+
  show ?case
  proof (cases up)
    case True
    with 3 up fr show ?thesis by (auto simp: is_local_def)
  next
    case False
    with "3.prems" up have "route_with_preferences w r0 s ps = (res, r')" by simp
    from "3.IH" [OF up [symmetric] refl False this] "3.prems"(2) fr(1) is_local_frame [OF fr(1)]
    show ?thesis by simp
  qed
next
  case (4 w r s ps)
  show ?case
  proof (cases "default_provider (config r)")
    case None
    with 4 show ?thesis by simp
  next
    case (Some name)
    show ?thesis
    proof (cases "is_local r (parse_provider_name name)")
      case True
      with 4 Some show ?thesis by simp
    next
      case False
      with "4.prems"(1) Some have "enforce_sensitivity w r (parse_provider_name name) s = (res, r')" by simp
      from enforce_sensitivity_cases [OF this "4.prems"(2)] show ?thesis by auto
    qed
  qed
next
  case (5 w r s name ps)
  then have "enforce_sensitivity w r (parse_provider_name name) s = (res, r')" by simp
  from enforce_sensitivity_cases [OF this "5.prems"(2)] show ?case by auto
qed

subsection \<open>What a call sends\<close>

lemma secrets_guard_redact_frame: "frame r' = frame r \<Longrightarrow> secrets_guard_redact w r' p t = secrets_guard_redact w r p t"
  by (simp add: secrets_guard_redact_def secrets_guard_active_def is_local_def frame_def)

lemma instance_complete_egress:
  assumes "instance_complete w r i t opts = (res, r')"
  shows "egress r' = egress r @ (case i of MockInst _ \<Rightarrow> [] | _ \<Rightarrow> [(i, t)]) \<and> config r' = config r"
  using assms by (auto simp: instance_complete_def split: ProviderInstance.splits)

text \<open>A call sends at most one text, the guarded prompt, to the instance of the provider's name.\<close>

lemma call_with_usage_egress:
  assumes "call_with_usage w r p prompt = (res, r')"
  shows "egress r' = egress r
     \<or> (\<exists>i r0. provider_instance w r (provider_str p) = (Some i, r0)
          \<and> egress r' = egress r @ [(i, fst (secrets_guard_redact w r p prompt))])"
proof (cases "provider_str p = ''mock''")
  case True
  with assms show ?thesis by (auto simp: call_with_usage_def split: prod.splits)
next
  case False
  obtain g sm where g: "secrets_guard_redact w r p prompt = (g, sm)" by force
  obtain i r0 where i: "provider_instance w r (provider_str p) = (i, r0)" by force
  note fr = frame_eqD [OF provider_instance_frame [OF i]]
  show ?thesis
  proof (cases i)
    case None
    with assms False g i fr show ?thesis by (simp add: call_with_usage_def Let_def)
  next
    case (Some inst)
    obtain res0 r2 where c: "instance_complete w r0 inst g (or_default (resolve_effective_options r (provider_str p)) options_default) = (res0, r2)"
      by force
    from instance_complete_egress [OF c] fr have eg: "egress r2 = egress r @ (case inst of MockInst _ \<Rightarrow> [] | _ \<Rightarrow> [(inst, g)])"
      by simp
    from assms False g i Some c have "r' = r2" by (auto simp: call_with_usage_def Let_def split: result.splits)
    with eg i g Some show ?thesis by (auto split: ProviderInstance.splits)
  qed
qed

lemma call_with_usage_sends:
  assumes "provider_str p \<noteq> ''mock''" "provider_instance w r (provider_str p) = (Some i, r0)" "\<forall>x. i \<noteq> MockInst x"
  shows "egress (snd (call_with_usage w r p prompt)) = egress r @ [(i, fst (secrets_guard_redact w r p prompt))]"
proof -
  obtain g sm where g: "secrets_guard_redact w r p prompt = (g, sm)" by force
  obtain res r2 where c: "instance_complete w r0 i g (or_default (resolve_effective_options r (provider_str p)) options_default) = (res, r2)"
    by force
  from instance_complete_egress [OF c] frame_eqD(3) [OF provider_instance_frame [OF assms(2)]] assms(3)
  have "egress r2 = egress r @ [(i, g)]" by (auto split: ProviderInstance.splits)
  with assms(1,2) g c show ?thesis by (cases res) (simp_all add: call_with_usage_def Let_def)
qed

lemma call_is_call_with_usage:
  "call w r p prompt =
     (case call_with_usage w r p prompt of (Ok c, r') \<Rightarrow> (Ok (uc_text c), r') | (Err e, r') \<Rightarrow> (Err e, r'))"
  by (simp add: call_def call_with_usage_def Let_def split: prod.splits option.splits result.splits)

lemma call_egress:
  assumes "call w r p prompt = (res, r')"
  shows "egress r' = egress r
     \<or> (\<exists>i r0. provider_instance w r (provider_str p) = (Some i, r0)
          \<and> egress r' = egress r @ [(i, fst (secrets_guard_redact w r p prompt))])"
proof -
  obtain res0 r0 where c: "call_with_usage w r p prompt = (res0, r0)" by force
  with assms have "r' = r0" by (auto simp: call_is_call_with_usage split: result.splits)
  with call_with_usage_egress [OF c] show ?thesis by simp
qed

lemma route_config:
  assumes "route w r s = (res, r')"
  shows "config r' = config r"
proof (cases "s = Public")
  case True
  with assms show ?thesis by (auto simp: route_def enforce_sensitivity_def split: option.splits)
next
  case False
  with route_cases [OF assms] show ?thesis by (simp add: frame_def)
qed

lemma call_config:
  assumes "call_with_usage w r p prompt = (res, r')"
  shows "config r' = config r"
proof (cases "provider_str p = ''mock''")
  case True
  with assms show ?thesis by (auto simp: call_with_usage_def split: prod.splits)
next
  case False
  obtain g sm where g: "secrets_guard_redact w r p prompt = (g, sm)" by force
  obtain i r0 where i: "provider_instance w r (provider_str p) = (i, r0)" by force
  note fr = frame_eqD(1) [OF provider_instance_frame [OF i]]
  show ?thesis
  proof (cases i)
    case None
    with assms False g i fr show ?thesis by (simp add: call_with_usage_def Let_def)
  next
    case (Some inst)
    obtain res0 r2 where c: "instance_complete w r0 inst g (or_default (resolve_effective_options r (provider_str p)) options_default) = (res0, r2)"
      by force
    with assms False g i Some have "r' = r2" by (auto simp: call_with_usage_def Let_def split: result.splits)
    with instance_complete_egress [OF c] fr show ?thesis by simp
  qed
qed

lemma metered_model_config: "metered_model w r name = (m, r') \<Longrightarrow> config r' = config r"
  by (auto simp: metered_model_def split: if_splits prod.splits dest: provider_instance_frame frame_eqD)

subsection \<open>Sensitive text\<close>

text \<open>Everything sent between two states went to an Ollama server that had answered a probe.\<close>

definition sent_to_probed :: "World \<Rightarrow> DefaultRouter \<Rightarrow> DefaultRouter \<Rightarrow> bool" where
  "sent_to_probed w r r' \<longleftrightarrow>
     (\<exists>xs. egress r' = egress r @ xs \<and> (\<forall>x \<in> set xs. \<exists>url m k. fst x = OllamaInst url m \<and> health w k url))"

lemma call_sent_to_probed:
  assumes "probed w r1" "egress r1 = egress r"
  shows "sent_to_probed w r (snd (call_with_usage w r1 Ollama request))"
proof -
  obtain res r2 where c: "call_with_usage w r1 Ollama request = (res, r2)" by force
  from assms(1) obtain url m k where o: "map_of (provider_cache r1) ''ollama'' = Some (OllamaInst url m)" "health w k url"
    by (auto simp: probed_def)
  from call_with_usage_egress [OF c] provider_instance_again [OF o(1), of w] assms(2)
  have "egress r2 = egress r \<or> egress r2 = egress r @ [(OllamaInst url m, fst (secrets_guard_redact w r1 Ollama request))]"
    by auto
  then have "sent_to_probed w r r2"
    unfolding sent_to_probed_def
  proof
    assume "egress r2 = egress r"
    then show "\<exists>xs. egress r2 = egress r @ xs \<and> (\<forall>x \<in> set xs. \<exists>url m k. fst x = OllamaInst url m \<and> health w k url)"
      by (intro exI [of _ "[]"]) simp
  next
    assume "egress r2 = egress r @ [(OllamaInst url m, fst (secrets_guard_redact w r1 Ollama request))]"
    with o(2) show "\<exists>xs. egress r2 = egress r @ xs \<and> (\<forall>x \<in> set xs. \<exists>url m k. fst x = OllamaInst url m \<and> health w k url)"
      by (intro exI [of _ "[(OllamaInst url m, fst (secrets_guard_redact w r1 Ollama request))]"]) auto
  qed
  with c show ?thesis by simp
qed

lemma snd_call: "snd (call w r p t) = snd (call_with_usage w r p t)"
  by (simp add: call_is_call_with_usage split: prod.split result.split)

lemma snd_complete:
  assumes "route w r s = (Ok p, r')"
  shows "snd (complete w r t s) = snd (call_with_usage w r' p t)"
proof -
  obtain res r2 where "call w r' p t = (res, r2)" by force
  with snd_call [of w r' p t] assms show ?thesis by (cases res) (simp_all add: complete_def)
qed

text \<open>
  Claim C14. Sensitive text stays local when no section \<open>ollama\<close> has a loopback address: for private and
  confidential data every preference list routes to the local provider or fails, and what a
  completion sends goes only to an Ollama server that answered a health probe.
\<close>

theorem sensitive_text_stays_local:
  assumes "s \<noteq> Public" "\<not> loopback_ollama (config r)"
  shows "sent_to_probed w r (snd (complete w r request s))
    \<and> (case route_with_preferences w r s prefs of
         (Ok p, r') \<Rightarrow> p = Ollama \<and> sent_to_probed w r (snd (call_with_usage w r' p request))
       | (Err e, r') \<Rightarrow> egress r' = egress r)"
proof
  obtain res r' where rt: "route w r s = (res, r')" by force
  from route_cases [OF rt assms(1)] have fr: "frame r' = frame r" "\<And>p. res = Ok p \<Longrightarrow> is_local r p \<and> probed w r'" by auto
  show "sent_to_probed w r (snd (complete w r request s))"
  proof (cases res)
    case (Ok p)
    with fr(2) assms(2) have "p = Ollama" "probed w r'" by (auto simp: is_local_def)
    with call_sent_to_probed [OF _ frame_eqD(3) [OF fr(1)]] snd_complete [of w r s p r'] rt Ok show ?thesis by simp
  next
    case (Err e)
    with rt frame_eqD(3) [OF fr(1)] show ?thesis by (simp add: complete_def sent_to_probed_def)
  qed
next
  obtain res r' where rt: "route_with_preferences w r s prefs = (res, r')" by force
  from route_with_preferences_cases [OF rt assms(1)] have fr: "frame r' = frame r" "\<And>p. res = Ok p \<Longrightarrow> is_local r p \<and> probed w r'"
    by auto
  show "case route_with_preferences w r s prefs of
         (Ok p, r') \<Rightarrow> p = Ollama \<and> sent_to_probed w r (snd (call_with_usage w r' p request))
       | (Err e, r') \<Rightarrow> egress r' = egress r"
  proof (cases res)
    case (Ok p)
    with fr(2) assms(2) have "p = Ollama" "probed w r'" by (auto simp: is_local_def)
    with rt Ok call_sent_to_probed [OF _ frame_eqD(3) [OF fr(1)]] show ?thesis by simp
  next
    case (Err e)
    with rt frame_eqD(3) [OF fr(1)] show ?thesis by simp
  qed
qed

text \<open>
  Claim C15. With a loopback address in the section \<open>ollama\<close>, as in the shipped configuration, every
  provider counts as local: while the local server answers, confidential text is sent to the
  configured provider, whatever it is, unredacted although the guard is on.
\<close>

theorem loopback_ollama_opens_cloud:
  assumes "loopback_ollama (config r)" "resolve_provider (config r) DefaultTask = Some p" "provider_str p \<noteq> ''mock''"
    "map_of (provider_cache r) ''ollama'' = Some (OllamaInst url m)" "health w (probes r) url"
    "map_of (provider_cache r) (provider_str p) = Some i" "\<forall>x. i \<noteq> MockInst x"
  shows "fst (route w r s) = Ok p \<and> \<not> secrets_guard_active w r p
         \<and> egress (snd (complete w r request s)) = egress r @ [(i, request)]"
proof -
  have av: "is_local_llm_available w r = (True, r\<lparr>probes := Suc (probes r)\<rparr>)"
    using provider_instance_again [OF assms(4), of w] assms(5) by (simp add: is_local_llm_available_def)
  obtain r' where r': "route w r s = (Ok p, r')" "r' = r \<or> r' = r\<lparr>probes := Suc (probes r)\<rparr>"
    using assms(1,2) av by (cases s) (simp_all add: route_def enforce_sensitivity_def is_local_def)
  have loc: "\<not> secrets_guard_active w r' p" "\<not> secrets_guard_active w r p"
    using assms(1) r'(2) by (auto simp: secrets_guard_active_def is_local_def)
  have "map_of (provider_cache r') (provider_str p) = Some i" using r'(2) assms(6) by auto
  note inst = provider_instance_again [OF this, of w]
  have "egress (snd (call_with_usage w r' p request)) = egress r @ [(i, request)]"
    using loc(1) call_with_usage_sends [OF assms(3) inst assms(7)] r'(2) by (auto simp: secrets_guard_redact_def)
  with r'(1) loc(2) show ?thesis by (simp add: snd_complete)
qed

subsection \<open>The guard on what leaves\<close>

lemma fold_collect:
  "v \<in> set (fold (\<lambda>(name, v) out. if P name \<and> k \<le> length v \<and> v \<notin> set out then out @ [v] else out) vars out)
   \<Longrightarrow> v \<in> set out \<or> k \<le> length v"
proof (induction vars arbitrary: out)
  case (Cons e vars)
  obtain name u where e: "e = (name, u)" by force
  from Cons.IH [of "if P name \<and> k \<le> length u \<and> u \<notin> set out then out @ [u] else out"] Cons.prems e
  show ?case by (auto split: if_splits)
qed simp

lemma env_corpus_long: "v \<in> set (env_corpus vars) \<Longrightarrow> MIN_CORPUS_LEN \<le> length v"
  unfolding env_corpus_def by (drule fold_collect) simp

lemma env_redactor: "corpus (redactor_new (env_corpus vars)) = env_corpus vars" "redactor_map (redactor_new c) = []"
  using env_corpus_long by (auto simp: redactor_new_def intro: filter_True)

lemma guarded_text:
  assumes "secrets_guard_active w r p"
  shows "fst (secrets_guard_redact w r p prompt)
         = snd (redactor_redact (captures_iter w) (redactor_new (env_corpus (process_env w))) prompt)"
  using assms by (simp add: secrets_guard_redact_def split: prod.split)

text \<open>
  No secret of the environment leaves for the cloud: whatever a guarded call sends, successful or
  not, contains no value of a secret variable (of at least eight bytes and foreign to the token grammar).
\<close>

theorem guarded_call_hides_secrets:
  assumes "secrets_guard_active w r p" "v \<in> set (env_corpus (process_env w))" "foreign v"
    "\<forall>t. \<forall>h \<in> set (hits (captures_iter w) t). fst (snd (snd h)) \<le> snd (snd (snd h))"
    "call_with_usage w r p prompt = (res, r')" "(i, t) \<in> set (drop (length (egress r)) (egress r'))"
  shows "\<not> str_contains t v"
proof -
  from call_with_usage_egress [OF assms(5)] assms(6) have t: "t = fst (secrets_guard_redact w r p prompt)" by auto
  have "\<forall>v \<in> set (env_corpus (process_env w)). v \<noteq> []"
    using env_corpus_long by (fastforce simp: MIN_CORPUS_LEN_def)
  from redacted_clean [of "redactor_new (env_corpus (process_env w))" v "captures_iter w" prompt] this assms(2-4)
  show ?thesis unfolding t guarded_text [OF assms(1)] by (simp add: env_redactor map_ok_def)
qed

text \<open>
  The guard is transparent: a provider that returns the text it was sent gives the caller the
  original prompt, although it never saw the secrets in it.
\<close>

theorem guarded_call_transparent:
  assumes "provider_str p \<noteq> ''mock''" "provider_instance w r (provider_str p) = (Some i, r0)" "\<forall>x. i \<noteq> MockInst x"
    "\<And>k t opts. completion w k i t opts = Ok \<lparr>uc_text = t, uc_usage = None\<rparr>"
    "\<forall>v \<in> set (env_corpus (process_env w)). foreign v" "\<not> str_contains prompt bracket_open"
    "\<forall>t. \<forall>h \<in> set (hits (captures_iter w) t). hit_ok t h"
  shows "fst (call w r p prompt) = Ok prompt"
proof -
  obtain g sm where g: "secrets_guard_redact w r p prompt = (g, sm)" by force
  have "secrets_guard_restore g sm = prompt"
  proof (cases "secrets_guard_active w r p")
    case False
    with g show ?thesis by (auto simp: secrets_guard_redact_def secrets_guard_restore_def)
  next
    case True
    let ?rd = "redactor_new (env_corpus (process_env w))"
    obtain rd out where rd: "redactor_redact (captures_iter w) ?rd prompt = (rd, out)" by force
    have ok: "map_ok (redactor_map rd)"
      by (rule redactor_keeps_map [OF _ rd]) (simp add: env_redactor map_ok_def)
    have undo: "restore out (redactor_map rd) = \<lparr>restored = prompt, leftovers = []\<rparr>"
      using redacted_restores [OF _ _ assms(6) _ rd ok prefix_order.refl] assms(5,7)
      by (simp add: env_redactor map_ok_def)
    have "restore out [] = \<lparr>restored = out, leftovers = placeholder_tokens out\<rparr>"
      by (simp add: restore_def Let_def numeral_eq_Suc)
    with True g rd undo show ?thesis
      by (auto simp: secrets_guard_redact_def secrets_guard_restore_def split: if_splits)
  qed
  with assms(1-4) g show ?thesis
    by (cases i) (simp_all add: call_def instance_complete_def Let_def)
qed

subsection \<open>Metering and preferences\<close>

text \<open>
  The metered completion is the plain one: same text or same error; its cost is the price
  of the section of the routed provider, never negative, for the tokens the provider reported, or
  for the estimate when the reported sum is zero in 64 bits.
\<close>

theorem metered_completion_agrees:
  "case fst (complete_metered w r request s) of
     Err e \<Rightarrow> fst (complete w r request s) = Err e
   | Ok m \<Rightarrow> fst (complete w r request s) = Ok (mc_text m) \<and> 0 \<le> mc_cost_usd m
       \<and> (\<exists>usage. (mc_input_tokens m, mc_output_tokens m)
            = reconcile_usage usage (estimate_tokens request) (estimate_tokens (mc_text m)))
       \<and> mc_cost_usd m = usage_to_cost_usd (model_metadata r (mc_provider m) (mc_model m)) (mc_input_tokens m) (mc_output_tokens m)"
proof -
  obtain res r1 where rt: "route w r s = (res, r1)" by force
  show ?thesis
  proof (cases res)
    case (Err e)
    with rt show ?thesis by (simp add: complete_metered_def complete_def)
  next
    case (Ok p)
    obtain res2 r2 where c: "call_with_usage w r1 p request = (res2, r2)" by force
    show ?thesis
    proof (cases res2)
      case (Err e)
      with rt Ok c show ?thesis by (simp add: complete_metered_def complete_def call_is_call_with_usage)
    next
      case (Ok u)
      obtain model r3 where m: "metered_model w r2 (provider_str p) = (model, r3)" by force
      obtain i j where ij: "reconcile_usage (uc_usage u) (estimate_tokens request) (estimate_tokens (uc_text u)) = (i, j)" by force
      have "config r3 = config r"
        using route_config [OF rt] call_config [OF c] metered_model_config [OF m] by simp
      then have "model_metadata r3 = model_metadata r" by (intro ext) (simp add: model_metadata_def)
      with rt \<open>res = Ok p\<close> c Ok m ij
      have "fst (complete_metered w r request s) =
          Ok \<lparr>mc_text = uc_text u, mc_provider = provider_str p, mc_model = model, mc_input_tokens = i, mc_output_tokens = j,
              mc_cost_usd = usage_to_cost_usd (model_metadata r (provider_str p) model) i j\<rparr>"
        by (simp add: complete_metered_def Let_def)
      moreover have "fst (complete w r request s) = Ok (uc_text u)"
        using rt \<open>res = Ok p\<close> c Ok by (simp add: complete_def call_is_call_with_usage)
      ultimately show ?thesis using ij [symmetric] usage_cost_nonneg by auto
    qed
  qed
qed

lemma reconcile_reports:
  assumes "su_input u < 2 ^ 64" "su_output u < 2 ^ 64"
  shows "reconcile_usage (Some u) a b =
    (if su_input u = 0 \<and> su_output u = 0 \<or> su_input u + su_output u = 2 ^ 64 then (a, b) else (su_input u, su_output u))"
proof -
  have "(su_input u + su_output u) mod 2 ^ 64 = 0 \<longleftrightarrow>
      su_input u + su_output u = 0 \<or> su_input u + su_output u = 2 ^ 64"
    using assms by (auto simp: mod_eq_0_iff_dvd dvd_def)
  then show ?thesis by (auto simp: reconcile_usage_def)
qed

text \<open>The two estimates of the same exchange differ: the telemetry divides the sum, the metering each part.\<close>

lemma telemetry_and_metering_differ:
  "tokens_used (telemetry_entry m ''ab'' ''cd'' l now) = 1"
  "estimate_tokens ''ab'' + estimate_tokens ''cd'' = 0"
  by (simp_all add: telemetry_entry_def estimate_tokens_def)

text \<open>The preference for a local model only is not binding: without a local model the request is routed as usual.\<close>

lemma local_only_falls_through:
  assumes "is_local_llm_available w r = (False, r')" "resolve_provider (config r) DefaultTask = Some p"
  shows "fst (route_with_preferences w r Public [LocalOnly]) = Ok p"
proof -
  from is_local_llm_available_cases [OF assms(1)] have "config r' = config r" by (simp add: frame_def)
  with assms show ?thesis by (simp add: route_def enforce_sensitivity_def)
qed

text \<open>Under a loopback section the preference for the cloud is never met.\<close>

lemma cloud_only_ignored:
  "loopback_ollama (config r) \<Longrightarrow> route_with_preferences w r s (CloudOnly # ps) = route_with_preferences w r s ps"
  by (simp add: is_local_def split: option.split)

text \<open>An alias names another section than the one it is written in: \<open>qwen\<close> is looked up as \<open>aliyun\<close>.\<close>

lemma alias_changes_section: "provider_str (parse_provider_name ''qwen'') = ''aliyun''"
  by code_simp

lemma fallback_chain_ends_with_mock: "\<exists>xs. build_fallback_chain r name = xs @ [(Mock, None)]"
  by (simp add: build_fallback_chain_def Let_def)

subsection \<open>Concrete routers\<close>

text \<open>
  A world with one secret variable, an Ollama server that answers and providers that return what
  they are sent; and two configurations: the sections of the shipped file with \<open>openai\<close> as the default
  provider, and the same with the Ollama server on another machine.
\<close>

definition demo_world :: World where
  "demo_world =
     \<lparr>process_env = [(''OPENAI_API_KEY'', demo_secret)], keychain = (\<lambda>_. Err (KeychainUnavailable [] [])),
      health = (\<lambda>_ _. True), completion = (\<lambda>_ _ t _. Ok \<lparr>uc_text = t, uc_usage = None\<rparr>),
      captures_iter = (\<lambda>_ _. []), guard_state = True\<rparr>"

definition demo_config :: "string \<Rightarrow> ZenConfig" where
  "demo_config url =
     \<lparr>default_provider = Some ''openai'', cfg_default_model = None,
      providers =
        [(''ollama'', provider_config_default\<lparr>provider_type := Some ''ollama'', base_url := Some url\<rparr>),
         (''openai'', provider_config_default\<lparr>provider_type := Some ''openai''\<rparr>)],
      agents = [(''notion_extraction'', \<lparr>agent_provider = Some ''ollama'', agent_model = None, agent_fallbacks = []\<rparr>)]\<rparr>"

definition demo_remote :: DefaultRouter where
  "demo_remote = from_agentic (demo_config ''http://gpu.lan:11434'') []"

definition demo_loopback :: DefaultRouter where
  "demo_loopback = snd (provider_instance demo_world (from_agentic (demo_config ''http://127.0.0.1:11434'') []) ''openai'')"

definition demo_openai :: ProviderInstance where
  "demo_openai = OpenAICompatible demo_secret OPENAI_DEFAULT_MODEL OPENAI_BASE_URL"

lemma demo_world_simps:
  "process_env demo_world = [(''OPENAI_API_KEY'', demo_secret)]" "captures_iter demo_world = (\<lambda>_ _. [])"
  "guard_state demo_world" "health demo_world k url"
  "completion demo_world k i t opts = Ok \<lparr>uc_text = t, uc_usage = None\<rparr>"
  by (simp_all add: demo_world_def)

lemma demo_corpus: "env_corpus (process_env demo_world) = [demo_secret]"
  by code_simp

lemma demo_corpus_foreign: "\<forall>v \<in> set (env_corpus (process_env demo_world)). foreign v"
  unfolding demo_corpus by (simp add: demo_secret_foreign)

lemma demo_router_cache:
  "loopback_ollama (config demo_loopback)" "resolve_provider (config demo_loopback) DefaultTask = Some OpenAI"
  "map_of (provider_cache demo_loopback) ''ollama'' = Some (OllamaInst ''http://127.0.0.1:11434'' OLLAMA_DEFAULT_MODEL)"
  "map_of (provider_cache demo_loopback) ''openai'' = Some demo_openai"
  "\<not> loopback_ollama (config demo_remote)"
  "egress demo_loopback = []" "egress demo_remote = []"
  by code_simp+

lemma demo_remote_openai: "\<exists>r0. provider_instance demo_world demo_remote ''openai'' = (Some demo_openai, r0)"
proof -
  have "fst (provider_instance demo_world demo_remote ''openai'') = Some demo_openai" by code_simp
  then show ?thesis by (metis prod.collapse)
qed

theorem sensitive_text_stays_local_witness:
  "sent_to_probed demo_world demo_remote (snd (complete demo_world demo_remote ''diary'' Private))
   \<and> egress (snd (complete demo_world demo_remote ''diary'' Private))
     = [(OllamaInst ''http://gpu.lan:11434'' OLLAMA_DEFAULT_MODEL, ''diary'')]"
proof
  show "sent_to_probed demo_world demo_remote (snd (complete demo_world demo_remote ''diary'' Private))"
    using sensitive_text_stays_local [of Private demo_remote demo_world "''diary''" "[]"] demo_router_cache(5) by simp
  show "egress (snd (complete demo_world demo_remote ''diary'' Private))
     = [(OllamaInst ''http://gpu.lan:11434'' OLLAMA_DEFAULT_MODEL, ''diary'')]"
  proof -
    have rt: "fst (route demo_world demo_remote Private) = Ok Ollama" "egress (snd (route demo_world demo_remote Private)) = []"
      "fst (provider_instance demo_world (snd (route demo_world demo_remote Private)) ''ollama'')
       = Some (OllamaInst ''http://gpu.lan:11434'' OLLAMA_DEFAULT_MODEL)"
      by code_simp+
    then obtain r' r0 where r': "route demo_world demo_remote Private = (Ok Ollama, r')" "egress r' = []"
      "provider_instance demo_world r' (provider_str Ollama) = (Some (OllamaInst ''http://gpu.lan:11434'' OLLAMA_DEFAULT_MODEL), r0)"
      by (metis prod.collapse provider_str.simps(12) sndI)
    have "egress (snd (call_with_usage demo_world r' Ollama ''diary''))
       = [(OllamaInst ''http://gpu.lan:11434'' OLLAMA_DEFAULT_MODEL, ''diary'')]"
      using call_with_usage_sends [OF _ r'(3)] r'(2)
      by (simp add: secrets_guard_redact_def secrets_guard_active_def is_local_def)
    with snd_complete [OF r'(1)] show ?thesis by simp
  qed
qed

theorem loopback_ollama_opens_cloud_witness:
  "fst (route demo_world demo_loopback Confidential) = Ok OpenAI
   \<and> egress (snd (complete demo_world demo_loopback (''key '' @ demo_secret) Confidential))
     = [(demo_openai, ''key '' @ demo_secret)]"
  using loopback_ollama_opens_cloud [of demo_loopback OpenAI "''http://127.0.0.1:11434''" OLLAMA_DEFAULT_MODEL demo_world
      demo_openai Confidential "''key '' @ demo_secret"]
  by (simp add: demo_router_cache demo_world_simps demo_openai_def del: append_Cons)

theorem guarded_call_hides_secrets_witness:
  "let (res, r') = call_with_usage demo_world demo_remote OpenAI (''key '' @ demo_secret)
   in \<exists>t. egress r' = [(demo_openai, t)] \<and> \<not> str_contains t demo_secret"
proof -
  obtain res r' where c: "call_with_usage demo_world demo_remote OpenAI (''key '' @ demo_secret) = (res, r')" by force
  from demo_remote_openai call_with_usage_sends [of OpenAI demo_world demo_remote demo_openai _ "''key '' @ demo_secret"] c
  obtain t where t: "egress r' = [(demo_openai, t)]" by (auto simp: demo_openai_def demo_router_cache)
  have "\<not> str_contains t demo_secret"
  proof (rule guarded_call_hides_secrets [OF _ _ demo_secret_foreign _ c])
    show "demo_secret \<in> set (env_corpus (process_env demo_world))" unfolding demo_corpus by simp
  qed (simp_all add: t demo_router_cache demo_world_simps hits_none secrets_guard_active_def is_local_def)
  with c t show ?thesis by simp
qed

theorem guarded_call_transparent_witness:
  "fst (call demo_world demo_remote OpenAI (''key '' @ demo_secret)) = Ok (''key '' @ demo_secret)
   \<and> secrets_guard_active demo_world demo_remote OpenAI"
proof
  obtain r0 where inst: "provider_instance demo_world demo_remote ''openai'' = (Some demo_openai, r0)"
    using demo_remote_openai by blast
  have open_free: "\<not> str_contains (''key '' @ demo_secret) bracket_open" by code_simp
  show "fst (call demo_world demo_remote OpenAI (''key '' @ demo_secret)) = Ok (''key '' @ demo_secret)"
    by (rule guarded_call_transparent [OF _ _ _ _ demo_corpus_foreign open_free, of _ _ demo_openai r0])
       (simp_all add: inst demo_world_simps hits_none, simp add: demo_openai_def)
  show "secrets_guard_active demo_world demo_remote OpenAI"
    by (simp add: secrets_guard_active_def is_local_def demo_router_cache demo_world_simps)
qed

end
