(* ===== verification/Provider_Stream.thy ===== *)
theory Provider_Stream
  imports Router_Privacy
begin

section \<open>Streamed replies (zen-provider/src/router.rs, zen-agents/src/completion\_model.rs)\<close>

text \<open>
  The streaming call of the router, the task that restores placeholders frame by frame, and the
  model that the agents read the stream through. A pair of a token channel and a done channel is
  a number; who holds which end decides what the reader sees. What a task observes of its inner
  channels is a list of wake-ups, in the order in which the biased select sees them.
\<close>

subsection \<open>The forwarder of a guarded stream\<close>

datatype wake =
  Frame string
| Closed "(unit, string) result option"  \<comment> \<open>the frame channel is closed; the queued done result, if any\<close>
| DoneSignal "(unit, string) result option"  \<comment> \<open>the done channel answered; None: its sender was dropped\<close>

definition done_result :: "(unit, string) result option \<Rightarrow> (unit, string) result" where
  "done_result d = (case d of Some res \<Rightarrow> res | None \<Rightarrow> Err ''producer dropped done channel: channel closed'')"

fun forward :: "secret_map \<Rightarrow> string \<Rightarrow> bool \<Rightarrow> wake list \<Rightarrow> string list \<times> (unit, string) result option" where
  "forward m carry pending [] = ([], None)"
| "forward m carry pending (Frame tok # ws) =
     (let (emit, c) = restore_incremental (carry @ tok) m;
          (out, d) = forward m c pending ws
      in (if emit = [] then out else emit # out, d))"
| "forward m carry pending (Closed drained # ws) =
     (let fin = restored (restore_finalize [] carry m)
      in (if fin = [] then [] else [fin],
          if pending then
            Some (case drained of Some res \<Rightarrow> res | None \<Rightarrow> Err ''stream closed before done signal'')
          else None))"
| "forward m carry pending (DoneSignal d # ws) =
     (let (out, later) = forward m carry False ws
      in (out, if pending then Some (done_result d) else later))"

subsection \<open>The streaming call\<close>

datatype StreamSource = FromMock string | FromInstance ProviderInstance

datatype StreamTask =
  Producer StreamSource string ModelOptions nat  \<comment> \<open>writes to the channels of that number\<close>
| GuardedProducer StreamSource string ModelOptions nat secret_map
| DoneNow nat "(unit, string) result"

text \<open>
  \<open>guarded_stream_call\<close> makes channels of its own, drops their senders and returns their
  receivers, while the forwarder writes to the channels it was given. \<open>next_chan\<close> is the number of the
  next channels that are made.
\<close>

definition guarded_stream_call ::
  "StreamSource \<Rightarrow> string \<Rightarrow> ModelOptions \<Rightarrow> nat \<Rightarrow> secret_map \<Rightarrow> nat \<Rightarrow> nat \<times> StreamTask" where
  "guarded_stream_call src prompt options outer m next_chan = (next_chan, GuardedProducer src prompt options outer m)"

definition call_stream_with_model ::
  "World \<Rightarrow> DefaultRouter \<Rightarrow> nat \<Rightarrow> Provider \<Rightarrow> string \<Rightarrow> string option \<Rightarrow> (nat \<times> StreamTask) \<times> DefaultRouter" where
  "call_stream_with_model w r next_chan p prompt override =
     (let (guarded, sm) = secrets_guard_redact w r p prompt;
          chan = next_chan;
          name = provider_str p;
          start = (\<lambda>src options.
            case sm of
              Some m \<Rightarrow> guarded_stream_call src guarded options chan m (Suc next_chan)
            | None \<Rightarrow> (chan, Producer src guarded options chan))
      in if name = ''mock'' then (start (FromMock (mock_response r)) options_default, r)
         else case provider_instance w r name of
                (Some i, r') \<Rightarrow> (start (FromInstance i) (stream_options r' name override), r')
              | (None, r') \<Rightarrow>
                  ((chan, DoneNow chan (Err (''Provider '' @ [CHR 0x27] @ name @ [CHR 0x27] @ '' not configured''))), r'))"

definition call_stream :: "World \<Rightarrow> DefaultRouter \<Rightarrow> nat \<Rightarrow> Provider \<Rightarrow> string \<Rightarrow> (nat \<times> StreamTask) \<times> DefaultRouter" where
  "call_stream w r next_chan p prompt = call_stream_with_model w r next_chan p prompt None"

text \<open>What the receivers of a channel pair get when the producer causes these wake-ups and has ended.\<close>

fun frames_of :: "wake list \<Rightarrow> string list" where
  "frames_of [] = []"
| "frames_of (Frame t # ws) = t # frames_of ws"
| "frames_of (_ # ws) = frames_of ws"

fun first_done :: "wake list \<Rightarrow> (unit, string) result option" where
  "first_done [] = None"
| "first_done (Closed d # ws) = (case d of Some r \<Rightarrow> Some r | None \<Rightarrow> first_done ws)"
| "first_done (DoneSignal d # ws) = Some (done_result d)"
| "first_done (Frame t # ws) = first_done ws"

fun deliver :: "StreamTask \<Rightarrow> wake list \<Rightarrow> nat \<Rightarrow> string list \<times> (unit, string) result option" where
  "deliver (Producer src prompt options chan) ws c =
     (if c = chan then (frames_of ws, first_done ws) else ([], None))"
| "deliver (GuardedProducer src prompt options chan m) ws c =
     (if c = chan then forward m [] True ws else ([], None))"
| "deliver (DoneNow chan res) ws c = (if c = chan then ([], Some res) else ([], None))"

subsection \<open>The completion model of the agents\<close>

definition STREAM_INACTIVITY_TIMEOUT_SECS :: nat where "STREAM_INACTIVITY_TIMEOUT_SECS = 120"
definition STREAM_FIRST_TOKEN_TIMEOUT_SECS :: nat where "STREAM_FIRST_TOKEN_TIMEOUT_SECS = 600"

definition env_budget :: "World \<Rightarrow> string \<Rightarrow> nat \<Rightarrow> nat" where
  "env_budget w key d = or_default (Option.bind (map_of (process_env w) key) (parse_uint (2 ^ 64))) d"

definition stream_budget :: "bool \<Rightarrow> nat \<Rightarrow> nat \<Rightarrow> nat" where
  "stream_budget is_first first_secs inactivity_secs = (if is_first then first_secs else inactivity_secs)"

definition stream_budget_for_next :: "World \<Rightarrow> nat \<Rightarrow> nat" where
  "stream_budget_for_next w token_count =
     stream_budget (token_count = 0)
       (env_budget w ''ZEN_STREAM_FIRST_TOKEN_TIMEOUT_SECS'' STREAM_FIRST_TOKEN_TIMEOUT_SECS)
       (env_budget w ''ZEN_STREAM_INACTIVITY_TIMEOUT_SECS'' STREAM_INACTIVITY_TIMEOUT_SECS)"

record StreamState =
  waiting :: "string list"  \<comment> \<open>tokens the channel still holds\<close>
  done_value :: "(unit, string) result option"  \<comment> \<open>what \<open>try_recv\<close> of the done channel finds\<close>
  collected :: string
  token_count :: nat

datatype StreamItem = MessageItem string | FinalResponse string nat | StreamError string

text \<open>One step of the unfold: \<open>late\<close> says that the budget ran out before the channel answered.\<close>

definition stream_step :: "string \<Rightarrow> bool \<Rightarrow> StreamState \<Rightarrow> StreamItem \<times> StreamState" where
  "stream_step provider_name late st =
     (if late then
        (StreamError (if token_count st = 0
           then ''streaming timed out before the first token (cold model load or long prefill; tune ZEN_STREAM_FIRST_TOKEN_TIMEOUT_SECS)''
           else ''streaming timed out: no tokens received''), st)
      else case waiting st of
        t # ts \<Rightarrow>
          (MessageItem t, st\<lparr>waiting := ts, collected := collected st @ t, token_count := Suc (token_count st)\<rparr>)
      | [] \<Rightarrow>
          let text = collected st;
              st' = st\<lparr>collected := [], done_value := None\<rparr>
          in case or_default (done_value st) (Ok ()) of
               Ok _ \<Rightarrow> (FinalResponse provider_name (length text div 4), st')
             | Err e \<Rightarrow> (StreamError (''streaming error: '' @ e), st'))"

text \<open>The items up to the one that ends the reply, when no budget runs out.\<close>

fun stream_items :: "nat \<Rightarrow> string \<Rightarrow> StreamState \<Rightarrow> StreamItem list" where
  "stream_items 0 name st = []"
| "stream_items (Suc k) name st =
     (case stream_step name False st of
        (MessageItem t, st') \<Rightarrow> MessageItem t # stream_items k name st'
      | (item, _) \<Rightarrow> [item])"

definition read_stream :: "string \<Rightarrow> string list \<times> (unit, string) result option \<Rightarrow> StreamItem list" where
  "read_stream name seen =
     stream_items (Suc (length (fst seen))) name
       \<lparr>waiting = fst seen, done_value = snd seen, collected = [], token_count = 0\<rparr>"

datatype UserContent = UserText string | OtherContent

datatype Message = UserMessage "UserContent list" | OtherMessage

definition last_text :: "UserContent list \<Rightarrow> string option" where
  "last_text content =
     (case filter (\<lambda>c. c \<noteq> OtherContent) (rev content) of UserText t # _ \<Rightarrow> Some t | _ \<Rightarrow> None)"

fun last_user_text :: "Message list \<Rightarrow> string option" where
  "last_user_text [] = None"
| "last_user_text (UserMessage content # ms) =
     (case last_text content of Some t \<Rightarrow> Some t | None \<Rightarrow> last_user_text ms)"
| "last_user_text (OtherMessage # ms) = last_user_text ms"

definition extract_last_user_prompt :: "string option \<Rightarrow> Message list \<Rightarrow> string" where
  "extract_last_user_prompt preamble chat_history =
     (let pre = or_default preamble [] in
      case last_user_text (rev chat_history) of
        Some prompt \<Rightarrow> (if pre = [] then prompt else pre @ [CHR 0x0A, CHR 0x0A] @ prompt)
      | None \<Rightarrow> (if pre = [] then ''Hello'' else pre))"

definition model_parse_provider_name :: "string \<Rightarrow> Provider" where
  "model_parse_provider_name name =
     (let n = to_lowercase name in
      if n \<in> {''openai'', ''oa''} then OpenAI
      else if n \<in> {''anthropic'', ''an''} then Anthropic
      else if n \<in> {''deepseek'', ''ds'', ''deep_seek''} then DeepSeek
      else if n \<in> {''qq'', ''qqbot'', ''qq_bot''} then QQBot
      else if n \<in> {''ollama'', ''local'', ''ollama-local''} then Ollama
      else if n = ''mock'' then Mock
      else Unknown n)"

text \<open>\<open>ZenCompletionModel::stream\<close> from the request to the items, for the wake-ups the producer causes.\<close>

definition model_stream :: "World \<Rightarrow> DefaultRouter \<Rightarrow> nat \<Rightarrow> Provider \<Rightarrow> string option \<Rightarrow> Message list \<Rightarrow> wake list \<Rightarrow> StreamItem list" where
  "model_stream w r next_chan p preamble history ws =
     (let ((chan, task), _) = call_stream w r next_chan p (extract_last_user_prompt preamble history)
      in read_stream (provider_str p) (deliver task ws chan))"

subsection \<open>A guarded stream never reaches its reader\<close>

lemma guarded_start:
  assumes "secrets_guard_redact w r p prompt = (g, Some m)" "provider_str p = ''mock'' \<or> fst (provider_instance w r (provider_str p)) \<noteq> None"
  shows "\<exists>src options. fst (call_stream w r n p prompt) = (Suc n, GuardedProducer src g options n m)"
  using assms
  by (cases "provider_instance w r (provider_str p)"; cases "provider_str p = ''mock''")
     (auto simp: call_stream_def call_stream_with_model_def guarded_stream_call_def Let_def)

text \<open>
  A guarded stream is lost: whenever the guard replaced a secret in the prompt, the agent
  reading the stream gets no token and no error, only the end of an empty reply, whatever the
  provider answers. The forwarder writes to channels whose receivers were dropped.
\<close>

theorem guarded_stream_lost:
  assumes "secrets_guard_redact w r p (extract_last_user_prompt preamble history) = (g, Some m)"
    "provider_str p = ''mock'' \<or> fst (provider_instance w r (provider_str p)) \<noteq> None"
  shows "model_stream w r n p preamble history ws = [FinalResponse (provider_str p) 0]"
proof -
  from guarded_start [OF assms, of n] obtain src options where
    "fst (call_stream w r n p (extract_last_user_prompt preamble history)) = (Suc n, GuardedProducer src g options n m)" by blast
  then show ?thesis
    by (simp add: model_stream_def read_stream_def stream_step_def or_default_def case_prod_beta)
qed

text \<open>Without a replacement the reader gets every frame, in order, and then the end or the error.\<close>

lemma stream_items_messages:
  "k = length ts \<Longrightarrow>
   stream_items (Suc k) name \<lparr>waiting = ts, done_value = d, collected = acc, token_count = c\<rparr>
   = map MessageItem ts @
     [case or_default d (Ok ()) of
        Ok _ \<Rightarrow> FinalResponse name (length (acc @ concat ts) div 4)
      | Err e \<Rightarrow> StreamError (''streaming error: '' @ e)]"
proof (induction ts arbitrary: acc c k)
  case Nil
  then show ?case by (cases "or_default d (Ok ())") (simp_all add: stream_step_def Let_def)
next
  case (Cons t ts)
  have "stream_items (Suc (Suc (length ts))) name \<lparr>waiting = t # ts, done_value = d, collected = acc, token_count = c\<rparr>
      = MessageItem t # stream_items (Suc (length ts)) name \<lparr>waiting = ts, done_value = d, collected = acc @ t, token_count = Suc c\<rparr>"
    by (subst stream_items.simps) (simp add: stream_step_def del: stream_items.simps)
  with Cons.IH [of "length ts" "acc @ t" "Suc c"] Cons.prems show ?case
    by (cases "or_default d (Ok ())") (simp_all del: stream_items.simps)
qed

lemma unguarded_stream_complete:
  assumes "secrets_guard_redact w r p (extract_last_user_prompt preamble history) = (g, None)"
    "provider_str p = ''mock'' \<or> fst (provider_instance w r (provider_str p)) \<noteq> None"
  shows "model_stream w r n p preamble history ws =
    map MessageItem (frames_of ws) @
     [case or_default (first_done ws) (Ok ()) of
        Ok _ \<Rightarrow> FinalResponse (provider_str p) (length (concat (frames_of ws)) div 4)
      | Err e \<Rightarrow> StreamError (''streaming error: '' @ e)]"
proof -
  let ?t = "extract_last_user_prompt preamble history"
  have "\<exists>src options. fst (call_stream w r n p ?t) = (n, Producer src g options n)"
    using assms by (cases "provider_instance w r (provider_str p)"; cases "provider_str p = ''mock''")
      (auto simp: call_stream_def call_stream_with_model_def Let_def)
  then obtain src options where st: "fst (call_stream w r n p ?t) = (n, Producer src g options n)" by blast
  then have "model_stream w r n p preamble history ws = read_stream (provider_str p) (frames_of ws, first_done ws)"
    using st by (simp add: model_stream_def case_prod_beta)
  then show ?thesis by (simp only: read_stream_def fst_conv snd_conv stream_items_messages append_Nil)
qed

text \<open>A reply that fails after its frames ended but before the done signal is seen counts as complete.\<close>

lemma late_error_is_success:
  "read_stream name (ts, None) = map MessageItem ts @ [FinalResponse name (length (concat ts) div 4)]"
  by (simp only: read_stream_def fst_conv snd_conv stream_items_messages) (simp add: or_default_def)

text \<open>The agents' own table of names differs from the router's: \<open>qwen\<close> is looked up as written.\<close>

lemma name_tables_differ:
  "provider_str (model_parse_provider_name ''qwen'') = ''qwen''" "provider_str (parse_provider_name ''qwen'') = ''aliyun''"
  by code_simp+

theorem guarded_stream_lost_witness:
  "model_stream demo_world demo_remote 0 OpenAI None [UserMessage [UserText (''key '' @ demo_secret)]]
     [Frame ''hello'', DoneSignal (Some (Ok ())), Closed None] = [FinalResponse ''openai'' 0]"
proof -
  let ?p = "''key '' @ demo_secret"
  have prompt: "extract_last_user_prompt None [UserMessage [UserText ?p]] = ?p"
    by (simp add: extract_last_user_prompt_def or_default_def last_text_def)
  have act: "secrets_guard_active demo_world demo_remote OpenAI"
    by (simp add: secrets_guard_active_def is_local_def demo_router_cache demo_world_simps)
  have "corpus (redactor_new [demo_secret]) = [demo_secret]" "redactor_map (redactor_new [demo_secret]) = []"
    using demo_redactor_simps by (simp_all add: demo_redactor_def)
  moreover have "redact_corpus [demo_secret] [] ?p = ([(token 1, demo_secret)], ''key '' @ token 1)" by code_simp
  ultimately have "secrets_guard_redact demo_world demo_remote OpenAI ?p = (''key '' @ token 1, Some [(token 1, demo_secret)])"
    unfolding secrets_guard_redact_def demo_corpus
    using act by (simp add: redactor_redact_def apply_all_def hits_none demo_world_simps)
  then have g: "secrets_guard_redact demo_world demo_remote OpenAI
      (extract_last_user_prompt None [UserMessage [UserText ?p]]) = (''key '' @ token 1, Some [(token 1, demo_secret)])"
    unfolding prompt .
  from demo_remote_openai have "fst (provider_instance demo_world demo_remote (provider_str OpenAI)) \<noteq> None" by auto
  with guarded_stream_lost [OF g, of 0 "[Frame ''hello'', DoneSignal (Some (Ok ())), Closed None]"] show ?thesis by simp
qed

end
