(* ===== verification/Stream_Restore.thy ===== *)
theory Stream_Restore
  imports Provider_Stream
begin

section \<open>Streamed restoration agrees with restoration of the whole reply\<close>

text \<open>
  The forwarder restores a reply that arrives in frames cut anywhere between characters. The
  invariant is one equation: what was emitted, followed by the reading of the segments that carry
  and remaining frames still spell, is the original.
\<close>

subsection \<open>Strings that do not end inside a character\<close>

text \<open>
  Frames are Rust strings, so they end at a character boundary. Of this only one consequence is
  needed: the lead byte of the brackets is not among the last two bytes.
\<close>

definition tail_ok :: "nat \<Rightarrow> string \<Rightarrow> bool" where
  "tail_ok k s \<longleftrightarrow> CHR 0xE2 \<notin> set (drop (length s - k) s)"

abbreviation whole :: "string \<Rightarrow> bool" where
  "whole \<equiv> tail_ok 2"

lemma tail_ok_append: "tail_ok k (a @ l) \<longleftrightarrow> tail_ok (k - length l) a \<and> tail_ok k l"
proof -
  have "drop (length (a @ l) - k) (a @ l) = drop (length a - (k - length l)) a @ drop (length l - k) l"
  proof (cases "length l \<le> k")
    case True
    then have "length (a @ l) - k = length a - (k - length l)" by simp
    with True show ?thesis by simp
  next
    case False
    then have "length a \<le> length (a @ l) - k" by simp
    with False show ?thesis by simp
  qed
  then show ?thesis by (auto simp: tail_ok_def)
qed

lemma tail_ok_mono: "tail_ok k s \<Longrightarrow> j \<le> k \<Longrightarrow> tail_ok j s"
  using set_drop_subset_set_drop [of "length s - k" "length s - j" s] diff_le_mono2 [of j k "length s"]
  by (auto simp: tail_ok_def)

lemma whole_append: "whole a \<Longrightarrow> whole b \<Longrightarrow> whole (a @ b)"
  using tail_ok_mono [of 2 a "2 - length b"] by (simp add: tail_ok_append)

lemma tail_ok_Nil [simp]: "tail_ok k []"
  by (simp add: tail_ok_def)

text \<open>A map whose secrets are themselves strings of at least two bytes.\<close>

definition secrets_whole :: "secret_map \<Rightarrow> bool" where
  "secrets_whole m \<longleftrightarrow> list_all (\<lambda>(p, v). whole v \<and> 2 \<le> length v) m"

lemma secrets_wholeD: "secrets_whole m \<Longrightarrow> secret_at m n = Some v \<Longrightarrow> whole v \<and> 2 \<le> length v"
  by (auto simp: secrets_whole_def secret_at_def list_all_iff split: if_splits)
     (metis (mono_tags, lifting) case_prod_beta nth_mem Suc_pred less_Suc_eq_le Suc_le_lessD)+

lemma reading_tail_ok:
  assumes "\<And>n. n \<in> tokens_in ss \<Longrightarrow> whole (f n) \<and> 2 \<le> length (f n)" "tail_ok k (wire ss)" "k \<le> 2"
  shows "tail_ok k (reading f ss)"
  using assms
proof (induction ss arbitrary: k rule: rev_induct)
  case (snoc x ss)
  show ?case
  proof (cases x)
    case (Lit l)
    with snoc.prems(2) have "tail_ok (k - length l) (wire ss)" "tail_ok k l" by (simp_all add: tail_ok_append)
    with snoc.IH [of "k - length l"] snoc.prems(1,3) Lit show ?thesis by (simp add: tail_ok_append)
  next
    case (Tok n)
    with snoc.prems(1) [of n] snoc.prems(3) have "tail_ok k (f n)" "k - length (f n) = 0"
      using tail_ok_mono by fastforce+
    with Tok show ?thesis by (simp add: tail_ok_append) (simp add: tail_ok_def)
  qed
qed simp

subsection \<open>Cutting a wire form\<close>

text \<open>Every prefix of a wire form is a run of segments and the beginning of a token.\<close>

lemma wire_cut:
  assumes "wire S = P @ R"
  shows "\<exists>s1 u T. P = wire s1 @ u \<and> u @ R = wire T \<and> (\<forall>f. reading f S = reading f s1 @ reading f T)
           \<and> tokens_in s1 \<union> tokens_in T \<subseteq> tokens_in S \<and> (u = [] \<or> (\<exists>n \<in> tokens_in S. strict_prefix u (token n)))"
  using assms
proof (induction S arbitrary: P rule: tokens_in.induct)
  case 1
  then show ?case by (intro exI [of _ "[]"]) simp
next
  case (2 l ss)
  show ?case
  proof (cases "length P \<le> length l")
    case True
    with "2.prems" obtain l' where "l = P @ l'" "R = l' @ wire ss"
      by (auto simp: append_eq_append_conv2 append_eq_append_conv_if)
    then show ?thesis by (intro exI [of _ "[Lit P]"] exI [of _ "[]"] exI [of _ "Lit l' # ss"]) simp
  next
    case False
    with "2.prems" obtain P' where P': "P = l @ P'" "wire ss = P' @ R" by (auto simp: append_eq_append_conv2)
    from "2.IH" [OF P'(2)] obtain s1 u T where
      "P' = wire s1 @ u" "u @ R = wire T" "\<forall>f. reading f ss = reading f s1 @ reading f T"
      "tokens_in s1 \<union> tokens_in T \<subseteq> tokens_in ss" "u = [] \<or> (\<exists>n \<in> tokens_in ss. strict_prefix u (token n))" by blast
    with P'(1) show ?thesis by (intro exI [of _ "Lit l # s1"] exI [of _ u] exI [of _ T]) simp
  qed
next
  case (3 n ss)
  show ?case
  proof (cases "length P < length (token n)")
    case True
    with "3.prems" have "strict_prefix P (token n)"
      by (metis append_eq_append_conv_if not_less order_less_imp_le prefix_def prefix_order.less_le reading.simps(3) less_irrefl append_take_drop_id)
    with "3.prems" show ?thesis by (intro exI [of _ "[]"] exI [of _ P] exI [of _ "Tok n # ss"]) auto
  next
    case False
    with "3.prems" obtain P' where P': "P = token n @ P'" "wire ss = P' @ R" by (auto simp: append_eq_append_conv2)
    from "3.IH" [OF P'(2)] obtain s1 u T where
      "P' = wire s1 @ u" "u @ R = wire T" "\<forall>f. reading f ss = reading f s1 @ reading f T"
      "tokens_in s1 \<union> tokens_in T \<subseteq> tokens_in ss" "u = [] \<or> (\<exists>n \<in> tokens_in ss. strict_prefix u (token n))" by blast
    with P'(1) show ?thesis by (intro exI [of _ "Tok n # s1"] exI [of _ u] exI [of _ T]) auto
  qed
qed

text \<open>A beginning of a token that ends between characters is a fragment the scan recognizes.\<close>

lemma prefix_open_short:
  assumes "prefix u (token n)" "u \<noteq> []" "whole u"
  shows "prefix bracket_open u"
proof (rule ccontr)
  assume "\<not> prefix bracket_open u"
  moreover from assms(1) have "prefix u bracket_open \<or> prefix bracket_open u"
    unfolding token_bytes by (meson prefix_append prefix_same_cases prefixI)
  ultimately have "prefix u bracket_open" "u \<noteq> bracket_open" by auto
  with assms(2) have "u = [CHR 0xE2] \<or> u = [CHR 0xE2, CHR 0x9F]"
    by (auto simp: bracket_open_def prefix_Cons)
  with assms(3) show False by (auto simp: tail_ok_def)
qed

lemma strict_prefix_token_partial:
  assumes "strict_prefix u (token n)" "u \<noteq> []" "whole u"
  shows "\<exists>w. u = bracket_open @ w \<and> CHR 0xE2 \<notin> set w \<and> (\<forall>c \<in> set w. \<not> is_cont_byte c)
           \<and> is_partial u \<and> length u \<le> length PLACEHOLDER_PREFIX + length (nat_str n)"
proof -
  from prefix_open_short [OF prefix_order.less_imp_le [OF assms(1)] assms(2,3)]
  obtain w where w: "u = bracket_open @ w" by (auto simp: prefix_def)
  have tok: "token n = PLACEHOLDER_PREFIX @ nat_str n @ bracket_close" by (simp add: token_def PLACEHOLDER_SUFFIX_def)
  have short: "prefix u (PLACEHOLDER_PREFIX @ nat_str n)"
  proof (rule ccontr)
    assume no: "\<not> prefix u (PLACEHOLDER_PREFIX @ nat_str n)"
    from assms(1) have "prefix u ((PLACEHOLDER_PREFIX @ nat_str n) @ bracket_close)" by (simp add: tok)
    with no obtain z where z: "u = (PLACEHOLDER_PREFIX @ nat_str n) @ z" "prefix z bracket_close" by (auto simp: prefix_append)
    with assms(1) no have "z \<noteq> []" "z \<noteq> bracket_close" by (auto simp: tok)
    with z(2) have "z = [CHR 0xE2] \<or> z = [CHR 0xE2, CHR 0x9F]" by (auto simp: bracket_close_def prefix_Cons)
    with assms(3) z(1) show False by (auto simp: tail_ok_append tail_ok_def)
  qed
  have digits: "c \<in> set (''SECRET_'' @ nat_str n) \<Longrightarrow> c \<noteq> CHR 0xE2 \<and> \<not> is_cont_byte c" for c
    using nat_str_digits [of c n] by (auto simp: is_digit_def is_cont_byte_def)
  from short w have "prefix w (''SECRET_'' @ nat_str n)" by (simp add: PLACEHOLDER_PREFIX_def)
  with digits have "CHR 0xE2 \<notin> set w" "\<forall>c \<in> set w. \<not> is_cont_byte c"
    using set_mono_prefix by blast+
  moreover have "is_partial u"
    using short nat_str_digits [of _ n] set_mono_prefix
    by (fastforce simp: is_partial_def prefix_append list_all_iff)
  moreover have "length u \<le> length PLACEHOLDER_PREFIX + length (nat_str n)"
    using prefix_length_le [OF short] by simp
  ultimately show ?thesis using w by blast
qed

subsection \<open>The scan for an unfinished token\<close>

lemma utf8_chars_fragment:
  assumes "\<forall>c \<in> set w. \<not> is_cont_byte c"
  shows "utf8_chars (bracket_open @ w) = bracket_open # map (\<lambda>c. [c]) w"
proof -
  have "takeWhile is_cont_byte w = []" "dropWhile is_cont_byte w = w" using assms by (cases w; simp)+
  moreover have "is_cont_byte (CHR 0x9F)" "is_cont_byte (CHR 0xA6)" by code_simp+
  ultimately show ?thesis by (simp add: bracket_open_def utf8_chars_ascii [OF assms])
qed

lemma is_partial_lead: "is_partial t \<Longrightarrow> t \<noteq> [] \<Longrightarrow> hd t = CHR 0xE2"
  by (auto simp: is_partial_def PLACEHOLDER_PREFIX_def bracket_open_def prefix_def neq_Nil_conv)

lemma partial_from_plain:
  "CHR 0xE2 \<notin> set w \<Longrightarrow> length (w @ t) \<le> MAX_LOOKBACK
   \<Longrightarrow> partial_from (rev (map (\<lambda>c. [c]) w) @ rest) t = partial_from rest (w @ t)"
proof (induction w arbitrary: t rule: rev_induct)
  case (snoc c w)
  then have "\<not> is_partial ([c] @ t)" using is_partial_lead [of "[c] @ t"] by auto
  with snoc.IH [of "c # t"] snoc.prems show ?case by simp
qed simp

lemma partial_fragment:
  assumes "u = bracket_open @ w" "CHR 0xE2 \<notin> set w" "\<forall>c \<in> set w. \<not> is_cont_byte c" "is_partial u" "length u \<le> MAX_LOOKBACK"
  shows "partial_placeholder_suffix (c @ u) = Some u"
proof -
  have "\<not> is_cont_byte (hd u)" by (simp add: assms(1) bracket_open_def is_cont_byte_def)
  then have "utf8_chars (c @ u) = utf8_chars c @ bracket_open # map (\<lambda>c. [c]) w"
    using utf8_chars_append [of u c] utf8_chars_fragment [OF assms(3)] assms(1) by simp
  then have "partial_placeholder_suffix (c @ u)
      = partial_from (rev (map (\<lambda>c. [c]) w) @ bracket_open # rev (utf8_chars c)) []"
    by (simp add: partial_placeholder_suffix_def)
  also have "\<dots> = partial_from (bracket_open # rev (utf8_chars c)) w"
    using partial_from_plain [OF assms(2), of "[]"] assms(1,5) by simp
  also have "\<dots> = Some u" using assms(1,4,5) by simp
  finally show ?thesis .
qed

lemma partial_from_not_Nil:
  "partial_from chs t = Some r \<Longrightarrow> \<forall>ch \<in> set chs. ch \<noteq> [] \<Longrightarrow> r \<noteq> []"
  by (induction chs t rule: partial_from.induct) (auto split: if_splits)

lemma partial_none:
  assumes "\<not> str_contains c bracket_open" "whole c"
  shows "partial_placeholder_suffix c = None"
proof (rule ccontr)
  assume "partial_placeholder_suffix c \<noteq> None"
  then obtain r where r: "partial_from (rev (utf8_chars c)) [] = Some r" by (auto simp: partial_placeholder_suffix_def)
  have ne: "r \<noteq> []" by (rule partial_from_not_Nil [OF r]) (auto dest: utf8_chars_not_Nil)
  from partial_from_suffix [OF r] have suf: "suffix r c" and part: "is_partial r" by simp_all
  have "\<not> prefix bracket_open r"
    using suf assms(1) unfolding str_contains_iff suffix_def prefix_def by auto
  moreover from part have "prefix r PLACEHOLDER_PREFIX \<or> prefix PLACEHOLDER_PREFIX r" by (auto simp: is_partial_def)
  ultimately have "prefix r bracket_open \<and> r \<noteq> bracket_open"
    unfolding PLACEHOLDER_PREFIX_def by (meson append_prefixD prefix_order.refl prefix_append prefix_same_cases prefixI)
  with ne have "r = [CHR 0xE2] \<or> r = [CHR 0xE2, CHR 0x9F]" by (auto simp: bracket_open_def prefix_Cons)
  with suf assms(2) show False by (auto simp: suffix_def tail_ok_append tail_ok_def)
qed

subsection \<open>The forwarder\<close>

lemma length_nat_str: "n < 10 ^ k \<Longrightarrow> 0 < k \<Longrightarrow> length (nat_str n) \<le> k"
proof (induction n arbitrary: k rule: nat_str.induct)
  case (1 n)
  show ?case
  proof (cases "n < 10")
    case True
    with 1 show ?thesis by (simp add: nat_str.simps [of n])
  next
    case False
    with "1.prems" obtain j where j: "k = Suc j" "0 < j" by (cases k; cases "k - 1") auto
    with "1.prems" have "n div 10 < 10 ^ j" by (simp add: less_mult_imp_div_less mult.commute)
    with "1.IH" [OF False _ j(2)] False j show ?thesis by (simp add: nat_str.simps [of n])
  qed
qed

lemma max_lookback: "MAX_LOOKBACK = 26" "length PLACEHOLDER_PREFIX = 10"
  by code_simp+

text \<open>
  A step of the streaming restoration: of a buffer that is a run of segments and the beginning of
  a token it emits the reading of the segments and carries the beginning.
\<close>

lemma restore_incremental_cut:
  assumes "map_ok m" "length m < 10 ^ 16" "secrets_whole m" "store.reads m s1 c" "\<not> str_contains c bracket_open"
    "whole (wire s1 @ u)" "u = [] \<or> (\<exists>n \<le> length m. strict_prefix u (token n))"
  shows "restore_incremental (wire s1 @ u) m = (c, u)"
proof (cases "u = []")
  case True
  have c: "c = reading (\<lambda>n. the (secret_at m n)) s1" and known: "\<And>n. n \<in> tokens_in s1 \<Longrightarrow> \<exists>v. secret_at m n = Some v"
    using assms(4) by (auto simp: store.reads_def)
  have "whole c" unfolding c
    by (rule reading_tail_ok) (use True assms(3,6) known secrets_wholeD in fastforce)+
  with restore_loop_cut [OF assms(1,4,5), of "[]"] partial_none [OF assms(5)] True show ?thesis
    by (simp add: restore_incremental_def restore_def Let_def)
next
  case False
  with assms(7) obtain n where n: "n \<le> length m" "strict_prefix u (token n)" by blast
  have "whole u" using assms(6) by (simp add: tail_ok_append)
  from strict_prefix_token_partial [OF n(2) False this] obtain w where w: "u = bracket_open @ w" "CHR 0xE2 \<notin> set w"
    "\<forall>c \<in> set w. \<not> is_cont_byte c" "is_partial u" "length u \<le> length PLACEHOLDER_PREFIX + length (nat_str n)" by blast
  have "length u \<le> MAX_LOOKBACK" using w(5) length_nat_str [of n 16] n(1) assms(2) by (simp add: max_lookback)
  note part = partial_fragment [OF w(1-4) this, of c]
  have "fragment u" using w(1) n(2) by (auto simp: fragment_def)
  from restore_loop_cut [OF assms(1,4,5) this] part show ?thesis
    by (simp add: restore_incremental_def restore_def Let_def)
qed

lemma reads_bound: "store.reads m T c \<Longrightarrow> n \<in> tokens_in T \<Longrightarrow> n \<le> length m"
  by (force simp: store.reads_def secret_at_def split: if_splits)

definition open_frames :: "wake list \<Rightarrow> bool" where
  "open_frames ws \<longleftrightarrow> list_all (\<lambda>x. case x of Closed _ \<Rightarrow> False | Frame t \<Rightarrow> whole t | DoneSignal _ \<Rightarrow> True) ws"

lemma forward_restores:
  assumes "map_ok m" "length m < 10 ^ 16" "secrets_whole m"
    "store.reads m T c" "\<not> str_contains c bracket_open" "whole carry" "open_frames ws"
    "carry @ concat (frames_of ws) = wire T"
  shows "concat (fst (forward m carry pending (ws @ [Closed d]))) = c"
  using assms(4-8)
proof (induction ws arbitrary: carry T c pending)
  case Nil
  then have "redaction_of m carry c" by (auto simp: redaction_of_def)
  from restore_redaction [OF assms(1) this Nil.prems(2)] show ?case by (simp add: restore_finalize_def)
next
  case (Cons x ws)
  show ?case
  proof (cases x)
    case (Frame g)
    have wg: "whole (carry @ g)" using Cons.prems(3,4) Frame by (simp add: whole_append open_frames_def)
    from Cons.prems(5) Frame have "wire T = (carry @ g) @ concat (frames_of ws)" by simp
    from wire_cut [OF this] obtain s1 u T' where cut: "carry @ g = wire s1 @ u" "u @ concat (frames_of ws) = wire T'"
      "\<And>f. reading f T = reading f s1 @ reading f T'" "tokens_in s1 \<union> tokens_in T' \<subseteq> tokens_in T"
      "u = [] \<or> (\<exists>n \<in> tokens_in T. strict_prefix u (token n))" by blast
    let ?f = "\<lambda>n. the (secret_at m n)"
    have reads: "store.reads m s1 (reading ?f s1)" "store.reads m T' (reading ?f T')" "c = reading ?f s1 @ reading ?f T'"
      using Cons.prems(1) cut(3,4) by (auto simp: store.reads_def)
    with Cons.prems(2) have free: "\<not> str_contains (reading ?f s1) bracket_open" "\<not> str_contains (reading ?f T') bracket_open"
      using str_contains_append_left str_contains_append_right by blast+
    have "u = [] \<or> (\<exists>n \<le> length m. strict_prefix u (token n))"
      using cut(5) reads_bound [OF Cons.prems(1)] by blast
    from restore_incremental_cut [OF assms(1-3) reads(1) free(1) wg [unfolded cut(1)] this]
    have inc: "restore_incremental (carry @ g) m = (reading ?f s1, u)" unfolding cut(1) .
    have "whole u" using wg by (simp add: cut(1) tail_ok_append)
    moreover have "open_frames ws" using Cons.prems(4) by (simp add: open_frames_def)
    ultimately have "concat (fst (forward m u pending (ws @ [Closed d]))) = reading ?f T'"
      using Cons.IH [OF reads(2) free(2) _ _ cut(2)] by blast
    with inc reads(3) Frame show ?thesis by (cases "forward m u pending (ws @ [Closed d])") (auto simp: Let_def)
  next
    case (Closed d')
    with Cons.prems(4) show ?thesis by (simp add: open_frames_def)
  next
    case (DoneSignal d')
    have "open_frames ws" using Cons.prems(4) by (simp add: open_frames_def)
    with Cons.IH [OF Cons.prems(1-3), of False] Cons.prems(5) DoneSignal show ?thesis
      by (cases "forward m carry False (ws @ [Closed d])") simp
  qed
qed

text \<open>The done result: the first signal, or the one queued when the frames end, or an error.\<close>

lemma forward_done:
  "open_frames ws \<Longrightarrow> snd (forward m carry True (ws @ [Closed d])) =
     Some (case first_done ws of Some res \<Rightarrow> res
           | None \<Rightarrow> (case d of Some res \<Rightarrow> res | None \<Rightarrow> Err ''stream closed before done signal''))"
proof (induction ws arbitrary: carry)
  case (Cons x ws)
  then show ?case
    by (cases x) (simp_all add: open_frames_def case_prod_beta Let_def)
qed (simp add: Let_def)



end
