(* ===== verification/Scheduler.thy ===== *)
theory Scheduler
  imports Rust_Prelude Complex_Main "HOL-Library.AList"
begin

section \<open>The background scheduler (zen-agents/src/scheduler)\<close>

text \<open>
  Registration, the tick, the tasks it spawns, manual triggers and the monthly cost ledger. Times
  are nanoseconds. The \<open>cron\<close> and \<open>chrono\<close> crates are the fields of \<open>Clock\<close>: when a schedule fires next
  (in the scheduler's time zone) and the month of an instant. A spawned run is a \<open>Run\<close> that waits
  for a permit, executes and is removed when it ends; its end clears the worker's in-flight flag, as
  the drop guard does also for an error or a panic. Costs are rationals. The map of workers is an
  association list in the order its iterator visits it.
\<close>

subsection \<open>Configuration of the schedules (zen-core/src/config.rs)\<close>

record CronConfig =
  subconscious_interval_minutes :: "nat option"
  dream_start_hour :: "nat option"
  dream_end_hour :: "nat option"
  wisdom_synthesis_schedule :: "string option"
  max_concurrent_workers :: "nat option"
  llm_cost_cap_usd :: "rat option"

definition daily_log_schedule :: "CronConfig \<Rightarrow> string option" where
  "daily_log_schedule c = map_option (\<lambda>mins. ''0 */'' @ nat_str mins @ '' * * * *'') (subconscious_interval_minutes c)"

definition max_concurrent_workers_or_default :: "CronConfig \<Rightarrow> nat" where
  "max_concurrent_workers_or_default c =
     max 1 (min 32 (case max_concurrent_workers c of Some n \<Rightarrow> n | None \<Rightarrow> 3))"

definition night_dream_schedule :: "CronConfig \<Rightarrow> string option" where
  "night_dream_schedule c =
     (case dream_start_hour c of
        None \<Rightarrow> None
      | Some start \<Rightarrow>
          if \<not> (1 \<le> start \<and> start < 24) then None
          else case dream_end_hour c of
                 None \<Rightarrow> None
               | Some en \<Rightarrow>
                   if en \<le> start \<or> 24 < en then None
                   else Some (''0 0 '' @ nat_str start @ ''-'' @ nat_str en @ '' * * *''))"

definition default_daily_log_schedule :: string where "default_daily_log_schedule = ''0 */5 * * * *''"
definition default_night_dream_schedule :: string where "default_night_dream_schedule = ''0 0 2 * * *''"
definition default_wisdom_synthesis_schedule :: string where "default_wisdom_synthesis_schedule = ''0 0 2 * * 7''"

subsection \<open>State\<close>

definition DEFAULT_TICK_INTERVAL_SECONDS :: nat where "DEFAULT_TICK_INTERVAL_SECONDS = 30"

record Clock =
  cron_error :: "string \<Rightarrow> string option"  \<comment> \<open>\<open>Schedule::from_str\<close>: the error, if any\<close>
  next_after :: "string \<Rightarrow> int \<Rightarrow> int option"  \<comment> \<open>\<open>schedule.after(now).next()\<close>\<close>
  month_key :: "int \<Rightarrow> string"

record Registered =
  reg_expr :: string
  reg_description :: string
  enabled :: bool
  in_flight :: bool

record WorkerCostLedger =
  ledger_month :: string
  ledger_costs :: "(string \<times> rat) list"
  ledger_path :: bool  \<comment> \<open>whether a sidecar is configured\<close>

type_synonym CostLedgerFile = "string \<times> (string \<times> rat) list"

datatype phase = Waiting | Executing

record Run =
  run_worker :: string
  run_month :: string
  run_phase :: phase

record ZenScheduler =
  workers :: "(string \<times> Registered) list"
  tick_interval :: nat
  worker_costs :: WorkerCostLedger
  cost_cap_usd :: rat
  limiter :: "nat option"
  runs :: "Run list"  \<comment> \<open>spawned and not ended, oldest first\<close>
  triggered :: "string list"  \<comment> \<open>manual runs that have not ended\<close>
  sidecar :: "CostLedgerFile option"  \<comment> \<open>what the ledger file parses to\<close>

definition in_memory :: "string \<Rightarrow> WorkerCostLedger" where
  "in_memory month = \<lparr>ledger_month = month, ledger_costs = [], ledger_path = False\<rparr>"

definition scheduler_new :: "Clock \<Rightarrow> int \<Rightarrow> CostLedgerFile option \<Rightarrow> ZenScheduler" where
  "scheduler_new ck now file =
     \<lparr>workers = [], tick_interval = DEFAULT_TICK_INTERVAL_SECONDS, worker_costs = in_memory (month_key ck now),
      cost_cap_usd = 10, limiter = None, runs = [], triggered = [], sidecar = file\<rparr>"

definition load_cost_ledger :: "CostLedgerFile option \<Rightarrow> string \<Rightarrow> (string \<times> rat) list" where
  "load_cost_ledger file month =
     (case file of Some (m, costs) \<Rightarrow> if m = month then costs else [] | None \<Rightarrow> [])"

definition with_cost_ledger :: "Clock \<Rightarrow> int \<Rightarrow> ZenScheduler \<Rightarrow> ZenScheduler" where
  "with_cost_ledger ck now s =
     s\<lparr>worker_costs := \<lparr>ledger_month = month_key ck now,
        ledger_costs = load_cost_ledger (sidecar s) (month_key ck now), ledger_path = True\<rparr>\<rparr>"

definition cost_cap_exceeded :: "Clock \<Rightarrow> ZenScheduler \<Rightarrow> string \<Rightarrow> int \<Rightarrow> rat option" where
  "cost_cap_exceeded ck s worker now =
     (if ledger_month (worker_costs s) \<noteq> month_key ck now then None
      else case map_of (ledger_costs (worker_costs s)) worker of
             Some cost \<Rightarrow> if cost_cap_usd s \<le> cost then Some cost else None
           | None \<Rightarrow> None)"

subsection \<open>Registration and switches\<close>

datatype SchedulerError = DuplicateWorker string | WorkerNotFound string | InvalidCron string string

definition scheduler_register :: "Clock \<Rightarrow> string \<Rightarrow> string \<Rightarrow> string \<Rightarrow> ZenScheduler \<Rightarrow> (ZenScheduler, SchedulerError) result" where
  "scheduler_register ck i expr desc s =
     (if map_of (workers s) i \<noteq> None then Err (DuplicateWorker i)
      else case cron_error ck expr of
             Some e \<Rightarrow> Err (InvalidCron i e)
           | None \<Rightarrow>
               Ok (s\<lparr>workers := workers s @
                  [(i, \<lparr>reg_expr = expr, reg_description = desc, enabled = True, in_flight = False\<rparr>)]\<rparr>))"

definition set_enabled :: "bool \<Rightarrow> string \<Rightarrow> ZenScheduler \<Rightarrow> (ZenScheduler, SchedulerError) result" where
  "set_enabled b name s =
     (case map_of (workers s) name of
        None \<Rightarrow> Err (WorkerNotFound name)
      | Some w \<Rightarrow> Ok (s\<lparr>workers := AList.update name (w\<lparr>enabled := b\<rparr>) (workers s)\<rparr>))"

definition list_workers :: "ZenScheduler \<Rightarrow> (string \<times> string \<times> string \<times> bool) list" where
  "list_workers s = map (\<lambda>(i, w). (i, reg_expr w, reg_description w, enabled w)) (workers s)"

definition worker_ids :: "ZenScheduler \<Rightarrow> string list" where
  "worker_ids s = map fst (workers s)"

subsection \<open>The tick\<close>

definition should_fire :: "Clock \<Rightarrow> nat \<Rightarrow> string \<Rightarrow> int \<Rightarrow> bool" where
  "should_fire ck interval expr now \<longleftrightarrow>
     (case next_after ck expr now of
        Some nxt \<Rightarrow> \<bar>num_seconds (nxt - now)\<bar> < int interval + 1
      | None \<Rightarrow> False)"

definition fires :: "Clock \<Rightarrow> nat \<Rightarrow> int \<Rightarrow> Registered \<Rightarrow> bool" where
  "fires ck interval now w \<longleftrightarrow> enabled w \<and> should_fire ck interval (reg_expr w) now \<and> \<not> in_flight w"

text \<open>The first loop claims the flags; the second skips the workers over their cap and spawns the others.\<close>

definition claim_flags :: "Clock \<Rightarrow> nat \<Rightarrow> int \<Rightarrow> (string \<times> Registered) list \<Rightarrow> (string \<times> Registered) list" where
  "claim_flags ck interval now ws = map (\<lambda>(i, w). (i, if fires ck interval now w then w\<lparr>in_flight := True\<rparr> else w)) ws"

definition to_fire :: "Clock \<Rightarrow> nat \<Rightarrow> int \<Rightarrow> (string \<times> Registered) list \<Rightarrow> string list" where
  "to_fire ck interval now ws = map fst (filter (\<lambda>(i, w). fires ck interval now w) ws)"

definition tick :: "Clock \<Rightarrow> int \<Rightarrow> ZenScheduler \<Rightarrow> ZenScheduler" where
  "tick ck now s =
     (let fire = to_fire ck (tick_interval s) now (workers s);
          spawned = filter (\<lambda>i. cost_cap_exceeded ck s i now = None) fire
      in s\<lparr>workers := claim_flags ck (tick_interval s) now (workers s),
           runs := runs s @ map (\<lambda>i. \<lparr>run_worker = i, run_month = month_key ck now, run_phase = Waiting\<rparr>) spawned\<rparr>)"

subsection \<open>Runs\<close>

record WorkerReport =
  report_worker :: string
  llm_cost :: rat

definition executing :: "ZenScheduler \<Rightarrow> nat" where
  "executing s = length (filter (\<lambda>r. run_phase r = Executing) (runs s))"

text \<open>The semaphore is fair: the first waiting run gets the next permit.\<close>

definition may_start :: "ZenScheduler \<Rightarrow> nat \<Rightarrow> bool" where
  "may_start s k \<longleftrightarrow>
     k < length (runs s) \<and> run_phase (runs s ! k) = Waiting
     \<and> (case limiter s of
          None \<Rightarrow> True
        | Some permits \<Rightarrow> executing s < permits \<and> list_all (\<lambda>r. run_phase r = Executing) (take k (runs s)))"

definition start_run :: "nat \<Rightarrow> ZenScheduler \<Rightarrow> ZenScheduler" where
  "start_run k s = s\<lparr>runs := (runs s)[k := (runs s ! k)\<lparr>run_phase := Executing\<rparr>]\<rparr>"

definition clear_flag :: "string \<Rightarrow> ZenScheduler \<Rightarrow> ZenScheduler" where
  "clear_flag i s = s\<lparr>workers := map (\<lambda>(j, w). (j, if j = i then w\<lparr>in_flight := False\<rparr> else w)) (workers s)\<rparr>"

definition account :: "string \<Rightarrow> WorkerReport \<Rightarrow> bool \<Rightarrow> ZenScheduler \<Rightarrow> ZenScheduler" where
  "account month report saved s =
     (if 0 < llm_cost report then
        let l = worker_costs s;
            l1 = (if ledger_month l \<noteq> month then l\<lparr>ledger_month := month, ledger_costs := []\<rparr> else l);
            old = (case map_of (ledger_costs l1) (report_worker report) of Some c \<Rightarrow> c | None \<Rightarrow> 0);
            l2 = l1\<lparr>ledger_costs := AList.update (report_worker report) (old + llm_cost report) (ledger_costs l1)\<rparr>
        in s\<lparr>worker_costs := l2,
             sidecar := (if ledger_path l2 \<and> saved then Some (ledger_month l2, ledger_costs l2) else sidecar s)\<rparr>
      else s)"

text \<open>The end of a run: \<open>None\<close> for an error or a panic; \<open>saved\<close> says whether the sidecar could be written.\<close>

definition end_run :: "nat \<Rightarrow> WorkerReport option \<Rightarrow> bool \<Rightarrow> ZenScheduler \<Rightarrow> ZenScheduler" where
  "end_run k report saved s =
     (let r = runs s ! k;
          s1 = (case report of Some rep \<Rightarrow> account (run_month r) rep saved s | None \<Rightarrow> s)
      in clear_flag (run_worker r) (s1\<lparr>runs := take k (runs s1) @ drop (Suc k) (runs s1)\<rparr>))"

definition trigger_start :: "string \<Rightarrow> ZenScheduler \<Rightarrow> (ZenScheduler, SchedulerError) result" where
  "trigger_start name s =
     (case map_of (workers s) name of
        None \<Rightarrow> Err (WorkerNotFound name)
      | Some w \<Rightarrow>
          if in_flight w then Err (WorkerNotFound (name @ '' (busy: previous run still in flight)''))
          else Ok (s\<lparr>workers := AList.update name (w\<lparr>in_flight := True\<rparr>) (workers s), triggered := name # triggered s\<rparr>))"

definition trigger_end :: "string \<Rightarrow> ZenScheduler \<Rightarrow> ZenScheduler" where
  "trigger_end name s = clear_flag name (s\<lparr>triggered := remove1 name (triggered s)\<rparr>)"

subsection \<open>The configured scheduler\<close>

datatype SchedulerProfile = Full | InApp

definition or_else :: "'a option \<Rightarrow> 'a \<Rightarrow> 'a" where
  "or_else x d = (case x of Some v \<Rightarrow> v | None \<Rightarrow> d)"

text \<open>The workers in the order of registration; the loop worker only when its configuration loads.\<close>

definition configured_workers :: "CronConfig \<Rightarrow> SchedulerProfile \<Rightarrow> string option \<Rightarrow> (string \<times> string) list" where
  "configured_workers c profile loop_interval =
     [(''memory-curator'', or_else (daily_log_schedule c) default_daily_log_schedule),
      (''subconscious'', or_else (daily_log_schedule c) default_daily_log_schedule),
      (''dream'', or_else (night_dream_schedule c) default_night_dream_schedule),
      (''session-journaler'', ''0 */5 * * * *''),
      (''notion-extractor'', ''0 */10 * * * *''),
      (''wiki-compiler'', ''0 */30 * * * *''),
      (''commitment-tracker'', ''0 0 8 * * *''),
      (''reflection-worker'', ''0 0 6 * * *''),
      (''wisdom-synth'', or_else (wisdom_synthesis_schedule c) default_wisdom_synthesis_schedule),
      (''decision-tracker'', ''0 0 9 * * *''),
      (''express'', ''0 0 15 * * 6'')]
     @ (if profile = Full then [(''memvid-indexer'', ''0 0 1 * * *'')] else [])
     @ [(''evidence-gatherer'', ''0 0 6 * * 1'')]
     @ (if profile = Full then [(''morning-brief'', ''0 0 9 * * *'')] else [])
     @ [(''promotion'', ''0 0 4 * * *''), (''retention'', ''0 30 3 * * *''), (''embedding-refresher'', ''0 */30 * * * *'')]
     @ (case loop_interval of Some e \<Rightarrow> [(''zen-loop'', e)] | None \<Rightarrow> [])"

definition create_configured_scheduler_with ::
  "Clock \<Rightarrow> int \<Rightarrow> CronConfig \<Rightarrow> SchedulerProfile \<Rightarrow> string option \<Rightarrow> bool \<Rightarrow> CostLedgerFile option \<Rightarrow> ZenScheduler" where
  "create_configured_scheduler_with ck now c profile loop_interval has_paths file =
     (let s0 = (scheduler_new ck now file)\<lparr>limiter := Some (max_concurrent_workers_or_default c)\<rparr>;
          s1 = (if has_paths then with_cost_ledger ck now s0 else s0)
      in foldl (\<lambda>s (i, e). case scheduler_register ck i e [] s of Ok s' \<Rightarrow> s' | Err _ \<Rightarrow> s) s1
           (configured_workers c profile loop_interval))"

end
