(* ===== verification/Scheduler_Run.thy ===== *)
theory Scheduler_Run
  imports Scheduler "HOL-Library.Multiset"
begin

section \<open>Runs of the scheduler under every interleaving\<close>

text \<open>
  Ticks, permits, ends of runs, manual triggers and switches interleave freely. The invariant: no
  worker runs twice at a time, every run holds its worker's flag, and the executing runs stay
  within the permits.
\<close>

datatype sched_label =
  LTick int | LStart nat | LEnd nat "WorkerReport option" bool | LTrigger string | LTriggerEnd string | LSwitch bool string

inductive sched_step :: "Clock \<Rightarrow> ZenScheduler \<Rightarrow> sched_label \<Rightarrow> ZenScheduler \<Rightarrow> bool" for ck where
  step_tick: "sched_step ck s (LTick now) (tick ck now s)"
| step_start: "may_start s k \<Longrightarrow> sched_step ck s (LStart k) (start_run k s)"
| step_end: "k < length (runs s) \<Longrightarrow> run_phase (runs s ! k) = Executing
    \<Longrightarrow> sched_step ck s (LEnd k report saved) (end_run k report saved s)"
| step_trigger: "trigger_start name s = Ok t \<Longrightarrow> sched_step ck s (LTrigger name) t"
| step_trigger_end: "name \<in> set (triggered s) \<Longrightarrow> sched_step ck s (LTriggerEnd name) (trigger_end name s)"
| step_switch: "set_enabled b name s = Ok t \<Longrightarrow> sched_step ck s (LSwitch b name) t"

subsection \<open>Flags\<close>

definition flagged :: "ZenScheduler \<Rightarrow> string \<Rightarrow> bool" where
  "flagged s i \<longleftrightarrow> (case map_of (workers s) i of Some w \<Rightarrow> in_flight w | None \<Rightarrow> False)"

definition active :: "ZenScheduler \<Rightarrow> string list" where
  "active s = map run_worker (runs s) @ triggered s"

lemma map_of_map_snd: "map_of (map (\<lambda>(i, w). (i, f i w)) ws) i = map_option (f i) (map_of ws i)"
  by (induction ws) auto

lemma flagged_clear [simp]: "flagged (clear_flag i s) j \<longleftrightarrow> j \<noteq> i \<and> flagged s j"
  by (auto simp: flagged_def clear_flag_def map_of_map_snd split: option.splits)

lemma flagged_account [simp]: "flagged (account m rep sv s) j \<longleftrightarrow> flagged s j"
  by (simp add: flagged_def account_def Let_def)

lemma account_frame [simp]:
  "runs (account m rep sv s) = runs s" "triggered (account m rep sv s) = triggered s"
  "workers (account m rep sv s) = workers s" "limiter (account m rep sv s) = limiter s"
  by (simp_all add: account_def Let_def)

lemma clear_flag_frame [simp]:
  "runs (clear_flag i s) = runs s" "triggered (clear_flag i s) = triggered s" "limiter (clear_flag i s) = limiter s"
  "map fst (workers (clear_flag i s)) = map fst (workers s)"
  by (simp_all add: clear_flag_def case_prod_beta comp_def)

lemma flagged_tick:
  "flagged (tick ck now s) i \<longleftrightarrow>
     flagged s i \<or> (\<exists>w. map_of (workers s) i = Some w \<and> fires ck (tick_interval s) now w)"
  by (auto simp: flagged_def tick_def Let_def claim_flags_def map_of_map_snd fires_def split: option.splits)

lemma to_fire_iff:
  "distinct (map fst ws) \<Longrightarrow> i \<in> set (to_fire ck n now ws) \<longleftrightarrow> (\<exists>w. map_of ws i = Some w \<and> fires ck n now w)"
  by (force simp: to_fire_def)

lemma fires_not_flagged: "map_of (workers s) i = Some w \<Longrightarrow> fires ck n now w \<Longrightarrow> \<not> flagged s i"
  by (simp add: fires_def flagged_def)

lemma distinct_to_fire: "distinct (map fst ws) \<Longrightarrow> distinct (to_fire ck n now ws)"
  by (simp add: to_fire_def distinct_map_filter)

lemma workers_tick: "map fst (workers (tick ck now s)) = map fst (workers s)"
  by (simp add: tick_def Let_def claim_flags_def case_prod_beta comp_def)

definition spawned :: "Clock \<Rightarrow> int \<Rightarrow> ZenScheduler \<Rightarrow> string list" where
  "spawned ck now s = filter (\<lambda>i. cost_cap_exceeded ck s i now = None) (to_fire ck (tick_interval s) now (workers s))"

lemma active_tick: "active (tick ck now s) = map run_worker (runs s) @ spawned ck now s @ triggered s"
  by (simp add: active_def tick_def Let_def spawned_def comp_def)

lemma update_flags:
  assumes "map_of (workers s) i = Some w"
  shows "flagged (s\<lparr>workers := AList.update i w' (workers s)\<rparr>) j \<longleftrightarrow> (if j = i then in_flight w' else flagged s j)"
  by (simp add: flagged_def update_conv)

subsection \<open>The invariant\<close>

definition sched_inv :: "ZenScheduler \<Rightarrow> bool" where
  "sched_inv s \<longleftrightarrow> distinct (map fst (workers s)) \<and> distinct (active s) \<and> (\<forall>i \<in> set (active s). flagged s i)
     \<and> (case limiter s of Some permits \<Rightarrow> executing s \<le> permits | None \<Rightarrow> True)"

lemma sched_invD:
  assumes "sched_inv s"
  shows "distinct (map fst (workers s))" "distinct (active s)" "i \<in> set (active s) \<Longrightarrow> flagged s i"
    "limiter s = Some n \<Longrightarrow> executing s \<le> n"
  using assms unfolding sched_inv_def by simp_all

lemma sched_invI:
  assumes "distinct (map fst (workers s))" "distinct (active s)" "\<And>i. i \<in> set (active s) \<Longrightarrow> flagged s i"
    "\<And>n. limiter s = Some n \<Longrightarrow> executing s \<le> n"
  shows "sched_inv s"
  using assms unfolding sched_inv_def by (simp split: option.splits)

lemma spawned_fresh:
  assumes "distinct (map fst (workers s))" "i \<in> set (spawned ck now s)"
  shows "\<not> flagged s i" "flagged (tick ck now s) i"
proof -
  from assms(2) have "i \<in> set (to_fire ck (tick_interval s) now (workers s))" by (simp add: spawned_def)
  then obtain w where w: "map_of (workers s) i = Some w" "fires ck (tick_interval s) now w"
    using to_fire_iff [OF assms(1)] by blast
  show "\<not> flagged s i" by (rule fires_not_flagged [OF w])
  from w show "flagged (tick ck now s) i" using flagged_tick [of ck now s i] by blast
qed

lemma distinct_spawned: "distinct (map fst (workers s)) \<Longrightarrow> distinct (spawned ck now s)"
  unfolding spawned_def by (rule distinct_filter [OF distinct_to_fire])

lemma set_active_tick: "set (active (tick ck now s)) = set (active s) \<union> set (spawned ck now s)"
  unfolding active_tick unfolding active_def set_append by blast

lemma tick_frame [simp]: "executing (tick ck now s) = executing s" "limiter (tick ck now s) = limiter s"
  by (simp_all add: executing_def tick_def Let_def comp_def)

lemma sched_inv_tick [preserves]:
  assumes i: "sched_inv s"
  shows "sched_inv (tick ck now s)"
proof (rule sched_invI)
  note d = sched_invD(1) [OF i]
  show "distinct (map fst (workers (tick ck now s)))" unfolding workers_tick by (rule d)
  have "set (spawned ck now s) \<inter> set (active s) = {}"
    using spawned_fresh(1) [OF d] sched_invD(3) [OF i] by (meson disjoint_iff)
  then show "distinct (active (tick ck now s))"
    using sched_invD(2) [OF i] distinct_spawned [OF d, of ck now]
    unfolding active_tick unfolding active_def by (auto simp: disjoint_iff)
  show "flagged (tick ck now s) j" if "j \<in> set (active (tick ck now s))" for j
    using that [unfolded set_active_tick] spawned_fresh(2) [OF d] sched_invD(3) [OF i, of j] flagged_tick [of ck now s j]
    by (elim UnE) (simp, rule spawned_fresh(2) [OF d])
  show "executing (tick ck now s) \<le> n" if "limiter (tick ck now s) = Some n" for n
    using that sched_invD(4) [OF i] by simp
qed

lemma executing_mset: "executing s = size (filter_mset (\<lambda>r. run_phase r = Executing) (mset (runs s)))"
  unfolding executing_def by (metis mset_filter size_mset)

lemma start_run_frame [simp]:
  "workers (start_run k s) = workers s" "triggered (start_run k s) = triggered s" "limiter (start_run k s) = limiter s"
  "flagged (start_run k s) i = flagged s i"
  by (simp_all add: start_run_def flagged_def)

lemma active_start: "active (start_run k s) = active s"
proof (cases "k < length (runs s)")
  case True
  then have "map run_worker (runs (start_run k s)) = map run_worker (runs s)"
    by (simp add: start_run_def map_update list_update_same_conv)
  then show ?thesis by (simp add: active_def)
qed (simp add: start_run_def active_def list_update_beyond)

lemma executing_start:
  assumes "k < length (runs s)" "run_phase (runs s ! k) = Waiting"
  shows "executing (start_run k s) = Suc (executing s)"
  using assms unfolding executing_mset by (simp add: start_run_def mset_update)

lemma sched_inv_start [preserves]:
  assumes i: "sched_inv s" and m: "may_start s k"
  shows "sched_inv (start_run k s)"
proof (rule sched_invI)
  from m have k: "k < length (runs s)" "run_phase (runs s ! k) = Waiting" by (simp_all add: may_start_def)
  show "executing (start_run k s) \<le> n" if "limiter (start_run k s) = Some n" for n
    using that m by (simp add: executing_start [OF k] may_start_def)
qed (simp_all add: active_start sched_invD [OF i])

lemma end_run_frame [simp]:
  "triggered (end_run k rep sv s) = triggered s" "map fst (workers (end_run k rep sv s)) = map fst (workers s)"
  "limiter (end_run k rep sv s) = limiter s" "runs (end_run k rep sv s) = take k (runs s) @ drop (Suc k) (runs s)"
  by (cases rep; simp add: end_run_def Let_def)+

lemma flagged_runs [simp]: "flagged (s\<lparr>runs := rs\<rparr>) i = flagged s i" "flagged (s\<lparr>triggered := ts\<rparr>) i = flagged s i"
  by (simp_all add: flagged_def)

lemma flagged_end: "flagged (end_run k rep sv s) i \<longleftrightarrow> i \<noteq> run_worker (runs s ! k) \<and> flagged s i"
  by (cases rep) (simp_all add: end_run_def Let_def)

lemma active_end:
  assumes "k < length (runs s)"
  shows "mset (active s) = add_mset (run_worker (runs s ! k)) (mset (active (end_run k rep sv s)))"
proof -
  have "mset (runs s) = add_mset (runs s ! k) (mset (take k (runs s) @ drop (Suc k) (runs s)))"
    using arg_cong [OF id_take_nth_drop [OF assms], of mset] by simp
  then show ?thesis by (simp add: active_def)
qed

lemma mset_distinct_insert:
  assumes "mset xs = add_mset x (mset ys)" "distinct xs"
  shows "distinct ys" "x \<notin> set ys" "set ys \<subseteq> set xs"
proof -
  from assms(1) have "mset xs = mset (x # ys)" by simp
  with assms(2) have "distinct (x # ys)" "set xs = set (x # ys)" by (metis mset_eq_imp_distinct_iff, metis mset_eq_setD)
  then show "distinct ys" "x \<notin> set ys" "set ys \<subseteq> set xs" by auto
qed

lemma executing_end: "executing (end_run k rep sv s) \<le> executing s"
proof (cases "k < length (runs s)")
  case True
  have "length (filter P (take k (runs s) @ drop (Suc k) (runs s))) \<le> length (filter P (runs s))" for P
    by (subst (3) id_take_nth_drop [OF True]) simp
  then show ?thesis by (simp add: executing_def del: filter_append length_append)
qed (simp add: executing_def)

lemma sched_inv_end [preserves]:
  assumes i: "sched_inv s" and k: "k < length (runs s)"
  shows "sched_inv (end_run k rep sv s)"
proof (rule sched_invI)
  note m = mset_distinct_insert [OF active_end [OF k] sched_invD(2) [OF i], of rep sv]
  show "distinct (active (end_run k rep sv s))" by (rule m(1))
  show "flagged (end_run k rep sv s) j" if "j \<in> set (active (end_run k rep sv s))" for j
    unfolding flagged_end using that m(2,3) sched_invD(3) [OF i, of j] by blast
  show "executing (end_run k rep sv s) \<le> n" if "limiter (end_run k rep sv s) = Some n" for n
    using that sched_invD(4) [OF i] executing_end [of k rep sv s] by (simp add: order_trans)
qed (simp add: sched_invD [OF i])

lemma trigger_startE:
  assumes "trigger_start name s = Ok t"
  obtains w where "map_of (workers s) name = Some w" "\<not> in_flight w"
    "t = s\<lparr>workers := AList.update name (w\<lparr>in_flight := True\<rparr>) (workers s), triggered := name # triggered s\<rparr>"
  using assms by (auto simp: trigger_start_def split: option.splits if_splits)

lemma sched_inv_trigger [preserves]:
  assumes i: "sched_inv s" and t: "trigger_start name s = Ok t"
  shows "sched_inv t"
proof (rule sched_invI)
  from t obtain w where w: "map_of (workers s) name = Some w" "\<not> in_flight w"
    "t = s\<lparr>workers := AList.update name (w\<lparr>in_flight := True\<rparr>) (workers s), triggered := name # triggered s\<rparr>"
    by (rule trigger_startE)
  have "\<not> flagged s name" using w(1,2) by (simp add: flagged_def)
  then have fresh: "name \<notin> set (active s)" using sched_invD(3) [OF i] by blast
  have fl: "flagged t j \<longleftrightarrow> j = name \<or> flagged s j" for j
    unfolding w(3) by (simp add: flagged_def update_conv)
  have ac: "active t = map run_worker (runs s) @ name # triggered s" by (simp add: w(3) active_def)
  show "distinct (map fst (workers t))" using sched_invD(1) [OF i] by (simp add: w(3) distinct_update)
  show "distinct (active t)" using sched_invD(2) [OF i] fresh unfolding ac unfolding active_def by simp
  show "flagged t j" if "j \<in> set (active t)" for j
    using that sched_invD(3) [OF i, of j] unfolding ac fl unfolding active_def by auto
  show "executing t \<le> n" if "limiter t = Some n" for n
    using that sched_invD(4) [OF i] by (simp add: w(3) executing_def)
qed

lemma sched_inv_trigger_end [preserves]:
  assumes i: "sched_inv s" and n: "name \<in> set (triggered s)"
  shows "sched_inv (trigger_end name s)"
proof (rule sched_invI)
  have ac: "active (trigger_end name s) = map run_worker (runs s) @ remove1 name (triggered s)"
    by (simp add: trigger_end_def active_def)
  have "mset (active s) = add_mset name (mset (active (trigger_end name s)))"
    using n unfolding ac by (simp add: active_def)
  note m = mset_distinct_insert [OF this sched_invD(2) [OF i]]
  show "distinct (active (trigger_end name s))" by (rule m(1))
  show "flagged (trigger_end name s) j" if "j \<in> set (active (trigger_end name s))" for j
    using that m(2,3) sched_invD(3) [OF i, of j] by (auto simp: trigger_end_def)
  show "executing (trigger_end name s) \<le> n" if "limiter (trigger_end name s) = Some n" for n
    using that sched_invD(4) [OF i] by (simp add: trigger_end_def executing_def)
qed (simp add: trigger_end_def sched_invD [OF i])

lemma set_enabledE:
  assumes "set_enabled b name s = Ok t"
  obtains w where "map_of (workers s) name = Some w"
    "t = s\<lparr>workers := AList.update name (w\<lparr>enabled := b\<rparr>) (workers s)\<rparr>"
  using assms by (auto simp: set_enabled_def split: option.splits)

lemma sched_inv_switch [preserves]:
  assumes i: "sched_inv s" and t: "set_enabled b name s = Ok t"
  shows "sched_inv t"
proof -
  from t obtain w where w: "map_of (workers s) name = Some w"
    "t = s\<lparr>workers := AList.update name (w\<lparr>enabled := b\<rparr>) (workers s)\<rparr>" by (rule set_enabledE)
  have fl: "flagged t j \<longleftrightarrow> flagged s j" for j
    unfolding w(2) update_flags [OF w(1)] using w(1) by (simp add: flagged_def)
  have ac: "active t = active s" by (simp add: w(2) active_def)
  show ?thesis
  proof (rule sched_invI)
    show "distinct (map fst (workers t))" using sched_invD(1) [OF i] by (simp add: w(2) distinct_update)
    show "executing t \<le> n" if "limiter t = Some n" for n
      using that sched_invD(4) [OF i] by (simp add: w(2) executing_def)
  qed (simp_all add: ac fl sched_invD [OF i])
qed

lemma sched_inv_step: "sched_inv s \<Longrightarrow> sched_step ck s l t \<Longrightarrow> sched_inv t"
  by (erule sched_step.cases) (auto intro: preserves)

lemma register_all_inv:
  assumes "sched_inv s" "runs s = []" "triggered s = []"
  shows "sched_inv (foldl (\<lambda>s (i, e). case scheduler_register ck i e [] s of Ok s' \<Rightarrow> s' | Err _ \<Rightarrow> s) s ws)"
  using assms
proof (induction ws arbitrary: s)
  case (Cons x ws)
  obtain i e where x: "x = (i, e)" by force
  let ?t = "case scheduler_register ck i e [] s of Ok s' \<Rightarrow> s' | Err _ \<Rightarrow> s"
  have "runs ?t = [] \<and> triggered ?t = [] \<and> sched_inv ?t"
  proof (cases "scheduler_register ck i e [] s")
    case (Ok s')
    then have "map_of (workers s) i = None"
      "s' = s\<lparr>workers := workers s @ [(i, \<lparr>reg_expr = e, reg_description = [], enabled = True, in_flight = False\<rparr>)]\<rparr>"
      by (auto simp: scheduler_register_def split: if_splits option.splits)
    with Ok Cons.prems show ?thesis
      by (auto simp: sched_inv_def active_def executing_def map_of_eq_None_iff split: option.splits)
  qed (use Cons.prems in simp)
  with Cons.IH [of ?t] x show ?case by simp
qed simp

lemma sched_inv_init: "sched_inv (create_configured_scheduler_with ck now c p li hp file)"
  unfolding create_configured_scheduler_with_def Let_def
  by (rule register_all_inv)
     (simp_all add: sched_inv_def active_def executing_def scheduler_new_def with_cost_ledger_def)

interpretation sched_sys: invariant_system "create_configured_scheduler_with ck now c p li hp fl" "sched_step ck" sched_inv
  for ck now c p li hp fl
  by unfold_locales (auto intro: sched_inv_init sched_inv_step)

lemma create_limiter:
  "limiter (create_configured_scheduler_with ck now c p li hp file) = Some (max_concurrent_workers_or_default c)"
proof -
  have "limiter (foldl (\<lambda>s (i, e). case scheduler_register ck i e [] s of Ok s' \<Rightarrow> s' | Err _ \<Rightarrow> s) s ws) = limiter s" for s ws
    by (induction ws arbitrary: s) (auto simp: scheduler_register_def split: option.splits)
  then show ?thesis by (simp add: create_configured_scheduler_with_def Let_def with_cost_ledger_def)
qed

lemma limiter_step: "sched_step ck s l t \<Longrightarrow> limiter t = limiter s"
proof (erule sched_step.cases)
  fix name s' t' assume "s = s'" "t = t'" "trigger_start name s' = Ok t'"
  then show ?thesis by (elim trigger_startE) simp
next
  fix b name s' t' assume "s = s'" "t = t'" "set_enabled b name s' = Ok t'"
  then show ?thesis by (elim set_enabledE) simp
qed (simp_all add: trigger_end_def)

lemma limiter_steps: "steps (sched_step ck) s ls t \<Longrightarrow> limiter t = limiter s"
  by (induction rule: steps.induct) (auto dest: limiter_step)

text \<open>
  Claim C7. Whatever the interleaving of ticks, permits, ends of runs, manual triggers and switches,
  no worker is ever run twice at a time (scheduled or triggered), every running worker holds its
  in-flight flag, and the scheduled runs that execute never exceed the configured permits, which lie
  between 1 and 32.
\<close>

theorem workers_never_overlap:
  assumes "steps (sched_step ck) (create_configured_scheduler_with ck now c p li hp fl) ls s"
  shows "distinct (active s) \<and> set (active s) \<subseteq> {i. flagged s i}
    \<and> executing s \<le> max_concurrent_workers_or_default c \<and> max_concurrent_workers_or_default c \<in> {1..32}"
proof (intro conjI subsetI CollectI)
  note inv = sched_sys.inv_reachable [OF assms]
  show "distinct (active s)" by (rule sched_invD(2) [OF inv])
  show "flagged s i" if "i \<in> set (active s)" for i by (rule sched_invD(3) [OF inv that])
  show "executing s \<le> max_concurrent_workers_or_default c"
    by (rule sched_invD(4) [OF inv]) (simp add: limiter_steps [OF assms] create_limiter)
  show "max_concurrent_workers_or_default c \<in> {1..32}" by (simp add: max_concurrent_workers_or_default_def)
qed

subsection \<open>A worker over its cap\<close>

definition latched :: "ZenScheduler \<Rightarrow> string \<Rightarrow> bool" where
  "latched s i \<longleftrightarrow> flagged s i \<and> i \<notin> set (active s)"

lemma latched_not_spawned:
  "sched_inv s \<Longrightarrow> flagged s i \<Longrightarrow> i \<notin> set (spawned ck now s)"
  using spawned_fresh(1) [OF sched_invD(1)] by blast

lemma latched_tick:
  assumes "sched_inv s" "latched s i"
  shows "latched (tick ck now s) i"
  using assms(2) latched_not_spawned [OF assms(1), of i ck now] flagged_tick [of ck now s i]
  unfolding latched_def set_active_tick by blast

lemma latched_start: "latched s i \<Longrightarrow> latched (start_run k s) i"
  by (simp add: latched_def active_start)

lemma latched_end:
  assumes "latched s i" "k < length (runs s)"
  shows "latched (end_run k rep sv s) i"
proof -
  have m: "set (active s) = insert (run_worker (runs s ! k)) (set (active (end_run k rep sv s)))"
    using arg_cong [OF active_end [OF assms(2), of rep sv], of set_mset] by simp
  show ?thesis using assms(1) unfolding latched_def flagged_end m by blast
qed

lemma latched_trigger:
  assumes "latched s i" "trigger_start name s = Ok t"
  shows "latched t i"
proof -
  from assms(2) obtain w where w: "map_of (workers s) name = Some w" "\<not> in_flight w"
    "t = s\<lparr>workers := AList.update name (w\<lparr>in_flight := True\<rparr>) (workers s), triggered := name # triggered s\<rparr>"
    by (rule trigger_startE)
  have "i \<noteq> name" using assms(1) w(1,2) by (auto simp: latched_def flagged_def)
  then show ?thesis using assms(1) by (simp add: latched_def w(3) flagged_def update_conv active_def)
qed

lemma latched_trigger_end:
  assumes "latched s i" "name \<in> set (triggered s)"
  shows "latched (trigger_end name s) i"
proof -
  have "i \<noteq> name" using assms by (auto simp: latched_def active_def)
  then show ?thesis using assms(1) by (auto simp: latched_def active_def trigger_end_def dest: notin_set_remove1)
qed

lemma latched_switch:
  assumes "latched s i" "set_enabled b name s = Ok t"
  shows "latched t i"
proof -
  from assms(2) obtain w where w: "map_of (workers s) name = Some w"
    "t = s\<lparr>workers := AList.update name (w\<lparr>enabled := b\<rparr>) (workers s)\<rparr>" by (rule set_enabledE)
  have "flagged t i = flagged s i" unfolding w(2) update_flags [OF w(1)] using w(1) by (simp add: flagged_def)
  then show ?thesis using assms(1) by (simp add: latched_def w(2) active_def)
qed

lemma latched_step: "sched_inv s \<Longrightarrow> latched s i \<Longrightarrow> sched_step ck s l t \<Longrightarrow> latched t i"
  by (erule sched_step.cases)
     (blast intro: latched_tick latched_start latched_end latched_trigger latched_trigger_end latched_switch)+

lemma latched_steps:
  assumes "steps (sched_step ck) s ls t" "sched_inv s" "latched s i"
  shows "latched t i \<and> sched_inv t"
  using assms by (induction rule: steps.induct) (blast intro: latched_step sched_inv_step)+

text \<open>
  Claim C17. The tick claims the in-flight flag before it checks the cost cap, and the skip of a worker
  over its cap never clears it: from then on, in every run of the scheduler, no tick at any time (not
  even in a later month) runs that worker again, and a manual trigger is refused as busy although
  nothing runs.
\<close>

theorem capped_worker_latched:
  assumes "steps (sched_step ck) (create_configured_scheduler_with ck now c p li hp fl) ls s"
    and "map_of (workers s) i = Some w" "fires ck (tick_interval s) t0 w" "cost_cap_exceeded ck s i t0 = Some cost"
    and "steps (sched_step ck) (tick ck t0 s) ls' t"
  shows "i \<notin> set (active t) \<and> i \<notin> set (active (tick ck t1 t))
    \<and> trigger_start i t = Err (WorkerNotFound (i @ '' (busy: previous run still in flight)''))"
proof (intro conjI)
  note inv = sched_sys.inv_reachable [OF assms(1)]
  have "flagged (tick ck t0 s) i" using assms(2,3) flagged_tick [of ck t0 s i] by blast
  moreover have "i \<notin> set (spawned ck t0 s)" using assms(4) by (simp add: spawned_def)
  moreover have "i \<notin> set (active s)" using fires_not_flagged [OF assms(2,3)] sched_invD(3) [OF inv] by blast
  ultimately have "latched (tick ck t0 s) i" unfolding latched_def set_active_tick by blast
  with latched_steps [OF assms(5) sched_inv_tick [OF inv]] have l: "latched t i" "sched_inv t" by blast+
  then show "i \<notin> set (active t)" by (simp add: latched_def)
  show "i \<notin> set (active (tick ck t1 t))" using latched_tick [OF l(2,1)] by (simp add: latched_def)
  from l(1) obtain v where "map_of (workers t) i = Some v" "in_flight v"
    unfolding latched_def flagged_def by (cases "map_of (workers t) i") simp_all
  then show "trigger_start i t = Err (WorkerNotFound (i @ '' (busy: previous run still in flight)''))"
    by (simp add: trigger_start_def)
qed

end
