(* ===== verification/Scheduler_Time.thy ===== *)
theory Scheduler_Time
  imports Scheduler_Run
begin

section \<open>When the scheduler fires, and what the ledger keeps\<close>

text \<open>
  A schedule is the set of its instants; \<open>cron_lawful\<close> says what the \<open>cron\<close> crate documents of
  \<open>after\<close>: the next instant strictly later than the one given. The ledger lemmas follow the totals
  through late reports, a restart and the configuration.
\<close>

subsection \<open>The tick window\<close>

definition cron_lawful :: "Clock \<Rightarrow> string \<Rightarrow> int set \<Rightarrow> bool" where
  "cron_lawful ck e S \<longleftrightarrow>
     (\<forall>a. case next_after ck e a of
            Some t \<Rightarrow> t \<in> S \<and> a < t \<and> (\<forall>u \<in> S. a < u \<longrightarrow> t \<le> u)
          | None \<Rightarrow> (\<forall>u \<in> S. u \<le> a))"

lemma cron_next:
  assumes "cron_lawful ck e S" "t \<in> S" "a < t"
  obtains u where "next_after ck e a = Some u" "a < u" "u \<le> t"
proof -
  from assms(1) have l: "case next_after ck e a of Some t \<Rightarrow> t \<in> S \<and> a < t \<and> (\<forall>u \<in> S. a < u \<longrightarrow> t \<le> u)
      | None \<Rightarrow> (\<forall>u \<in> S. u \<le> a)" unfolding cron_lawful_def by (rule spec)
  with assms(2,3) that show thesis by (cases "next_after ck e a") (simp_all, force)
qed

lemma div_le_iff_less:
  assumes "0 < (m::int)"
  shows "d div m \<le> n \<longleftrightarrow> d < (n + 1) * m"
proof -
  have e: "d = d div m * m + d mod m" by (simp only: div_mult_mod_eq)
  note r = pos_mod_bound [OF assms, of d] pos_mod_sign [OF assms, of d]
  show ?thesis
  proof
    assume "d div m \<le> n"
    then have "d div m * m \<le> n * m" using assms by (simp add: mult_right_mono)
    with e r show "d < (n + 1) * m" unfolding distrib_right by linarith
  next
    assume d: "d < (n + 1) * m"
    have "(n + 1) * m \<le> d div m * m" if "n + 1 \<le> d div m"
      using that assms by (intro mult_right_mono) simp_all
    with d e r show "d div m \<le> n" by linarith
  qed
qed

lemma num_seconds_window: "0 \<le> d \<Longrightarrow> \<bar>num_seconds d\<bar> \<le> n \<longleftrightarrow> d < (n + 1) * NANOS"
  by (simp add: num_seconds_def div_le_iff_less NANOS_def pos_imp_zdiv_nonneg_iff)

lemma should_fire_window:
  assumes "cron_lawful ck e S" "t \<in> S" "a < t" "t - a < (int n + 1) * NANOS"
  shows "should_fire ck n e a"
proof -
  obtain u where u: "next_after ck e a = Some u" "a < u" "u \<le> t" using cron_next [OF assms(1-3)] .
  with assms(4) have "u - a < (int n + 1) * NANOS" by linarith
  with u(2) num_seconds_window [of "u - a" "int n"] have "\<bar>num_seconds (u - a)\<bar> \<le> int n" by simp
  with u(1) show ?thesis by (simp add: should_fire_def)
qed

text \<open>
  Claim C18. No scheduled instant is missed: when two consecutive ticks are less than the tick interval
  plus one second apart, every instant between them makes the earlier tick start a run of its worker,
  provided the worker is enabled, idle and below its cap at that tick.
\<close>

theorem scheduled_time_not_missed:
  assumes "cron_lawful ck (reg_expr w) S" "t \<in> S" "a < t" "t \<le> b" "b - a < (int (tick_interval s) + 1) * NANOS"
    and "distinct (map fst (workers s))" "map_of (workers s) i = Some w" "enabled w" "\<not> in_flight w"
    and "cost_cap_exceeded ck s i a = None"
  shows "\<exists>r \<in> set (runs (tick ck a s)). run_worker r = i \<and> run_phase r = Waiting \<and> run_month r = month_key ck a"
proof -
  from assms(4,5) have "t - a < (int (tick_interval s) + 1) * NANOS" by linarith
  then have "should_fire ck (tick_interval s) (reg_expr w) a" by (rule should_fire_window [OF assms(1-3)])
  then have "fires ck (tick_interval s) a w" using assms(8,9) by (simp add: fires_def)
  then have "i \<in> set (to_fire ck (tick_interval s) a (workers s))"
    using to_fire_iff [OF assms(6)] assms(7) by blast
  with assms(10) have "\<lparr>run_worker = i, run_month = month_key ck a, run_phase = Waiting\<rparr> \<in> set (runs (tick ck a s))"
    by (simp add: tick_def Let_def)
  then show ?thesis by (rule rev_bexI) simp
qed

text \<open>
  The window is a second longer than the sleep between ticks, so one instant can be inside the
  windows of two ticks, and an idle worker then runs twice for it.
\<close>

theorem scheduled_time_fires_twice:
  assumes "cron_lawful ck e S" "t \<in> S" "0 < d" "d < NANOS"
  shows "should_fire ck n e (t - int n * NANOS - d)" "should_fire ck n e (t - d)"
  by (rule should_fire_window [OF assms(1,2)]; use assms(3,4) in \<open>simp add: NANOS_def algebra_simps\<close>)+

subsection \<open>The ledger\<close>

text \<open>A restart in the same month finds the totals of the last report that could be saved.\<close>

theorem totals_survive_restart:
  assumes "ledger_path (worker_costs s)" "0 < llm_cost r" "month_key ck now = m"
  shows "worker_costs (with_cost_ledger ck now (s'\<lparr>sidecar := sidecar (account m r True s)\<rparr>))
       = worker_costs (account m r True s)"
  using assms by (simp add: with_cost_ledger_def account_def load_cost_ledger_def Let_def)

text \<open>
  A run that was started before the end of a month and reports afterwards resets the ledger to the old
  month: the totals of the new month are lost, and every worker is below its cap again.
\<close>

theorem late_report_erases_totals:
  assumes "0 < llm_cost r" "ledger_month (worker_costs s) = m" "m' \<noteq> m" "month_key ck now = m"
  shows "ledger_costs (worker_costs (account m' r sv s)) = [(report_worker r, llm_cost r)]"
    and "cost_cap_exceeded ck (account m' r sv s) i now = None"
  using assms by (simp_all add: account_def cost_cap_exceeded_def Let_def)

text \<open>The configured cap never reaches the scheduler.\<close>

theorem configured_cap_ignored:
  "cost_cap_usd (create_configured_scheduler_with ck now c p li hp file) = 10"
proof -
  have "cost_cap_usd (foldl (\<lambda>s (i, e). case scheduler_register ck i e [] s of Ok s' \<Rightarrow> s' | Err _ \<Rightarrow> s) s ws) = cost_cap_usd s" for s ws
    by (induction ws arbitrary: s) (auto simp: scheduler_register_def split: option.splits)
  then show ?thesis
    by (simp add: create_configured_scheduler_with_def Let_def with_cost_ledger_def scheduler_new_def)
qed

subsection \<open>Witnesses\<close>

definition minute_clock :: Clock where
  "minute_clock = \<lparr>cron_error = (\<lambda>_. None), next_after = (\<lambda>_ a. Some ((a div (60 * NANOS) + 1) * (60 * NANOS))),
     month_key = (\<lambda>t. if t < 1000 * NANOS then ''2026-01'' else ''2026-02'')\<rparr>"

definition minutes :: "int set" where "minutes = range (\<lambda>k. k * (60 * NANOS))"

lemma minute_clock_lawful: "cron_lawful minute_clock e minutes"
proof -
  have pos: "0 < 60 * NANOS" by (simp add: NANOS_def)
  have "a < (a div (60 * NANOS) + 1) * (60 * NANOS)" for a
    using div_le_iff_less [OF pos, of a "a div (60 * NANOS)"] by blast
  moreover have "(a div (60 * NANOS) + 1) * (60 * NANOS) \<le> k * (60 * NANOS)" if "a < k * (60 * NANOS)" for a k
  proof (rule mult_right_mono)
    show "a div (60 * NANOS) + 1 \<le> k" using div_le_iff_less [OF pos, of a "k - 1"] that by simp
  qed (use pos in simp)
  moreover have "k * (60 * NANOS) \<in> minutes" for k unfolding minutes_def by (rule rangeI)
  ultimately show ?thesis unfolding cron_lawful_def minute_clock_def
    by (simp add: minutes_def del: mult_le_cancel_right)
qed

definition idle_worker :: Registered where
  "idle_worker = \<lparr>reg_expr = ''0 * * * * *'', reg_description = [], enabled = True, in_flight = False\<rparr>"

definition small_scheduler :: ZenScheduler where
  "small_scheduler = (scheduler_new minute_clock 0 None)\<lparr>workers := [(''dream'', idle_worker)]\<rparr>"

theorem scheduled_time_not_missed_witness:
  "\<exists>r \<in> set (runs (tick minute_clock (40 * NANOS) small_scheduler)). run_worker r = ''dream'' \<and> run_phase r = Waiting
     \<and> run_month r = month_key minute_clock (40 * NANOS)"
  by (rule scheduled_time_not_missed [of minute_clock idle_worker minutes "60 * NANOS" _ "70 * NANOS"])
     (rule minute_clock_lawful, simp add: minutes_def,
      simp_all add: small_scheduler_def scheduler_new_def idle_worker_def NANOS_def
        DEFAULT_TICK_INTERVAL_SECONDS_def cost_cap_exceeded_def in_memory_def)

text \<open>
  A day of the configured scheduler: the dream worker reports a cost above the cap, fires again and is
  latched.
\<close>

definition configured :: ZenScheduler where
  "configured = create_configured_scheduler_with minute_clock 0
     \<lparr>subconscious_interval_minutes = None, dream_start_hour = None, dream_end_hour = None,
      wisdom_synthesis_schedule = None, max_concurrent_workers = None, llm_cost_cap_usd = Some 5\<rparr> InApp None False None"

definition after_dream :: ZenScheduler where
  "after_dream = end_run 2 (Some \<lparr>report_worker = ''dream'', llm_cost = 12\<rparr>) True
     (start_run 2 (start_run 1 (start_run 0 (tick minute_clock (40 * NANOS) configured))))"

lemma configured_eval:
  "may_start (tick minute_clock (40 * NANOS) configured) 0"
  "may_start (start_run 0 (tick minute_clock (40 * NANOS) configured)) 1"
  "may_start (start_run 1 (start_run 0 (tick minute_clock (40 * NANOS) configured))) 2"
  "run_phase (runs (start_run 2 (start_run 1 (start_run 0 (tick minute_clock (40 * NANOS) configured)))) ! 2) = Executing"
  "2 < length (runs (start_run 2 (start_run 1 (start_run 0 (tick minute_clock (40 * NANOS) configured)))))"
  by code_simp+

lemma configured_steps:
  "steps (sched_step minute_clock) configured
     [LTick (40 * NANOS), LStart 0, LStart 1, LStart 2, LEnd 2 (Some \<lparr>report_worker = ''dream'', llm_cost = 12\<rparr>) True] after_dream"
  unfolding after_dream_def
  by (rule steps.intros sched_step.intros configured_eval)+

definition dream_registered :: Registered where
  "dream_registered = \<lparr>reg_expr = ''0 0 2 * * *'', reg_description = [], enabled = True, in_flight = False\<rparr>"

lemma after_dream_eval:
  "map_of (workers after_dream) ''dream'' = Some dream_registered"
  "fires minute_clock (tick_interval after_dream) (100 * NANOS) dream_registered"
  "cost_cap_exceeded minute_clock after_dream ''dream'' (100 * NANOS) = Some 12"
  by code_simp+

theorem capped_worker_latched_witness:
  "''dream'' \<notin> set (active (tick minute_clock (1060 * NANOS) (tick minute_clock (100 * NANOS) after_dream)))"
  using capped_worker_latched [OF configured_steps [unfolded configured_def] after_dream_eval steps_nil] by blast

theorem workers_never_overlap_witness:
  "distinct (active after_dream) \<and> executing after_dream \<le> 3"
  using workers_never_overlap [OF configured_steps [unfolded configured_def]]
  by (simp add: max_concurrent_workers_or_default_def)

end
