(* ===== verification/Memory_Markdown.thy ===== *)
theory Memory_Markdown
  imports Rust_Prelude
begin

section \<open>Front matter of the memory files (zen-memory/src/frontmatter.rs)\<close>

text \<open>
  The block between the first two \<open>---\<close> lines and its \<open>key: value\<close> fields. The lemmas read back a block
  that was written line by line: a field is found whatever the other values are, and its value is
  the written one without surrounding white space.
\<close>

subsection \<open>Definitions\<close>

fun fm_block :: "string \<Rightarrow> string list \<Rightarrow> string option" where
  "fm_block fm [] = None"
| "fm_block fm (line # ls) = (if trim line = ''---'' then Some fm else fm_block (fm @ line @ [CHR 10]) ls)"

definition extract_frontmatter :: "string \<Rightarrow> string option" where
  "extract_frontmatter content =
     (case str_lines content of
        [] \<Rightarrow> None
      | first # ls \<Rightarrow> if trim first \<noteq> ''---'' then None else fm_block [] ls)"

fun field_scan :: "string list \<Rightarrow> string \<Rightarrow> string option" where
  "field_scan [] key = None"
| "field_scan (line # ls) key =
     (case strip_prefix (trim line) (key @ '':'') of
        Some rest \<Rightarrow> if trim rest \<noteq> [] then Some (trim rest) else field_scan ls key
      | None \<Rightarrow> field_scan ls key)"

definition parse_field :: "string \<Rightarrow> string \<Rightarrow> string option" where
  "parse_field frontmatter key = field_scan (str_lines frontmatter) key"

text \<open>\<open>trim_matches\<close> for one ASCII character, at both ends and at the end only.\<close>

definition trim_end_char :: "char \<Rightarrow> string \<Rightarrow> string" where
  "trim_end_char c s = rev (dropWhile (\<lambda>x. x = c) (rev s))"

definition trim_char :: "char \<Rightarrow> string \<Rightarrow> string" where
  "trim_char c s = trim_end_char c (dropWhile (\<lambda>x. x = c) s)"

definition quoted :: "string \<Rightarrow> string" where
  "quoted s = CHR 34 # str_replace s [CHR 34] [CHR 92, CHR 34] @ [CHR 34]"

definition array_items :: "string \<Rightarrow> string list" where
  "array_items val =
     filter (\<lambda>s. s \<noteq> [])
       (map (\<lambda>s. trim_char (CHR 34) (trim s))
          (split_on (\<lambda>c. c = CHR '','') (trim_end_char (CHR '']'') (dropWhile (\<lambda>c. c = CHR ''['') val))))"

fun array_scan :: "string list \<Rightarrow> string \<Rightarrow> bool \<Rightarrow> string list \<Rightarrow> string list" where
  "array_scan [] key in_array items = items"
| "array_scan (line # ls) key in_array items =
     (let trimmed = trim line;
          block = (\<lambda>_::unit.
            if in_array then
              (case strip_prefix trimmed ''- '' of
                 Some item \<Rightarrow> array_scan ls key True (items @ [trim item])
               | None \<Rightarrow> if trimmed \<noteq> [] then items else array_scan ls key True items)
            else array_scan ls key False items)
      in case strip_prefix trimmed (key @ '':'') of
           Some rest \<Rightarrow>
             (let val = trim rest
              in if val = [] then array_scan ls key True items
                 else if val = ''[]'' then []
                 else if starts_with val ''['' then array_items val
                 else block ())
         | None \<Rightarrow> block ())"

definition parse_yaml_array :: "string \<Rightarrow> string \<Rightarrow> string list" where
  "parse_yaml_array frontmatter key = array_scan (str_lines frontmatter) key False []"

subsection \<open>Lines\<close>

definition lines_text :: "string list \<Rightarrow> string" where
  "lines_text ls = concat (map (\<lambda>l. l @ [CHR 10]) ls)"

lemma lines_text_simps [simp]:
  "lines_text [] = []" "lines_text (l # ls) = l @ CHR 10 # lines_text ls"
  "lines_text (ls @ ls') = lines_text ls @ lines_text ls'"
  by (simp_all add: lines_text_def)

lemma split_lines_text:
  "\<forall>l \<in> set ls. CHR 10 \<notin> set l \<Longrightarrow> split_on (\<lambda>c. c = CHR 10) (lines_text ls @ t) = ls @ split_on (\<lambda>c. c = CHR 10) t"
proof (induction ls)
  case (Cons l ls)
  have "split_on (\<lambda>c. c = CHR 10) (l @ CHR 10 # (lines_text ls @ t))
      = split_on (\<lambda>c. c = CHR 10) l @ split_on (\<lambda>c. c = CHR 10) (lines_text ls @ t)" by (rule split_on_sep) simp
  moreover have "split_on (\<lambda>c. c = CHR 10) l = [l]" using Cons.prems by (intro split_on_none) auto
  ultimately show ?case using Cons by simp
qed simp

lemma str_lines_text:
  "\<forall>l \<in> set ls. CHR 10 \<notin> set l \<Longrightarrow> str_lines (lines_text ls @ t) = map strip_cr ls @ str_lines t"
  by (simp add: str_lines_def Let_def split_lines_text butlast_append)

lemma str_lines_text0:
  "\<forall>l \<in> set ls. CHR 10 \<notin> set l \<Longrightarrow> str_lines (lines_text ls) = map strip_cr ls"
  using str_lines_text [of ls "[]"] by (simp add: str_lines_def)

subsection \<open>White space\<close>

definition strip_white :: "string list \<Rightarrow> string list" where
  "strip_white cs = rev (dropWhile is_white (rev (dropWhile is_white cs)))"

lemma trim_strip: "trim s = concat (strip_white (utf8_chars s))"
  by (simp add: trim_def strip_white_def)

text \<open>The characters of a text that starts on a character boundary.\<close>

definition on_boundary :: "string \<Rightarrow> bool" where
  "on_boundary s \<longleftrightarrow> s = [] \<or> \<not> is_cont_byte (hd s)"

definition whole_char :: "string \<Rightarrow> bool" where
  "whole_char ch \<longleftrightarrow> ch \<noteq> [] \<and> \<not> is_cont_byte (hd ch) \<and> list_all is_cont_byte (tl ch)"

lemma list_all_takeWhile: "list_all P (takeWhile P s)"
  by (induction s) auto

lemma whole_chars: "on_boundary s \<Longrightarrow> list_all whole_char (utf8_chars s)"
proof (induction s rule: utf8_chars.induct)
  case (2 c s)
  have "on_boundary (dropWhile is_cont_byte s)"
    using hd_dropWhile [of is_cont_byte s] unfolding on_boundary_def by blast
  then have "list_all whole_char (utf8_chars (dropWhile is_cont_byte s))" by (rule "2.IH")
  moreover have "whole_char (c # takeWhile is_cont_byte s)"
    using "2.prems" list_all_takeWhile [of is_cont_byte s] by (simp add: whole_char_def on_boundary_def)
  ultimately show ?case by (simp only: utf8_chars.simps list.pred_inject)
qed simp

lemma utf8_whole:
  assumes "whole_char ch"
  shows "utf8_chars ch = [ch]"
proof (cases ch)
  case (Cons c r)
  with assms have "\<forall>x \<in> set r. is_cont_byte x" by (simp add: whole_char_def list_all_iff)
  then have "takeWhile is_cont_byte r = r" "dropWhile is_cont_byte r = []"
    by (simp_all add: takeWhile_eq_all_conv dropWhile_eq_Nil_conv)
  then show ?thesis by (simp only: Cons utf8_chars.simps)
qed (use assms in \<open>simp add: whole_char_def\<close>)

lemma concat_boundary: "list_all whole_char cs \<Longrightarrow> on_boundary (concat cs)"
  by (cases cs) (auto simp: on_boundary_def whole_char_def hd_append)

lemma utf8_concat: "list_all whole_char cs \<Longrightarrow> utf8_chars (concat cs) = cs"
proof (induction cs)
  case (Cons ch cs)
  then have "utf8_chars (ch @ concat cs) = utf8_chars ch @ utf8_chars (concat cs)"
    using concat_boundary [of cs] by (intro utf8_chars_append) (simp add: on_boundary_def)
  with Cons show ?case by (simp add: utf8_whole)
qed simp

lemma set_strip_white: "set (strip_white cs) \<subseteq> set cs"
proof
  fix x assume "x \<in> set (strip_white cs)"
  then have "x \<in> set (dropWhile is_white (rev (dropWhile is_white cs)))" by (simp add: strip_white_def)
  then have "x \<in> set (rev (dropWhile is_white cs))" by (rule set_dropWhileD)
  then have "x \<in> set (dropWhile is_white cs)" by simp
  then show "x \<in> set cs" by (rule set_dropWhileD)
qed

lemma whole_strip: "list_all whole_char cs \<Longrightarrow> list_all whole_char (strip_white cs)"
  using set_strip_white [of cs] by (auto simp: list_all_iff)

lemma utf8_trim: "on_boundary s \<Longrightarrow> utf8_chars (trim s) = strip_white (utf8_chars s)"
  unfolding trim_strip by (rule utf8_concat [OF whole_strip [OF whole_chars]])

text \<open>Trailing white space, once the text has a visible character.\<close>

definition rstrip :: "string list \<Rightarrow> string list" where
  "rstrip cs = rev (dropWhile is_white (rev cs))"

lemma strip_white_rstrip: "strip_white cs = rstrip (dropWhile is_white cs)"
  by (simp add: strip_white_def rstrip_def)

lemma rstrip_append: "rstrip (xs @ ys) = (if rstrip ys = [] then rstrip xs else xs @ rstrip ys)"
  by (auto simp: rstrip_def dropWhile_append)

lemma strip_white_front: "is_white w \<Longrightarrow> strip_white (w # cs) = strip_white cs"
  by (simp add: strip_white_def)

lemma strip_white_back:
  assumes "is_white w"
  shows "strip_white (cs @ [w]) = strip_white cs"
proof (cases "dropWhile is_white cs = []")
  case True
  then have "dropWhile is_white (cs @ [w]) = dropWhile is_white [w]" by (intro dropWhile_append2) simp
  with assms have "dropWhile is_white (cs @ [w]) = []" by simp
  with True show ?thesis by (simp only: strip_white_rstrip)
next
  case False
  then have "dropWhile is_white (cs @ [w]) = dropWhile is_white cs @ [w]" by (auto simp: dropWhile_append)
  moreover have "rstrip [w] = []" using assms by (simp add: rstrip_def)
  ultimately show ?thesis by (simp add: strip_white_rstrip rstrip_append)
qed

lemma rstrip_rstrip [simp]: "rstrip (rstrip cs) = rstrip cs"
  by (simp add: rstrip_def)

lemma rstrip_Nil_iff: "rstrip cs = [] \<longleftrightarrow> (\<forall>c \<in> set cs. is_white c)"
  by (simp add: rstrip_def)

lemma dropWhile_rstrip: "dropWhile is_white (rstrip cs) = rstrip (dropWhile is_white cs)"
proof (induction cs)
  case (Cons c cs)
  have e: "rstrip (c # cs) = (if rstrip cs = [] then rstrip [c] else c # rstrip cs)"
    using rstrip_append [of "[c]" cs] by simp
  show ?case
  proof (cases "rstrip cs = []")
    case True
    then have "dropWhile is_white cs = []" by (simp add: rstrip_Nil_iff)
    with True e show ?thesis by (cases "is_white c") (simp_all add: rstrip_def del: dropWhile_eq_Nil_conv)
  qed (use e Cons in simp)
qed (simp add: rstrip_def)

lemma strip_white_idem: "strip_white (rstrip cs) = strip_white cs"
  by (simp add: strip_white_rstrip dropWhile_rstrip)

lemma strip_white_Nil_iff: "strip_white cs = [] \<longleftrightarrow> (\<forall>c \<in> set cs. is_white c)"
proof (cases "dropWhile is_white cs = []")
  case False
  then have "\<not> is_white (hd (dropWhile is_white cs))" "hd (dropWhile is_white cs) \<in> set (dropWhile is_white cs)"
    by (rule hd_dropWhile, rule hd_in_set)
  then have "strip_white cs \<noteq> []" unfolding strip_white_rstrip rstrip_Nil_iff by blast
  then show ?thesis using False by simp
qed (auto simp: strip_white_rstrip rstrip_def dest: set_dropWhileD)

lemma trim_boundary: "on_boundary (trim s)" if "on_boundary s"
  unfolding trim_strip by (rule concat_boundary [OF whole_strip [OF whole_chars [OF that]]])

lemma trim_trim: "on_boundary s \<Longrightarrow> trim (trim s) = trim s"
  by (simp add: trim_strip [of "trim s"] utf8_trim, simp add: strip_white_rstrip dropWhile_rstrip trim_strip)

lemma trim_strip_cr: "on_boundary s \<Longrightarrow> trim (strip_cr s) = trim s"
proof (cases "s \<noteq> [] \<and> last s = CHR 13")
  case True
  then have s: "s = butlast s @ [CHR 13]" by (metis append_butlast_last_id)
  have "\<not> is_cont_byte (CHR 13)" "is_white [CHR 13]" by code_simp+
  then have "utf8_chars s = utf8_chars (butlast s) @ [[CHR 13]]"
    by (subst s, subst utf8_chars_append) simp_all
  with \<open>is_white [CHR 13]\<close> True show ?thesis by (simp add: trim_strip strip_cr_def strip_white_back)
qed (auto simp: strip_cr_def)

subsection \<open>Fields\<close>

definition field_line :: "string \<times> string \<Rightarrow> string" where
  "field_line kv = fst kv @ '': '' @ snd kv"

definition key_char :: "char \<Rightarrow> bool" where
  "key_char c \<longleftrightarrow> \<not> is_cont_byte c \<and> \<not> is_white [c] \<and> c \<noteq> CHR '':'' \<and> c \<noteq> CHR ''-'' \<and> c \<noteq> CHR 10"

definition field_ok :: "string \<times> string \<Rightarrow> bool" where
  "field_ok kv \<longleftrightarrow> fst kv \<noteq> [] \<and> list_all key_char (fst kv) \<and> on_boundary (snd kv) \<and> CHR 10 \<notin> set (snd kv)"

definition lookup_field :: "(string \<times> string) list \<Rightarrow> string \<Rightarrow> string option" where
  "lookup_field kvs key =
     (case filter (\<lambda>kv. fst kv = key \<and> trim (snd kv) \<noteq> []) kvs of [] \<Rightarrow> None | kv # _ \<Rightarrow> Some (trim (snd kv)))"

lemma colon_chars: "\<not> is_white '':''" "is_white '' ''" "\<not> is_cont_byte (CHR '':'')" "\<not> is_cont_byte (CHR '' '')"
  by code_simp+

lemma utf8_field:
  assumes "field_ok (k, v)"
  shows "utf8_chars (field_line (k, v)) = map (\<lambda>c. [c]) k @ ['':'', '' ''] @ utf8_chars v"
proof -
  have "utf8_chars ((k @ '': '') @ v) = utf8_chars (k @ '': '') @ utf8_chars v"
    using assms by (intro utf8_chars_append) (simp add: field_ok_def on_boundary_def)
  moreover have "utf8_chars (k @ '': '') = map (\<lambda>c. [c]) (k @ '': '')"
    using assms colon_chars by (intro utf8_chars_ascii) (auto simp: field_ok_def key_char_def list_all_iff)
  ultimately show ?thesis by (simp add: field_line_def)
qed

lemma trim_field:
  assumes "field_ok (k, v)"
  shows "trim (field_line (k, v)) = k @ '':'' @ (if trim v = [] then [] else '' '' @ concat (rstrip (utf8_chars v)))"
proof -
  obtain c k' where k: "k = c # k'" using assms by (cases k) (auto simp: field_ok_def)
  have nw: "\<not> is_white [c]" using assms k by (simp add: field_ok_def key_char_def)
  let ?A = "map (\<lambda>c. [c]) k @ ['':'']"
  have A: "rstrip ?A = ?A" using colon_chars by (simp add: rstrip_def)
  have E: "trim v = [] \<longleftrightarrow> rstrip (utf8_chars v) = []"
  proof -
    have "trim v = [] \<longleftrightarrow> utf8_chars (trim v) = []" by (cases "trim v") auto
    also have "\<dots> \<longleftrightarrow> strip_white (utf8_chars v) = []" using assms by (simp add: utf8_trim field_ok_def)
    also have "\<dots> \<longleftrightarrow> rstrip (utf8_chars v) = []"
      by (simp only: strip_white_Nil_iff rstrip_Nil_iff)
    finally show ?thesis .
  qed
  have "strip_white (utf8_chars (field_line (k, v))) = rstrip (?A @ '' '' # utf8_chars v)"
    unfolding utf8_field [OF assms] using nw k by (simp add: strip_white_rstrip)
  also have "\<dots> = (if trim v = [] then ?A else ?A @ '' '' # rstrip (utf8_chars v))"
    using rstrip_append [of ?A "[ '' '' ] @ utf8_chars v"] rstrip_append [of "[ '' '' ]" "utf8_chars v"] A E colon_chars(2)
    by (simp add: rstrip_def [of "['' '']"])
  finally show ?thesis unfolding trim_strip by (simp add: concat_map_singleton)
qed

lemma trim_rest:
  assumes "on_boundary v"
  shows "trim ('' '' @ concat (rstrip (utf8_chars v))) = trim v"
proof -
  have w: "list_all whole_char (rstrip (utf8_chars v))"
    using whole_chars [OF assms] by (auto simp: list_all_iff rstrip_def dest: set_dropWhileD)
  have "utf8_chars ('' '' @ concat (rstrip (utf8_chars v))) = utf8_chars '' '' @ rstrip (utf8_chars v)"
    using concat_boundary [OF w] by (subst utf8_chars_append) (simp_all add: utf8_concat [OF w] on_boundary_def)
  then show ?thesis using colon_chars(2) by (simp add: trim_strip strip_white_front strip_white_idem)
qed

lemma prefix_colon:
  assumes "CHR '':'' \<notin> set k" "CHR '':'' \<notin> set k'"
  shows "prefix (k' @ '':'') (k @ '':'' @ r) \<longleftrightarrow> k' = k"
proof
  assume "prefix (k' @ '':'') (k @ '':'' @ r)"
  then obtain u where "k @ '':'' @ r = k' @ '':'' @ u" by (auto simp: prefix_def)
  then have "takeWhile (\<lambda>c. c \<noteq> CHR '':'') (k @ '':'' @ r) = takeWhile (\<lambda>c. c \<noteq> CHR '':'') (k' @ '':'' @ u)" by simp
  moreover have "takeWhile (\<lambda>c. c \<noteq> CHR '':'') (x @ '':'' @ y) = x" if "CHR '':'' \<notin> set x" for x y
    using that by (subst takeWhile_append2) auto
  ultimately show "k' = k" using assms by simp
qed simp

lemma field_scan_line:
  assumes "field_ok (k, v)" "CHR '':'' \<notin> set key" "trim line = trim (field_line (k, v))"
  shows "field_scan (line # ls) key = (if k = key \<and> trim v \<noteq> [] then Some (trim v) else field_scan ls key)"
proof -
  have k: "CHR '':'' \<notin> set k" using assms(1) by (auto simp: field_ok_def key_char_def list_all_iff)
  have b: "on_boundary v" using assms(1) by (simp add: field_ok_def)
  obtain r where t: "trim line = k @ '':'' @ r" and r: "trim r = trim v"
  proof (cases "trim v = []")
    case True
    show ?thesis by (rule that [of "[]"]) (simp_all add: assms(3) trim_field [OF assms(1)] True, simp add: trim_def)
  next
    case False
    show ?thesis by (rule that [of "'' '' @ concat (rstrip (utf8_chars v))"])
      (simp_all only: assms(3) trim_field [OF assms(1)] trim_rest [OF b], simp add: False)
  qed
  show ?thesis
  proof (cases "key = k")
    case True
    then have "strip_prefix (trim line) (key @ '':'') = Some r" by (simp add: t strip_prefix_def)
    with True r show ?thesis by simp
  next
    case False
    then have "strip_prefix (trim line) (key @ '':'') = None"
      using prefix_colon [OF k assms(2), of r] by (simp add: t strip_prefix_def)
    with False show ?thesis by auto
  qed
qed

lemma field_ok_cr: "field_ok (k, v) \<Longrightarrow> \<exists>v'. strip_cr (field_line (k, v)) = field_line (k, v') \<and> field_ok (k, v') \<and> trim v' = trim v"
proof (cases "v = []")
  case False
  assume ok: "field_ok (k, v)"
  have "strip_cr (field_line (k, v)) = field_line (k, strip_cr v)" using False by (simp add: strip_cr_def field_line_def butlast_append)
  moreover have "field_ok (k, strip_cr v)"
    using ok by (cases v) (auto simp: field_ok_def strip_cr_def on_boundary_def dest: in_set_butlastD)
  ultimately show ?thesis using ok trim_strip_cr [of v] by (auto simp: field_ok_def)
qed (auto simp: strip_cr_def field_line_def)

lemma field_scan_written:
  assumes "list_all field_ok kvs" "CHR '':'' \<notin> set key"
  shows "field_scan (map (\<lambda>kv. strip_cr (strip_cr (field_line kv))) kvs) key = lookup_field kvs key"
  using assms(1)
proof (induction kvs)
  case (Cons kv kvs)
  obtain k v where kv: "kv = (k, v)" by force
  with Cons.prems have ok: "field_ok (k, v)" by simp
  from field_ok_cr [OF this] obtain v1 where v1: "strip_cr (field_line (k, v)) = field_line (k, v1)" "field_ok (k, v1)" "trim v1 = trim v" by blast
  from field_ok_cr [OF v1(2)] obtain v2 where v2: "strip_cr (field_line (k, v1)) = field_line (k, v2)" "field_ok (k, v2)" "trim v2 = trim v1" by blast
  show ?case using Cons field_scan_line [OF v2(2) assms(2) refl, of "map (\<lambda>kv. strip_cr (strip_cr (field_line kv))) kvs"]
    by (auto simp: kv v1 v2 lookup_field_def)
qed (simp add: lookup_field_def)

lemma trim_field_not_rule: "field_ok (k, v) \<Longrightarrow> trim (field_line (k, v)) \<noteq> ''---''"
proof
  assume ok: "field_ok (k, v)" and t: "trim (field_line (k, v)) = ''---''"
  from ok obtain c k' where "k = c # k'" "c \<noteq> CHR ''-''" by (cases k) (auto simp: field_ok_def key_char_def)
  with t trim_field [OF ok] show False by simp
qed

lemma fm_block_written:
  assumes "list_all field_ok kvs"
  shows "fm_block acc (map (\<lambda>kv. strip_cr (field_line kv)) kvs @ ''---'' # ls) = Some (acc @ lines_text (map (\<lambda>kv. strip_cr (field_line kv)) kvs))"
  using assms
proof (induction kvs arbitrary: acc)
  case Nil
  have "trim ''---'' = ''---''" by code_simp
  then show ?case by simp
next
  case (Cons kv kvs)
  obtain k v where kv: "kv = (k, v)" by force
  with Cons.prems have ok: "field_ok (k, v)" by simp
  from field_ok_cr [OF this] obtain v1 where "strip_cr (field_line (k, v)) = field_line (k, v1)" "field_ok (k, v1)" by blast
  then have "trim (strip_cr (field_line (k, v))) \<noteq> ''---''" using trim_field_not_rule by simp
  with Cons kv show ?case by simp
qed

text \<open>Every field of a written block is read back as its value without surrounding white space.\<close>

theorem frontmatter_read_back:
  assumes "list_all field_ok kvs"
  obtains fm where "extract_frontmatter (lines_text (''---'' # map field_line kvs @ [''---'']) @ rest) = Some fm"
    "\<And>key. CHR '':'' \<notin> set key \<Longrightarrow> parse_field fm key = lookup_field kvs key"
proof -
  let ?fs = "map (\<lambda>kv. strip_cr (field_line kv)) kvs"
  have nl: "CHR 10 \<notin> set (field_line kv)" if "kv \<in> set kvs" for kv
    using assms that by (auto simp: field_line_def field_ok_def key_char_def list_all_iff)
  have r: "trim ''---'' = ''---''" "strip_cr ''---'' = ''---''" by code_simp+
  have "str_lines (lines_text (''---'' # map field_line kvs @ [''---'']) @ rest) = ''---'' # ?fs @ ''---'' # str_lines rest"
    using nl by (subst str_lines_text) (auto simp: r)
  then have "extract_frontmatter (lines_text (''---'' # map field_line kvs @ [''---'']) @ rest) = Some (lines_text ?fs)"
    using fm_block_written [OF assms, of "[]" "str_lines rest"] by (simp add: extract_frontmatter_def r)
  moreover have "parse_field (lines_text ?fs) key = lookup_field kvs key" if "CHR '':'' \<notin> set key" for key
  proof -
    have "\<forall>l \<in> set ?fs. CHR 10 \<notin> set l" using nl by (auto simp: strip_cr_def dest: in_set_butlastD)
    then have "str_lines (lines_text ?fs) = map (\<lambda>kv. strip_cr (strip_cr (field_line kv))) kvs"
      by (simp add: str_lines_text0 comp_def)
    then show ?thesis using field_scan_written [OF assms that] by (simp add: parse_field_def)
  qed
  ultimately show ?thesis by (rule that)
qed

subsection \<open>Values\<close>

text \<open>A value that is read back as it was written.\<close>

definition plain :: "string \<Rightarrow> bool" where
  "plain v \<longleftrightarrow> v \<noteq> [] \<and> on_boundary v \<and> CHR 10 \<notin> set v \<and> trim v = v"

lemma strip_visible: "cs \<noteq> [] \<Longrightarrow> \<not> is_white (hd cs) \<Longrightarrow> \<not> is_white (last cs) \<Longrightarrow> strip_white cs = cs"
proof -
  assume a: "cs \<noteq> []" "\<not> is_white (hd cs)" "\<not> is_white (last cs)"
  then have "dropWhile is_white cs = cs" by (cases cs) simp_all
  moreover have "dropWhile is_white (rev cs) = rev cs" using a by (cases cs rule: rev_cases) simp_all
  ultimately show ?thesis by (simp add: strip_white_def)
qed

lemma trim_ascii_visible:
  assumes "list_all (\<lambda>c. \<not> is_cont_byte c \<and> \<not> is_white [c]) s"
  shows "trim s = s"
proof (cases "s = []")
  case False
  have "utf8_chars s = map (\<lambda>c. [c]) s" using assms by (intro utf8_chars_ascii) (simp add: list_all_iff)
  moreover have "strip_white (map (\<lambda>c. [c]) s) = map (\<lambda>c. [c]) s"
    using assms False by (intro strip_visible) (auto simp: list_all_iff hd_map last_map)
  ultimately show ?thesis by (simp add: trim_strip)
qed (simp add: trim_strip strip_white_def)

lemma digit_plain:
  assumes "is_digit c"
  shows "\<not> is_cont_byte c" "\<not> is_white [c]" "c \<noteq> CHR 10"
proof -
  from assms have d: "48 \<le> (of_char c :: nat)" "(of_char c :: nat) \<le> 57" by (simp_all add: is_digit_def)
  then show "\<not> is_cont_byte c" "c \<noteq> CHR 10" by (auto simp: is_cont_byte_def)
  show "\<not> is_white [c]"
  proof
    assume "is_white [c]"
    then have "c \<in> {CHR 9, CHR 10, CHR 11, CHR 12, CHR 13, CHR 32}" by (simp add: is_white_def white_chars_def)
    then show False using d by auto
  qed
qed

lemma nat_str_plain: "plain (nat_str n)"
proof -
  note d = nat_str_digits [of _ n, THEN digit_plain(1)] nat_str_digits [of _ n, THEN digit_plain(2)]
    nat_str_digits [of _ n, THEN digit_plain(3)]
  have "trim (nat_str n) = nat_str n" by (rule trim_ascii_visible) (simp add: list_all_iff d)
  moreover have "on_boundary (nat_str n)"
    unfolding on_boundary_def using d(1) [OF hd_in_set [OF nat_str_not_Nil]] by (rule disjI2)
  moreover have "CHR 10 \<notin> set (nat_str n)" using d(3) by blast
  ultimately show ?thesis by (simp add: plain_def)
qed

lemma replace_char: "replace_from [a] r s = concat (map (\<lambda>c. if c = a then r else [c]) s)"
proof (induction s)
  case (Cons c s)
  show ?case
  proof (cases "c = a")
    case True
    then show ?thesis using Cons replace_from_hit [of "[a]" r s] by simp
  next
    case False
    then show ?thesis using Cons replace_from_miss [of "[a]" c s r] by simp
  qed
qed simp

lemma quoted_eq: "quoted p = CHR 34 # concat (map (\<lambda>c. if c = CHR 34 then [CHR 92, CHR 34] else [c]) p) @ [CHR 34]"
  by (simp add: quoted_def str_replace_def replace_char)

lemma quote_chars: "\<not> is_cont_byte (CHR 34)" "\<not> is_cont_byte (CHR 92)" "\<not> is_white [CHR 34]"
  by code_simp+

lemma utf8_in_quotes:
  assumes "on_boundary q"
  shows "utf8_chars (CHR 34 # q @ [CHR 34]) = [CHR 34] # utf8_chars q @ [[CHR 34]]"
proof -
  have "utf8_chars ([CHR 34] @ (q @ [CHR 34])) = utf8_chars [CHR 34] @ utf8_chars (q @ [CHR 34])"
    using assms quote_chars(1) by (intro utf8_chars_append) (cases q; simp add: on_boundary_def)
  moreover have "utf8_chars (q @ [CHR 34]) = utf8_chars q @ utf8_chars [CHR 34]"
    using quote_chars(1) by (intro utf8_chars_append) simp
  ultimately show ?thesis by simp
qed

lemma trim_in_quotes: "on_boundary q \<Longrightarrow> trim (CHR 34 # q @ [CHR 34]) = CHR 34 # q @ [CHR 34]"
  unfolding trim_strip using utf8_in_quotes [of q] quote_chars(3) by (simp add: strip_visible)

lemma quoted_plain:
  assumes "on_boundary p" "CHR 10 \<notin> set p"
  shows "plain (quoted p)"
proof -
  let ?esc = "\<lambda>c. if c = CHR 34 then [CHR 92, CHR 34] else [c]"
  have "on_boundary (concat (map ?esc p))"
  proof (cases p)
    case (Cons c r)
    then show ?thesis using assms(1) quote_chars(2) by (cases "c = CHR 34") (simp_all add: on_boundary_def)
  qed (simp add: on_boundary_def)
  then have "trim (quoted p) = quoted p" unfolding quoted_eq by (rule trim_in_quotes)
  moreover have "CHR 10 \<notin> set (concat (map ?esc p))" using assms(2) by (induction p) simp_all
  then have "CHR 10 \<notin> set (quoted p)" unfolding quoted_eq by simp
  moreover have "on_boundary (quoted p)" "quoted p \<noteq> []" unfolding quoted_eq using quote_chars(1) by (simp_all add: on_boundary_def)
  ultimately show ?thesis unfolding plain_def by simp
qed

text \<open>A text without quotes is read back; every quote inside comes back with a backslash before it.\<close>

lemma trim_quoted: "CHR 34 \<notin> set p \<Longrightarrow> trim_char (CHR 34) (quoted p) = p"
proof -
  assume n: "CHR 34 \<notin> set p"
  then have "concat (map (\<lambda>c. if c = CHR 34 then [CHR 92, CHR 34] else [c]) p) = p" by (induction p) auto
  then have q: "quoted p = CHR 34 # p @ [CHR 34]" by (simp add: quoted_eq)
  show ?thesis
  proof (cases p rule: rev_cases)
    case (snoc r c)
    then have "hd p \<noteq> CHR 34" "c \<noteq> CHR 34" using n by (cases r; auto)+
    then have "dropWhile (\<lambda>x. x = CHR 34) (quoted p) = p @ [CHR 34]" using snoc q by (cases r) simp_all
    then show ?thesis using snoc \<open>c \<noteq> CHR 34\<close> by (simp add: trim_char_def trim_end_char_def)
  next
    case Nil
    then show ?thesis using q by (simp add: trim_char_def trim_end_char_def del: dropWhile_eq_Nil_conv)
  qed
qed

lemma quotes_gain_backslash:
  "trim_char (CHR 34) (quoted (''say '' @ [CHR 34] @ ''no'' @ [CHR 34] @ '' now''))
     = ''say '' @ [CHR 92, CHR 34] @ ''no'' @ [CHR 92, CHR 34] @ '' now''"
  by code_simp

lemma lookup_field_simps [simp]:
  "lookup_field [] key = None"
  "lookup_field ((k, v) # kvs) key = (if k = key \<and> trim v \<noteq> [] then Some (trim v) else lookup_field kvs key)"
  "lookup_field (kvs @ kvs') key = (case lookup_field kvs key of Some v \<Rightarrow> Some v | None \<Rightarrow> lookup_field kvs' key)"
  by (auto simp: lookup_field_def split: list.splits)

end
