(* ===== verification/Beliefs.thy ===== *)
theory Beliefs
  imports Memory_Markdown Complex_Main "HOL-Library.AList"
begin

section \<open>Beliefs (zen-memory/src/belief.rs, priority.rs)\<close>

text \<open>
  Bayesian updates, reinforcement and decay, the markdown file of a belief, and the places that load and
  save it: the prompt of an agent, the loop, the promotion and the wisdom workers. Floats are reals;
  times are nanoseconds. Number and date formats of the standard library and of \<open>chrono\<close> are the
  fields of \<open>Formats\<close>. A directory maps file names to contents; whether a write succeeds is a parameter.
\<close>

subsection \<open>Data\<close>

datatype SourceType = SelfObservation | TrustedPeer | AuthorityBook | AnonymousInternet

fun default_weight :: "SourceType \<Rightarrow> real" where
  "default_weight SelfObservation = 1"
| "default_weight TrustedPeer = 5 / 10"
| "default_weight AuthorityBook = 8 / 10"
| "default_weight AnonymousInternet = 2 / 10"

datatype ResearchMethod = SocialEngineering | EcommerceData | ThirdPartyData | QaSearch | Observation

fun research_as_str :: "ResearchMethod \<Rightarrow> string" where
  "research_as_str SocialEngineering = ''social_engineering''"
| "research_as_str EcommerceData = ''ecommerce_data''"
| "research_as_str ThirdPartyData = ''third_party_data''"
| "research_as_str QaSearch = ''qa_search''"
| "research_as_str Observation = ''observation''"

definition research_from_str :: "string \<Rightarrow> ResearchMethod option" where
  "research_from_str s =
     (if s = ''social_engineering'' then Some SocialEngineering
      else if s = ''ecommerce_data'' then Some EcommerceData
      else if s = ''third_party_data'' then Some ThirdPartyData
      else if s = ''qa_search'' then Some QaSearch
      else if s = ''observation'' then Some Observation
      else None)"

record EvidenceEntry =
  ev_timestamp :: int
  supports :: bool
  source_weight :: real
  source_type :: SourceType
  research_method :: "ResearchMethod option"
  ev_note :: "string option"

record Belief =
  belief_id :: string
  belief_proposition :: string
  posterior :: real
  evidence_count :: nat
  belief_weight :: real
  domain :: string
  belief_created_at :: int
  last_updated :: int
  last_retrieved :: "int option"
  last_decayed_at :: "int option"
  evidence :: "EvidenceEntry list"

definition UNPROVEN_PROVENANCE_WEIGHT :: real where "UNPROVEN_PROVENANCE_WEIGHT = 1 / 10"
definition DURABLE_WISDOM_RELIABILITY :: real where "DURABLE_WISDOM_RELIABILITY = 9 / 10"

subsection \<open>Evidence\<close>

definition belief_new :: "int \<Rightarrow> string \<Rightarrow> string \<Rightarrow> string \<Rightarrow> Belief" where
  "belief_new now i p d =
     \<lparr>belief_id = i, belief_proposition = p, posterior = 5 / 10, evidence_count = 0, belief_weight = 1, domain = d,
      belief_created_at = now, last_updated = now, last_retrieved = None, last_decayed_at = None, evidence = []\<rparr>"

definition clamp :: "real \<Rightarrow> real \<Rightarrow> real \<Rightarrow> real" where
  "clamp lo hi x = (if x < lo then lo else if hi < x then hi else x)"

definition bayes_posterior :: "bool \<Rightarrow> real \<Rightarrow> real \<Rightarrow> real" where
  "bayes_posterior pro w p =
     (let likelihood = (if pro then 5 / 10 + 5 / 10 * w else 5 / 10 - 5 / 10 * w);
          numerator = p * likelihood;
          denominator = numerator + (1 - p) * (1 - likelihood);
          new_posterior = numerator / denominator;
          enforced = (if \<not> pro \<and> \<bar>new_posterior - p\<bar> < 3 / 10 then max (p - 3 / 10) (1 / 100) else new_posterior)
      in clamp (1 / 100) (99 / 100) enforced)"

definition bayesian_update_weighted :: "bool \<Rightarrow> real \<Rightarrow> Belief \<Rightarrow> Belief" where
  "bayesian_update_weighted pro w b = b\<lparr>posterior := bayes_posterior pro w (posterior b)\<rparr>"

definition belief_update :: "int \<Rightarrow> bool \<Rightarrow> SourceType \<Rightarrow> string option \<Rightarrow> Belief \<Rightarrow> Belief" where
  "belief_update now pro source n b =
     (let b1 = bayesian_update_weighted pro (default_weight source) b
      in b1\<lparr>evidence := evidence b1 @
              [\<lparr>ev_timestamp = now, supports = pro, source_weight = default_weight source, source_type = source,
                research_method = None, ev_note = n\<rparr>],
            evidence_count := evidence_count b1 + 1, last_updated := now\<rparr>)"

definition reinforce :: "int \<Rightarrow> Belief \<Rightarrow> Belief" where
  "reinforce now b = b\<lparr>belief_weight := min (belief_weight b * (101 / 100)) 2, last_retrieved := Some now\<rparr>"

subsection \<open>Decay\<close>

definition num_days :: "int \<Rightarrow> int" where
  "num_days d = (let s = num_seconds d in if 0 \<le> s then s div 86400 else - ((- s) div 86400))"

definition apply_decay :: "int \<Rightarrow> Belief \<Rightarrow> Belief \<times> bool" where
  "apply_decay now b =
     (case last_retrieved b of
        Some last' \<Rightarrow>
          if 90 \<le> num_days (now - last') then (b\<lparr>belief_weight := belief_weight b * (95 / 100)\<rparr>, True) else (b, False)
      | None \<Rightarrow> (b, False))"

definition decay_anchor :: "Belief \<Rightarrow> int" where
  "decay_anchor b = max (case last_decayed_at b of Some t \<Rightarrow> t | None \<Rightarrow> last_updated b) (last_updated b)"

definition apply_confidence_half_life :: "int \<Rightarrow> real \<Rightarrow> Belief \<Rightarrow> Belief \<times> bool" where
  "apply_confidence_half_life now half_life_days b =
     (let elapsed_days = real_of_int (num_seconds (now - decay_anchor b)) / 86400
      in if elapsed_days \<le> 0 then (b, False)
         else let factor = (5 / 10) powr (elapsed_days / half_life_days);
                  new_posterior = max (posterior b * factor) (1 / 100)
              in if \<bar>new_posterior - posterior b\<bar> < 1 / 10 ^ 12 then (b, False)
                 else (b\<lparr>posterior := new_posterior, last_decayed_at := Some now\<rparr>, True))"

definition decay_one :: "int \<Rightarrow> Belief \<Rightarrow> Belief \<times> bool" where
  "decay_one now b =
     (let (b1, w) = apply_decay now b; (b2, h) = apply_confidence_half_life now 30 b1 in (b2, w \<or> h))"

definition apply_decay_all :: "int \<Rightarrow> Belief list \<Rightarrow> Belief list \<times> nat" where
  "apply_decay_all now beliefs =
     (let rs = map (decay_one now) beliefs in (map fst rs, length (filter snd rs)))"

subsection \<open>Tiers\<close>

definition should_promote :: "Belief \<Rightarrow> bool" where
  "should_promote b \<longleftrightarrow> 9 / 10 < posterior b \<and> 5 < evidence_count b"

definition should_demote :: "Belief \<Rightarrow> bool" where
  "should_demote b \<longleftrightarrow> posterior b < 2 / 10"

definition weakest_support :: "EvidenceEntry list \<Rightarrow> real option" where
  "weakest_support es =
     foldl (\<lambda>weakest e.
        if supports e then
          Some (case weakest of None \<Rightarrow> default_weight (source_type e) | Some w \<Rightarrow> min w (default_weight (source_type e)))
        else weakest) None es"

definition reliability :: "Belief \<Rightarrow> real" where
  "reliability b =
     min (case weakest_support (evidence b) of Some w \<Rightarrow> w | None \<Rightarrow> UNPROVEN_PROVENANCE_WEIGHT) (posterior b)"

definition noisy_or_candidate :: "Belief \<Rightarrow> real" where
  "noisy_or_candidate b =
     clamp 0 1 (1 - foldl (\<lambda>a e. if supports e then a * (1 - default_weight (source_type e)) else a) 1 (evidence b))"

definition belief_priority_score :: "Belief \<Rightarrow> real" where
  "belief_priority_score b = posterior b * belief_weight b"

definition top_by_priority :: "Belief list \<Rightarrow> nat \<Rightarrow> Belief list" where
  "top_by_priority beliefs n = take n (sort_key (\<lambda>b. - belief_priority_score b) beliefs)"

subsection \<open>The file of a belief\<close>

record Formats =
  fixed :: "nat \<Rightarrow> real \<Rightarrow> string"  \<comment> \<open>\<open>{:.n}\<close>\<close>
  parse_f64 :: "string \<Rightarrow> real option"
  rfc3339 :: "int \<Rightarrow> string"
  parse_rfc3339 :: "string \<Rightarrow> int option"
  ymd :: "int \<Rightarrow> string"  \<comment> \<open>\<open>%Y-%m-%d\<close>\<close>

fun source_name :: "SourceType \<Rightarrow> string" where
  "source_name SelfObservation = ''selfobservation''"
| "source_name TrustedPeer = ''trustedpeer''"
| "source_name AuthorityBook = ''authoritybook''"
| "source_name AnonymousInternet = ''anonymousinternet''"

definition evidence_line :: "Formats \<Rightarrow> EvidenceEntry \<Rightarrow> string" where
  "evidence_line f e =
     ''- '' @ (if supports e then [CHR 0xE2, CHR 0x9C, CHR 0x93] else [CHR 0xE2, CHR 0x9C, CHR 0x97])
     @ '' ['' @ ymd f (ev_timestamp e) @ ''] '' @ source_name (source_type e)
     @ '' (weight: '' @ fixed f 1 (source_weight e) @ '')''
     @ (case research_method e of Some m \<Rightarrow> '' ['' @ research_as_str m @ '']'' | None \<Rightarrow> [])
     @ (case ev_note e of Some n \<Rightarrow> [CHR 32, CHR 0xE2, CHR 0x80, CHR 0x94, CHR 32] @ n | None \<Rightarrow> [])
     @ [CHR 10]"

definition time_field :: "Formats \<Rightarrow> string \<Rightarrow> int option \<Rightarrow> (string \<times> string) list" where
  "time_field f key t = (case t of Some x \<Rightarrow> [(key, rfc3339 f x)] | None \<Rightarrow> [])"

definition belief_fields :: "Formats \<Rightarrow> Belief \<Rightarrow> (string \<times> string) list" where
  "belief_fields f b =
     [(''id'', belief_id b),
      (''proposition'', quoted (belief_proposition b)),
      (''posterior'', fixed f 4 (posterior b)),
      (''evidence_count'', nat_str (evidence_count b)),
      (''weight'', fixed f 4 (belief_weight b)),
      (''domain'', domain b),
      (''created_at'', rfc3339 f (belief_created_at b)),
      (''last_updated'', rfc3339 f (last_updated b))]
     @ time_field f ''last_retrieved'' (last_retrieved b)
     @ time_field f ''last_decayed_at'' (last_decayed_at b)"

definition belief_body :: "Formats \<Rightarrow> Belief \<Rightarrow> string" where
  "belief_body f b =
     ''# Belief: '' @ belief_proposition b @ [CHR 10, CHR 10]
     @ ''**Posterior**: '' @ fixed f 1 (posterior b * 100) @ ''% confident'' @ [CHR 10, CHR 10]
     @ ''## Evidence Log'' @ [CHR 10, CHR 10]
     @ (if evidence b = [] then ''_(no evidence recorded yet)_'' @ [CHR 10]
        else concat (map (evidence_line f) (evidence b)))"

definition belief_to_markdown :: "Formats \<Rightarrow> Belief \<Rightarrow> string" where
  "belief_to_markdown f b =
     lines_text (''---'' # map field_line (belief_fields f b) @ [''---'']) @ CHR 10 # belief_body f b"

definition u32_bound :: nat where "u32_bound = 4294967296"

definition or_now :: "int \<Rightarrow> int option \<Rightarrow> int" where
  "or_now now t = (case t of Some x \<Rightarrow> x | None \<Rightarrow> now)"

definition belief_from_markdown :: "Formats \<Rightarrow> int \<Rightarrow> string \<Rightarrow> (Belief, string) result" where
  "belief_from_markdown f now content =
     (case extract_frontmatter content of
        None \<Rightarrow> Err ''missing frontmatter''
      | Some fm \<Rightarrow>
     (case parse_field fm ''id'' of
        None \<Rightarrow> Err ''missing id field''
      | Some i \<Rightarrow>
     (case parse_field fm ''proposition'' of
        None \<Rightarrow> Err ''missing proposition field''
      | Some p \<Rightarrow>
     (case parse_field fm ''posterior'' of
        None \<Rightarrow> Err ''missing posterior field''
      | Some ps \<Rightarrow>
        Ok \<lparr>belief_id = i, belief_proposition = trim_char (CHR 34) p,
            posterior = (case parse_f64 f ps of Some x \<Rightarrow> x | None \<Rightarrow> 5 / 10),
            evidence_count = (case Option.bind (parse_field fm ''evidence_count'') (parse_uint u32_bound) of Some n \<Rightarrow> n | None \<Rightarrow> 0),
            belief_weight = (case Option.bind (parse_field fm ''weight'') (parse_f64 f) of Some x \<Rightarrow> x | None \<Rightarrow> 1),
            domain = (case parse_field fm ''domain'' of Some d \<Rightarrow> d | None \<Rightarrow> ''uncategorized''),
            belief_created_at = or_now now (Option.bind (parse_field fm ''created_at'') (parse_rfc3339 f)),
            last_updated = or_now now (Option.bind (parse_field fm ''last_updated'') (parse_rfc3339 f)),
            last_retrieved = Option.bind (parse_field fm ''last_retrieved'') (parse_rfc3339 f),
            last_decayed_at = Option.bind (parse_field fm ''last_decayed_at'') (parse_rfc3339 f),
            evidence = []\<rparr>))))"

subsection \<open>Directories\<close>

type_synonym dir = "(string \<times> string) list"

definition has_md_extension :: "string \<Rightarrow> bool" where
  "has_md_extension name \<longleftrightarrow> ends_with name ''.md'' \<and> 3 < length name"

text \<open>\<open>None\<close> is a path that is no directory; its files are in the order \<open>read_dir\<close> lists them.\<close>

definition belief_load_all :: "Formats \<Rightarrow> int \<Rightarrow> dir option \<Rightarrow> Belief list" where
  "belief_load_all f now d =
     (case d of
        None \<Rightarrow> []
      | Some files \<Rightarrow>
          List.map_filter (\<lambda>(name, content).
             if has_md_extension name then (case belief_from_markdown f now content of Ok b \<Rightarrow> Some b | Err _ \<Rightarrow> None)
             else None) files)"

definition belief_save :: "Formats \<Rightarrow> (string \<Rightarrow> bool) \<Rightarrow> Belief \<Rightarrow> dir option \<Rightarrow> dir option" where
  "belief_save f writable b d =
     (if writable (belief_id b)
      then Some (AList.update (belief_id b @ ''.md'') (belief_to_markdown f b) (case d of Some fs \<Rightarrow> fs | None \<Rightarrow> []))
      else d)"

definition save_all :: "Formats \<Rightarrow> (string \<Rightarrow> bool) \<Rightarrow> Belief list \<Rightarrow> dir option \<Rightarrow> dir option" where
  "save_all f writable bs d = foldl (\<lambda>d b. belief_save f writable b d) d bs"

definition slugify_proposition :: "(string \<Rightarrow> bool) \<Rightarrow> (string \<Rightarrow> string) \<Rightarrow> string \<Rightarrow> string" where
  "slugify_proposition alnum lower t =
     take_chars 60 (trim_char (CHR ''-'') (concat (map (\<lambda>ch. if alnum ch then ch else ''-'') (utf8_chars (lower t)))))"

subsection \<open>Retrieval counts and the prompt (priority.rs, zen_agent.rs)\<close>

record ReinforcementTracker =
  counts :: "string \<Rightarrow> nat option"
  last_accessed :: "string \<Rightarrow> int option"

definition get_hit_count :: "ReinforcementTracker \<Rightarrow> string \<Rightarrow> nat" where
  "get_hit_count t i = (case counts t i of Some n \<Rightarrow> n | None \<Rightarrow> 0)"

definition record_retrieval :: "int \<Rightarrow> string \<Rightarrow> ReinforcementTracker \<Rightarrow> ReinforcementTracker" where
  "record_retrieval today i t = t\<lparr>counts := (counts t)(i \<mapsto> get_hit_count t i + 1), last_accessed := (last_accessed t)(i \<mapsto> today)\<rparr>"

definition reinforce_beliefs :: "Belief list \<Rightarrow> ReinforcementTracker \<Rightarrow> Belief list" where
  "reinforce_beliefs beliefs t =
     sort_key (\<lambda>b. - (posterior b * real (get_hit_count t (belief_id b))))
       (filter (\<lambda>b. 7 / 10 < posterior b \<and> 5 < get_hit_count t (belief_id b)) beliefs)"

definition DAY :: int where "DAY = 86400 * NANOS"

definition stale :: "int \<Rightarrow> Belief \<Rightarrow> bool" where
  "stale now b \<longleftrightarrow> posterior b < 3 / 10 \<and> last_updated b < now - 30 * DAY"

definition prune_stale_from_prompt :: "int \<Rightarrow> Belief list \<Rightarrow> Belief list \<times> Belief list" where
  "prune_stale_from_prompt now beliefs = (filter (\<lambda>b. \<not> stale now b) beliefs, filter (stale now) beliefs)"

definition is_durable :: "Belief \<Rightarrow> bool" where
  "is_durable b \<longleftrightarrow> should_promote b \<and> DURABLE_WISDOM_RELIABILITY \<le> reliability b"

definition partition_belief_surface :: "Belief list \<Rightarrow> Belief list \<Rightarrow> Belief list \<times> Belief list" where
  "partition_belief_surface beliefs demoted =
     (filter is_durable (beliefs @ demoted), filter (\<lambda>b. \<not> is_durable b) (beliefs @ demoted))"

definition durable_header :: string where
  "durable_header = [CHR 0xF0, CHR 0x9F, CHR 0x92, CHR 0x8E] @ '' Durable wisdom (provenance-backed):'' @ [CHR 10]"

definition needs_header :: string where
  "needs_header = [CHR 0xF0, CHR 0x9F, CHR 0x94, CHR 0x8D] @ '' Low-confidence beliefs (need evidence):'' @ [CHR 10]"

definition durable_line :: "Formats \<Rightarrow> Belief \<Rightarrow> string" where
  "durable_line f b =
     ''- '' @ [CHR 34] @ belief_proposition b @ [CHR 34] @ '' (confidence: '' @ fixed f 0 (posterior b * 100)
     @ ''%, reliability: '' @ fixed f 0 (reliability b * 100) @ ''%)'' @ [CHR 10]"

definition render_needs_evidence_line :: "Formats \<Rightarrow> Belief \<Rightarrow> string \<Rightarrow> string" where
  "render_needs_evidence_line f b marker =
     ''- '' @ [CHR 34] @ belief_proposition b @ [CHR 34] @ marker @ '' (confidence: '' @ fixed f 0 (posterior b * 100)
     @ ''%, candidate: '' @ fixed f 0 (noisy_or_candidate b * 100) @ ''%)'' @ [CHR 10]"

definition belief_surface :: "Formats \<Rightarrow> string set \<Rightarrow> Belief list \<Rightarrow> Belief list \<Rightarrow> string" where
  "belief_surface f reinforced_ids beliefs demoted =
     (let (durable, needs) = partition_belief_surface beliefs demoted;
          top = take 5 (sort_key posterior needs)
      in (if durable = [] then [] else durable_header @ concat (map (durable_line f) durable) @ [CHR 10])
       @ (if top = [] then []
          else needs_header @ concat (map (\<lambda>b. render_needs_evidence_line f b
                 (if belief_id b \<in> reinforced_ids then '' [REINFORCED]'' else [])) top)))"

text \<open>The text put into the prompt, the two directories and the tracker afterwards.\<close>

definition load_beliefs ::
  "Formats \<Rightarrow> (string \<Rightarrow> bool) \<Rightarrow> int \<Rightarrow> int \<Rightarrow> dir option \<Rightarrow> dir option \<Rightarrow> ReinforcementTracker
   \<Rightarrow> string \<times> dir option \<times> dir option \<times> ReinforcementTracker" where
  "load_beliefs f writable now today d dd t =
     (let beliefs = belief_load_all f now d; demoted = belief_load_all f now dd
      in if beliefs = [] \<and> demoted = [] then ([], d, dd, t)
         else let kept = fst (prune_stale_from_prompt now beliefs);
                  reinforced_ids = belief_id ` set (reinforce_beliefs kept t) \<union> belief_id ` set (reinforce_beliefs demoted t);
                  t1 = foldl (\<lambda>t b. record_retrieval today (belief_id b) t) t (kept @ demoted);
                  kept1 = map (reinforce now) kept; demoted1 = map (reinforce now) demoted
              in (belief_surface f reinforced_ids kept1 demoted1,
                  save_all f writable kept1 d, save_all f writable demoted1 dd, t1))"

subsection \<open>Workers\<close>

text \<open>The lifecycle step of the loop: decay, save when something decayed, move what fell below 0.2.\<close>

definition demote_one :: "Belief \<Rightarrow> dir option \<times> dir option \<Rightarrow> dir option \<times> dir option" where
  "demote_one b ds =
     (let file = belief_id b @ ''.md''
      in case ds of
           (Some fs, dd) \<Rightarrow>
             (if posterior b < 2 / 10
              then case map_of fs file of
                     Some content \<Rightarrow>
                       (Some (AList.delete file fs), Some (AList.update file content (case dd of Some x \<Rightarrow> x | None \<Rightarrow> [])))
                   | None \<Rightarrow> (Some fs, dd)
              else (Some fs, dd))
         | (None, dd) \<Rightarrow> (None, dd))"

definition loop_belief_lifecycle :: "Formats \<Rightarrow> (string \<Rightarrow> bool) \<Rightarrow> int \<Rightarrow> dir option \<Rightarrow> dir option \<Rightarrow> dir option \<times> dir option" where
  "loop_belief_lifecycle f writable now d dd =
     (case d of
        None \<Rightarrow> (d, dd)
      | Some _ \<Rightarrow>
          let (beliefs, decayed) = apply_decay_all now (belief_load_all f now d);
              d1 = (if 0 < decayed then save_all f writable beliefs d else d)
          in foldl (\<lambda>ds b. demote_one b ds) (d1, dd) beliefs)"

definition apply_belief_evidence :: "Formats \<Rightarrow> (string \<Rightarrow> bool) \<Rightarrow> int \<Rightarrow> string \<Rightarrow> string \<Rightarrow> dir option list \<Rightarrow> dir option list" where
  "apply_belief_evidence f writable now slug summary dirs =
     (let step = (\<lambda>(don, out) d.
            if don then (True, out @ [d])
            else case find (\<lambda>b. belief_id b = slug) (belief_load_all f now d) of
                   Some b \<Rightarrow>
                     let b1 = belief_update now True SelfObservation (Some summary) b
                     in (writable slug, out @ [belief_save f writable b1 d])
                 | None \<Rightarrow> (False, out @ [d]))
      in snd (foldl step (False, []) dirs))"

end
