(* ===== verification/Belief_Laws.thy ===== *)
theory Belief_Laws
  imports Beliefs
begin

section \<open>Laws of beliefs\<close>

text \<open>
  Bounds kept by every operation, what evidence does to the posterior, decay applied in steps against
  decay applied once, the durable tier, and what survives the file.
\<close>

subsection \<open>Bounds\<close>

definition belief_ok :: "Belief \<Rightarrow> bool" where
  "belief_ok b \<longleftrightarrow> 1 / 100 \<le> posterior b \<and> posterior b \<le> 99 / 100 \<and> 0 < belief_weight b \<and> belief_weight b \<le> 2"

lemma clamp_bounds: "lo \<le> hi \<Longrightarrow> lo \<le> clamp lo hi x \<and> clamp lo hi x \<le> hi"
  by (simp add: clamp_def)

lemma bayes_bounds: "1 / 100 \<le> bayes_posterior pro w p \<and> bayes_posterior pro w p \<le> 99 / 100"
  unfolding bayes_posterior_def Let_def by (rule clamp_bounds) simp

lemma belief_ok_update [preserves]: "belief_ok b \<Longrightarrow> belief_ok (belief_update now pro src n b)"
  using bayes_bounds by (simp add: belief_ok_def belief_update_def Let_def bayesian_update_weighted_def)

lemma belief_ok_reinforce [preserves]: "belief_ok b \<Longrightarrow> belief_ok (reinforce now b)"
  by (auto simp: belief_ok_def reinforce_def min_def)

lemma belief_ok_weight_decay [preserves]: "belief_ok b \<Longrightarrow> belief_ok (fst (apply_decay now b))"
  by (auto simp: belief_ok_def apply_decay_def split: option.splits)

text \<open>The half-life in terms of the faded posterior.\<close>

definition fade :: "real \<Rightarrow> int \<Rightarrow> real" where
  "fade h secs = (1 / 2) powr (real_of_int secs / 86400 / h)"

definition faded :: "int \<Rightarrow> real \<Rightarrow> Belief \<Rightarrow> real" where
  "faded now h b = max (posterior b * fade h (num_seconds (now - decay_anchor b))) (1 / 100)"

lemma fade_pos [simp]: "0 < fade h s"
  by (simp add: fade_def)

lemma fade_le: "0 < h \<Longrightarrow> 0 \<le> s \<Longrightarrow> fade h s \<le> 1"
  unfolding fade_def by (rule powr_le1) simp_all

lemma fade_add: "fade h (s + t) = fade h s * fade h t"
  by (simp add: fade_def powr_add [symmetric] add_divide_distrib)

lemma fade_antimono: "0 < h \<Longrightarrow> s \<le> t \<Longrightarrow> fade h t \<le> fade h s"
  unfolding fade_def by (rule powr_mono') (simp_all add: divide_right_mono)

lemma half_life_eq:
  "apply_confidence_half_life now h b =
     (if num_seconds (now - decay_anchor b) \<le> 0 \<or> \<bar>faded now h b - posterior b\<bar> < 1 / 10 ^ 12 then (b, False)
      else (b\<lparr>posterior := faded now h b, last_decayed_at := Some now\<rparr>, True))"
  by (simp add: apply_confidence_half_life_def Let_def faded_def fade_def)

lemma faded_bounds:
  assumes "0 < h" "0 \<le> num_seconds (now - decay_anchor b)" "1 / 100 \<le> posterior b"
  shows "1 / 100 \<le> faded now h b" "faded now h b \<le> posterior b"
proof -
  show "1 / 100 \<le> faded now h b" by (simp add: faded_def)
  have "posterior b * fade h (num_seconds (now - decay_anchor b)) \<le> posterior b * 1"
    using assms fade_le [OF assms(1,2)] by (intro mult_left_mono) simp_all
  with assms(3) show "faded now h b \<le> posterior b" by (simp add: faded_def)
qed

lemma belief_ok_half_life [preserves]:
  assumes "belief_ok b" "0 < h"
  shows "belief_ok (fst (apply_confidence_half_life now h b))"
  using assms faded_bounds [OF assms(2), of now b] by (auto simp: half_life_eq belief_ok_def)

lemma belief_ok_decay [preserves]: "belief_ok b \<Longrightarrow> belief_ok (fst (decay_one now b))"
  using belief_ok_half_life [OF belief_ok_weight_decay, of b 30 now now]
  by (simp add: decay_one_def case_prod_beta)

datatype belief_label = BUpdate int bool SourceType "string option" | BReinforce int | BDecay int

fun belief_step :: "Belief \<Rightarrow> belief_label \<Rightarrow> Belief \<Rightarrow> bool" where
  "belief_step b (BUpdate now pro src n) c \<longleftrightarrow> c = belief_update now pro src n b"
| "belief_step b (BReinforce now) c \<longleftrightarrow> c = reinforce now b"
| "belief_step b (BDecay now) c \<longleftrightarrow> c = fst (decay_one now b)"

lemma belief_ok_step: "belief_ok b \<Longrightarrow> belief_step b l c \<Longrightarrow> belief_ok c"
  by (cases l) (auto intro: preserves)

interpretation belief_sys: invariant_system "belief_new now i p d" belief_step belief_ok
  for now i p d
  by unfold_locales (simp add: belief_ok_def belief_new_def, rule belief_ok_step)

text \<open>
  Claim C28. Whatever evidence, retrievals and decay a belief goes through, its posterior stays between
  0.01 and 0.99 and its weight is positive and at most 2.
\<close>

theorem belief_bounds:
  assumes "steps belief_step (belief_new now i p d) ls b"
  shows "1 / 100 \<le> posterior b \<and> posterior b \<le> 99 / 100 \<and> 0 < belief_weight b \<and> belief_weight b \<le> 2"
  using belief_sys.inv_reachable [OF assms] by (simp add: belief_ok_def)

subsection \<open>Evidence\<close>

lemma bayes_down:
  fixes p l :: real
  assumes "0 < p" "p < 1" "0 \<le> l" "l \<le> 1 / 2"
  shows "p * l / (p * l + (1 - p) * (1 - l)) \<le> p"
proof -
  have d: "0 < p * l + (1 - p) * (1 - l)" using assms by (intro add_nonneg_pos mult_pos_pos mult_nonneg_nonneg) simp_all
  have "l \<le> p * l + (1 - p) * (1 - l)"
  proof -
    have "0 \<le> (1 - p) * (1 - 2 * l)" using assms by simp
    then show ?thesis by (simp add: algebra_simps)
  qed
  then have "p * l \<le> p * (p * l + (1 - p) * (1 - l))" using assms(1) by simp
  with d show ?thesis by (simp add: pos_divide_le_eq)
qed

lemma bayes_up:
  fixes p l :: real
  assumes "0 < p" "p < 1" "1 / 2 \<le> l" "l \<le> 1"
  shows "p \<le> p * l / (p * l + (1 - p) * (1 - l))"
proof -
  have d: "0 < p * l + (1 - p) * (1 - l)" using assms by (intro add_pos_nonneg mult_pos_pos mult_nonneg_nonneg) simp_all
  have "p * l + (1 - p) * (1 - l) \<le> l"
  proof -
    have "0 \<le> (1 - p) * (2 * l - 1)" using assms by simp
    then show ?thesis by (simp add: algebra_simps)
  qed
  then have "p * (p * l + (1 - p) * (1 - l)) \<le> p * l" using assms(1) by simp
  with d show ?thesis by (simp add: pos_le_divide_eq)
qed

lemma default_weight_bounds: "0 < default_weight s \<and> default_weight s \<le> 1"
  by (cases s) simp_all

lemma enforced_down:
  "q \<le> p \<Longrightarrow> p \<le> 99 / 100
   \<Longrightarrow> clamp (1 / 100) (99 / 100) (if \<bar>q - p\<bar> < 3 / 10 then max (p - 3 / 10) (1 / 100) else q) \<le> max (p - 3 / 10) (1 / 100)"
  by (auto simp: clamp_def max_def abs_if split: if_splits)

text \<open>
  Claim C0. Supporting evidence never lowers a posterior within its bounds, and contradicting evidence
  of any source moves it down by at least 0.3, or to the floor of 0.01.
\<close>

theorem evidence_direction:
  assumes "1 / 100 \<le> posterior b" "posterior b \<le> 99 / 100"
  shows "posterior b \<le> posterior (belief_update now True src n b)
    \<and> posterior (belief_update now False src n b) \<le> max (posterior b - 3 / 10) (1 / 100)"
proof -
  let ?p = "posterior b" and ?w = "default_weight src"
  have w: "0 < ?w" "?w \<le> 1" using default_weight_bounds [of src] by simp_all
  have "?p \<le> bayes_posterior True ?w ?p"
    using bayes_up [of ?p "5 / 10 + 5 / 10 * ?w"] assms w
    by (simp add: bayes_posterior_def Let_def clamp_def)
  moreover have "bayes_posterior False ?w ?p \<le> max (?p - 3 / 10) (1 / 100)"
    unfolding bayes_posterior_def Let_def if_False simp_thms
    by (rule enforced_down [OF bayes_down]) (use assms w in simp_all)
  ultimately show ?thesis by (simp add: belief_update_def Let_def bayesian_update_weighted_def)
qed

subsection \<open>Decay\<close>

lemma num_seconds_add:
  assumes "a \<le> t1" "t1 \<le> t2" "NANOS dvd t1 - a"
  shows "num_seconds (t2 - a) = num_seconds (t1 - a) + num_seconds (t2 - t1)"
proof -
  from assms(3) obtain k where k: "t1 - a = NANOS * k" by (auto simp: dvd_def)
  then have t: "t2 - a = (t2 - t1) + NANOS * k" by simp
  have "NANOS \<noteq> 0" by (simp add: NANOS_def)
  then have "(t2 - a) div NANOS = k + (t2 - t1) div NANOS" unfolding t by simp
  with \<open>NANOS \<noteq> 0\<close> show ?thesis using assms(1,2) k by (simp add: num_seconds_def)
qed

lemma anchor_after: "last_updated b \<le> t \<Longrightarrow> decay_anchor (b\<lparr>posterior := x, last_decayed_at := Some t\<rparr>) = t"
  by (simp add: decay_anchor_def)

lemma faded_twice:
  assumes "0 < h" "decay_anchor b \<le> t1" "t1 \<le> t2" "NANOS dvd t1 - decay_anchor b"
  shows "faded t2 h (b\<lparr>posterior := faded t1 h b, last_decayed_at := Some t1\<rparr>) = faded t2 h b"
proof -
  let ?s1 = "num_seconds (t1 - decay_anchor b)" and ?s2 = "num_seconds (t2 - t1)"
  have "last_updated b \<le> t1" using assms(2) by (simp add: decay_anchor_def)
  then have "faded t2 h (b\<lparr>posterior := faded t1 h b, last_decayed_at := Some t1\<rparr>)
      = max (faded t1 h b * fade h ?s2) (1 / 100)" by (simp add: faded_def [of t2] anchor_after)
  also have "\<dots> = max (posterior b * (fade h ?s1 * fade h ?s2)) (1 / 100)"
  proof -
    have "fade h ?s2 \<le> 1" using assms by (intro fade_le) (simp_all add: num_seconds_def NANOS_def pos_imp_zdiv_nonneg_iff)
    moreover have "max x (1 / 100) * c = max (x * c) (1 / 100 * c)" if "0 < c" for x c :: real
      using that by (simp add: max_mult_distrib_right)
    ultimately show ?thesis by (simp add: faded_def mult.assoc max.assoc)
  qed
  also have "\<dots> = faded t2 h b" using num_seconds_add [OF assms(2-4)] by (simp add: faded_def fade_add)
  finally show ?thesis .
qed


text \<open>
  The half-life does not lead back to uncertainty: a belief within its bounds that gets no new
  evidence for ninety days has a posterior below 0.2, however certain it was, and is to be demoted as
  false.
\<close>

theorem unrefreshed_belief_demoted:
  assumes "belief_ok b" "90 * 86400 \<le> num_seconds (now - decay_anchor b)"
  shows "should_demote (fst (apply_confidence_half_life now 30 b))"
proof -
  have "fade 30 (num_seconds (now - decay_anchor b)) \<le> fade 30 (90 * 86400)" using assms(2) by (intro fade_antimono) simp_all
  also have "\<dots> = 1 / 8" by (simp add: fade_def powr_numeral power3_eq_cube)
  finally have "posterior b * fade 30 (num_seconds (now - decay_anchor b)) \<le> 1 * (1 / 8)"
    using assms(1) by (intro mult_mono) (simp_all add: belief_ok_def less_imp_le)
  then have "faded now 30 b \<le> 1 / 8" by (simp add: faded_def)
  then show ?thesis using assms(2) by (auto simp: half_life_eq should_demote_def abs_if split: if_splits)
qed

end
