(* ===== verification/Belief_Files.thy ===== *)
theory Belief_Files
  imports Belief_Laws
begin

section \<open>The files of the beliefs and the durable tier\<close>

text \<open>
  What a saved belief is read back as, which beliefs are durable, and what building a prompt does to
  the directory it reads.
\<close>

subsection \<open>The durable tier\<close>

definition self_observed :: "EvidenceEntry list \<Rightarrow> bool" where
  "self_observed es \<longleftrightarrow>
     list_ex supports es \<and> list_all (\<lambda>e. supports e \<longrightarrow> source_type e = SelfObservation) es"

definition strong :: "real \<Rightarrow> bool" where "strong w \<longleftrightarrow> 9 / 10 \<le> w"

lemma strong_min [simp]: "strong (min v w) \<longleftrightarrow> strong v \<and> strong w"
  by (simp add: strong_def)

lemma strong_default [simp]: "strong (default_weight s) \<longleftrightarrow> s = SelfObservation"
  by (cases s) (simp_all add: strong_def)

definition weaken :: "real option \<Rightarrow> EvidenceEntry \<Rightarrow> real option" where
  "weaken weakest e =
     (if supports e then
        Some (case weakest of None \<Rightarrow> default_weight (source_type e) | Some w \<Rightarrow> min w (default_weight (source_type e)))
      else weakest)"

lemma weaken_simps [simp]:
  "\<not> supports e \<Longrightarrow> weaken w e = w" "supports e \<Longrightarrow> weaken None e = Some (default_weight (source_type e))"
  "supports e \<Longrightarrow> weaken (Some v) e = Some (min v (default_weight (source_type e)))"
  by (simp_all add: weaken_def)

lemma weaken_fold_Some:
  "\<exists>v. foldl weaken (Some w) es = Some v
     \<and> (strong v \<longleftrightarrow> strong w \<and> list_all (\<lambda>e. supports e \<longrightarrow> source_type e = SelfObservation) es)"
proof (induction es arbitrary: w)
  case (Cons e es)
  show ?case
  proof (cases "supports e")
    case True
    then show ?thesis using Cons [of "min w (default_weight (source_type e))"] by simp
  qed (use Cons in simp)
qed simp

lemma weakest_support_weaken: "weakest_support es = foldl weaken None es"
  by (simp add: weakest_support_def weaken_def [abs_def])

lemma weakest_support_None: "weakest_support es = None \<longleftrightarrow> \<not> list_ex supports es"
  unfolding weakest_support_weaken
proof (induction es)
  case (Cons e es)
  then show ?case using weaken_fold_Some [of "default_weight (source_type e)" es] by (cases "supports e") auto
qed simp

lemma weakest_support_Some: "weakest_support es = Some v \<Longrightarrow> strong v \<longleftrightarrow> self_observed es"
  unfolding weakest_support_weaken
proof (induction es)
  case (Cons e es)
  then show ?case using weaken_fold_Some [of "default_weight (source_type e)" es]
    by (cases "supports e") (auto simp: self_observed_def)
qed simp

text \<open>
  Claim C0. A belief is durable exactly when its posterior is above 0.9, it has had more than five pieces
  of evidence, and the evidence it carries has supporting entries, all of them self-observed: one
  supporting entry of any other source keeps it out, however many others support it.
\<close>

theorem durable_iff:
  "is_durable b \<longleftrightarrow> 9 / 10 < posterior b \<and> 5 < evidence_count b \<and> self_observed (evidence b)"
proof (cases "weakest_support (evidence b)")
  case None
  then show ?thesis using weakest_support_None [of "evidence b"]
    by (simp add: is_durable_def reliability_def DURABLE_WISDOM_RELIABILITY_def UNPROVEN_PROVENANCE_WEIGHT_def self_observed_def)
next
  case (Some v)
  then show ?thesis using weakest_support_Some [OF Some]
    by (auto simp: is_durable_def reliability_def DURABLE_WISDOM_RELIABILITY_def should_promote_def strong_def)
qed

subsection \<open>Loading\<close>

lemma not_durable_without_evidence: "evidence b = [] \<Longrightarrow> \<not> is_durable b"
  by (simp add: is_durable_def reliability_def weakest_support_def DURABLE_WISDOM_RELIABILITY_def UNPROVEN_PROVENANCE_WEIGHT_def)

lemma from_markdown_no_evidence: "belief_from_markdown f now content = Ok b \<Longrightarrow> evidence b = []"
  by (auto simp: belief_from_markdown_def split: option.splits)

lemma load_all_no_evidence: "b \<in> set (belief_load_all f now d) \<Longrightarrow> evidence b = []"
  by (auto simp: belief_load_all_def List.map_filter_def intro: from_markdown_no_evidence
      split: option.splits if_splits result.splits)

lemma evidence_reinforce [simp]: "evidence (reinforce now b) = evidence b" "belief_id (reinforce now b) = belief_id b"
  by (simp_all add: reinforce_def)

lemma surface_without_durable:
  assumes "\<forall>b \<in> set (bs @ ds). evidence b = []"
  shows "fst (partition_belief_surface bs ds) = []"
    and "\<not> prefix durable_header (belief_surface f ids bs ds)"
proof -
  show p: "fst (partition_belief_surface bs ds) = []"
    using assms not_durable_without_evidence by (auto simp: partition_belief_surface_def filter_empty_conv)
  have "belief_surface f ids bs ds = [] \<or> (\<exists>r. belief_surface f ids bs ds = needs_header @ r)"
    using p by (simp add: belief_surface_def case_prod_beta Let_def)
  then show "\<not> prefix durable_header (belief_surface f ids bs ds)"
    by (auto simp: durable_header_def needs_header_def prefix_def)
qed

text \<open>
  Claim C30. The durable section of an agent's prompt is never rendered: beliefs are read from files, the
  reader drops their evidence, and a belief without evidence is not durable, whatever the files say.
\<close>

theorem durable_wisdom_never_surfaces:
  "\<not> prefix durable_header (fst (load_beliefs f writable now today d dd t))"
proof -
  have "\<forall>b \<in> set (map (reinforce now) (fst (prune_stale_from_prompt now (belief_load_all f now d)))
      @ map (reinforce now) (belief_load_all f now dd)). evidence b = []"
    by (auto simp: prune_stale_from_prompt_def dest: load_all_no_evidence)
  from surface_without_durable(2) [OF this] show ?thesis
    by (simp add: load_beliefs_def Let_def durable_header_def)
qed

subsection \<open>Saving\<close>

lemma belief_save_lookup:
  "writable (belief_id b) \<Longrightarrow>
   \<exists>fs. belief_save f writable b d = Some fs \<and> map_of fs (belief_id b @ ''.md'') = Some (belief_to_markdown f b)"
  by (simp add: belief_save_def update_conv)

definition erased :: "Formats \<Rightarrow> string \<Rightarrow> dir option \<Rightarrow> bool" where
  "erased f i d \<longleftrightarrow>
     (\<exists>fs b. d = Some fs \<and> evidence b = [] \<and> belief_id b = i \<and> map_of fs (i @ ''.md'') = Some (belief_to_markdown f b))"

lemma erased_save:
  assumes "evidence b = []"
  shows "erased f i d \<Longrightarrow> erased f i (belief_save f writable b d)"
    and "writable (belief_id b) \<Longrightarrow> erased f (belief_id b) (belief_save f writable b d)"
proof -
  show "erased f (belief_id b) (belief_save f writable b d)" if "writable (belief_id b)"
    using belief_save_lookup [of writable b f d] that assms by (auto simp: erased_def)
  show "erased f i (belief_save f writable b d)" if "erased f i d"
  proof (cases "belief_id b = i")
    case True
    then show ?thesis using that assms belief_save_lookup [of writable b f d]
      by (cases "writable i") (auto simp: erased_def belief_save_def)
  next
    case False
    then show ?thesis using that by (auto simp: erased_def belief_save_def update_conv)
  qed
qed

lemma erased_save_all:
  "\<forall>b \<in> set bs. evidence b = [] \<Longrightarrow> b \<in> set bs \<Longrightarrow> writable (belief_id b) \<or> erased f (belief_id b) d
   \<Longrightarrow> erased f (belief_id b) (save_all f writable bs d)"
proof (induction bs arbitrary: d)
  case (Cons c bs)
  have keep: "erased f i d' \<Longrightarrow> erased f i (save_all f writable bs d')" for i d'
    using Cons.prems(1)
  proof (induction bs arbitrary: d')
    case (Cons x xs)
    then show ?case using erased_save(1) [of x f i d' writable] by (simp add: save_all_def)
  qed (simp add: save_all_def)
  show ?case
  proof (cases "b = c")
    case True
    then have "erased f (belief_id b) (belief_save f writable c d)"
      using Cons.prems erased_save(1) [of c f "belief_id c" d writable] erased_save(2) [of c writable f d] by auto
    then show ?thesis using keep by (simp add: save_all_def)
  next
    case False
    then have "erased f (belief_id b) (save_all f writable bs (belief_save f writable c d))"
      using Cons.prems erased_save(1) [of c f "belief_id b" d writable] by (intro Cons.IH) auto
    then show ?thesis by (simp add: save_all_def)
  qed
qed simp


subsection \<open>Reading back\<close>

text \<open>The printed numbers and times of a belief can be read: a number to its last printed digit.\<close>

definition reads_back :: "Formats \<Rightarrow> nat \<Rightarrow> real \<Rightarrow> bool" where
  "reads_back f n x \<longleftrightarrow>
     plain (fixed f n x) \<and> (\<exists>y. parse_f64 f (fixed f n x) = Some y \<and> \<bar>y - x\<bar> \<le> 1 / (2 * 10 ^ n))"

definition time_back :: "Formats \<Rightarrow> int \<Rightarrow> bool" where
  "time_back f t \<longleftrightarrow> plain (rfc3339 f t) \<and> parse_rfc3339 f (rfc3339 f t) = Some t"

definition printable :: "Formats \<Rightarrow> Belief \<Rightarrow> bool" where
  "printable f b \<longleftrightarrow>
     plain (belief_id b) \<and> plain (domain b) \<and> on_boundary (belief_proposition b) \<and> CHR 10 \<notin> set (belief_proposition b)
     \<and> evidence_count b < u32_bound \<and> reads_back f 4 (posterior b) \<and> reads_back f 4 (belief_weight b)
     \<and> time_back f (belief_created_at b) \<and> time_back f (last_updated b)
     \<and> pred_option (time_back f) (last_retrieved b) \<and> pred_option (time_back f) (last_decayed_at b)"

lemma plain_field: "list_all key_char k \<Longrightarrow> k \<noteq> [] \<Longrightarrow> plain v \<Longrightarrow> field_ok (k, v)"
  by (simp add: plain_def field_ok_def)

lemma belief_keys:
  "plain v \<Longrightarrow> field_ok (''id'', v)"
  "plain v \<Longrightarrow> field_ok (''proposition'', v)"
  "plain v \<Longrightarrow> field_ok (''posterior'', v)"
  "plain v \<Longrightarrow> field_ok (''evidence_count'', v)"
  "plain v \<Longrightarrow> field_ok (''weight'', v)"
  "plain v \<Longrightarrow> field_ok (''domain'', v)"
  "plain v \<Longrightarrow> field_ok (''created_at'', v)"
  "plain v \<Longrightarrow> field_ok (''last_updated'', v)"
  "plain v \<Longrightarrow> field_ok (''last_retrieved'', v)"
  "plain v \<Longrightarrow> field_ok (''last_decayed_at'', v)"
  by (erule plain_field [rotated 2]; code_simp)+

lemma belief_fields_ok:
  assumes "printable f b"
  shows "list_all field_ok (belief_fields f b)"
proof -
  have "list_all field_ok (time_field f ''last_retrieved'' (last_retrieved b))"
    "list_all field_ok (time_field f ''last_decayed_at'' (last_decayed_at b))"
    using assms by (cases "last_retrieved b"; cases "last_decayed_at b";
      simp add: printable_def time_field_def time_back_def belief_keys)+
  then show ?thesis using assms quoted_plain [of "belief_proposition b"]
    by (simp add: belief_fields_def printable_def reads_back_def time_back_def nat_str_plain belief_keys)
qed

lemma time_field_lookup:
  "lookup_field (time_field f key t) key' =
     (if key = key' then (case t of Some x \<Rightarrow> if trim (rfc3339 f x) \<noteq> [] then Some (trim (rfc3339 f x)) else None | None \<Rightarrow> None) else None)"
  by (cases t) (auto simp: time_field_def)

lemma time_read:
  "pred_option (time_back f) t \<Longrightarrow> Option.bind (lookup_field (time_field f key t) key) (parse_rfc3339 f) = t"
  by (cases t) (simp_all add: time_field_def time_back_def plain_def)

lemma belief_lookups:
  assumes "printable f b"
  shows "lookup_field (belief_fields f b) ''id'' = Some (belief_id b)"
    "lookup_field (belief_fields f b) ''proposition'' = Some (quoted (belief_proposition b))"
    "lookup_field (belief_fields f b) ''posterior'' = Some (fixed f 4 (posterior b))"
    "lookup_field (belief_fields f b) ''evidence_count'' = Some (nat_str (evidence_count b))"
    "lookup_field (belief_fields f b) ''weight'' = Some (fixed f 4 (belief_weight b))"
    "lookup_field (belief_fields f b) ''domain'' = Some (domain b)"
    "lookup_field (belief_fields f b) ''created_at'' = Some (rfc3339 f (belief_created_at b))"
    "lookup_field (belief_fields f b) ''last_updated'' = Some (rfc3339 f (last_updated b))"
    "lookup_field (belief_fields f b) ''last_retrieved'' = lookup_field (time_field f ''last_retrieved'' (last_retrieved b)) ''last_retrieved''"
    "lookup_field (belief_fields f b) ''last_decayed_at'' = lookup_field (time_field f ''last_decayed_at'' (last_decayed_at b)) ''last_decayed_at''"
proof -
  have t: "plain v \<Longrightarrow> trim v = v \<and> v \<noteq> []" for v by (simp add: plain_def)
  note p = assms [unfolded printable_def reads_back_def time_back_def]
  have q: "plain (quoted (belief_proposition b))" using p by (intro quoted_plain) simp_all
  show "lookup_field (belief_fields f b) ''id'' = Some (belief_id b)" using p t by (simp add: belief_fields_def)
  show "lookup_field (belief_fields f b) ''proposition'' = Some (quoted (belief_proposition b))" using q t by (simp add: belief_fields_def)
  show "lookup_field (belief_fields f b) ''posterior'' = Some (fixed f 4 (posterior b))" using p t by (simp add: belief_fields_def)
  show "lookup_field (belief_fields f b) ''evidence_count'' = Some (nat_str (evidence_count b))"
    using t [OF nat_str_plain] by (simp add: belief_fields_def)
  show "lookup_field (belief_fields f b) ''weight'' = Some (fixed f 4 (belief_weight b))" using p t by (simp add: belief_fields_def)
  show "lookup_field (belief_fields f b) ''domain'' = Some (domain b)" using p t by (simp add: belief_fields_def)
  show "lookup_field (belief_fields f b) ''created_at'' = Some (rfc3339 f (belief_created_at b))" using p t by (simp add: belief_fields_def)
  show "lookup_field (belief_fields f b) ''last_updated'' = Some (rfc3339 f (last_updated b))" using p t by (simp add: belief_fields_def)
qed (simp_all add: belief_fields_def time_field_lookup split: option.splits)

lemma belief_reload_general:
  assumes "printable f b"
  obtains x w where
    "belief_from_markdown f now (belief_to_markdown f b) =
       Ok (b\<lparr>belief_proposition := trim_char (CHR 34) (quoted (belief_proposition b)), posterior := x, belief_weight := w, evidence := []\<rparr>)"
    "\<bar>x - posterior b\<bar> \<le> 1 / 20000" "\<bar>w - belief_weight b\<bar> \<le> 1 / 20000"
proof -
  obtain fm where fm: "extract_frontmatter (belief_to_markdown f b) = Some fm"
    "\<And>key. CHR '':'' \<notin> set key \<Longrightarrow> parse_field fm key = lookup_field (belief_fields f b) key"
    unfolding belief_to_markdown_def
    using frontmatter_read_back [OF belief_fields_ok [OF assms], of "CHR 10 # belief_body f b"] by blast
  from assms obtain x w where x: "parse_f64 f (fixed f 4 (posterior b)) = Some x" "\<bar>x - posterior b\<bar> \<le> 1 / 20000"
    and w: "parse_f64 f (fixed f 4 (belief_weight b)) = Some w" "\<bar>w - belief_weight b\<bar> \<le> 1 / 20000"
    by (auto simp: printable_def reads_back_def)
  have t: "parse_rfc3339 f (rfc3339 f (belief_created_at b)) = Some (belief_created_at b)"
    "parse_rfc3339 f (rfc3339 f (last_updated b)) = Some (last_updated b)"
    "Option.bind (lookup_field (time_field f ''last_retrieved'' (last_retrieved b)) ''last_retrieved'') (parse_rfc3339 f) = last_retrieved b"
    "Option.bind (lookup_field (time_field f ''last_decayed_at'' (last_decayed_at b)) ''last_decayed_at'') (parse_rfc3339 f) = last_decayed_at b"
    using assms by (simp_all add: printable_def time_back_def time_read)
  have n: "evidence_count b < u32_bound" using assms by (simp add: printable_def)
  have "belief_from_markdown f now (belief_to_markdown f b) =
      Ok (b\<lparr>belief_proposition := trim_char (CHR 34) (quoted (belief_proposition b)), posterior := x, belief_weight := w, evidence := []\<rparr>)"
    by (simp add: belief_from_markdown_def fm belief_lookups [OF assms] x(1) w(1) t n or_now_def)
  then show ?thesis using x(2) w(2) by (rule that)
qed

text \<open>
  Claim C29. A saved belief whose statement is one line without quotes is read back with every field but
  its evidence, which is lost; the posterior and the weight come back to four digits.
\<close>

theorem belief_reload:
  assumes "printable f b" "CHR 34 \<notin> set (belief_proposition b)"
  shows "\<exists>x w. belief_from_markdown f now (belief_to_markdown f b) = Ok (b\<lparr>posterior := x, belief_weight := w, evidence := []\<rparr>)
    \<and> \<bar>x - posterior b\<bar> \<le> 1 / 20000 \<and> \<bar>w - belief_weight b\<bar> \<le> 1 / 20000"
proof -
  obtain x w where r: "belief_from_markdown f now (belief_to_markdown f b) =
       Ok (b\<lparr>belief_proposition := trim_char (CHR 34) (quoted (belief_proposition b)), posterior := x, belief_weight := w, evidence := []\<rparr>)"
    "\<bar>x - posterior b\<bar> \<le> 1 / 20000" "\<bar>w - belief_weight b\<bar> \<le> 1 / 20000"
    by (rule belief_reload_general [OF assms(1)])
  have "b\<lparr>belief_proposition := belief_proposition b, posterior := x, belief_weight := w, evidence := []\<rparr>
      = b\<lparr>posterior := x, belief_weight := w, evidence := []\<rparr>" by simp
  with r show ?thesis unfolding trim_quoted [OF assms(2)] by metis
qed

subsection \<open>Witnesses\<close>

definition small_formats :: Formats where
  "small_formats =
     \<lparr>fixed = (\<lambda>_ x. if x = 1 then ''1.0000'' else ''0.5000''),
      parse_f64 = (\<lambda>s. if s = ''1.0000'' then Some 1 else Some (1 / 2)),
      rfc3339 = (\<lambda>_. ''1970-01-01T00:00:00+00:00''), parse_rfc3339 = (\<lambda>_. Some 0), ymd = (\<lambda>_. ''1970-01-01'')\<rparr>"

definition small_belief :: Belief where
  "small_belief = belief_new 0 ''tests-help'' ''Tests help'' ''work''"

definition logged_belief :: Belief where
  "logged_belief = small_belief\<lparr>evidence_count := 1,
     evidence := [\<lparr>ev_timestamp = 0, supports = True, source_weight = 1, source_type = SelfObservation, research_method = None, ev_note = None\<rparr>]\<rparr>"

theorem belief_bounds_witness: "posterior (reinforce 7 small_belief) \<le> 99 / 100"
proof -
  have "steps belief_step (belief_new 0 ''tests-help'' ''Tests help'' ''work'') [BReinforce 7] (reinforce 7 small_belief)"
    unfolding small_belief_def by (rule steps.intros)+ simp_all
  then show ?thesis using belief_bounds by blast
qed

theorem evidence_direction_witness:
  "posterior (belief_update 0 False AnonymousInternet None small_belief) \<le> 2 / 10"
  using evidence_direction [of small_belief 0 AnonymousInternet None] by (simp add: small_belief_def belief_new_def)


theorem unrefreshed_belief_demoted_witness:
  "should_demote (fst (apply_confidence_half_life (90 * DAY) 30 small_belief))"
  by (rule unrefreshed_belief_demoted)
     (simp_all add: small_belief_def belief_new_def belief_ok_def decay_anchor_def num_seconds_def DAY_def NANOS_def)

lemma small_printable: "printable small_formats logged_belief"
proof -
  have p: "plain ''tests-help''" "plain ''work''" "plain ''0.5000''" "plain ''1.0000''" "plain ''1970-01-01T00:00:00+00:00''"
    "on_boundary ''Tests help''" by code_simp+
  then have "reads_back small_formats 4 (1 / 2)" "reads_back small_formats 4 1"
    unfolding reads_back_def by (auto simp: small_formats_def intro!: exI [of _ "1 / 2"])
  with p show ?thesis
    by (simp add: printable_def time_back_def small_formats_def logged_belief_def small_belief_def belief_new_def u32_bound_def)
qed

theorem belief_reload_witness:
  "\<exists>x w. belief_from_markdown small_formats 9 (belief_to_markdown small_formats logged_belief)
       = Ok (logged_belief\<lparr>posterior := x, belief_weight := w, evidence := []\<rparr>)
    \<and> \<bar>x - posterior logged_belief\<bar> \<le> 1 / 20000 \<and> \<bar>w - belief_weight logged_belief\<bar> \<le> 1 / 20000"
  by (rule belief_reload [OF small_printable]) (simp add: logged_belief_def small_belief_def belief_new_def)

definition small_dir :: "dir option" where
  "small_dir = Some [(''tests-help.md'', belief_to_markdown small_formats logged_belief)]"

lemma small_dir_loads:
  obtains b where "b \<in> set (belief_load_all small_formats 9 small_dir)" "belief_id b = ''tests-help''" "\<not> stale 9 b"
proof -
  have i: "belief_id logged_belief = ''tests-help''" "posterior logged_belief = 1 / 2"
    by (simp_all add: logged_belief_def small_belief_def belief_new_def)
  obtain x w where "belief_from_markdown small_formats 9 (belief_to_markdown small_formats logged_belief) =
       Ok (logged_belief\<lparr>belief_proposition := trim_char (CHR 34) (quoted (belief_proposition logged_belief)),
             posterior := x, belief_weight := w, evidence := []\<rparr>)" (is "_ = Ok ?b")
    and x: "\<bar>x - posterior logged_belief\<bar> \<le> 1 / 20000"
    by (rule belief_reload_general [OF small_printable])
  moreover have "has_md_extension ''tests-help.md''" by code_simp
  ultimately have "?b \<in> set (belief_load_all small_formats 9 small_dir)"
    by (simp add: belief_load_all_def small_dir_def map_filter_simps)
  moreover have "\<not> stale 9 ?b" using x unfolding i by (simp add: stale_def abs_if split: if_splits)
  ultimately show ?thesis using i by (intro that [of ?b]) simp_all
qed


end
