(* ===== verification/Commitments.thy ===== *)
theory Commitments
  imports Beliefs
begin

section \<open>Commitments (zen-memory/src/commitment.rs, priority.rs)\<close>

text \<open>
  The lifecycle of a commitment with its guards, its milestones and stop-loss, the markdown file with
  its parser, and the priority of belief and commitment pairs. Dates are days. The clock is an argument
  of the operations that read it.
\<close>

subsection \<open>Data\<close>

datatype CommitmentState = Drafted | Validated | Executing | Reviewing | Completed | Abandoned | Pivoted

fun state_str :: "CommitmentState \<Rightarrow> string" where
  "state_str Drafted = ''drafted''"
| "state_str Validated = ''validated''"
| "state_str Executing = ''executing''"
| "state_str Reviewing = ''reviewing''"
| "state_str Completed = ''completed''"
| "state_str Abandoned = ''abandoned''"
| "state_str Pivoted = ''pivoted''"

definition state_from_str :: "string \<Rightarrow> CommitmentState option" where
  "state_from_str s =
     (if s = ''drafted'' then Some Drafted
      else if s = ''validated'' then Some Validated
      else if s = ''executing'' then Some Executing
      else if s = ''reviewing'' then Some Reviewing
      else if s = ''completed'' then Some Completed
      else if s = ''abandoned'' then Some Abandoned
      else if s = ''pivoted'' then Some Pivoted
      else None)"

datatype TransitionError =
  MissingValidation | MissingStopLoss | InsufficientMilestones nat | MissingMilestoneDataFeedback
| MissingRetrospective | MissingStopLossExtraction | MissingSustainedValue | InvalidTransition string string

record Milestone =
  ms_description :: string
  target_date :: "int option"
  ms_completed :: bool
  completed_at :: "int option"

record StopLossLine =
  economic :: "real option"
  time_hours :: "real option"
  trigger_action :: string
  stop_triggered :: bool
  triggered_at :: "int option"

definition stop_loss_default :: StopLossLine where
  "stop_loss_default = \<lparr>economic = None, time_hours = None, trigger_action = ''abandon + extract sustained value'',
     stop_triggered = False, triggered_at = None\<rparr>"

record ExecutionChecklist =
  low_cost_validation :: "string option"
  detail_risks_identified :: bool
  avoid_perfect_decision :: bool
  milestone_feedback_planned :: bool
  retrospective_planned :: bool
  self_discipline_assessed :: bool
  stop_loss_committed :: bool
  checklist_value_plan :: "string option"

definition checklist_default :: ExecutionChecklist where
  "checklist_default = \<lparr>low_cost_validation = None, detail_risks_identified = False, avoid_perfect_decision = False,
     milestone_feedback_planned = False, retrospective_planned = False, self_discipline_assessed = False,
     stop_loss_committed = False, checklist_value_plan = None\<rparr>"

definition completed_count :: "ExecutionChecklist \<Rightarrow> nat" where
  "completed_count c =
     length (filter id [low_cost_validation c \<noteq> None, detail_risks_identified c, avoid_perfect_decision c,
       milestone_feedback_planned c, retrospective_planned c, self_discipline_assessed c, stop_loss_committed c,
       checklist_value_plan c \<noteq> None])"

definition checklist_complete :: "ExecutionChecklist \<Rightarrow> bool" where
  "checklist_complete c \<longleftrightarrow> completed_count c = 8"

record Commitment =
  commitment_id :: string
  what :: string
  cstate :: CommitmentState
  by_when :: "int option"
  review_at :: "int option"
  next_action :: string
  two_minute_rule :: bool
  milestones :: "Milestone list"
  stop_loss :: StopLossLine
  discipline_streak :: nat
  sustained_value_plan :: "string option"
  retrospective :: "string option"
  execution_checklist :: ExecutionChecklist
  source_journal :: "string option"
  created_at :: int
  updated_at :: int
  closed_at :: "int option"

definition commitment_new :: "int \<Rightarrow> string \<Rightarrow> string \<Rightarrow> Commitment" where
  "commitment_new now uuid w =
     \<lparr>commitment_id = uuid, what = w, cstate = Drafted, by_when = None, review_at = None, next_action = [],
      two_minute_rule = False, milestones = [], stop_loss = stop_loss_default, discipline_streak = 0,
      sustained_value_plan = None, retrospective = None, execution_checklist = checklist_default,
      source_journal = None, created_at = now, updated_at = now, closed_at = None\<rparr>"

definition commitment_from_raw :: "int \<Rightarrow> string \<Rightarrow> string \<Rightarrow> Commitment" where
  "commitment_from_raw now uuid t = (commitment_new now uuid t)\<lparr>next_action := t\<rparr>"

text \<open>The Unicode tables behind \<open>is_alphanumeric\<close> and \<open>to_lowercase\<close> are arguments.\<close>

definition commitment_slug_of :: "(string \<Rightarrow> bool) \<Rightarrow> (string \<Rightarrow> string) \<Rightarrow> Commitment \<Rightarrow> string" where
  "commitment_slug_of alnum lower c = slugify_proposition alnum lower (what c)"

subsection \<open>The state machine\<close>

definition can_transition_to :: "Commitment \<Rightarrow> CommitmentState \<Rightarrow> (unit, TransitionError) result" where
  "can_transition_to c target =
     (case (cstate c, target) of
        (Drafted, Validated) \<Rightarrow>
          if low_cost_validation (execution_checklist c) = None then Err MissingValidation
          else if \<not> stop_triggered (stop_loss c) \<and> economic (stop_loss c) = None \<and> time_hours (stop_loss c) = None
          then Err MissingStopLoss
          else Ok ()
      | (Validated, Executing) \<Rightarrow>
          if length (milestones c) < 3 then Err (InsufficientMilestones (length (milestones c))) else Ok ()
      | (Executing, Reviewing) \<Rightarrow>
          if list_all (\<lambda>m. ms_completed m \<and> completed_at m \<noteq> None) (milestones c) then Ok ()
          else Err MissingMilestoneDataFeedback
      | (Reviewing, Completed) \<Rightarrow>
          (case retrospective c of
             Some r \<Rightarrow> if trim r \<noteq> [] then Ok () else Err MissingRetrospective
           | None \<Rightarrow> Err MissingRetrospective)
      | (Reviewing, Pivoted) \<Rightarrow> if sustained_value_plan c = None then Err MissingSustainedValue else Ok ()
      | (_, Abandoned) \<Rightarrow>
          if \<not> stop_triggered (stop_loss c) \<and> sustained_value_plan c = None then Err MissingStopLossExtraction else Ok ()
      | (src, tgt) \<Rightarrow> Err (InvalidTransition (state_str src) (state_str tgt)))"

definition is_closed :: "CommitmentState \<Rightarrow> bool" where
  "is_closed s \<longleftrightarrow> s \<in> {Completed, Abandoned, Pivoted}"

definition transition :: "int \<Rightarrow> CommitmentState \<Rightarrow> Commitment \<Rightarrow> Commitment \<times> (unit, TransitionError) result" where
  "transition now target c =
     (case can_transition_to c target of
        Err e \<Rightarrow> (c, Err e)
      | Ok _ \<Rightarrow>
          (let c1 = c\<lparr>cstate := target, updated_at := now\<rparr>
           in (if is_closed target then c1\<lparr>closed_at := Some now\<rparr> else c1, Ok ())))"

definition trigger_stop_loss :: "int \<Rightarrow> Commitment \<Rightarrow> Commitment" where
  "trigger_stop_loss now c =
     fst (transition now Abandoned (c\<lparr>stop_loss := (stop_loss c)\<lparr>stop_triggered := True, triggered_at := Some now\<rparr>\<rparr>))"

definition add_milestone :: "int \<Rightarrow> string \<Rightarrow> int option \<Rightarrow> Commitment \<Rightarrow> Commitment" where
  "add_milestone now d t c =
     c\<lparr>milestones := milestones c @ [\<lparr>ms_description = d, target_date = t, ms_completed = False, completed_at = None\<rparr>],
       updated_at := now\<rparr>"

definition complete_milestone :: "int \<Rightarrow> nat \<Rightarrow> Commitment \<Rightarrow> Commitment \<times> (unit, string) result" where
  "complete_milestone now i c =
     (if length (milestones c) \<le> i then (c, Err (''milestone index '' @ nat_str i @ '' out of range''))
      else if ms_completed (milestones c ! i) then (c, Err ''milestone already completed'')
      else (c\<lparr>milestones := (milestones c)[i := (milestones c ! i)\<lparr>ms_completed := True, completed_at := Some now\<rparr>],
              updated_at := now\<rparr>, Ok ()))"

definition is_overdue :: "int \<Rightarrow> Commitment \<Rightarrow> bool" where
  "is_overdue today c \<longleftrightarrow>
     \<not> is_closed (cstate c) \<and> (case review_at c of Some d \<Rightarrow> d < today | None \<Rightarrow> False)"

subsection \<open>The file of a commitment\<close>

record DateFormats = Formats +
  date_str :: "int \<Rightarrow> string"
  parse_date :: "string \<Rightarrow> int option"
  f64_str :: "real \<Rightarrow> string"

definition bool_str :: "bool \<Rightarrow> string" where
  "bool_str b = (if b then ''true'' else ''false'')"

definition opt_field :: "string \<Rightarrow> ('a \<Rightarrow> string) \<Rightarrow> 'a option \<Rightarrow> (string \<times> string) list" where
  "opt_field key shw x = (case x of Some v \<Rightarrow> [(key, shw v)] | None \<Rightarrow> [])"

definition commitment_fields :: "DateFormats \<Rightarrow> Commitment \<Rightarrow> (string \<times> string) list" where
  "commitment_fields f c =
     [(''id'', commitment_id c), (''what'', quoted (what c)), (''state'', state_str (cstate c))]
     @ opt_field ''by_when'' (date_str f) (by_when c)
     @ opt_field ''review_at'' (date_str f) (review_at c)
     @ [(''next_action'', quoted (next_action c)),
        (''two_minute_rule'', bool_str (two_minute_rule c)),
        (''discipline_streak'', nat_str (discipline_streak c)),
        (''created_at'', rfc3339 f (created_at c)),
        (''updated_at'', rfc3339 f (updated_at c))]
     @ opt_field ''closed_at'' (rfc3339 f) (closed_at c)
     @ opt_field ''source_journal'' (\<lambda>j. j) (source_journal c)"

definition milestone_line :: "DateFormats \<Rightarrow> Milestone \<Rightarrow> string" where
  "milestone_line f m =
     ''- ['' @ (if ms_completed m then ''x'' else '' '') @ ''] '' @ ms_description m
     @ (case target_date m of Some d \<Rightarrow> '' (by '' @ date_str f d @ '')'' | None \<Rightarrow> []) @ [CHR 10]"

definition commitment_body :: "DateFormats \<Rightarrow> Commitment \<Rightarrow> string" where
  "commitment_body f c =
     ''# Commitment: '' @ what c @ [CHR 10, CHR 10]
     @ ''**State**: '' @ state_str (cstate c) @ [CHR 10, CHR 10]
     @ ''## Milestones'' @ [CHR 10, CHR 10]
     @ (if milestones c = [] then ''_(no milestones)_'' @ [CHR 10] else concat (map (milestone_line f) (milestones c)))
     @ [CHR 10]
     @ ''## Stop Loss'' @ [CHR 10, CHR 10]
     @ (case economic (stop_loss c) of Some e \<Rightarrow> ''economic: '' @ f64_str f e @ [CHR 10] | None \<Rightarrow> [])
     @ (case time_hours (stop_loss c) of Some e \<Rightarrow> ''time_hours: '' @ f64_str f e @ [CHR 10] | None \<Rightarrow> [])
     @ ''trigger_action: '' @ trigger_action (stop_loss c) @ [CHR 10]
     @ ''triggered: '' @ bool_str (stop_triggered (stop_loss c)) @ [CHR 10]
     @ [CHR 10]
     @ (case sustained_value_plan c of Some p \<Rightarrow> ''## Sustained Value Plan'' @ [CHR 10, CHR 10] @ p @ [CHR 10, CHR 10] | None \<Rightarrow> [])"

definition commitment_to_markdown :: "DateFormats \<Rightarrow> Commitment \<Rightarrow> string" where
  "commitment_to_markdown f c =
     lines_text (''---'' # map field_line (commitment_fields f c) @ [''---'']) @ CHR 10 # commitment_body f c"

text \<open>The body after the second rule; every line gets a line feed.\<close>

fun body_lines :: "string list \<Rightarrow> string list" where
  "body_lines [] = []"
| "body_lines (line # ls) = (if trim line = ''---'' then ls else body_lines ls)"

definition extract_body :: "string \<Rightarrow> string" where
  "extract_body content = lines_text (body_lines (drop 1 (str_lines content)))"

text \<open>The lines of a section: after its heading, up to the next one.\<close>

fun section_lines :: "string \<Rightarrow> bool \<Rightarrow> string list \<Rightarrow> string list" where
  "section_lines header in_section [] = []"
| "section_lines header in_section (line # ls) =
     (if trim line = header then section_lines header True ls
      else if in_section then (if starts_with (trim line) ''## '' then [] else line # section_lines header True ls)
      else section_lines header False ls)"

definition str_rfind :: "string \<Rightarrow> string \<Rightarrow> nat option" where
  "str_rfind s p = find (\<lambda>i. prefix p (drop i s)) (rev [0..<Suc (length s)])"

definition parse_milestone :: "DateFormats \<Rightarrow> string \<Rightarrow> Milestone" where
  "parse_milestone f item =
     (let completed = starts_with item ''[x] '';
          desc = (case strip_prefix item (if completed then ''[x] '' else ''[ ] '') of Some r \<Rightarrow> r | None \<Rightarrow> item)
      in case str_rfind desc '' (by '' of
           Some i \<Rightarrow> \<lparr>ms_description = take i desc,
                      target_date = parse_date f (trim_end_char (CHR '')'') (drop (i + 5) desc)),
                      ms_completed = completed, completed_at = None\<rparr>
         | None \<Rightarrow> \<lparr>ms_description = desc, target_date = None, ms_completed = completed, completed_at = None\<rparr>)"

definition parse_milestones :: "DateFormats \<Rightarrow> string \<Rightarrow> Milestone list" where
  "parse_milestones f body =
     List.map_filter (\<lambda>line. map_option (parse_milestone f) (strip_prefix (trim line) ''- ''))
       (section_lines ''## Milestones'' False (str_lines body))"

definition stop_loss_line :: "DateFormats \<Rightarrow> StopLossLine \<Rightarrow> string \<Rightarrow> StopLossLine" where
  "stop_loss_line f sl line =
     (let trimmed = trim line
      in case strip_prefix trimmed ''economic: '' of
           Some v \<Rightarrow> sl\<lparr>economic := parse_f64 f v\<rparr>
         | None \<Rightarrow>
        (case strip_prefix trimmed ''time_hours: '' of
           Some v \<Rightarrow> sl\<lparr>time_hours := parse_f64 f v\<rparr>
         | None \<Rightarrow>
        (case strip_prefix trimmed ''trigger_action: '' of
           Some v \<Rightarrow> sl\<lparr>trigger_action := v\<rparr>
         | None \<Rightarrow>
        (case strip_prefix trimmed ''triggered: '' of
           Some v \<Rightarrow> sl\<lparr>stop_triggered := (v = ''true'')\<rparr>
         | None \<Rightarrow> sl))))"

definition parse_stop_loss :: "DateFormats \<Rightarrow> string \<Rightarrow> StopLossLine" where
  "parse_stop_loss f body = foldl (stop_loss_line f) stop_loss_default (section_lines ''## Stop Loss'' False (str_lines body))"

definition parse_body_section :: "string \<Rightarrow> string \<Rightarrow> string option" where
  "parse_body_section body header =
     (case dropWhile (\<lambda>line. trim line \<noteq> header) (str_lines body) of
        [] \<Rightarrow> None
      | _ # ls \<Rightarrow>
          (let content = trim (lines_text (takeWhile (\<lambda>line. \<not> starts_with (trim line) ''## '') ls))
           in if content = [] then None else Some content))"

datatype CommitmentError = CIo string | CParse string

definition unquoted_field :: "string \<Rightarrow> string \<Rightarrow> string" where
  "unquoted_field fm key = (case parse_field fm key of Some s \<Rightarrow> trim_char (CHR 34) s | None \<Rightarrow> [])"

definition time_or_now :: "DateFormats \<Rightarrow> int \<Rightarrow> string \<Rightarrow> string \<Rightarrow> int" where
  "time_or_now f now fm key = or_now now (Option.bind (parse_field fm key) (parse_rfc3339 f))"

definition commitment_from_markdown :: "DateFormats \<Rightarrow> int \<Rightarrow> string \<Rightarrow> (Commitment, CommitmentError) result" where
  "commitment_from_markdown f now content =
     (case extract_frontmatter content of
        None \<Rightarrow> Err (CParse ''missing frontmatter'')
      | Some fm \<Rightarrow>
     (case parse_field fm ''id'' of
        None \<Rightarrow> Err (CParse ''missing id field'')
      | Some i \<Rightarrow>
        (let body = extract_body content
         in Ok \<lparr>commitment_id = i, what = unquoted_field fm ''what'',
               cstate = (case Option.bind (parse_field fm ''state'') state_from_str of Some s \<Rightarrow> s | None \<Rightarrow> Drafted),
               by_when = Option.bind (parse_field fm ''by_when'') (parse_date f),
               review_at = Option.bind (parse_field fm ''review_at'') (parse_date f),
               next_action = unquoted_field fm ''next_action'',
               two_minute_rule = (parse_field fm ''two_minute_rule'' = Some ''true''),
               milestones = parse_milestones f body, stop_loss = parse_stop_loss f body,
               discipline_streak = (case Option.bind (parse_field fm ''discipline_streak'') (parse_uint u32_bound) of Some n \<Rightarrow> n | None \<Rightarrow> 0),
               sustained_value_plan = parse_body_section body ''## Sustained Value Plan'',
               retrospective = parse_body_section body ''## Retrospective'',
               execution_checklist = checklist_default,
               source_journal = parse_field fm ''source_journal'',
               created_at = time_or_now f now fm ''created_at'', updated_at = time_or_now f now fm ''updated_at'',
               closed_at = Option.bind (parse_field fm ''closed_at'') (parse_rfc3339 f)\<rparr>)))"

definition commitment_load_all :: "DateFormats \<Rightarrow> int \<Rightarrow> dir option \<Rightarrow> Commitment list" where
  "commitment_load_all f now d =
     (case d of
        None \<Rightarrow> []
      | Some files \<Rightarrow>
          List.map_filter (\<lambda>(name, content).
             if has_md_extension name then (case commitment_from_markdown f now content of Ok c \<Rightarrow> Some c | Err _ \<Rightarrow> None)
             else None) files)"

definition commitment_save :: "DateFormats \<Rightarrow> (Commitment \<Rightarrow> string) \<Rightarrow> bool \<Rightarrow> Commitment \<Rightarrow> dir option \<Rightarrow> dir option" where
  "commitment_save f slug_of writable c d =
     (if writable
      then Some (AList.update (slug_of c @ ''.md'') (commitment_to_markdown f c) (case d of Some fs \<Rightarrow> fs | None \<Rightarrow> []))
      else d)"

subsection \<open>Priorities (priority.rs)\<close>

record PriorityScore =
  score_belief :: string
  belief_statement :: string
  commitment_slug :: string
  commitment_text :: string
  score :: real
  score_posterior :: real
  expected_value :: real
  streak :: nat

definition pair_score :: "(Commitment \<Rightarrow> string) \<Rightarrow> (string \<rightharpoonup> real) \<Rightarrow> Belief \<Rightarrow> Commitment \<Rightarrow> PriorityScore option" where
  "pair_score slug_of ev_map b c =
     (let ev = (case ev_map (commitment_id c) of Some e \<Rightarrow> e | None \<Rightarrow> 1)
      in if ev \<le> 0 then None
         else Some \<lparr>score_belief = belief_id b, belief_statement = belief_proposition b,
                    commitment_slug = slug_of c, commitment_text = what c,
                    score = posterior b * ev * (1 / real (max (discipline_streak c) 1)), score_posterior = posterior b,
                    expected_value = ev, streak = discipline_streak c\<rparr>)"

definition compute_priority_scores_with_ev ::
  "(Commitment \<Rightarrow> string) \<Rightarrow> Belief list \<Rightarrow> Commitment list \<Rightarrow> (string \<rightharpoonup> real) \<Rightarrow> PriorityScore list" where
  "compute_priority_scores_with_ev slug_of beliefs commitments ev_map =
     (let active = filter (\<lambda>c. cstate c = Validated \<or> cstate c = Executing) commitments
      in sort_key (\<lambda>s. - score s) (concat (map (\<lambda>b. List.map_filter (pair_score slug_of ev_map b) active) beliefs)))"

definition top_n_by_priority :: "(Commitment \<Rightarrow> string) \<Rightarrow> Belief list \<Rightarrow> Commitment list \<Rightarrow> nat \<Rightarrow> PriorityScore list" where
  "top_n_by_priority slug_of beliefs commitments n = take n (compute_priority_scores_with_ev slug_of beliefs commitments Map.empty)"

end
