(* ===== verification/Commitment_Laws.thy ===== *)
theory Commitment_Laws
  imports Commitments
begin

section \<open>Laws of commitments\<close>

text \<open>
  The lifecycle under the methods and under edits of the public fields, and what a commitment read from
  its file can still become.
\<close>

subsection \<open>Steps\<close>

datatype commitment_label =
  CTransition int CommitmentState | CStopLoss int | CAdd int string "int option" | CComplete int nat
| CEdit ExecutionChecklist StopLossLine "string option" "string option"

fun method_step :: "Commitment \<Rightarrow> commitment_label \<Rightarrow> Commitment \<Rightarrow> bool" where
  "method_step c (CTransition now t) d \<longleftrightarrow> d = fst (transition now t c)"
| "method_step c (CStopLoss now) d \<longleftrightarrow> d = trigger_stop_loss now c"
| "method_step c (CAdd now txt t) d \<longleftrightarrow> d = add_milestone now txt t c"
| "method_step c (CComplete now i) d \<longleftrightarrow> d = fst (complete_milestone now i c)"
| "method_step c (CEdit _ _ _ _) d \<longleftrightarrow> False"

text \<open>A caller may also fill in the public fields the guards look at.\<close>

fun commitment_step :: "Commitment \<Rightarrow> commitment_label \<Rightarrow> Commitment \<Rightarrow> bool" where
  "commitment_step c (CEdit x sl plan retro) d \<longleftrightarrow>
     d = c\<lparr>execution_checklist := x, stop_loss := sl, sustained_value_plan := plan, retrospective := retro\<rparr>"
| "commitment_step c l d \<longleftrightarrow> method_step c l d"

subsection \<open>Transitions\<close>

lemma transition_cases:
  "fst (transition now t c) = c
   \<or> (can_transition_to c t = Ok ()
      \<and> fst (transition now t c) = (if is_closed t then c\<lparr>cstate := t, updated_at := now, closed_at := Some now\<rparr>
                                    else c\<lparr>cstate := t, updated_at := now\<rparr>))"
  by (cases "can_transition_to c t") (simp_all add: transition_def Let_def)

lemma can_transition_Ok:
  assumes "can_transition_to c t = Ok ()"
  shows "(cstate c, t) \<in> {(Drafted, Validated), (Validated, Executing), (Executing, Reviewing), (Reviewing, Completed), (Reviewing, Pivoted)}
    \<or> t = Abandoned"
    and "cstate c = Drafted \<Longrightarrow> t = Validated \<Longrightarrow> low_cost_validation (execution_checklist c) \<noteq> None"
    and "cstate c = Validated \<Longrightarrow> t = Executing \<Longrightarrow> 3 \<le> length (milestones c)"
    and "cstate c = Executing \<Longrightarrow> t = Reviewing \<Longrightarrow> list_all (\<lambda>m. ms_completed m \<and> completed_at m \<noteq> None) (milestones c)"
  using assms by (cases "cstate c"; cases t; simp add: can_transition_to_def split: if_splits)+

subsection \<open>The lifecycle\<close>

definition lifecycle_ok :: "Commitment \<Rightarrow> bool" where
  "lifecycle_ok c \<longleftrightarrow>
     (is_closed (cstate c) \<longleftrightarrow> closed_at c \<noteq> None)
     \<and> (cstate c \<in> {Executing, Reviewing, Completed, Pivoted} \<longrightarrow> 3 \<le> length (milestones c))"

lemma lifecycle_transition: "lifecycle_ok c \<Longrightarrow> lifecycle_ok (fst (transition now t c))"
  using transition_cases [of now t c]
proof (elim disjE conjE)
  assume l: "lifecycle_ok c" and ok: "can_transition_to c t = Ok ()"
    and r: "fst (transition now t c) = (if is_closed t then c\<lparr>cstate := t, updated_at := now, closed_at := Some now\<rparr>
                                    else c\<lparr>cstate := t, updated_at := now\<rparr>)"
  show ?thesis using can_transition_Ok(1,3) [OF ok] l unfolding r
    by (cases t) (auto simp: lifecycle_ok_def is_closed_def)
qed simp

lemma lifecycle_step: "lifecycle_ok c \<Longrightarrow> commitment_step c l d \<Longrightarrow> lifecycle_ok d"
proof (cases l)
  case (CStopLoss now)
  assume "lifecycle_ok c" "commitment_step c l d"
  with CStopLoss show ?thesis
    using lifecycle_transition [of "c\<lparr>stop_loss := (stop_loss c)\<lparr>stop_triggered := True, triggered_at := Some now\<rparr>\<rparr>" now Abandoned]
    by (simp add: trigger_stop_loss_def lifecycle_ok_def)
qed (auto simp: lifecycle_transition, auto simp: lifecycle_ok_def add_milestone_def complete_milestone_def)

interpretation commitment_sys: invariant_system "commitment_new now i w" commitment_step lifecycle_ok
  for now i w
  by unfold_locales (simp add: lifecycle_ok_def commitment_new_def is_closed_def, rule lifecycle_step)

text \<open>
  Claim C31. However the methods are called and the public fields filled in, a commitment has a closing
  date exactly when it is completed, abandoned or pivoted, and one that reached execution has at least
  three milestones.
\<close>

theorem commitment_lifecycle:
  assumes "steps commitment_step (commitment_new now i w) ls c"
  shows "(is_closed (cstate c) \<longleftrightarrow> closed_at c \<noteq> None)
    \<and> (cstate c \<in> {Executing, Reviewing, Completed, Pivoted} \<longrightarrow> 3 \<le> length (milestones c))"
  using commitment_sys.inv_reachable [OF assms] by (simp add: lifecycle_ok_def)

text \<open>The arm for \<open>Abandoned\<close> comes before the arm that closes the terminal states.\<close>

lemma completed_can_be_abandoned:
  "cstate c = Completed \<Longrightarrow> cstate (trigger_stop_loss now c) = Abandoned"
  by (simp add: trigger_stop_loss_def transition_def can_transition_to_def Let_def is_closed_def)

lemma state_roundtrip: "state_from_str (state_str s) = Some s"
  by (cases s) (simp_all add: state_from_str_def)

subsection \<open>Commitments read from a file\<close>

lemma loaded_fields:
  assumes "commitment_from_markdown f now content = Ok c"
  shows "execution_checklist c = checklist_default" "m \<in> set (milestones c) \<Longrightarrow> completed_at m = None"
proof -
  show "execution_checklist c = checklist_default"
    using assms by (auto simp: commitment_from_markdown_def Let_def split: option.splits)
  have "milestones c = parse_milestones f (extract_body content)"
    using assms by (auto simp: commitment_from_markdown_def Let_def split: option.splits)
  moreover have "completed_at (parse_milestone f item) = None" for item
    by (simp add: parse_milestone_def Let_def split: option.splits)
  ultimately show "completed_at m = None" if "m \<in> set (milestones c)"
    using that by (auto simp: parse_milestones_def List.map_filter_def)
qed

definition undraftable :: "Commitment \<Rightarrow> bool" where
  "undraftable c \<longleftrightarrow> low_cost_validation (execution_checklist c) = None \<and> cstate c \<in> {Drafted, Abandoned}"

definition unreviewable :: "Commitment \<Rightarrow> bool" where
  "unreviewable c \<longleftrightarrow>
     (\<exists>i < length (milestones c). ms_completed (milestones c ! i) \<and> completed_at (milestones c ! i) = None)
     \<and> cstate c \<in> {Executing, Abandoned}"

lemma transition_frame [simp]:
  "milestones (fst (transition now t c)) = milestones c"
  "execution_checklist (fst (transition now t c)) = execution_checklist c"
  by (cases "can_transition_to c t"; simp add: transition_def Let_def)+

lemma transition_state:
  assumes "cstate (fst (transition now t c)) \<noteq> cstate c"
  shows "can_transition_to c t = Ok ()" "cstate (fst (transition now t c)) = t"
  using assms by (cases "can_transition_to c t"; simp add: transition_def Let_def)+

lemma draft_stays:
  assumes "low_cost_validation (execution_checklist c) = None" "cstate c \<in> {Drafted, Abandoned}"
  shows "cstate (fst (transition now t c)) \<in> {Drafted, Abandoned}"
proof (rule ccontr)
  assume n: "\<not> ?thesis"
  with assms(2) have "cstate (fst (transition now t c)) \<noteq> cstate c" by metis
  note t = transition_state [OF this]
  from can_transition_Ok(1) [OF t(1)] can_transition_Ok(2) [OF t(1)] assms n t(2) show False by (cases "cstate c"; simp; cases t; simp)
qed

lemma undated_stays:
  assumes "i < length (milestones c)" "completed_at (milestones c ! i) = None" "cstate c \<in> {Executing, Abandoned}"
  shows "cstate (fst (transition now t c)) \<in> {Executing, Abandoned}"
proof (rule ccontr)
  assume n: "\<not> ?thesis"
  with assms(3) have "cstate (fst (transition now t c)) \<noteq> cstate c" by metis
  note t = transition_state [OF this]
  have "\<not> list_all (\<lambda>m. ms_completed m \<and> completed_at m \<noteq> None) (milestones c)"
    unfolding list_all_length using assms(1,2) by blast
  with can_transition_Ok(1) [OF t(1)] can_transition_Ok(4) [OF t(1)] assms(3) n t(2) show False by (cases "cstate c"; simp; cases t; simp)
qed

lemma stuck_transition:
  "undraftable c \<Longrightarrow> undraftable (fst (transition now t c))"
  "unreviewable c \<Longrightarrow> unreviewable (fst (transition now t c))"
  unfolding undraftable_def unreviewable_def transition_frame
  using draft_stays [of c now t] undated_stays [of _ c now t] by blast+

lemma unreviewable_milestones:
  "unreviewable c \<Longrightarrow> unreviewable (add_milestone now txt t c)"
  "unreviewable c \<Longrightarrow> unreviewable (fst (complete_milestone now k c))"
proof -
  assume "unreviewable c"
  then obtain i where i: "i < length (milestones c)" "ms_completed (milestones c ! i)" "completed_at (milestones c ! i) = None"
    and s: "cstate c \<in> {Executing, Abandoned}" by (auto simp: unreviewable_def)
  show "unreviewable (add_milestone now txt t c)"
    unfolding unreviewable_def using i s by (intro conjI exI [of _ i]) (simp_all add: add_milestone_def nth_append)
  show "unreviewable (fst (complete_milestone now k c))"
    unfolding unreviewable_def using i s
    by (intro conjI exI [of _ i]) (auto simp: complete_milestone_def nth_list_update)
qed

lemma stuck_stop_loss:
  "undraftable c \<Longrightarrow> undraftable (trigger_stop_loss now c)" "unreviewable c \<Longrightarrow> unreviewable (trigger_stop_loss now c)"
  unfolding trigger_stop_loss_def
  by (rule stuck_transition, simp add: undraftable_def, rule stuck_transition, simp add: unreviewable_def)

lemma undraftable_step: "method_step c l d \<Longrightarrow> undraftable c \<Longrightarrow> undraftable d"
  by (cases l) (simp_all add: stuck_transition stuck_stop_loss,
      simp_all add: undraftable_def add_milestone_def complete_milestone_def)

lemma unreviewable_step: "method_step c l d \<Longrightarrow> unreviewable c \<Longrightarrow> unreviewable d"
  by (cases l) (simp_all add: stuck_transition stuck_stop_loss unreviewable_milestones)

lemma stuck_steps:
  "steps method_step c ls d \<Longrightarrow> undraftable c \<Longrightarrow> undraftable d"
  "steps method_step c ls d \<Longrightarrow> unreviewable c \<Longrightarrow> unreviewable d"
  by (induction rule: steps.induct) (auto intro: undraftable_step unreviewable_step)

text \<open>
  Claim C32. The file keeps neither the checklist nor the dates at which milestones were completed. So a
  draft read from its file can only stay a draft or be abandoned by the methods, and one in execution
  with a ticked milestone can never be reviewed: its milestone has no date, and completing it again is
  refused.
\<close>

theorem reloaded_commitment_stuck:
  assumes "commitment_from_markdown f now content = Ok c" "steps method_step c ls d"
  shows "(cstate c = Drafted \<longrightarrow> cstate d \<in> {Drafted, Abandoned})
    \<and> (cstate c = Executing \<and> list_ex ms_completed (milestones c) \<longrightarrow> cstate d \<in> {Executing, Abandoned})"
proof (intro conjI impI)
  assume "cstate c = Drafted"
  then have "undraftable c" using loaded_fields(1) [OF assms(1)] by (simp add: undraftable_def checklist_default_def)
  from stuck_steps(1) [OF assms(2) this] show "cstate d \<in> {Drafted, Abandoned}" by (simp add: undraftable_def)
next
  assume e: "cstate c = Executing \<and> list_ex ms_completed (milestones c)"
  then obtain i where "i < length (milestones c)" "ms_completed (milestones c ! i)"
    by (auto simp: list_ex_length)
  then have "unreviewable c" using e loaded_fields(2) [OF assms(1)] by (auto simp: unreviewable_def)
  from stuck_steps(2) [OF assms(2) this] show "cstate d \<in> {Executing, Abandoned}" by (simp add: unreviewable_def)
qed

subsection \<open>Priorities\<close>

text \<open>The pairs come in descending order of their score, and only for commitments that are under way.\<close>

lemma priority_scores_sorted:
  "sorted_wrt (\<lambda>s t. score t \<le> score s) (compute_priority_scores_with_ev slug_of bs cs ev)"
proof -
  have "sorted (map (\<lambda>s. - score s) (compute_priority_scores_with_ev slug_of bs cs ev))"
    by (simp add: compute_priority_scores_with_ev_def Let_def)
  then show ?thesis by (simp add: sorted_wrt_map sorted_map)
qed

lemma priority_scores_member:
  assumes "s \<in> set (compute_priority_scores_with_ev slug_of bs cs ev)"
  obtains b c where "b \<in> set bs" "c \<in> set cs" "cstate c \<in> {Validated, Executing}" "pair_score slug_of ev b c = Some s"
  using assms by (auto simp: compute_priority_scores_with_ev_def Let_def List.map_filter_def)

subsection \<open>Witnesses\<close>

definition small_dates :: DateFormats where
  "small_dates = \<lparr>fixed = (\<lambda>_ _. ''0''), parse_f64 = (\<lambda>_. None), rfc3339 = (\<lambda>_. ''t''), parse_rfc3339 = (\<lambda>_. Some 0),
     ymd = (\<lambda>_. ''d''), date_str = (\<lambda>_. ''d''), parse_date = (\<lambda>_. None), f64_str = (\<lambda>_. ''0'')\<rparr>"

definition small_file :: string where
  "small_file = lines_text [''---'', ''id: c1'', ''state: executing'', ''---'', ''## Milestones'', ''- [x] draft'', ''- [ ] ship'']"

definition small_loaded :: Commitment where
  "small_loaded = (case commitment_from_markdown small_dates 0 small_file of Ok c \<Rightarrow> c | Err _ \<Rightarrow> commitment_new 0 [] [])"

definition small_fm :: string where "small_fm = lines_text [''id: c1'', ''state: executing'']"

lemma small_frontmatter:
  "extract_frontmatter small_file = Some small_fm"
  "parse_field small_fm ''id'' = Some ''c1''"
  "parse_field small_fm ''state'' = Some ''executing''"
  by code_simp+

lemma small_milestones: "list_ex ms_completed (parse_milestones small_dates (extract_body small_file))"
  by code_simp

lemma small_loads:
  "commitment_from_markdown small_dates 0 small_file = Ok small_loaded" "cstate small_loaded = Executing"
  "list_ex ms_completed (milestones small_loaded)"
  using small_milestones
  by (simp_all add: small_loaded_def commitment_from_markdown_def small_frontmatter Let_def state_from_str_def)

theorem reloaded_commitment_stuck_witness:
  "cstate (fst (transition 5 Reviewing (fst (complete_milestone 3 0 small_loaded)))) \<in> {Executing, Abandoned}"
proof -
  let ?c = "fst (complete_milestone 3 0 small_loaded)"
  have "method_step small_loaded (CComplete 3 0) ?c" "method_step ?c (CTransition 5 Reviewing) (fst (transition 5 Reviewing ?c))"
    by simp_all
  then have "steps method_step small_loaded [CComplete 3 0, CTransition 5 Reviewing] (fst (transition 5 Reviewing ?c))"
    by (intro steps_cons [OF _ steps_cons [OF _ steps_nil]])
  with reloaded_commitment_stuck [OF small_loads(1)] small_loads(2,3) show ?thesis by blast
qed

theorem commitment_lifecycle_witness:
  "closed_at (trigger_stop_loss 4 (commitment_new 0 ''c1'' ''ship'')) \<noteq> None"
proof -
  have "steps commitment_step (commitment_new 0 ''c1'' ''ship'') [CStopLoss 4] (trigger_stop_loss 4 (commitment_new 0 ''c1'' ''ship''))"
    by (rule steps.intros)+ simp_all
  moreover have "is_closed (cstate (trigger_stop_loss 4 (commitment_new 0 ''c1'' ''ship'')))" by code_simp
  ultimately show ?thesis using commitment_lifecycle by blast
qed

end
