(* ===== verification/Marker_State.thy ===== *)
theory Marker_State
  imports Memory_Markdown
begin

section \<open>Marker sidecars of the workers (zen-agents/src/scheduler/workers/marker_state.rs)\<close>

text \<open>
  Each worker marks what it has done to a journal entry or a session in a sidecar next to the file. A
  sidecar is what its JSON parses to, \<open>None\<close> when it is missing or corrupt. A save reads, merges and
  renames under an exclusive lock, so it is one step; whether the writes succeed is an argument.
\<close>

subsection \<open>Journal entries\<close>

record JournalEntryState =
  journaled_at :: "string option"
  memory_updated_at :: "string option"
  extracted_at :: "string option"
  extraction_source :: "string option"
  commitment_tracked_at :: "string option"
  reflection_extracted_at :: "string option"
  wisdom_synthesized_at :: "string option"
  decision_tracked_at :: "string option"

definition journal_default :: JournalEntryState where
  "journal_default = \<lparr>journaled_at = None, memory_updated_at = None, extracted_at = None, extraction_source = None,
     commitment_tracked_at = None, reflection_extracted_at = None, wisdom_synthesized_at = None, decision_tracked_at = None\<rparr>"

text \<open>The file itself, if it can be read, and its sidecar.\<close>

record JournalFile =
  entry_text :: "string option"
  entry_sidecar :: "JournalEntryState option"

definition sidecar_path :: "string \<Rightarrow> string" where
  "sidecar_path name = name @ ''.state.json''"

definition journal_load :: "JournalFile \<Rightarrow> JournalEntryState" where
  "journal_load j = (case entry_sidecar j of Some s \<Rightarrow> s | None \<Rightarrow> journal_default)"

definition keep :: "'a option \<Rightarrow> 'a option \<Rightarrow> 'a option" where
  "keep new old = (if new \<noteq> None then new else old)"

definition journal_merge :: "JournalEntryState \<Rightarrow> JournalEntryState \<Rightarrow> JournalEntryState" where
  "journal_merge s existing =
     \<lparr>journaled_at = keep (journaled_at s) (journaled_at existing),
      memory_updated_at = keep (memory_updated_at s) (memory_updated_at existing),
      extracted_at = keep (extracted_at s) (extracted_at existing),
      extraction_source = (if extracted_at s \<noteq> None then extraction_source s else extraction_source existing),
      commitment_tracked_at = keep (commitment_tracked_at s) (commitment_tracked_at existing),
      reflection_extracted_at = keep (reflection_extracted_at s) (reflection_extracted_at existing),
      wisdom_synthesized_at = keep (wisdom_synthesized_at s) (wisdom_synthesized_at existing),
      decision_tracked_at = keep (decision_tracked_at s) (decision_tracked_at existing)\<rparr>"

definition journal_save :: "bool \<Rightarrow> JournalEntryState \<Rightarrow> JournalFile \<Rightarrow> JournalFile" where
  "journal_save written s j = (if written then j\<lparr>entry_sidecar := Some (journal_merge s (journal_load j))\<rparr> else j)"

definition scan_frontmatter :: "JournalFile \<Rightarrow> string \<Rightarrow> bool" where
  "scan_frontmatter j p =
     (case entry_text j of
        None \<Rightarrow> False
      | Some content \<Rightarrow> list_ex (\<lambda>line. starts_with (trim line) p) (take 15 (str_lines content)))"

fun value_scan :: "string list \<Rightarrow> string \<Rightarrow> string option" where
  "value_scan [] p = None"
| "value_scan (line # ls) p =
     (case strip_prefix (trim line) p of
        Some v \<Rightarrow> if trim v \<noteq> [] then Some (trim v) else value_scan ls p
      | None \<Rightarrow> value_scan ls p)"

definition extract_frontmatter_value :: "JournalFile \<Rightarrow> string \<Rightarrow> string option" where
  "extract_frontmatter_value j p =
     (case entry_text j of None \<Rightarrow> None | Some content \<Rightarrow> value_scan (take 15 (str_lines content)) p)"

text \<open>One test per worker: the sidecar, or a marker of the old format in the file.\<close>

definition is_journaled :: "JournalFile \<Rightarrow> bool" where
  "is_journaled j \<longleftrightarrow> journaled_at (journal_load j) \<noteq> None \<or> scan_frontmatter j ''journaled_at:''"

definition has_memory_updated :: "JournalFile \<Rightarrow> bool" where
  "has_memory_updated j \<longleftrightarrow> memory_updated_at (journal_load j) \<noteq> None \<or> scan_frontmatter j ''memory_updated_at:''"

definition has_extracted :: "JournalFile \<Rightarrow> bool" where
  "has_extracted j \<longleftrightarrow> extracted_at (journal_load j) \<noteq> None \<or> scan_frontmatter j ''extracted_at:''"

definition has_commitment_tracked :: "JournalFile \<Rightarrow> bool" where
  "has_commitment_tracked j \<longleftrightarrow> commitment_tracked_at (journal_load j) \<noteq> None \<or> scan_frontmatter j ''commitment_tracked_at:''"

definition has_reflection_extracted :: "JournalFile \<Rightarrow> bool" where
  "has_reflection_extracted j \<longleftrightarrow>
     reflection_extracted_at (journal_load j) \<noteq> None \<or> scan_frontmatter j ''reflection_extracted_at:''"

definition has_wisdom_synthesized :: "JournalFile \<Rightarrow> bool" where
  "has_wisdom_synthesized j \<longleftrightarrow> wisdom_synthesized_at (journal_load j) \<noteq> None \<or> scan_frontmatter j ''wisdom_synthesized_at:''"

definition has_decision_tracked :: "JournalFile \<Rightarrow> bool" where
  "has_decision_tracked j \<longleftrightarrow> decision_tracked_at (journal_load j) \<noteq> None \<or> scan_frontmatter j ''decision_tracked_at:''"

definition migrated_field :: "JournalFile \<Rightarrow> string \<Rightarrow> string option \<Rightarrow> string option" where
  "migrated_field j p old = (if old = None then extract_frontmatter_value j p else old)"

definition migrated_state :: "JournalFile \<Rightarrow> JournalEntryState" where
  "migrated_state j =
     (let s = journal_load j
      in \<lparr>journaled_at = migrated_field j ''journaled_at:'' (journaled_at s),
          memory_updated_at = migrated_field j ''memory_updated_at:'' (memory_updated_at s),
          extracted_at = migrated_field j ''extracted_at:'' (extracted_at s),
          extraction_source =
            (if extracted_at s = None \<and> extract_frontmatter_value j ''extracted_at:'' \<noteq> None
             then keep (extract_frontmatter_value j ''extraction_source:'') (extraction_source s)
             else extraction_source s),
          commitment_tracked_at = migrated_field j ''commitment_tracked_at:'' (commitment_tracked_at s),
          reflection_extracted_at = migrated_field j ''reflection_extracted_at:'' (reflection_extracted_at s),
          wisdom_synthesized_at = migrated_field j ''wisdom_synthesized_at:'' (wisdom_synthesized_at s),
          decision_tracked_at = migrated_field j ''decision_tracked_at:'' (decision_tracked_at s)\<rparr>)"

definition needs_field :: "JournalFile \<Rightarrow> string \<Rightarrow> string option \<Rightarrow> bool" where
  "needs_field j p old \<longleftrightarrow> old = None \<and> extract_frontmatter_value j p \<noteq> None"

definition needs_migration :: "JournalFile \<Rightarrow> bool" where
  "needs_migration j \<longleftrightarrow>
     (let s = journal_load j
      in needs_field j ''journaled_at:'' (journaled_at s)
       \<or> needs_field j ''memory_updated_at:'' (memory_updated_at s)
       \<or> needs_field j ''extracted_at:'' (extracted_at s)
       \<or> needs_field j ''commitment_tracked_at:'' (commitment_tracked_at s)
       \<or> needs_field j ''reflection_extracted_at:'' (reflection_extracted_at s)
       \<or> needs_field j ''wisdom_synthesized_at:'' (wisdom_synthesized_at s)
       \<or> needs_field j ''decision_tracked_at:'' (decision_tracked_at s))"

definition migrate_from_frontmatter :: "bool \<Rightarrow> JournalFile \<Rightarrow> JournalFile \<times> bool" where
  "migrate_from_frontmatter written j =
     (if needs_migration j then (journal_save written (migrated_state j) j, True) else (j, False))"

subsection \<open>Sessions\<close>

record SessionState =
  session_journaled :: bool
  session_journaled_at :: "string option"
  session_journaled_source :: "string option"

definition session_default :: SessionState where
  "session_default = \<lparr>session_journaled = False, session_journaled_at = None, session_journaled_source = None\<rparr>"

record SessionFile =
  session_text :: "string option"
  session_sidecar :: "SessionState option"

definition session_load :: "SessionFile \<Rightarrow> SessionState" where
  "session_load f = (case session_sidecar f of Some s \<Rightarrow> s | None \<Rightarrow> session_default)"

definition session_merge :: "SessionState \<Rightarrow> SessionState \<Rightarrow> SessionState" where
  "session_merge s existing =
     \<lparr>session_journaled = (session_journaled s \<or> session_journaled existing),
      session_journaled_at = keep (session_journaled_at s) (session_journaled_at existing),
      session_journaled_source = keep (session_journaled_source s) (session_journaled_source existing)\<rparr>"

definition session_save :: "bool \<Rightarrow> SessionState \<Rightarrow> SessionFile \<Rightarrow> SessionFile" where
  "session_save written s f = (if written then f\<lparr>session_sidecar := Some (session_merge s (session_load f))\<rparr> else f)"

definition MARKER_PREFIX :: string where
  "MARKER_PREFIX = ''{'' @ [CHR 34] @ ''type'' @ [CHR 34] @ '':'' @ [CHR 34] @ ''system/journaled'' @ [CHR 34]"

text \<open>\<open>floor_char_boundary\<close>: back to the start of a character.\<close>

fun floor_char_boundary :: "string \<Rightarrow> nat \<Rightarrow> nat" where
  "floor_char_boundary s 0 = 0"
| "floor_char_boundary s (Suc i) =
     (if length s \<le> Suc i \<or> \<not> is_cont_byte (s ! Suc i) then Suc i else floor_char_boundary s i)"

definition scan_jsonl_tail :: "SessionFile \<Rightarrow> bool" where
  "scan_jsonl_tail f =
     (case session_text f of
        None \<Rightarrow> False
      | Some content \<Rightarrow>
          if length content \<le> 200 then str_contains content MARKER_PREFIX
          else str_contains (drop (floor_char_boundary content (length content - 200)) content) MARKER_PREFIX)"

definition session_is_journaled :: "SessionFile \<Rightarrow> bool" where
  "session_is_journaled f \<longleftrightarrow> session_journaled (session_load f) \<or> scan_jsonl_tail f"

subsection \<open>Markers under every order of saves\<close>

text \<open>The save a worker does sets the marker it owns and leaves the others empty.\<close>

datatype worker_mark =
  MJournaled string | MMemory string | MExtracted string "string option" | MCommitment string
| MReflection string | MWisdom string | MDecision string

fun mark_state :: "worker_mark \<Rightarrow> JournalEntryState" where
  "mark_state (MJournaled t) = journal_default\<lparr>journaled_at := Some t\<rparr>"
| "mark_state (MMemory t) = journal_default\<lparr>memory_updated_at := Some t\<rparr>"
| "mark_state (MExtracted t src) = journal_default\<lparr>extracted_at := Some t, extraction_source := src\<rparr>"
| "mark_state (MCommitment t) = journal_default\<lparr>commitment_tracked_at := Some t\<rparr>"
| "mark_state (MReflection t) = journal_default\<lparr>reflection_extracted_at := Some t\<rparr>"
| "mark_state (MWisdom t) = journal_default\<lparr>wisdom_synthesized_at := Some t\<rparr>"
| "mark_state (MDecision t) = journal_default\<lparr>decision_tracked_at := Some t\<rparr>"

definition save_marks :: "worker_mark list \<Rightarrow> JournalFile \<Rightarrow> JournalFile" where
  "save_marks ms j = foldl (\<lambda>j m. journal_save True (mark_state m) j) j ms"

definition last_mark :: "(worker_mark \<Rightarrow> 'a option) \<Rightarrow> worker_mark list \<Rightarrow> 'a option \<Rightarrow> 'a option" where
  "last_mark sel ms old = foldl (\<lambda>x m. keep (sel m) x) old ms"

fun sel_journaled :: "worker_mark \<Rightarrow> string option" where
  "sel_journaled (MJournaled t) = Some t" | "sel_journaled _ = None"
fun sel_memory :: "worker_mark \<Rightarrow> string option" where
  "sel_memory (MMemory t) = Some t" | "sel_memory _ = None"
fun sel_extracted :: "worker_mark \<Rightarrow> string option" where
  "sel_extracted (MExtracted t _) = Some t" | "sel_extracted _ = None"
fun sel_source :: "worker_mark \<Rightarrow> string option option" where
  "sel_source (MExtracted _ src) = Some src" | "sel_source _ = None"
fun sel_commitment :: "worker_mark \<Rightarrow> string option" where
  "sel_commitment (MCommitment t) = Some t" | "sel_commitment _ = None"
fun sel_reflection :: "worker_mark \<Rightarrow> string option" where
  "sel_reflection (MReflection t) = Some t" | "sel_reflection _ = None"
fun sel_wisdom :: "worker_mark \<Rightarrow> string option" where
  "sel_wisdom (MWisdom t) = Some t" | "sel_wisdom _ = None"
fun sel_decision :: "worker_mark \<Rightarrow> string option" where
  "sel_decision (MDecision t) = Some t" | "sel_decision _ = None"

lemma keep_simps [simp]: "keep (Some x) y = Some x" "keep None y = y"
  by (simp_all add: keep_def)

lemma journal_load_save [simp]: "journal_load (journal_save True s j) = journal_merge s (journal_load j)"
  by (simp add: journal_save_def journal_load_def)

lemma merge_mark:
  "journal_merge (mark_state m) s =
     \<lparr>journaled_at = keep (sel_journaled m) (journaled_at s), memory_updated_at = keep (sel_memory m) (memory_updated_at s),
      extracted_at = keep (sel_extracted m) (extracted_at s),
      extraction_source = the (keep (sel_source m) (Some (extraction_source s))),
      commitment_tracked_at = keep (sel_commitment m) (commitment_tracked_at s),
      reflection_extracted_at = keep (sel_reflection m) (reflection_extracted_at s),
      wisdom_synthesized_at = keep (sel_wisdom m) (wisdom_synthesized_at s),
      decision_tracked_at = keep (sel_decision m) (decision_tracked_at s)\<rparr>"
  by (cases m) (simp_all add: journal_merge_def journal_default_def)

text \<open>
  Claim C26. Workers that save their markers in any order never clobber each other: after any sequence of
  saves each field holds the value its own worker saved last, or what the sidecar held before.
\<close>

theorem markers_never_clobbered:
  "journal_load (save_marks ms j) =
     \<lparr>journaled_at = last_mark sel_journaled ms (journaled_at (journal_load j)),
      memory_updated_at = last_mark sel_memory ms (memory_updated_at (journal_load j)),
      extracted_at = last_mark sel_extracted ms (extracted_at (journal_load j)),
      extraction_source = the (last_mark sel_source ms (Some (extraction_source (journal_load j)))),
      commitment_tracked_at = last_mark sel_commitment ms (commitment_tracked_at (journal_load j)),
      reflection_extracted_at = last_mark sel_reflection ms (reflection_extracted_at (journal_load j)),
      wisdom_synthesized_at = last_mark sel_wisdom ms (wisdom_synthesized_at (journal_load j)),
      decision_tracked_at = last_mark sel_decision ms (decision_tracked_at (journal_load j))\<rparr>"
proof (induction ms arbitrary: j)
  case (Cons m ms)
  have k: "keep x (Some y) = Some (the (keep x (Some y)))" for x :: "'b option" and y
    by (cases x) simp_all
  show ?case using Cons [of "journal_save True (mark_state m) j"]
    by (simp add: save_marks_def last_mark_def merge_mark k [symmetric])
qed (simp add: save_marks_def last_mark_def)

text \<open>A mark stays a mark: no save and no migration takes one away.\<close>

lemma merge_keeps:
  "journaled_at e \<noteq> None \<Longrightarrow> journaled_at (journal_merge s e) \<noteq> None"
  "commitment_tracked_at e \<noteq> None \<Longrightarrow> commitment_tracked_at (journal_merge s e) \<noteq> None"
  by (simp_all add: journal_merge_def keep_def)

lemma keep_migrated: "keep (migrated_field j p old) old = migrated_field j p old"
  by (simp add: keep_def migrated_field_def)

lemma migrated_field_None: "migrated_field j p old = None \<longleftrightarrow> old = None \<and> extract_frontmatter_value j p = None"
  by (cases old) (simp_all add: migrated_field_def)

lemma migrated_needs_nothing: "\<not> needs_field j p (migrated_field j p old)"
  by (cases "extract_frontmatter_value j p") (simp_all add: needs_field_def migrated_field_None)

lemma migrated_merge: "journal_merge (migrated_state j) (journal_load j) = migrated_state j"
  by (simp add: journal_merge_def migrated_state_def Let_def keep_migrated migrated_field_None)

text \<open>The migration keeps every marker of the sidecar and takes the missing ones from the file; a second one does nothing.\<close>

theorem migration_idempotent:
  "migrate_from_frontmatter True (fst (migrate_from_frontmatter True j)) = (fst (migrate_from_frontmatter True j), False)"
proof (cases "needs_migration j")
  case True
  let ?k = "journal_save True (migrated_state j) j"
  have "entry_text ?k = entry_text j" by (simp add: journal_save_def)
  then have "extract_frontmatter_value ?k p = extract_frontmatter_value j p" for p
    by (simp add: extract_frontmatter_value_def)
  then have n: "needs_field ?k p old = needs_field j p old" for p old by (simp add: needs_field_def)
  have "\<not> needs_migration ?k"
    unfolding needs_migration_def Let_def journal_load_save migrated_merge n
    by (simp add: migrated_state_def Let_def migrated_needs_nothing)
  with True show ?thesis by (simp add: migrate_from_frontmatter_def)
qed (simp add: migrate_from_frontmatter_def)

lemma session_save_journaled:
  "session_journaled (session_load f) \<Longrightarrow> session_journaled (session_load (session_save w s f))"
  by (simp add: session_save_def session_load_def session_merge_def)

lemma floor_char_boundary_le: "floor_char_boundary s i \<le> i"
  by (induction i) auto

end
