(* ===== verification/Memory_Metrics.thy ===== *)
theory Memory_Metrics
  imports Commitments
begin

section \<open>Figures of the memory (zen-memory/src/okr.rs, strength.rs)\<close>

text \<open>
  The completion figures of the commitments in a window of days and the retention strength of a memory.
  Floats are reals; the guard against infinities does nothing on them.
\<close>

subsection \<open>Completion rate\<close>

record CommitmentOkr =
  total_commitments :: nat
  okr_completed :: nat
  okr_abandoned :: nat
  okr_active :: nat
  okr_overdue :: nat
  completion_rate :: real
  window_days :: nat

definition is_below_target :: "CommitmentOkr \<Rightarrow> bool" where
  "is_below_target k \<longleftrightarrow> completion_rate k < 5 / 10"

datatype okr_class = OAbandoned | OCompleted | OOverdue | OActive

definition okr_classify :: "int \<Rightarrow> Commitment \<Rightarrow> okr_class" where
  "okr_classify today c =
     (case cstate c of
        Abandoned \<Rightarrow> OAbandoned
      | Completed \<Rightarrow> OCompleted
      | _ \<Rightarrow> if list_ex ms_completed (milestones c) then OCompleted
             else if is_overdue today c then OOverdue else OActive)"

definition compute_commitment_completion_rate :: "(int \<Rightarrow> int) \<Rightarrow> int \<Rightarrow> Commitment list \<Rightarrow> nat \<Rightarrow> CommitmentOkr" where
  "compute_commitment_completion_rate date_naive now cs days =
     (let cutoff_date = date_naive (now - int days * DAY);
          kept = filter (\<lambda>c. cutoff_date \<le> date_naive (created_at c)) cs;
          number = (\<lambda>k. length (filter (\<lambda>c. okr_classify (date_naive now) c = k) kept))
      in \<lparr>total_commitments = length kept, okr_completed = number OCompleted, okr_abandoned = number OAbandoned,
          okr_active = number OActive, okr_overdue = number OOverdue,
          completion_rate = (if 0 < length kept then real (number OCompleted) / real (length kept) else 0),
          window_days = days\<rparr>)"

lemma class_counts:
  "length xs = length (filter (\<lambda>c. f c = OCompleted) xs) + length (filter (\<lambda>c. f c = OAbandoned) xs)
     + length (filter (\<lambda>c. f c = OActive) xs) + length (filter (\<lambda>c. f c = OOverdue) xs)"
proof (induction xs)
  case (Cons x xs)
  then show ?case by (cases "f x") simp_all
qed simp

text \<open>Every commitment of the window is counted in exactly one class, and the rate is a proportion.\<close>

theorem okr_counts:
  "let k = compute_commitment_completion_rate date_naive now cs days
   in total_commitments k = okr_completed k + okr_abandoned k + okr_active k + okr_overdue k
      \<and> 0 \<le> completion_rate k \<and> completion_rate k \<le> 1"
proof -
  define kept where "kept = filter (\<lambda>c. date_naive (now - int days * DAY) \<le> date_naive (created_at c)) cs"
  let ?n = "\<lambda>k. length (filter (\<lambda>c. okr_classify (date_naive now) c = k) kept)"
  have "length kept = ?n OCompleted + ?n OAbandoned + ?n OActive + ?n OOverdue" by (rule class_counts)
  moreover have "?n OCompleted \<le> length kept" by (rule length_filter_le)
  from this have "0 \<le> r \<and> r \<le> 1" if "r = (if 0 < length kept then real (?n OCompleted) / real (length kept) else 0)" for r
    using that by (simp add: divide_le_eq_1)
  ultimately show ?thesis
    unfolding compute_commitment_completion_rate_def Let_def kept_def [symmetric] by simp
qed

text \<open>A pivoted commitment without a completed milestone counts as active.\<close>

lemma pivoted_counts_as_active:
  "cstate c = Pivoted \<Longrightarrow> \<not> list_ex ms_completed (milestones c) \<Longrightarrow> okr_classify today c = OActive"
  by (simp add: okr_classify_def is_overdue_def is_closed_def)

subsection \<open>Retention strength\<close>

definition F64_EPSILON :: real where "F64_EPSILON = 1 / 2 ^ 52"
definition F64_MIN_POSITIVE :: real where "F64_MIN_POSITIVE = 1 / 2 ^ 1022"

definition effective_anchor :: "int \<Rightarrow> int option \<Rightarrow> int" where
  "effective_anchor anchor last_event = (case last_event of Some t \<Rightarrow> max t anchor | None \<Rightarrow> anchor)"

definition retention_strength :: "int \<Rightarrow> int option \<Rightarrow> nat \<Rightarrow> int \<Rightarrow> real \<Rightarrow> real" where
  "retention_strength anchor last_event events now half_life_days =
     (let elapsed_days = max (real_of_int (num_seconds (now - effective_anchor anchor last_event)) / 86400) 0;
          half_life = max half_life_days F64_EPSILON;
          stability_days = half_life * (1 + log 2 (1 + real events));
          r = (5 / 10) powr (elapsed_days / stability_days)
      in clamp F64_MIN_POSITIVE 1 r)"

definition resolve_content_anchor :: "int option \<Rightarrow> int option \<Rightarrow> int \<Rightarrow> int" where
  "resolve_content_anchor journal_uri_date source_file_mtime frame_created_at =
     (case journal_uri_date of
        Some t \<Rightarrow> t
      | None \<Rightarrow> (case source_file_mtime of Some t \<Rightarrow> t | None \<Rightarrow> frame_created_at))"

lemma retention_strength_bounds: "0 < retention_strength a l e now h \<and> retention_strength a l e now h \<le> 1"
  by (simp add: retention_strength_def Let_def clamp_def F64_MIN_POSITIVE_def)

lemma retention_strength_future:
  assumes "now \<le> effective_anchor a l"
  shows "retention_strength a l e now h = 1"
proof -
  have "num_seconds (now - effective_anchor a l) \<le> 0"
    using assms by (auto simp: num_seconds_def NANOS_def pos_imp_zdiv_nonneg_iff)
  then have "max (real_of_int (num_seconds (now - effective_anchor a l)) / 86400) 0 = 0" by simp
  then show ?thesis by (simp add: retention_strength_def Let_def clamp_def F64_MIN_POSITIVE_def)
qed

lemma clamp_mono: "lo \<le> hi \<Longrightarrow> x \<le> y \<Longrightarrow> clamp lo hi x \<le> clamp lo hi y"
  by (simp add: clamp_def)

lemma stability_pos: "0 < max h F64_EPSILON * (1 + log 2 (1 + real e))"
  by (intro mult_pos_pos add_pos_nonneg) (simp_all add: F64_EPSILON_def less_max_iff_disj)

text \<open>More reinforcement never weakens a memory.\<close>

theorem retention_strength_mono:
  assumes "e \<le> e'"
  shows "retention_strength a l e now h \<le> retention_strength a l e' now h"
proof -
  let ?s = "\<lambda>e. max h F64_EPSILON * (1 + log 2 (1 + real e))"
  let ?d = "max (real_of_int (num_seconds (now - effective_anchor a l)) / 86400) 0"
  have "?s e \<le> ?s e'" using assms by (intro mult_left_mono) (simp_all add: F64_EPSILON_def le_max_iff_disj)
  then have "?d / ?s e' \<le> ?d / ?s e" using stability_pos by (intro divide_left_mono) simp_all
  then have "(5 / 10 :: real) powr (?d / ?s e) \<le> (5 / 10) powr (?d / ?s e')" by (intro powr_mono') simp_all
  then show ?thesis unfolding retention_strength_def Let_def by (intro clamp_mono) (simp_all add: F64_MIN_POSITIVE_def)
qed

end
