(* ===== verification/Vault_Txn.thy ===== *)
theory Vault_Txn
  imports Memory_Markdown
begin

section \<open>Transactions of the distillation (zen-vault/src/distill/transaction.rs, recovery.rs, checkpoint.rs)\<close>

text \<open>
  The files of the vault, the snapshot of their content versions, the scope that tracks what a cycle
  writes in a tracking file, the rollback it shares with the replay after a crash, and the checkpoint.
  The digest is an argument. Directories are created on demand, and a file is written whole or not at all.
\<close>

subsection \<open>Files\<close>

text \<open>The files with their contents, those that cannot be read, and those that cannot be written or removed.\<close>

record Vault =
  vfiles :: "string \<rightharpoonup> string"
  unreadable :: "string set"
  frozen :: "string set"

definition path_exists :: "Vault \<Rightarrow> string \<Rightarrow> bool" where
  "path_exists v p \<longleftrightarrow> vfiles v p \<noteq> None"

definition read_to_string :: "Vault \<Rightarrow> string \<Rightarrow> string option" where
  "read_to_string v p = (if p \<in> unreadable v then None else vfiles v p)"

definition put_file :: "string \<Rightarrow> string \<Rightarrow> Vault \<Rightarrow> Vault" where
  "put_file p c v = v\<lparr>vfiles := (vfiles v)(p \<mapsto> c)\<rparr>"

definition del_file :: "string \<Rightarrow> Vault \<Rightarrow> Vault" where
  "del_file p v = v\<lparr>vfiles := (vfiles v)(p := None)\<rparr>"

definition path_join :: "string \<Rightarrow> string \<Rightarrow> string" where
  "path_join d n =
     (if starts_with n ''/'' then n else if d = [] \<or> ends_with d ''/'' then d @ n else d @ ''/'' @ n)"

subsection \<open>Content versions\<close>

type_synonym digest = "string \<Rightarrow> string"

definition content_version :: "digest \<Rightarrow> Vault \<Rightarrow> string \<Rightarrow> (string option, string) result" where
  "content_version hash v p =
     (case vfiles v p of
        None \<Rightarrow> Ok None
      | Some c \<Rightarrow> if p \<in> unreadable v then Err (''read for content version: '' @ p) else Ok (Some (hash c)))"

datatype WriteOutcome = WCommitted | WConflict

datatype CasCommitOutcome = CasCommitted | CasRolledBack "string list"

text \<open>The snapshot as the association list the hash map iterates over, one entry per path.\<close>

record VersionSnapshot =
  versions :: "(string \<times> string option) list"

fun snapshot_fill :: "digest \<Rightarrow> Vault \<Rightarrow> string list \<Rightarrow> (string \<times> string option) list \<Rightarrow> (VersionSnapshot, string) result" where
  "snapshot_fill hash v [] vs = Ok \<lparr>versions = vs\<rparr>"
| "snapshot_fill hash v (p # ps) vs =
     (case content_version hash v p of
        Err e \<Rightarrow> Err e
      | Ok x \<Rightarrow> snapshot_fill hash v ps ((p, x) # filter (\<lambda>e. fst e \<noteq> p) vs))"

definition snapshot_capture :: "digest \<Rightarrow> Vault \<Rightarrow> string list \<Rightarrow> (VersionSnapshot, string) result" where
  "snapshot_capture hash v paths = snapshot_fill hash v paths []"

fun verify_scan :: "digest \<Rightarrow> Vault \<Rightarrow> (string \<times> string option) list \<Rightarrow> (string list, string) result" where
  "verify_scan hash v [] = Ok []"
| "verify_scan hash v ((p, expected) # vs) =
     (case content_version hash v p of
        Err e \<Rightarrow> Err e
      | Ok current \<Rightarrow>
          (case verify_scan hash v vs of
             Err e \<Rightarrow> Err e
           | Ok drifted \<Rightarrow> Ok (if current \<noteq> expected then p # drifted else drifted)))"

definition snapshot_verify :: "digest \<Rightarrow> Vault \<Rightarrow> VersionSnapshot \<Rightarrow> (string list, string) result" where
  "snapshot_verify hash v snap = verify_scan hash v (versions snap)"

definition write_if_unchanged ::
  "digest \<Rightarrow> string \<Rightarrow> string option \<Rightarrow> string \<Rightarrow> Vault \<Rightarrow> (WriteOutcome, string) result \<times> Vault" where
  "write_if_unchanged hash p expected content v =
     (case content_version hash v p of
        Err e \<Rightarrow> (Err e, v)
      | Ok current \<Rightarrow>
          if current \<noteq> expected then (Ok WConflict, v)
          else if p \<in> frozen v then (Err (''write: '' @ p), v)
          else (Ok WCommitted, put_file p content v))"

subsection \<open>The scope\<close>

record TransactionScope =
  txn_name :: string
  tracking_file :: string

definition new_for_logs :: "string \<Rightarrow> string \<Rightarrow> TransactionScope" where
  "new_for_logs logs_dir name =
     \<lparr>txn_name = name, tracking_file = path_join logs_dir (''.txn-'' @ name @ ''.jsonl'')\<rparr>"

definition txn_begin :: "TransactionScope \<Rightarrow> Vault \<Rightarrow> (unit, string) result \<times> Vault" where
  "txn_begin t v =
     (if tracking_file t \<in> frozen v then (Err (''create txn file: '' @ tracking_file t), v)
      else (Ok (), put_file (tracking_file t) [] v))"

definition track_path :: "TransactionScope \<Rightarrow> string \<Rightarrow> Vault \<Rightarrow> (unit, string) result \<times> Vault" where
  "track_path t p v =
     (if tracking_file t \<in> frozen v then (Err (''open txn file: '' @ tracking_file t), v)
      else (Ok (), put_file (tracking_file t)
              ((case vfiles v (tracking_file t) of None \<Rightarrow> [] | Some c \<Rightarrow> c) @ p @ [CHR 10]) v))"

definition line_paths :: "string \<Rightarrow> string list" where
  "line_paths content = filter (\<lambda>l. l \<noteq> []) (map trim (str_lines content))"

definition tracked_paths :: "TransactionScope \<Rightarrow> Vault \<Rightarrow> string list" where
  "tracked_paths t v = (case read_to_string v (tracking_file t) of None \<Rightarrow> [] | Some c \<Rightarrow> line_paths c)"

definition txn_commit :: "TransactionScope \<Rightarrow> Vault \<Rightarrow> (unit, string) result \<times> Vault" where
  "txn_commit t v =
     (if path_exists v (tracking_file t)
      then if tracking_file t \<in> frozen v then (Err (''remove txn file: '' @ tracking_file t), v)
           else (Ok (), del_file (tracking_file t) v)
      else (Ok (), v))"

fun rollback_lines :: "string list \<Rightarrow> Vault \<Rightarrow> nat \<times> Vault" where
  "rollback_lines [] v = (0, v)"
| "rollback_lines (line # ls) v =
     (let p = trim line
      in if p \<noteq> [] \<and> path_exists v p \<and> p \<notin> frozen v
         then (let (removed, w) = rollback_lines ls (del_file p v) in (Suc removed, w))
         else rollback_lines ls v)"

definition rollback_tracking_file :: "string \<Rightarrow> Vault \<Rightarrow> (nat, string) result \<times> Vault" where
  "rollback_tracking_file tf v =
     (if \<not> path_exists v tf then (Ok 0, v)
      else (case read_to_string v tf of
              None \<Rightarrow> (Err (''read txn file: '' @ tf), v)
            | Some content \<Rightarrow>
                let (removed, w) = rollback_lines (str_lines content) v
                in (Ok removed, if tf \<in> frozen w then w else del_file tf w)))"

definition txn_rollback :: "TransactionScope \<Rightarrow> Vault \<Rightarrow> (unit, string) result \<times> Vault" where
  "txn_rollback t v =
     (case rollback_tracking_file (tracking_file t) v of
        (Ok _, w) \<Rightarrow> (Ok (), w)
      | (Err e, w) \<Rightarrow> (Err e, w))"

definition commit_conditional ::
  "digest \<Rightarrow> TransactionScope \<Rightarrow> VersionSnapshot \<Rightarrow> Vault \<Rightarrow> (CasCommitOutcome, string) result \<times> Vault" where
  "commit_conditional hash t snap v =
     (case snapshot_verify hash v snap of
        Err e \<Rightarrow> (Err e, v)
      | Ok drifted \<Rightarrow>
          if drifted = [] then
            (case txn_commit t v of (Ok _, w) \<Rightarrow> (Ok CasCommitted, w) | (Err e, w) \<Rightarrow> (Err e, w))
          else
            (case txn_rollback t v of (Ok _, w) \<Rightarrow> (Ok (CasRolledBack drifted), w) | (Err e, w) \<Rightarrow> (Err e, w)))"

subsection \<open>Replay after a crash\<close>

definition STALE_TXN_MIN_AGE :: int where "STALE_TXN_MIN_AGE = 3600 * NANOS"

record ReplayReport =
  tracking_files :: nat
  files_removed :: nat

text \<open>An entry of the directory: its name and the age of the file, if the clock gives one.\<close>

type_synonym log_entry = "string \<times> int option"

definition stale_txn :: "string \<Rightarrow> int \<Rightarrow> Vault \<Rightarrow> log_entry \<Rightarrow> bool" where
  "stale_txn logs_dir min_age v = (\<lambda>(name, age).
     starts_with name ''.txn-'' \<and> ends_with name ''.jsonl'' \<and> path_exists v (path_join logs_dir name)
     \<and> (case age of None \<Rightarrow> False | Some a \<Rightarrow> min_age \<le> a))"

fun replay_scan :: "string \<Rightarrow> int \<Rightarrow> log_entry list \<Rightarrow> ReplayReport \<Rightarrow> Vault \<Rightarrow> (ReplayReport, string) result \<times> Vault" where
  "replay_scan logs_dir min_age [] r v = (Ok r, v)"
| "replay_scan logs_dir min_age (e # es) r v =
     (if stale_txn logs_dir min_age v e then
        (case rollback_tracking_file (path_join logs_dir (fst e)) v of
           (Err x, w) \<Rightarrow> (Err x, w)
         | (Ok removed, w) \<Rightarrow>
             replay_scan logs_dir min_age es
               (r\<lparr>tracking_files := Suc (tracking_files r), files_removed := files_removed r + removed\<rparr>) w)
      else replay_scan logs_dir min_age es r v)"

definition replay_stale_transactions_older_than ::
  "string \<Rightarrow> int \<Rightarrow> log_entry list option \<Rightarrow> Vault \<Rightarrow> (ReplayReport, string) result \<times> Vault" where
  "replay_stale_transactions_older_than logs_dir min_age entries v =
     (case entries of
        None \<Rightarrow> (Ok \<lparr>tracking_files = 0, files_removed = 0\<rparr>, v)
      | Some es \<Rightarrow> replay_scan logs_dir min_age es \<lparr>tracking_files = 0, files_removed = 0\<rparr> v)"

definition replay_stale_transactions :: "string \<Rightarrow> log_entry list option \<Rightarrow> Vault \<Rightarrow> (ReplayReport, string) result \<times> Vault" where
  "replay_stale_transactions logs_dir = replay_stale_transactions_older_than logs_dir STALE_TXN_MIN_AGE"

subsection \<open>Checkpoint\<close>

record Checkpoint =
  ck_status :: string
  ck_started_at :: string
  ck_notes_count :: nat

text \<open>The JSON form of a checkpoint is serde's.\<close>

record CheckpointJson =
  ck_print :: "Checkpoint \<Rightarrow> string"
  ck_parse :: "string \<Rightarrow> Checkpoint option"

definition checkpoint_path :: "string \<Rightarrow> string" where
  "checkpoint_path logs_dir = path_join logs_dir ''consolidation-checkpoint.json''"

definition write_checkpoint :: "CheckpointJson \<Rightarrow> string \<Rightarrow> Checkpoint \<Rightarrow> Vault \<Rightarrow> (unit, string) result \<times> Vault" where
  "write_checkpoint j logs_dir cp v =
     (if checkpoint_path logs_dir \<in> frozen v then (Err ''failed to write checkpoint file'', v)
      else (Ok (), put_file (checkpoint_path logs_dir) (ck_print j cp) v))"

definition read_checkpoint :: "CheckpointJson \<Rightarrow> string \<Rightarrow> Vault \<Rightarrow> (Checkpoint option, string) result" where
  "read_checkpoint j logs_dir v =
     (if \<not> path_exists v (checkpoint_path logs_dir) then Ok None
      else (case read_to_string v (checkpoint_path logs_dir) of
              None \<Rightarrow> Err (''failed to read checkpoint: '' @ checkpoint_path logs_dir)
            | Some data \<Rightarrow> (case ck_parse j data of None \<Rightarrow> Err ''failed to parse checkpoint JSON'' | Some cp \<Rightarrow> Ok (Some cp))))"

definition clear_checkpoint :: "string \<Rightarrow> Vault \<Rightarrow> (unit, string) result \<times> Vault" where
  "clear_checkpoint logs_dir v =
     (if path_exists v (checkpoint_path logs_dir)
      then if checkpoint_path logs_dir \<in> frozen v then (Err (''failed to remove checkpoint: '' @ checkpoint_path logs_dir), v)
           else (Ok (), del_file (checkpoint_path logs_dir) v)
      else (Ok (), v))"

definition check_incomplete :: "CheckpointJson \<Rightarrow> string \<Rightarrow> Vault \<Rightarrow> (Checkpoint option, string) result" where
  "check_incomplete j logs_dir v =
     (case read_checkpoint j logs_dir v of
        Err e \<Rightarrow> Err e
      | Ok None \<Rightarrow> Ok None
      | Ok (Some cp) \<Rightarrow> Ok (if ck_status cp \<noteq> ''completed'' then Some cp else None))"

definition recover :: "CheckpointJson \<Rightarrow> string \<Rightarrow> Vault \<Rightarrow> (Checkpoint option, string) result \<times> Vault" where
  "recover j logs_dir v =
     (case check_incomplete j logs_dir v of
        Err e \<Rightarrow> (Err e, v)
      | Ok None \<Rightarrow> (Ok None, v)
      | Ok (Some cp) \<Rightarrow>
          (case clear_checkpoint logs_dir v of
             (Err _, w) \<Rightarrow> (Err (''clear checkpoint in logs dir: '' @ logs_dir), w)
           | (Ok _, w) \<Rightarrow> (Ok (Some cp), w)))"

subsection \<open>What a rollback does\<close>

definition removed_by :: "Vault \<Rightarrow> string set \<Rightarrow> Vault" where
  "removed_by v ps = v\<lparr>vfiles := vfiles v |` (- (ps - frozen v))\<rparr>"

lemma removed_by_simps [simp]:
  "unreadable (removed_by v ps) = unreadable v" "frozen (removed_by v ps) = frozen v"
  "vfiles (removed_by v ps) p = (if p \<in> ps \<and> p \<notin> frozen v then None else vfiles v p)"
  by (simp_all add: removed_by_def restrict_map_def)

lemma vault_eqI: "vfiles v = vfiles w \<Longrightarrow> unreadable v = unreadable w \<Longrightarrow> frozen v = frozen w \<Longrightarrow> (v :: Vault) = w"
  by simp

lemma del_file_simps [simp]:
  "vfiles (del_file p v) = (vfiles v)(p := None)" "unreadable (del_file p v) = unreadable v" "frozen (del_file p v) = frozen v"
  by (simp_all add: del_file_def)

lemma put_file_simps [simp]:
  "vfiles (put_file p c v) = (vfiles v)(p \<mapsto> c)" "unreadable (put_file p c v) = unreadable v" "frozen (put_file p c v) = frozen v"
  by (simp_all add: put_file_def)

lemma removed_by_empty: "removed_by v {} = v"
  by (rule vault_eqI) (auto simp: fun_eq_iff)

lemma removed_by_del: "p \<notin> frozen v \<Longrightarrow> removed_by (del_file p v) ps = removed_by v (insert p ps)"
  by (rule vault_eqI) (auto simp: fun_eq_iff)

lemma removed_by_skip: "vfiles v p = None \<or> p \<in> frozen v \<Longrightarrow> removed_by v (insert p ps) = removed_by v ps"
  by (rule vault_eqI) (auto simp: fun_eq_iff)

lemma rollback_lines_hit:
  "trim l \<noteq> [] \<and> path_exists v (trim l) \<and> trim l \<notin> frozen v
   \<Longrightarrow> rollback_lines (l # ls) v = (Suc (fst (rollback_lines ls (del_file (trim l) v))), snd (rollback_lines ls (del_file (trim l) v)))"
  by (simp add: Let_def case_prod_beta)

lemma rollback_lines_miss:
  "\<not> (trim l \<noteq> [] \<and> path_exists v (trim l) \<and> trim l \<notin> frozen v) \<Longrightarrow> rollback_lines (l # ls) v = rollback_lines ls v"
  unfolding rollback_lines.simps Let_def by (rule if_not_P)

declare rollback_lines.simps(2) [simp del]

lemma rollback_lines_files: "snd (rollback_lines ls v) = removed_by v (set (filter (\<lambda>l. l \<noteq> []) (map trim ls)))"
proof (induction ls arbitrary: v)
  case (Cons l ls)
  show ?case
  proof (cases "trim l \<noteq> [] \<and> path_exists v (trim l) \<and> trim l \<notin> frozen v")
    case True
    then show ?thesis using Cons [of "del_file (trim l) v"] by (simp add: rollback_lines_hit removed_by_del)
  next
    case False
    then show ?thesis using Cons [of v] False by (auto simp: rollback_lines_miss path_exists_def removed_by_skip)
  qed
qed (simp add: removed_by_empty)

text \<open>The number of files it reports is the number it removed.\<close>

lemma rollback_lines_count:
  "fst (rollback_lines ls v) = card ({p \<in> set (map trim ls). p \<noteq> [] \<and> path_exists v p} - frozen v)"
proof (induction ls arbitrary: v)
  case (Cons l ls)
  let ?s = "\<lambda>v ls. {p \<in> set (map trim ls). p \<noteq> [] \<and> path_exists v p} - frozen v"
  show ?case
  proof (cases "trim l \<noteq> [] \<and> path_exists v (trim l) \<and> trim l \<notin> frozen v")
    case True
    then have "?s v (l # ls) = insert (trim l) (?s (del_file (trim l) v) ls)" by (auto simp: path_exists_def)
    moreover have "trim l \<notin> ?s (del_file (trim l) v) ls" by (simp add: path_exists_def)
    ultimately have "card (?s v (l # ls)) = Suc (card (?s (del_file (trim l) v) ls))" by simp
    then show ?thesis using Cons [of "del_file (trim l) v"] by (simp add: rollback_lines_hit [OF True])
  next
    case False
    then have "?s v (l # ls) = ?s v ls" by auto
    then show ?thesis using Cons [of v] by (simp only: rollback_lines_miss [OF False])
  qed
qed simp

theorem rollback_file_spec:
  assumes "read_to_string v tf = Some c"
  shows "rollback_tracking_file tf v =
    (Ok (card ({p \<in> set (line_paths c). path_exists v p} - frozen v)), removed_by v (insert tf (set (line_paths c))))"
proof -
  from assms have e: "path_exists v tf" by (auto simp: read_to_string_def path_exists_def split: if_splits)
  let ?w = "removed_by v (set (line_paths c))"
  have w: "snd (rollback_lines (str_lines c) v) = ?w" by (simp add: rollback_lines_files line_paths_def)
  have "(if tf \<in> frozen ?w then ?w else del_file tf ?w) = removed_by v (insert tf (set (line_paths c)))"
    by (rule vault_eqI) (auto simp: fun_eq_iff)
  moreover have "{p \<in> set (map trim (str_lines c)). p \<noteq> [] \<and> path_exists v p} = {p \<in> set (line_paths c). path_exists v p}"
    by (auto simp: line_paths_def)
  ultimately show ?thesis using assms e w rollback_lines_count [of "str_lines c" v]
    by (simp add: rollback_tracking_file_def Let_def case_prod_beta)
qed

lemma txn_rollback_spec:
  assumes "read_to_string v (tracking_file t) \<noteq> None"
  shows "txn_rollback t v = (Ok (), removed_by v (insert (tracking_file t) (set (tracked_paths t v))))"
proof -
  from assms obtain c where c: "read_to_string v (tracking_file t) = Some c" by blast
  then show ?thesis by (simp add: txn_rollback_def rollback_file_spec [OF c] tracked_paths_def)
qed

subsection \<open>Tracking\<close>

definition track_all :: "TransactionScope \<Rightarrow> string list \<Rightarrow> Vault \<Rightarrow> Vault" where
  "track_all t ps v = foldl (\<lambda>v p. snd (track_path t p v)) v ps"

lemma line_paths_text: "list_all plain ps \<Longrightarrow> line_paths (lines_text ps) = ps"
proof (induction ps)
  case (Cons p ps)
  then have p: "plain p" and "\<forall>l \<in> set (p # ps). CHR 10 \<notin> set l" by (auto simp: plain_def list_all_iff)
  then have l: "str_lines (lines_text (p # ps)) = map strip_cr (p # ps)" "str_lines (lines_text ps) = map strip_cr ps"
    by (intro str_lines_text0; simp)+
  have "trim (strip_cr p) = p" using p by (simp add: plain_def trim_strip_cr)
  then show ?case using Cons p unfolding line_paths_def l by (simp add: plain_def)
qed (simp add: line_paths_def str_lines_def)

lemma track_all_file:
  "tracking_file t \<notin> frozen v \<Longrightarrow> vfiles v (tracking_file t) = Some (lines_text qs)
   \<Longrightarrow> track_all t ps v = put_file (tracking_file t) (lines_text (qs @ ps)) v"
proof (induction ps arbitrary: qs v)
  case Nil
  then show ?case by (intro vault_eqI) (auto simp: track_all_def fun_eq_iff)
next
  case (Cons p ps)
  let ?v = "snd (track_path t p v)"
  have v: "?v = put_file (tracking_file t) (lines_text (qs @ [p])) v" using Cons.prems by (simp add: track_path_def)
  have "track_all t (p # ps) v = track_all t ps ?v" by (simp add: track_all_def)
  also have "\<dots> = put_file (tracking_file t) (lines_text ((qs @ [p]) @ ps)) ?v"
    using Cons.prems by (intro Cons.IH) (simp_all add: v)
  also have "\<dots> = put_file (tracking_file t) (lines_text (qs @ p # ps)) v"
    unfolding v by (intro vault_eqI) simp_all
  finally show ?case .
qed

text \<open>What a transaction tracks is read back, in order, and rolled back with nothing else.\<close>

theorem tracked_read_back:
  assumes "tracking_file t \<notin> frozen v" "tracking_file t \<notin> unreadable v" "list_all plain ps"
  shows "tracked_paths t (track_all t ps (snd (txn_begin t v))) = ps"
proof -
  have "snd (txn_begin t v) = put_file (tracking_file t) (lines_text []) v" using assms(1) by (simp add: txn_begin_def)
  then have "track_all t ps (snd (txn_begin t v)) = put_file (tracking_file t) (lines_text ([] @ ps)) (snd (txn_begin t v))"
    using assms(1) by (intro track_all_file) simp_all
  then show ?thesis using assms by (simp add: tracked_paths_def read_to_string_def txn_begin_def line_paths_text)
qed

subsection \<open>Conditional commit\<close>

text \<open>The digest tells the two contents of each path apart, which is what SHA-256 is chosen for.\<close>

definition no_collision :: "digest \<Rightarrow> Vault \<Rightarrow> Vault \<Rightarrow> string list \<Rightarrow> bool" where
  "no_collision hash v w ps \<longleftrightarrow>
     (\<forall>p \<in> set ps. map_option hash (vfiles v p) = map_option hash (vfiles w p) \<longrightarrow> vfiles v p = vfiles w p)"

lemma content_version_Ok: "content_version hash v p = Ok x \<Longrightarrow> x = map_option hash (vfiles v p)"
  by (auto simp: content_version_def split: option.splits if_splits)

lemma content_version_readable: "p \<notin> unreadable v \<Longrightarrow> content_version hash v p = Ok (map_option hash (vfiles v p))"
  by (simp add: content_version_def split: option.splits)

lemma snapshot_fill_set:
  assumes "snapshot_fill hash v ps vs = Ok snap" "\<And>p x. (p, x) \<in> set vs \<Longrightarrow> x = map_option hash (vfiles v p)"
  shows "set (versions snap) = {(p, map_option hash (vfiles v p)) |p. p \<in> set ps \<union> fst ` set vs}"
  using assms
proof (induction ps arbitrary: vs)
  case Nil
  then show ?case by (force simp: image_iff)
next
  case (Cons p ps)
  then obtain x where x: "content_version hash v p = Ok x" by (auto split: result.splits)
  let ?vs = "(p, x) # filter (\<lambda>e. fst e \<noteq> p) vs"
  have "snapshot_fill hash v ps ?vs = Ok snap" using Cons.prems(1) x by simp
  moreover have "\<And>q y. (q, y) \<in> set ?vs \<Longrightarrow> y = map_option hash (vfiles v q)"
    using Cons.prems(2) content_version_Ok [OF x] by auto
  ultimately have "set (versions snap) = {(p, map_option hash (vfiles v p)) |p. p \<in> set ps \<union> fst ` set ?vs}"
    by (rule Cons.IH)
  moreover have "set ps \<union> fst ` set ?vs = set (p # ps) \<union> fst ` set vs" by auto
  ultimately show ?case by (simp only:)
qed

lemma snapshot_capture_set:
  assumes "snapshot_capture hash v ps = Ok snap"
  shows "set (versions snap) = {(p, map_option hash (vfiles v p)) |p. p \<in> set ps}"
  using snapshot_fill_set [of hash v ps "[]" snap] assms by (simp add: snapshot_capture_def)

lemma verify_scan_readable:
  assumes "\<forall>(p, x) \<in> set vs. p \<notin> unreadable v"
  shows "verify_scan hash v vs = Ok (map fst (filter (\<lambda>(p, x). map_option hash (vfiles v p) \<noteq> x) vs))"
  using assms
proof (induction vs)
  case (Cons e vs)
  then show ?case by (cases e) (simp add: content_version_readable)
qed simp

lemma verify_drift:
  assumes "snapshot_capture hash v ps = Ok snap" "no_collision hash v w ps" "\<forall>p \<in> set ps. p \<notin> unreadable w"
  shows "\<exists>ds. snapshot_verify hash w snap = Ok ds \<and> set ds = {p \<in> set ps. vfiles w p \<noteq> vfiles v p}"
proof -
  have s: "set (versions snap) = {(p, map_option hash (vfiles v p)) |p. p \<in> set ps}" by (rule snapshot_capture_set [OF assms(1)])
  then have "snapshot_verify hash w snap =
      Ok (map fst (filter (\<lambda>(p, x). map_option hash (vfiles w p) \<noteq> x) (versions snap)))"
    using assms(3) unfolding snapshot_verify_def by (intro verify_scan_readable) auto
  moreover have "set (map fst (filter (\<lambda>(p, x). map_option hash (vfiles w p) \<noteq> x) (versions snap)))
      = {p \<in> set ps. map_option hash (vfiles w p) \<noteq> map_option hash (vfiles v p)}"
    unfolding set_map set_filter s by force
  moreover have "\<dots> = {p \<in> set ps. vfiles w p \<noteq> vfiles v p}"
    using assms(2) unfolding no_collision_def by metis
  ultimately show ?thesis by blast
qed

text \<open>
  Claim C22. A conditional commit succeeds exactly when every path of the snapshot still has the content
  it was captured with, and then only the tracking file goes; otherwise it reports exactly the paths that
  changed, appeared or vanished, and removes every file the transaction tracked.
\<close>

theorem cas_commit_exact:
  assumes "snapshot_capture hash v ps = Ok snap" "no_collision hash v w ps" "\<forall>p \<in> set ps. p \<notin> unreadable w"
    "read_to_string w (tracking_file t) \<noteq> None" "tracking_file t \<notin> frozen w"
  shows "case commit_conditional hash t snap w of
      (Ok CasCommitted, u) \<Rightarrow> (\<forall>p \<in> set ps. vfiles w p = vfiles v p) \<and> u = removed_by w {tracking_file t}
    | (Ok (CasRolledBack ds), u) \<Rightarrow> ds \<noteq> [] \<and> set ds = {p \<in> set ps. vfiles w p \<noteq> vfiles v p}
        \<and> u = removed_by w (insert (tracking_file t) (set (tracked_paths t w)))
    | (Err e, u) \<Rightarrow> False"
proof -
  from verify_drift [OF assms(1-3)] obtain ds where
    ds: "snapshot_verify hash w snap = Ok ds" "set ds = {p \<in> set ps. vfiles w p \<noteq> vfiles v p}" by blast
  show ?thesis
  proof (cases "ds = []")
    case True
    from assms(4) have "path_exists w (tracking_file t)" by (auto simp: read_to_string_def path_exists_def split: if_splits)
    then have "txn_commit t w = (Ok (), removed_by w {tracking_file t})"
      using assms(5) by (auto simp: txn_commit_def intro!: vault_eqI simp: fun_eq_iff)
    then have "commit_conditional hash t snap w = (Ok CasCommitted, removed_by w {tracking_file t})"
      using ds(1) True by (simp add: commit_conditional_def)
    then show ?thesis using ds(2) True by auto
  next
    case False
    then have "commit_conditional hash t snap w =
        (Ok (CasRolledBack ds), removed_by w (insert (tracking_file t) (set (tracked_paths t w))))"
      using ds(1) txn_rollback_spec [OF assms(4)] by (simp add: commit_conditional_def)
    then show ?thesis using ds(2) False by simp
  qed
qed

subsection \<open>Replay\<close>

definition shrinks :: "Vault \<Rightarrow> Vault \<Rightarrow> bool" where
  "shrinks v w \<longleftrightarrow> vfiles w \<subseteq>\<^sub>m vfiles v \<and> frozen w = frozen v \<and> unreadable w = unreadable v"

lemma shrinks_refl [simp]: "shrinks v v" and shrinks_trans: "shrinks u v \<Longrightarrow> shrinks v w \<Longrightarrow> shrinks u w"
  by (auto simp: shrinks_def intro: map_le_trans)

lemma shrinks_removed: "shrinks v (removed_by v ps)"
  by (auto simp: shrinks_def map_le_def)

lemma shrinks_exists: "shrinks v w \<Longrightarrow> path_exists w p \<Longrightarrow> path_exists v p"
  by (auto simp: shrinks_def path_exists_def map_le_def dom_def)

lemma shrinks_stale: "shrinks v w \<Longrightarrow> stale_txn logs a w e \<Longrightarrow> stale_txn logs a v e"
  by (auto simp: stale_txn_def shrinks_exists split: prod.splits)

lemma rollback_file_cases:
  "rollback_tracking_file tf v = (r, w) \<Longrightarrow> path_exists v tf
   \<Longrightarrow> (\<exists>e. r = Err e) \<and> w = v \<or> (\<exists>n c. r = Ok n \<and> vfiles v tf = Some c \<and> w = removed_by v (insert tf (set (line_paths c))))"
proof (cases "read_to_string v tf")
  case None
  moreover assume "rollback_tracking_file tf v = (r, w)" "path_exists v tf"
  ultimately show ?thesis by (auto simp: rollback_tracking_file_def)
next
  case (Some c)
  moreover assume "rollback_tracking_file tf v = (r, w)"
  moreover from Some have "vfiles v tf = Some c" by (simp add: read_to_string_def split: if_splits)
  ultimately show ?thesis by (auto simp: rollback_file_spec)
qed

lemma replay_scan_shrinks: "replay_scan logs a es r v = (x, w) \<Longrightarrow> shrinks v w"
proof (induction es arbitrary: r v)
  case (Cons e es)
  show ?case
  proof (cases "stale_txn logs a v e")
    case True
    obtain y u where y: "rollback_tracking_file (path_join logs (fst e)) v = (y, u)" by fastforce
    from True have "path_exists v (path_join logs (fst e))" by (auto simp: stale_txn_def split: prod.splits)
    from rollback_file_cases [OF y this] have u: "shrinks v u" using shrinks_removed by auto
    show ?thesis
    proof (cases y)
      case (Ok n)
      then show ?thesis using Cons y True shrinks_trans [OF u] by simp
    next
      case (Err z)
      then show ?thesis using Cons.prems y True u by simp
    qed
  qed (use Cons in simp)
qed simp

lemma replay_scan_settles:
  "replay_scan logs a es r v = (Ok x, w) \<Longrightarrow> frozen v = {} \<Longrightarrow> \<forall>e \<in> set es. \<not> stale_txn logs a w e"
proof (induction es arbitrary: r v)
  case (Cons e es)
  show ?case
  proof (cases "stale_txn logs a v e")
    case True
    obtain y u where y: "rollback_tracking_file (path_join logs (fst e)) v = (y, u)" by fastforce
    from True have p: "path_exists v (path_join logs (fst e))" by (auto simp: stale_txn_def split: prod.splits)
    obtain n where n: "y = Ok n" using Cons.prems(1) True y by (cases y) simp_all
    from rollback_file_cases [OF y p] n obtain c where
      c: "u = removed_by v (insert (path_join logs (fst e)) (set (line_paths c)))" by auto
    have rest: "replay_scan logs a es (r\<lparr>tracking_files := Suc (tracking_files r), files_removed := files_removed r + n\<rparr>) u = (Ok x, w)"
      using Cons.prems(1) True y n by simp
    have "frozen u = {}" using c Cons.prems(2) by simp
    from Cons.IH [OF rest this] have "\<forall>e \<in> set es. \<not> stale_txn logs a w e" .
    moreover have "\<not> stale_txn logs a u e" using c Cons.prems(2) by (auto simp: stale_txn_def path_exists_def split: prod.splits)
    then have "\<not> stale_txn logs a w e" using shrinks_stale [OF replay_scan_shrinks [OF rest], of logs a e] by blast
    ultimately show ?thesis by simp
  next
    case False
    then have rest: "replay_scan logs a es r v = (Ok x, w)" using Cons.prems(1) by simp
    have "\<not> stale_txn logs a w e" using shrinks_stale [OF replay_scan_shrinks [OF rest], of logs a e] False by blast
    then show ?thesis using Cons.IH [OF rest Cons.prems(2)] by simp
  qed
qed simp

lemma replay_scan_nothing: "\<forall>e \<in> set es. \<not> stale_txn logs a v e \<Longrightarrow> replay_scan logs a es r v = (Ok r, v)"
  by (induction es) auto

text \<open>Every file a replay removes is a stale tracking file or is named by one.\<close>

lemma replay_scan_confined:
  "replay_scan logs a es r v = (x, w) \<Longrightarrow> path_exists v p \<Longrightarrow> \<not> path_exists w p
   \<Longrightarrow> \<exists>e \<in> set es. stale_txn logs a v e
        \<and> (p = path_join logs (fst e) \<or> (\<exists>c. vfiles v (path_join logs (fst e)) = Some c \<and> p \<in> set (line_paths c)))"
proof (induction es arbitrary: r v)
  case (Cons e es)
  show ?case
  proof (cases "stale_txn logs a v e")
    case True
    let ?f = "path_join logs (fst e)"
    obtain y u where y: "rollback_tracking_file ?f v = (y, u)" by fastforce
    from True have "path_exists v ?f" by (auto simp: stale_txn_def split: prod.splits)
    note cs = rollback_file_cases [OF y this]
    show ?thesis
    proof (cases "path_exists u p")
      case False
      with cs Cons.prems(2) obtain c where "vfiles v ?f = Some c" "p \<in> insert ?f (set (line_paths c))"
        by (auto simp: path_exists_def split: if_splits)
      then show ?thesis using True by auto
    next
      case gone: True
      with Cons.prems(1,3) True y obtain r' where "replay_scan logs a es r' u = (x, w)" by (cases y) auto
      from Cons.IH [OF this gone Cons.prems(3)] obtain d where d: "d \<in> set es" "stale_txn logs a u d"
        "p = path_join logs (fst d) \<or> (\<exists>c. vfiles u (path_join logs (fst d)) = Some c \<and> p \<in> set (line_paths c))" by blast
      have sh: "shrinks v u" using cs shrinks_removed by auto
      then have "vfiles u q = Some c \<Longrightarrow> vfiles v q = Some c" for q c by (auto simp: shrinks_def map_le_def dom_def)
      then show ?thesis using d shrinks_stale [OF sh d(2)] by auto
    qed
  next
    case False
    then have "replay_scan logs a es r v = (x, w)" using Cons.prems(1) by simp
    from Cons.IH [OF this Cons.prems(2,3)] show ?thesis by auto
  qed
qed simp


end
