(* ===== verification/Vault_Cascade.thy ===== *)
theory Vault_Cascade
  imports Vault_Txn
begin

section \<open>Provenance cascade (zen-vault/src/distill/cascade.rs, wiki.rs, wiki/iterations.rs)\<close>

text \<open>
  The list of sources in the front matter of a page, its redirection when a note is archived, the sweep
  of dead sources, and the store of prior versions. The walk over the wiki is the list of files in the
  order the directory gives them; directory listings, the diff and the Unicode tables are arguments.
\<close>

subsection \<open>Paths\<close>

definition base_name :: "string \<Rightarrow> string" where
  "base_name p = last (split_on (\<lambda>c. c = CHR ''/'') p)"

definition path_parent :: "string \<Rightarrow> string" where
  "path_parent p = str_join ''/'' (butlast (split_on (\<lambda>c. c = CHR ''/'') p))"

text \<open>The stem and the extension: split at the last dot, unless it begins the name.\<close>

definition split_ext :: "string \<Rightarrow> string \<times> string option" where
  "split_ext n =
     (let e = takeWhile (\<lambda>c. c \<noteq> CHR ''.'') (rev n)
      in if length n \<le> length e + 1 then (n, None) else (take (length n - length e - 1) n, Some (rev e)))"

definition path_title :: "string \<Rightarrow> string" where
  "path_title p = fst (split_ext (base_name p))"

definition with_extension :: "string \<Rightarrow> string \<Rightarrow> string" where
  "with_extension p e = take (length p - length (base_name p)) p @ path_title p @ ''.'' @ e"

subsection \<open>The list of sources\<close>

definition trim_right :: "string \<Rightarrow> string" where
  "trim_right s = concat (rstrip (utf8_chars s))"

definition source_items :: "string \<Rightarrow> string list" where
  "source_items rest =
     (let list = trim rest;
          inner = (if starts_with list ''['' \<and> ends_with (drop 1 list) '']'' then butlast (drop 1 list) else list)
      in filter (\<lambda>i. i \<noteq> []) (map (\<lambda>item. trim_char (CHR 34) (trim item)) (split_str [CHR 34, CHR '','', CHR '' '', CHR 34] inner)))"

fun sources_scan :: "bool \<Rightarrow> string list \<Rightarrow> string list option" where
  "sources_scan in_fm [] = None"
| "sources_scan in_fm (line # ls) =
     (if trim_right line = ''---'' then (if in_fm then None else sources_scan True ls)
      else if \<not> in_fm then sources_scan in_fm ls
      else (case strip_prefix (trim_right line) ''sources:'' of
              Some rest \<Rightarrow> Some (source_items rest)
            | None \<Rightarrow> sources_scan in_fm ls))"

definition parse_sources :: "string \<Rightarrow> string list option" where
  "parse_sources content = sources_scan False (str_lines content)"

definition sources_line :: "string list \<Rightarrow> string" where
  "sources_line ss = ''sources: ['' @ str_join '', '' (map (\<lambda>s. [CHR 34] @ s @ [CHR 34]) ss) @ '']''"

text \<open>Every rule line switches the front matter on and off.\<close>

fun write_lines :: "string list \<Rightarrow> bool \<Rightarrow> string list \<Rightarrow> string list \<times> bool" where
  "write_lines ss in_fm [] = ([], False)"
| "write_lines ss in_fm (line # ls) =
     (if trim_right line = ''---'' then (let (out, replaced) = write_lines ss (\<not> in_fm) ls in (trim_right line # out, replaced))
      else if in_fm \<and> starts_with (trim_right line) ''sources:''
      then (let (out, replaced) = write_lines ss in_fm ls in (sources_line ss # out, True))
      else (let (out, replaced) = write_lines ss in_fm ls in (line # out, replaced)))"

definition write_sources :: "string \<Rightarrow> string list \<Rightarrow> string" where
  "write_sources content ss =
     (let (out, replaced) = write_lines ss False (str_lines content) in if replaced then lines_text out else content)"

fun title_scan :: "bool \<Rightarrow> string list \<Rightarrow> string option" where
  "title_scan in_fm [] = None"
| "title_scan in_fm (line # ls) =
     (if trim_right line = ''---'' then (if in_fm then None else title_scan True ls)
      else if \<not> in_fm then title_scan in_fm ls
      else (case strip_prefix (trim_right line) ''title:'' of
              Some rest \<Rightarrow> Some (trim_char (CHR 34) (trim rest))
            | None \<Rightarrow> title_scan in_fm ls))"

definition frontmatter_title :: "string \<Rightarrow> string option" where
  "frontmatter_title content = title_scan False (str_lines content)"

subsection \<open>Links and names\<close>

fun links_in :: "string \<Rightarrow> string \<Rightarrow> string list"
and links_out :: "string \<Rightarrow> string list" where
  "links_in link [] = []"
| "links_in link (c # s) =
     (if c = CHR '']'' then
        (case s of
           [] \<Rightarrow> []
         | d # r \<Rightarrow> if d = CHR '']'' then (if link \<noteq> [] then link # links_out r else links_out r) else links_in link s)
      else links_in (link @ [c]) s)"
| "links_out [] = []"
| "links_out (c # s) =
     (case s of
        [] \<Rightarrow> []
      | d # r \<Rightarrow> if c = CHR ''['' \<and> d = CHR ''['' then links_in [] r else links_out s)"

definition extract_wikilinks :: "string \<Rightarrow> string list" where
  "extract_wikilinks content = links_out content"

record Unicode =
  u_nfc :: "string \<Rightarrow> string"
  u_lower :: "string \<Rightarrow> string"
  u_alnum :: "string \<Rightarrow> bool"

definition alias_suffixes :: "string list" where
  "alias_suffixes = [''.js'', ''.rs'', ''.py'', ''-lang'', '' lang'', '' language'', ''.ts'', ''.go'', ''.java'', ''.rb'']"

definition normalize_alias :: "Unicode \<Rightarrow> string \<Rightarrow> string" where
  "normalize_alias u raw =
     (let s = u_lower u (trim (u_nfc u raw))
      in case find (ends_with s) alias_suffixes of
           Some sfx \<Rightarrow> trim (take (length s - length sfx) s)
         | None \<Rightarrow> trim s)"

fun slug_chars :: "Unicode \<Rightarrow> bool \<Rightarrow> string list \<Rightarrow> string" where
  "slug_chars u prev_dash [] = []"
| "slug_chars u prev_dash (ch # chs) =
     (if u_alnum u ch then ch @ slug_chars u False chs
      else if \<not> prev_dash then ''-'' @ slug_chars u True chs
      else slug_chars u prev_dash chs)"

definition slugify :: "Unicode \<Rightarrow> string \<Rightarrow> string" where
  "slugify u title = trim_char (CHR ''-'') (slug_chars u False (utf8_chars (u_lower u title)))"

subsection \<open>Prior versions of a page\<close>

record CapturedIteration =
  ci_page_rel :: string
  ci_md_path :: string
  ci_diff_path :: "string option"

record IterationVersion =
  iv_page_rel :: string
  iv_millis :: int
  iv_md_path :: string
  iv_diff_path :: "string option"

definition page_rel_of :: "string \<Rightarrow> string \<Rightarrow> string option" where
  "page_rel_of wiki_dir p = strip_prefix p (wiki_dir @ ''/'')"

definition version_dir_for :: "string \<Rightarrow> string \<Rightarrow> string" where
  "version_dir_for root rel = path_join (path_join root (path_parent rel)) (path_title rel)"

definition version_file :: "string \<Rightarrow> int \<Rightarrow> string" where
  "version_file dir millis = path_join dir (int_str millis @ ''.md'')"

partial_function (option) free_millis :: "Vault \<Rightarrow> string \<Rightarrow> int \<Rightarrow> int option" where
  "free_millis v dir millis =
     (if path_exists v (version_file dir millis) then free_millis v dir (millis + 1) else Some millis)"

text \<open>The capture of the bytes of a page before it is overwritten; \<open>None\<close> on the outside if it never ends.\<close>

definition iteration_capture ::
  "(string \<Rightarrow> string \<Rightarrow> string) \<Rightarrow> string \<Rightarrow> string \<Rightarrow> string \<Rightarrow> string \<Rightarrow> int \<Rightarrow> Vault
   \<Rightarrow> ((CapturedIteration option, string) result \<times> Vault) option" where
  "iteration_capture create_patch root wiki_dir page next_content now v =
     (case (page_rel_of wiki_dir page, read_to_string v page) of
        (Some rel, Some prior) \<Rightarrow>
          if prior = next_content then Some (Ok None, v)
          else let dir = version_dir_for root rel
               in (case free_millis v dir now of
                     None \<Rightarrow> None
                   | Some millis \<Rightarrow>
                       let md = version_file dir millis
                       in if md \<in> frozen v then Some (Err (''write iteration: '' @ md), v)
                          else let w = put_file md prior v;
                                   patch = create_patch prior next_content;
                                   diff = with_extension md ''diff''
                               in if patch = [] \<or> diff \<in> frozen w
                                  then Some (Ok (Some \<lparr>ci_page_rel = rel, ci_md_path = md, ci_diff_path = None\<rparr>), w)
                                  else Some (Ok (Some \<lparr>ci_page_rel = rel, ci_md_path = md, ci_diff_path = Some diff\<rparr>),
                                         put_file diff patch w))
      | _ \<Rightarrow> Some (Ok None, v))"

definition parse_i64 :: "string \<Rightarrow> int option" where
  "parse_i64 s =
     (if starts_with s ''-''
      then if starts_with s ''-+'' then None else map_option (\<lambda>n. - int n) (parse_uint (2 ^ 63 + 1) (drop 1 s))
      else map_option int (parse_uint (2 ^ 63) s))"

text \<open>The names in a directory are what the operating system lists.\<close>

definition versions_of :: "(Vault \<Rightarrow> string \<Rightarrow> string list option) \<Rightarrow> string \<Rightarrow> string \<Rightarrow> string \<Rightarrow> Vault \<Rightarrow> IterationVersion list" where
  "versions_of read_dir root wiki_dir page v =
     (case page_rel_of wiki_dir page of
        None \<Rightarrow> []
      | Some rel \<Rightarrow>
          (case read_dir v (version_dir_for root rel) of
             None \<Rightarrow> []
           | Some names \<Rightarrow>
               rev (sort_key iv_millis (List.map_filter
                 (\<lambda>n. if snd (split_ext n) \<noteq> Some ''md'' then None
                      else map_option (\<lambda>m. let md = path_join (version_dir_for root rel) n; diff = with_extension md ''diff''
                             in \<lparr>iv_page_rel = rel, iv_millis = m, iv_md_path = md,
                                 iv_diff_path = (if path_exists v diff then Some diff else None)\<rparr>)
                           (parse_i64 (fst (split_ext n)))) names))))"

definition iteration_restore ::
  "(string \<Rightarrow> string \<Rightarrow> string) \<Rightarrow> string \<Rightarrow> string \<Rightarrow> IterationVersion \<Rightarrow> int \<Rightarrow> Vault
   \<Rightarrow> ((CapturedIteration option, string) result \<times> Vault) option" where
  "iteration_restore create_patch root wiki_dir version now v =
     (case read_to_string v (iv_md_path version) of
        None \<Rightarrow> Some (Err (''read iteration: '' @ iv_md_path version), v)
      | Some restored \<Rightarrow>
          let page = path_join wiki_dir (iv_page_rel version)
          in (case iteration_capture create_patch root wiki_dir page restored now v of
                None \<Rightarrow> None
              | Some (Err e, w) \<Rightarrow> Some (Err e, w)
              | Some (Ok captured, w) \<Rightarrow>
                  if page \<in> frozen w then Some (Err (''restore page: '' @ page), w)
                  else Some (Ok captured, put_file page restored w)))"

subsection \<open>Walking the pages\<close>

definition CASCADE_EXEMPT_STEMS :: "string list" where
  "CASCADE_EXEMPT_STEMS = [''index'', ''log'']"

definition cascade_page :: "string \<Rightarrow> bool" where
  "cascade_page p \<longleftrightarrow> snd (split_ext (base_name p)) = Some ''md'' \<and> path_title p \<notin> set CASCADE_EXEMPT_STEMS"

text \<open>A callback that never returns makes the walk \<open>None\<close>.\<close>

fun for_each_page ::
  "(string \<Rightarrow> string \<Rightarrow> 's \<Rightarrow> Vault \<Rightarrow> (string option \<times> 's \<times> Vault) option) \<Rightarrow> string list \<Rightarrow> 's \<Rightarrow> Vault
   \<Rightarrow> ((unit, string) result \<times> 's \<times> Vault) option" where
  "for_each_page f [] s v = Some (Ok (), s, v)"
| "for_each_page f (p # ps) s v =
     (if \<not> cascade_page p then for_each_page f ps s v
      else (case read_to_string v p of
              None \<Rightarrow> for_each_page f ps s v
            | Some content \<Rightarrow>
                (case f p content s v of
                   None \<Rightarrow> None
                 | Some (None, s', v') \<Rightarrow> for_each_page f ps s' v'
                 | Some (Some new_content, s', v') \<Rightarrow>
                     if new_content = [] then for_each_page f ps s' v'
                     else if p \<in> frozen v' then Some (Err (''cascade rewrite: '' @ p), s', v')
                     else for_each_page f ps s' (put_file p new_content v'))))"

definition redirect_step ::
  "string \<Rightarrow> string \<Rightarrow> TransactionScope \<Rightarrow> string \<Rightarrow> string \<Rightarrow> nat \<Rightarrow> Vault \<Rightarrow> (string option \<times> nat \<times> Vault) option" where
  "redirect_step from to t p content n v =
     Some (case parse_sources content of
        None \<Rightarrow> (None, n, v)
      | Some sources \<Rightarrow>
          if from \<notin> set sources then (None, n, v)
          else (Some (write_sources content (map (\<lambda>s. if s = from then to else s) sources)), Suc n, snd (track_path t p v)))"

definition redirect_page_source ::
  "string list \<Rightarrow> string \<Rightarrow> string \<Rightarrow> TransactionScope \<Rightarrow> Vault \<Rightarrow> ((nat, string) result \<times> Vault) option" where
  "redirect_page_source walk from to t v =
     map_option (\<lambda>(r, n, w). (case r of Ok _ \<Rightarrow> Ok n | Err _ \<Rightarrow> Err ''cascade redirect: walk wiki pages'', w))
       (for_each_page (redirect_step from to t) walk 0 v)"

subsection \<open>The sweep\<close>

record CascadeReport =
  pages_scanned :: nat
  entries_stripped :: nat
  pages_deleted :: nat
  orphans_pending :: nat
  links_cleaned :: nat

definition cascade_zero :: CascadeReport where
  "cascade_zero = \<lparr>pages_scanned = 0, entries_stripped = 0, pages_deleted = 0, orphans_pending = 0, links_cleaned = 0\<rparr>"

record SweepState =
  sw_report :: CascadeReport
  sw_deleted :: "(string \<times> string) list"
  sw_captured :: "string list"

record CascadeEnv =
  se_unicode :: Unicode
  se_read_dir :: "Vault \<Rightarrow> string \<Rightarrow> string list option"
  se_patch :: "string \<Rightarrow> string \<Rightarrow> string"
  se_now :: int
  se_wiki :: string
  se_store :: "string option"

definition add_pending :: "SweepState \<Rightarrow> SweepState" where
  "add_pending s = s\<lparr>sw_report := (sw_report s)\<lparr>orphans_pending := Suc (orphans_pending (sw_report s))\<rparr>\<rparr>"

text \<open>A page all of whose sources are gone.\<close>

definition sweep_orphan :: "CascadeEnv \<Rightarrow> string \<Rightarrow> string \<Rightarrow> SweepState \<Rightarrow> Vault \<Rightarrow> (string option \<times> SweepState \<times> Vault) option" where
  "sweep_orphan env p content s v =
     (let seen_before = (case se_store env of Some root \<Rightarrow> versions_of (se_read_dir env) root (se_wiki env) p v \<noteq> [] | None \<Rightarrow> True);
          title = (case frontmatter_title content of Some t \<Rightarrow> t | None \<Rightarrow> path_title p);
          slug = slugify (se_unicode env) title
      in if seen_before then
           (if p \<notin> frozen v
            then Some (Some [], s\<lparr>sw_report := (sw_report s)\<lparr>pages_deleted := Suc (pages_deleted (sw_report s))\<rparr>,
                   sw_deleted := sw_deleted s @ [(title, slug)]\<rparr>, del_file p v)
            else Some (None, s, v))
         else (case se_store env of
                 None \<Rightarrow> Some (None, add_pending s, v)
               | Some root \<Rightarrow>
                   (case iteration_capture (se_patch env) root (se_wiki env) p [] (se_now env) v of
                      None \<Rightarrow> None
                    | Some (Err _, w) \<Rightarrow> Some (None, s, w)
                    | Some (Ok None, w) \<Rightarrow> Some (None, add_pending s, w)
                    | Some (Ok (Some c), w) \<Rightarrow>
                        Some (None, add_pending (s\<lparr>sw_captured := sw_captured s @ ci_md_path c #
                                (case ci_diff_path c of Some d \<Rightarrow> [d] | None \<Rightarrow> [])\<rparr>), w))))"

definition sweep_step :: "CascadeEnv \<Rightarrow> string \<Rightarrow> string \<Rightarrow> SweepState \<Rightarrow> Vault \<Rightarrow> (string option \<times> SweepState \<times> Vault) option" where
  "sweep_step env p content s0 v =
     (let s = s0\<lparr>sw_report := (sw_report s0)\<lparr>pages_scanned := Suc (pages_scanned (sw_report s0))\<rparr>\<rparr>
      in case parse_sources content of
           None \<Rightarrow> Some (None, s, v)
         | Some sources \<Rightarrow>
             let alive = filter (path_exists v) sources; dead = length sources - length alive
             in if sources = [] \<or> dead = 0 then Some (None, s, v)
                else if alive = [] then sweep_orphan env p content s v
                else Some (Some (write_sources content alive),
                       s\<lparr>sw_report := (sw_report s)\<lparr>entries_stripped := entries_stripped (sw_report s) + dead\<rparr>\<rparr>, v))"

definition link_dead :: "Unicode \<Rightarrow> (string \<times> string) list \<Rightarrow> string \<Rightarrow> bool" where
  "link_dead u deleted target \<longleftrightarrow>
     list_ex (\<lambda>(title, slug). normalize_alias u target = normalize_alias u title \<or> normalize_alias u target = slug) deleted"

definition clean_step ::
  "Unicode \<Rightarrow> (string \<times> string) list \<Rightarrow> TransactionScope \<Rightarrow> string \<Rightarrow> string \<Rightarrow> CascadeReport \<Rightarrow> Vault
   \<Rightarrow> (string option \<times> CascadeReport \<times> Vault) option" where
  "clean_step u deleted t p content r v =
     (let targets = filter (link_dead u deleted) (extract_wikilinks content);
          new_content = foldl (\<lambda>c target. str_replace c (''[['' @ target @ '']]'') target) content targets
      in Some (if targets \<noteq> []
               then (Some new_content, r\<lparr>links_cleaned := links_cleaned r + length targets\<rparr>, snd (track_path t p v))
               else (None, r, v)))"

fun track_each :: "TransactionScope \<Rightarrow> string list \<Rightarrow> Vault \<Rightarrow> (unit, string) result \<times> Vault" where
  "track_each t [] v = (Ok (), v)"
| "track_each t (p # ps) v = (case track_path t p v of (Err e, w) \<Rightarrow> (Err e, w) | (Ok _, w) \<Rightarrow> track_each t ps w)"

definition sweep_dead_sources ::
  "CascadeEnv \<Rightarrow> bool \<Rightarrow> string list \<Rightarrow> string list \<Rightarrow> TransactionScope \<Rightarrow> Vault \<Rightarrow> ((CascadeReport, string) result \<times> Vault) option" where
  "sweep_dead_sources env is_dir walk1 walk2 t v =
     (if \<not> is_dir then Some (Ok cascade_zero, v)
      else (case for_each_page (sweep_step env) walk1 \<lparr>sw_report = cascade_zero, sw_deleted = [], sw_captured = []\<rparr> v of
              None \<Rightarrow> None
            | Some (Err _, _, w) \<Rightarrow> Some (Err ''cascade sweep: walk wiki pages'', w)
            | Some (Ok _, s, w) \<Rightarrow>
                (case track_each t (sw_captured s) w of
                   (Err e, x) \<Rightarrow> Some (Err e, x)
                 | (Ok _, x) \<Rightarrow>
                     if sw_deleted s = [] then Some (Ok (sw_report s), x)
                     else map_option (\<lambda>(res, r, y). (case res of Ok _ \<Rightarrow> Ok r | Err _ \<Rightarrow> Err ''cascade sweep: link cleanup'', y))
                            (for_each_page (clean_step (se_unicode env) (sw_deleted s) t) walk2 (sw_report s) x))))"

subsection \<open>Sources are read back\<close>

lemma strip_white_ends:
  assumes "strip_white cs = cs" "cs \<noteq> []"
  shows "\<not> is_white (hd cs) \<and> \<not> is_white (last cs)"
proof -
  have "length (strip_white cs) \<le> length (dropWhile is_white cs)" "length (dropWhile is_white cs) \<le> length cs"
    unfolding strip_white_rstrip rstrip_def length_rev
    by (metis length_dropWhile_le length_rev, rule length_dropWhile_le)
  with assms(1) have l: "length (dropWhile is_white cs) = length cs" by simp
  then have d: "dropWhile is_white cs = cs" by (metis append_eq_conv_conj drop_all order_refl takeWhile_dropWhile_id length_append add_cancel_left_left length_0_conv append_Nil)
  then have "\<not> is_white (hd cs)" using hd_dropWhile [of is_white cs] assms(2) by simp
  moreover have "dropWhile is_white (rev cs) = rev cs"
    using assms(1) d unfolding strip_white_rstrip rstrip_def by (metis rev_rev_ident)
  then have "\<not> is_white (hd (rev cs))" using hd_dropWhile [of is_white "rev cs"] assms(2) by simp
  ultimately show ?thesis using assms(2) by (simp add: hd_rev)
qed

lemma plain_ends:
  assumes "plain s"
  shows "utf8_chars s \<noteq> [] \<and> \<not> is_white (hd (utf8_chars s)) \<and> \<not> is_white (last (utf8_chars s))"
proof -
  have "strip_white (utf8_chars s) = utf8_chars s" using assms utf8_trim [of s] by (simp add: plain_def)
  moreover have "utf8_chars s \<noteq> []" using assms by (cases s) (simp_all add: plain_def)
  ultimately show ?thesis using strip_white_ends by blast
qed

definition source_ok :: "string \<Rightarrow> bool" where
  "source_ok s \<longleftrightarrow> plain s \<and> CHR 34 \<notin> set s"

definition quote_end :: "string \<Rightarrow> bool" where
  "quote_end q \<longleftrightarrow> q = [] \<or> q = [CHR 34]"

lemma utf8_quote_end: "quote_end q \<Longrightarrow> utf8_chars q = map (\<lambda>c. [c]) q"
  unfolding quote_end_def using quote_chars(1) by auto

lemma item_chars:
  assumes "plain s" "quote_end q" "quote_end e"
  shows "utf8_chars (q @ s @ e) = map (\<lambda>c. [c]) q @ utf8_chars s @ map (\<lambda>c. [c]) e"
proof -
  have "utf8_chars (s @ e) = utf8_chars s @ utf8_chars e"
    using assms(3) quote_chars(1) by (intro utf8_chars_append) (auto simp: quote_end_def)
  moreover have "utf8_chars (q @ (s @ e)) = utf8_chars q @ utf8_chars (s @ e)"
    using assms(1) by (intro utf8_chars_append) (auto simp: plain_def on_boundary_def hd_append)
  ultimately show ?thesis using assms(2,3) by (simp add: utf8_quote_end)
qed

lemma item_trim:
  assumes "plain s" "quote_end q" "quote_end e"
  shows "trim (q @ s @ e) = q @ s @ e"
proof -
  let ?cs = "map (\<lambda>c. [c]) q @ utf8_chars s @ map (\<lambda>c. [c]) e"
  from plain_ends [OF assms(1)] have n: "utf8_chars s \<noteq> []" "\<not> is_white (hd (utf8_chars s))" "\<not> is_white (last (utf8_chars s))" by simp_all
  have "\<not> is_white (hd ?cs)" using n assms(2) quote_chars(3) by (auto simp: quote_end_def)
  moreover have "\<not> is_white (last ?cs)" using n assms(3) quote_chars(3) by (auto simp: quote_end_def)
  ultimately have "strip_white ?cs = ?cs" using n(1) by (intro strip_visible) simp_all
  then have "trim (q @ s @ e) = concat ?cs" unfolding trim_strip item_chars [OF assms] by simp
  also have "\<dots> = q @ s @ e" by (simp add: concat_map_singleton)
  finally show ?thesis .
qed

lemma item_unquoted:
  assumes "source_ok s" "quote_end q" "quote_end e"
  shows "trim_char (CHR 34) (trim (q @ s @ e)) = s"
proof -
  from assms(1) have s: "plain s" "CHR 34 \<notin> set s" "s \<noteq> []" by (auto simp: source_ok_def plain_def)
  then have h: "hd s \<noteq> CHR 34" "last s \<noteq> CHR 34" by (metis hd_in_set, metis last_in_set)
  have "dropWhile (\<lambda>x. x = CHR 34) (q @ s @ e) = s @ e" using assms(2) s(3) h(1) by (cases s) (auto simp: quote_end_def)
  moreover have "trim_end_char (CHR 34) (s @ e) = s"
    using assms(3) s(3) h(2) by (cases s rule: rev_cases) (auto simp: quote_end_def trim_end_char_def)
  ultimately show ?thesis by (simp add: item_trim [OF s(1) assms(2,3)] trim_char_def)
qed

definition SEP :: string where "SEP = [CHR 34, CHR '','', CHR '' '', CHR 34]"

lemma comma_space_not_plain: "\<not> plain '', ''"
  unfolding plain_def by code_simp

lemma no_early_sep:
  assumes "source_ok s" "quote_end q" "j < length (q @ s)"
  shows "\<not> prefix SEP (drop j (q @ s @ CHR 34 # r))"
proof
  assume p: "prefix SEP (drop j (q @ s @ CHR 34 # r))"
  have nq: "CHR 34 \<notin> set s" "plain s" "s \<noteq> []" using assms(1) by (auto simp: source_ok_def plain_def)
  show False
  proof (cases "q = [] \<or> 0 < j")
    case True
    then have d: "drop j (q @ s @ CHR 34 # r) = drop (j - length q) s @ CHR 34 # r" "j - length q < length s"
      using assms(2,3) by (auto simp: quote_end_def)
    then obtain c t where "drop (j - length q) s = c # t" by (cases "drop (j - length q) s") simp_all
    moreover from this have "c \<in> set s" by (metis in_set_dropD list.set_intros(1))
    ultimately show ?thesis using p nq(1) d(1) by (auto simp: SEP_def)
  next
    case False
    then have "prefix [CHR '','', CHR '' '', CHR 34] (s @ CHR 34 # r)" using p assms(2) by (auto simp: quote_end_def SEP_def)
    then have "s = '', ''" using nq(1,3) by (cases s; cases "tl s"; cases "tl (tl s)") auto
    then show ?thesis using nq(2) comma_space_not_plain by simp
  qed
qed

lemma str_find_first:
  assumes "prefix p (drop i s)" "\<And>j. j < i \<Longrightarrow> \<not> prefix p (drop j s)" "i \<le> length s"
  shows "str_find s p = Some i"
proof -
  have "str_contains s p" using assms(1,3) unfolding str_contains_iff prefix_def by (metis append_take_drop_id)
  then obtain k where k: "str_find s p = Some k" using str_find_None_iff [of s p] by (cases "str_find s p") auto
  with str_find_Some [OF k] assms show ?thesis by (metis linorder_neqE_nat)
qed

lemma split_sources:
  "source_ok s \<Longrightarrow> list_all source_ok ss \<Longrightarrow> quote_end q \<Longrightarrow>
   map (\<lambda>item. trim_char (CHR 34) (trim item)) (split_str SEP (q @ s @ concat (map (\<lambda>x. SEP @ x) ss) @ [CHR 34])) = s # ss"
proof (induction ss arbitrary: s q)
  case Nil
  have "str_find (q @ s @ [CHR 34]) SEP = None"
  proof (rule ccontr)
    assume "str_find (q @ s @ [CHR 34]) SEP \<noteq> None"
    then obtain i where i: "str_find (q @ s @ [CHR 34]) SEP = Some i" by blast
    note f = str_find_Some [OF i]
    have "\<not> i < length (q @ s)" using no_early_sep [OF Nil(1,3), of i "[]"] f by blast
    then have "length (drop i (q @ s @ [CHR 34])) \<le> 1" by simp
    moreover have "length SEP \<le> length (drop i (q @ s @ [CHR 34]))" using f prefix_length_le by blast
    ultimately show False by (simp add: SEP_def)
  qed
  then have "split_str SEP (q @ s @ [CHR 34]) = [q @ s @ [CHR 34]]" by (simp add: split_str.simps SEP_def)
  then show ?case using item_unquoted [OF Nil(1,3), of "[CHR 34]"] by (simp add: quote_end_def)
next
  case (Cons x ss)
  let ?rest = "x @ concat (map (\<lambda>x. SEP @ x) ss) @ [CHR 34]"
  let ?s = "q @ s @ SEP @ ?rest"
  have "str_find ?s SEP = Some (length (q @ s))"
  proof (rule str_find_first)
    show "\<not> prefix SEP (drop j ?s)" if "j < length (q @ s)" for j
      using no_early_sep [OF Cons.prems(1,3) that, of "tl SEP @ ?rest"] by (simp add: SEP_def)
  qed simp_all
  moreover have "take (length (q @ s)) ?s = q @ s" "drop (length (q @ s) + length SEP) ?s = ?rest"
    by (simp_all add: SEP_def)
  moreover have "SEP \<noteq> []" by (simp add: SEP_def)
  ultimately have "split_str SEP ?s = (q @ s) # split_str SEP ?rest" by (simp add: split_str.simps [of SEP ?s])
  moreover have "trim_char (CHR 34) (trim (q @ s)) = s" using item_unquoted [OF Cons.prems(1,3), of "[]"] by (simp add: quote_end_def)
  moreover have "map (\<lambda>item. trim_char (CHR 34) (trim item)) (split_str SEP ?rest) = x # ss"
    using Cons.IH [of x "[]"] Cons.prems by (simp add: quote_end_def)
  ultimately show ?case by simp
qed

lemma join_sources:
  "str_join '', '' (map (\<lambda>s. [CHR 34] @ s @ [CHR 34]) (s # ss)) = [CHR 34] @ s @ concat (map (\<lambda>x. SEP @ x) ss) @ [CHR 34]"
proof (induction ss arbitrary: s)
  case (Cons x ss)
  then show ?case using Cons [of x] by (simp add: SEP_def)
qed simp

lemma bracket_chars: "\<not> is_cont_byte (CHR ''['')" "\<not> is_cont_byte (CHR '']'')" "\<not> is_white ''[''" "\<not> is_white '']''" "is_white '' ''"
  "\<not> is_cont_byte (CHR '' '')" "is_white [CHR 13]" "\<not> is_cont_byte (CHR 13)"
  by code_simp+

lemma utf8_snoc: "\<not> is_cont_byte c \<Longrightarrow> utf8_chars (s @ [c]) = utf8_chars s @ [[c]]"
  using utf8_chars_append [of "[c]" s] by simp

lemma utf8_cons: "on_boundary s \<Longrightarrow> utf8_chars (c # s) = [c] # utf8_chars s"
  using utf8_chars_append [of s "[c]"] by (simp add: on_boundary_def)

lemma trim_bracketed: "on_boundary s \<Longrightarrow> trim (CHR '' '' # CHR ''['' # s @ '']'') = CHR ''['' # s @ '']''"
proof -
  assume s: "on_boundary s"
  then have b: "on_boundary (s @ '']'')" "on_boundary (CHR ''['' # s @ '']'')" using bracket_chars by (auto simp: on_boundary_def hd_append)
  have c: "utf8_chars (CHR ''['' # s @ '']'') = ''['' # utf8_chars s @ ['']'']"
    using utf8_cons [OF b(1)] bracket_chars by (simp add: utf8_snoc)
  then have "utf8_chars (CHR '' '' # CHR ''['' # s @ '']'') = '' '' # ''['' # utf8_chars s @ ['']'']" using utf8_cons [OF b(2)] by simp
  moreover have "strip_white (''['' # utf8_chars s @ ['']'']) = ''['' # utf8_chars s @ ['']'']"
    using bracket_chars by (intro strip_visible) simp_all
  ultimately have "trim (CHR '' '' # CHR ''['' # s @ '']'') = concat (''['' # utf8_chars s @ ['']''])"
    unfolding trim_strip using bracket_chars(5) by (simp add: strip_white_front)
  then show ?thesis by simp
qed

lemma source_items_bracketed:
  assumes "on_boundary s"
  shows "source_items (CHR '' '' # CHR ''['' # s @ '']'') =
    filter (\<lambda>i. i \<noteq> []) (map (\<lambda>item. trim_char (CHR 34) (trim item)) (split_str SEP s))"
  unfolding source_items_def Let_def trim_bracketed [OF assms] by (simp add: SEP_def)

lemma source_items_line:
  assumes "list_all source_ok ss"
  shows "source_items (drop 8 (sources_line ss)) = ss"
proof (cases ss)
  case Nil
  have "on_boundary []" by (simp add: on_boundary_def)
  from source_items_bracketed [OF this] have "source_items '' []'' = []" by (simp add: split_str.simps SEP_def) code_simp
  then show ?thesis by (simp add: Nil sources_line_def)
next
  case (Cons x xs)
  let ?b = "[CHR 34] @ x @ concat (map (\<lambda>x. SEP @ x) xs) @ [CHR 34]"
  have "on_boundary ?b" using quote_chars(1) by (simp add: on_boundary_def)
  from source_items_bracketed [OF this] have
    "source_items (CHR '' '' # CHR ''['' # ?b @ '']'') = filter (\<lambda>i. i \<noteq> []) (x # xs)"
    using split_sources [of x xs "[CHR 34]"] assms Cons by (simp add: quote_end_def)
  moreover have "filter (\<lambda>i. i \<noteq> []) (x # xs) = x # xs"
    using assms Cons by (intro filter_True) (auto simp: list_all_iff source_ok_def plain_def)
  moreover have "drop 8 (sources_line ss) = CHR '' '' # CHR ''['' # ?b @ '']''"
    unfolding sources_line_def Cons join_sources by simp
  ultimately show ?thesis using Cons by simp
qed

lemma trim_end_visible: "\<not> is_cont_byte c \<Longrightarrow> \<not> is_white [c] \<Longrightarrow> trim_right (s @ [c]) = s @ [c]"
  unfolding trim_right_def by (simp add: utf8_snoc rstrip_def)

lemma trim_end_sources_line: "trim_right (sources_line ss) = sources_line ss"
  unfolding sources_line_def append_assoc [symmetric] by (rule trim_end_visible) (simp_all add: bracket_chars)

lemma trim_end_cr: "trim_right (strip_cr s) = trim_right s"
proof (cases "s \<noteq> [] \<and> last s = CHR 13")
  case True
  then obtain r where "s = r @ [CHR 13]" by (cases s rule: rev_cases) auto
  then show ?thesis using bracket_chars(7,8) by (simp add: strip_cr_def trim_right_def utf8_snoc rstrip_def)
qed (auto simp: strip_cr_def)

lemma trim_end_rule: "trim_right ''---'' = ''---''"
  by code_simp

lemma write_lines_read:
  "sources_scan in_fm ls = Some old \<Longrightarrow> list_all source_ok ss
   \<Longrightarrow> snd (write_lines ss in_fm ls) \<and> sources_scan in_fm (map strip_cr (fst (write_lines ss in_fm ls))) = Some ss"
proof (induction ls arbitrary: in_fm)
  case (Cons l ls)
  consider (rule) "trim_right l = ''---''" | (key) "trim_right l \<noteq> ''---''" "in_fm" "starts_with (trim_right l) ''sources:''"
    | (other) "trim_right l \<noteq> ''---''" "\<not> (in_fm \<and> starts_with (trim_right l) ''sources:'')" by blast
  then show ?case
  proof cases
    case rule
    then have n: "\<not> in_fm" "sources_scan True ls = Some old" using Cons.prems(1) by (simp_all split: if_splits)
    then show ?thesis using Cons.IH [OF n(2) Cons.prems(2)] rule
      by (simp add: Let_def case_prod_beta trim_end_cr trim_end_rule)
  next
    case key
    have "trim_right (strip_cr (sources_line ss)) = sources_line ss" by (simp add: trim_end_cr trim_end_sources_line)
    moreover have "strip_prefix (sources_line ss) ''sources:'' = Some (drop 8 (sources_line ss))" "sources_line ss \<noteq> ''---''"
      by (simp_all add: strip_prefix_def sources_line_def)
    ultimately show ?thesis using key source_items_line [OF Cons.prems(2)] by (simp add: Let_def case_prod_beta)
  next
    case other
    have n: "sources_scan in_fm ls = Some old" using Cons.prems(1) other by (auto simp: strip_prefix_def split: if_splits)
    from Cons.IH [OF this Cons.prems(2)] show ?thesis using other
      by (auto simp: Let_def case_prod_beta trim_end_cr strip_prefix_def)
  qed
qed simp

lemma str_lines_no_newline: "l \<in> set (str_lines s) \<Longrightarrow> CHR 10 \<notin> set l"
proof
  let ?ps = "split_on (\<lambda>c. c = CHR 10) s"
  assume "l \<in> set (str_lines s)" "CHR 10 \<in> set l"
  then obtain w where "w \<in> set ?ps" "set l \<subseteq> set w"
    unfolding str_lines_def Let_def strip_cr_def
    by (auto split: if_splits dest: in_set_butlastD) (meson in_set_butlastD subsetI last_in_set split_on_not_Nil)+
  then show False using split_on_no_sep [of w "\<lambda>c. c = CHR 10" s "CHR 10"] \<open>CHR 10 \<in> set l\<close> by blast
qed

lemma trim_end_subset: "set (trim_right s) \<subseteq> set s"
proof -
  have "set (rstrip (utf8_chars s)) \<subseteq> set (utf8_chars s)" unfolding rstrip_def by (auto dest: set_dropWhileD)
  then have "set (trim_right s) \<subseteq> set (concat (utf8_chars s))" unfolding trim_right_def set_concat by blast
  then show ?thesis by simp
qed

lemma sources_line_no_newline: "list_all source_ok ss \<Longrightarrow> CHR 10 \<notin> set (sources_line ss)"
proof -
  have "CHR 10 \<notin> set (str_join '', '' xs)" if "\<forall>x \<in> set xs. CHR 10 \<notin> set x" for xs
    using that by (induction "'', ''" xs rule: str_join.induct) auto
  moreover assume "list_all source_ok ss"
  ultimately show ?thesis by (auto simp: sources_line_def list_all_iff source_ok_def plain_def)
qed

lemma write_lines_no_newline:
  "list_all source_ok ss \<Longrightarrow> \<forall>l \<in> set ls. CHR 10 \<notin> set l \<Longrightarrow> \<forall>l \<in> set (fst (write_lines ss in_fm ls)). CHR 10 \<notin> set l"
proof (induction ls arbitrary: in_fm)
  case (Cons l ls)
  then have "CHR 10 \<notin> set (trim_right l)" using trim_end_subset [of l] by auto
  then show ?case using Cons sources_line_no_newline [of ss] by (simp add: Let_def case_prod_beta)
qed simp

text \<open>
  Claim C25. The list of sources written into a page that has one is read back unchanged, for sources that
  are single lines without quotes or surrounding blanks, whatever else the page holds.
\<close>

theorem sources_read_back:
  assumes "parse_sources content = Some old" "list_all source_ok ss"
  shows "parse_sources (write_sources content ss) = Some ss"
proof -
  let ?w = "write_lines ss False (str_lines content)"
  have r: "snd ?w" "sources_scan False (map strip_cr (fst ?w)) = Some ss"
    using write_lines_read [of False "str_lines content" old ss] assms by (simp_all add: parse_sources_def)
  have "\<forall>l \<in> set (fst ?w). CHR 10 \<notin> set l" using write_lines_no_newline [OF assms(2)] str_lines_no_newline by blast
  then have "str_lines (lines_text (fst ?w)) = map strip_cr (fst ?w)" by (rule str_lines_text0)
  then show ?thesis using r by (simp add: parse_sources_def write_sources_def case_prod_beta)
qed

subsection \<open>Versions\<close>

lemma version_file_inj: "0 \<le> a \<Longrightarrow> 0 \<le> b \<Longrightarrow> version_file dir a = version_file dir b \<Longrightarrow> a = b"
proof -
  assume a: "0 \<le> a" "0 \<le> b" "version_file dir a = version_file dir b"
  have "\<not> starts_with (nat_str n @ ''.md'') ''/''" for n
  proof (cases "nat_str n")
    case (Cons c r)
    then have "is_digit c" using nat_str_digits [of c n] by simp
    then have "c \<noteq> CHR ''/''" by (auto simp: is_digit_def)
    then show ?thesis by (simp add: Cons)
  qed simp
  then have "nat_str (nat a) = nat_str (nat b)" using a by (auto simp: version_file_def path_join_def int_str_def split: if_splits)
  then show ?thesis using a by simp
qed

text \<open>The search for a free name ends, since the vault has finitely many files.\<close>

lemma free_millis_ends:
  "finite (dom (vfiles v)) \<Longrightarrow> 0 \<le> now \<Longrightarrow> \<exists>m. free_millis v dir now = Some m \<and> \<not> path_exists v (version_file dir m)"
proof (induction "card {m. now \<le> m \<and> path_exists v (version_file dir m)}" arbitrary: now rule: less_induct)
  case less
  let ?s = "\<lambda>now. {m. now \<le> m \<and> path_exists v (version_file dir m)}"
  show ?case
  proof (cases "path_exists v (version_file dir now)")
    case False
    then show ?thesis by (simp add: free_millis.simps)
  next
    case True
    have "version_file dir ` ?s now \<subseteq> dom (vfiles v)" by (auto simp: path_exists_def)
    moreover have "inj_on (version_file dir) (?s now)" using version_file_inj less.prems(2) by (auto intro!: inj_onI)
    ultimately have "finite (?s now)" using less.prems(1) by (metis finite_imageD finite_subset)
    moreover have "now \<in> ?s now" "now \<notin> ?s (now + 1)" "?s (now + 1) \<subseteq> ?s now" using True by auto
    then have "?s (now + 1) \<subset> ?s now" by blast
    ultimately have "card (?s (now + 1)) < card (?s now)" by (rule psubset_card_mono)
    from less.hyps [OF this less.prems(1)] less.prems(2) True show ?thesis by (simp add: free_millis.simps [of v dir now])
  qed
qed

lemma md_not_diff: "with_extension p ''diff'' \<noteq> q @ ''.md''"
proof
  assume "with_extension p ''diff'' = q @ ''.md''"
  then have "last (with_extension p ''diff'') = last (q @ ''.md'')" by simp
  then show False by (simp add: with_extension_def)
qed

lemma version_file_md: "\<exists>q. version_file dir m = q @ ''.md''"
  by (auto simp: version_file_def path_join_def)

lemma capture_readable:
  assumes "frozen v = {}" "finite (dom (vfiles v))" "0 \<le> now"
    "page_rel_of wiki page = Some rel" "read_to_string v page = Some prior" "prior \<noteq> next_content"
  shows "\<exists>m d. \<not> path_exists v (version_file (version_dir_for root rel) m)
    \<and> iteration_capture patch root wiki page next_content now v =
        Some (Ok (Some \<lparr>ci_page_rel = rel, ci_md_path = version_file (version_dir_for root rel) m, ci_diff_path = d\<rparr>),
          (case d of None \<Rightarrow> put_file (version_file (version_dir_for root rel) m) prior v
           | Some f \<Rightarrow> put_file f (patch prior next_content) (put_file (version_file (version_dir_for root rel) m) prior v)))
    \<and> d \<in> {None, Some (with_extension (version_file (version_dir_for root rel) m) ''diff'')}"
proof -
  from free_millis_ends [OF assms(2,3), of "version_dir_for root rel"] obtain m where
    m: "free_millis v (version_dir_for root rel) now = Some m" "\<not> path_exists v (version_file (version_dir_for root rel) m)" by blast
  show ?thesis
  proof (cases "patch prior next_content = []")
    case True
    then show ?thesis using m assms by (intro exI [of _ m] exI [of _ None]) (simp add: iteration_capture_def Let_def)
  next
    case False
    then show ?thesis using m assms
      by (intro exI [of _ m] exI [of _ "Some (with_extension (version_file (version_dir_for root rel) m) ''diff'')"])
        (simp add: iteration_capture_def Let_def)
  qed
qed

lemma capture_keeps_page:
  assumes "frozen v = {}" "unreadable v = {}" "finite (dom (vfiles v))" "0 \<le> now"
    "page_rel_of wiki (q @ ''.md'') = Some rel" "vfiles v (q @ ''.md'') = Some prior" "prior \<noteq> next_content"
  shows "\<exists>c w. iteration_capture patch root wiki (q @ ''.md'') next_content now v = Some (Ok (Some c), w)
    \<and> ci_page_rel c = rel \<and> ci_md_path c \<noteq> q @ ''.md'' \<and> vfiles w (ci_md_path c) = Some prior \<and> vfiles w (q @ ''.md'') = Some prior
    \<and> frozen w = {} \<and> unreadable w = {} \<and> finite (dom (vfiles w))"
proof -
  have "read_to_string v (q @ ''.md'') = Some prior" using assms(2,6) by (simp add: read_to_string_def)
  from capture_readable [OF assms(1,3,4,5) this assms(7), of root patch] obtain m d where md:
    "\<not> path_exists v (version_file (version_dir_for root rel) m)"
    "iteration_capture patch root wiki (q @ ''.md'') next_content now v =
        Some (Ok (Some \<lparr>ci_page_rel = rel, ci_md_path = version_file (version_dir_for root rel) m, ci_diff_path = d\<rparr>),
          (case d of None \<Rightarrow> put_file (version_file (version_dir_for root rel) m) prior v
           | Some f \<Rightarrow> put_file f (patch prior next_content) (put_file (version_file (version_dir_for root rel) m) prior v)))"
    "d \<in> {None, Some (with_extension (version_file (version_dir_for root rel) m) ''diff'')}" by blast
  have n: "version_file (version_dir_for root rel) m \<noteq> q @ ''.md''" using md(1) assms(6) by (auto simp: path_exists_def)
  obtain r where r: "version_file (version_dir_for root rel) m = r @ ''.md''" using version_file_md by blast
  have x: "with_extension (r @ ''.md'') ''diff'' \<noteq> r @ ''.md''" "with_extension (r @ ''.md'') ''diff'' \<noteq> q @ ''.md''"
    by (rule md_not_diff)+
  from md(3) consider "d = None" | "d = Some (with_extension (r @ ''.md'') ''diff'')" unfolding r by blast
  then show ?thesis unfolding md(2) using assms(1-3,6) n x unfolding r by cases (simp_all add: x [symmetric])
qed

text \<open>
  Claim C24. A page that was captured before it was overwritten is restored byte for byte from the stored
  version, and what it held in between is captured in turn.
\<close>

theorem captured_page_restored:
  assumes "frozen v = {}" "unreadable v = {}" "finite (dom (vfiles v))" "0 \<le> now" "0 \<le> later"
    "page_rel_of wiki (q @ ''.md'') = Some rel" "path_join wiki rel = q @ ''.md''"
    "vfiles v (q @ ''.md'') = Some prior" "prior \<noteq> next_content"
  shows "\<exists>c w. iteration_capture patch root wiki (q @ ''.md'') next_content now v = Some (Ok (Some c), w)
    \<and> (\<exists>d u. iteration_restore patch root wiki
            \<lparr>iv_page_rel = ci_page_rel c, iv_millis = now, iv_md_path = ci_md_path c, iv_diff_path = ci_diff_path c\<rparr> later
            (put_file (q @ ''.md'') next_content w) = Some (Ok (Some d), u)
          \<and> vfiles u (q @ ''.md'') = Some prior \<and> vfiles u (ci_md_path d) = Some next_content)"
proof -
  from capture_keeps_page [OF assms(1-4,6,8,9), of patch root] obtain c w where c:
    "iteration_capture patch root wiki (q @ ''.md'') next_content now v = Some (Ok (Some c), w)"
    "ci_page_rel c = rel" "ci_md_path c \<noteq> q @ ''.md''" "vfiles w (ci_md_path c) = Some prior"
    "frozen w = {}" "unreadable w = {}" "finite (dom (vfiles w))" by blast
  let ?x = "put_file (q @ ''.md'') next_content w"
  from capture_keeps_page [of ?x later wiki q rel next_content prior patch root] assms(5,6,9) c obtain d u where d:
    "iteration_capture patch root wiki (q @ ''.md'') prior later ?x = Some (Ok (Some d), u)"
    "ci_md_path d \<noteq> q @ ''.md''" "vfiles u (ci_md_path d) = Some next_content" "frozen u = {}" by auto
  have "read_to_string ?x (ci_md_path c) = Some prior" using c by (simp add: read_to_string_def)
  then have "iteration_restore patch root wiki
      \<lparr>iv_page_rel = ci_page_rel c, iv_millis = now, iv_md_path = ci_md_path c, iv_diff_path = ci_diff_path c\<rparr> later ?x
      = Some (Ok (Some d), put_file (q @ ''.md'') prior u)"
    using c(2) d assms(7) by (simp add: iteration_restore_def Let_def)
  then show ?thesis using c(1) d(2,3)
    by (intro exI [of _ c] exI [of _ w] conjI exI [of _ d] exI [of _ "put_file (q @ ''.md'') prior u"]) simp_all
qed

end
