(* ===== verification/Vault_Cycle.thy ===== *)
theory Vault_Cycle
  imports Vault_Cascade
begin

section \<open>The distillation cycle (zen-vault/src/distill/pipeline.rs)\<close>

text \<open>
  The frame of a cycle: recovery, transaction, sweep, snapshot, stages, redirection and the decision to
  commit or to roll back; and the way a page is rewritten inside it. The stages are an argument: a
  function from the transaction and the vault. The placeholder registry and the database rows are not
  modelled.
\<close>

subsection \<open>Rewriting a page\<close>

definition track_captured :: "TransactionScope \<Rightarrow> CapturedIteration \<Rightarrow> Vault \<Rightarrow> Vault" where
  "track_captured t c v =
     (let w = snd (track_path t (ci_md_path c) v)
      in case ci_diff_path c of Some d \<Rightarrow> snd (track_path t d w) | None \<Rightarrow> w)"

definition rewrite_page ::
  "(string \<Rightarrow> string \<Rightarrow> string) \<Rightarrow> string \<Rightarrow> string \<Rightarrow> TransactionScope \<Rightarrow> string \<Rightarrow> string \<Rightarrow> int \<Rightarrow> Vault
   \<Rightarrow> ((unit, string) result \<times> Vault) option" where
  "rewrite_page patch root wiki t page rewritten now v =
     (case iteration_capture patch root wiki page rewritten now v of
        None \<Rightarrow> None
      | Some (r, w) \<Rightarrow>
          let x = (case r of Ok (Some c) \<Rightarrow> track_captured t c w | _ \<Rightarrow> w);
              y = (if page \<in> frozen x then x else put_file page rewritten x)
          in Some (track_path t page y))"

subsection \<open>Commit or rollback\<close>

record StageOutcome =
  so_migrated :: "(string \<times> string) list"
  so_deferred :: "string list"
  so_processed :: nat
  so_rolled_back :: bool
  so_drifted :: "string list"

definition remove_deferred :: "string list \<Rightarrow> Vault \<Rightarrow> Vault" where
  "remove_deferred srcs v = foldl (\<lambda>v s. if s \<in> frozen v then v else del_file s v) v srcs"

text \<open>The decision: the outcome with the flag for a commit, and the vault after it.\<close>

definition finish_cycle ::
  "digest \<Rightarrow> TransactionScope \<Rightarrow> VersionSnapshot option \<Rightarrow> StageOutcome \<Rightarrow> Vault
   \<Rightarrow> (StageOutcome \<times> bool, string) result \<times> Vault" where
  "finish_cycle hash t snapshot oc v =
     (case snapshot of
        None \<Rightarrow> (case txn_commit t v of (Err e, w) \<Rightarrow> (Err e, w) | (Ok _, w) \<Rightarrow> (Ok (oc, True), w))
      | Some snap \<Rightarrow>
          (case snapshot_verify hash v snap of
             Err e \<Rightarrow> (Err ''CAS snapshot verification failed'', snd (txn_rollback t v))
           | Ok drift \<Rightarrow>
               let external = filter (\<lambda>p. p \<notin> set (tracked_paths t v)) drift
               in if external = [] then
                    (case txn_commit t (remove_deferred (so_deferred oc) v) of
                       (Err e, w) \<Rightarrow> (Err e, w)
                     | (Ok _, w) \<Rightarrow> (Ok (oc, True), w))
                  else (Ok (oc\<lparr>so_rolled_back := True, so_drifted := external\<rparr>, False), snd (txn_rollback t v))))"

subsection \<open>The cycle\<close>

record CycleEnv =
  ce_json :: CheckpointJson
  ce_hash :: digest
  ce_sweep :: CascadeEnv
  ce_logs :: string
  ce_txn_logs :: string
  ce_entries :: "log_entry list option"
  ce_is_dir :: bool
  ce_walks :: "string list \<times> string list"
  ce_inventory :: "string list"
  ce_redirect_walk :: "string list"
  ce_cas :: bool
  ce_cycle_id :: string
  ce_now :: string

definition take_snapshot :: "CycleEnv \<Rightarrow> Vault \<Rightarrow> VersionSnapshot option" where
  "take_snapshot env v =
     (if ce_cas env \<and> ce_is_dir env \<and> ce_inventory env \<noteq> []
      then (case snapshot_capture (ce_hash env) v (ce_inventory env) of Ok s \<Rightarrow> Some s | Err _ \<Rightarrow> None)
      else None)"

fun redirect_all :: "string list \<Rightarrow> (string \<times> string) list \<Rightarrow> TransactionScope \<Rightarrow> Vault \<Rightarrow> Vault option" where
  "redirect_all walk [] t v = Some v"
| "redirect_all walk ((from, dest) # ms) t v =
     (case redirect_page_source walk from dest t v of None \<Rightarrow> None | Some (_, w) \<Rightarrow> redirect_all walk ms t w)"

definition cycle_txn :: "CycleEnv \<Rightarrow> TransactionScope" where
  "cycle_txn env = new_for_logs (ce_txn_logs env) (''distill-'' @ ce_cycle_id env)"

definition checkpoint_of :: "CycleEnv \<Rightarrow> string \<Rightarrow> nat \<Rightarrow> Checkpoint" where
  "checkpoint_of env status n = \<lparr>ck_status = status, ck_started_at = ce_now env, ck_notes_count = n\<rparr>"

text \<open>After the stages.\<close>

definition settle_cycle ::
  "CycleEnv \<Rightarrow> VersionSnapshot option \<Rightarrow> (StageOutcome, string) result \<Rightarrow> Vault \<Rightarrow> ((StageOutcome, string) result \<times> Vault) option" where
  "settle_cycle env snapshot run v =
     (case run of
        Err e \<Rightarrow> Some (Err e, snd (txn_rollback (cycle_txn env) v))
      | Ok oc \<Rightarrow>
          (case redirect_all (ce_redirect_walk env) (so_migrated oc) (cycle_txn env) v of
             None \<Rightarrow> None
           | Some w \<Rightarrow>
               (case finish_cycle (ce_hash env) (cycle_txn env) snapshot oc w of
                  (Err e, x) \<Rightarrow> Some (Err e, x)
                | (Ok (oc', committed), x) \<Rightarrow>
                    if \<not> committed then Some (Ok oc', x)
                    else (case write_checkpoint (ce_json env) (ce_logs env) (checkpoint_of env ''completed'' (so_processed oc')) x of
                            (Err e, y) \<Rightarrow> Some (Err e, y)
                          | (Ok _, y) \<Rightarrow> Some (Ok oc', y)))))"

definition recover_first :: "CycleEnv \<Rightarrow> Vault \<Rightarrow> (unit, string) result \<times> Vault" where
  "recover_first env v =
     (case check_incomplete (ce_json env) (ce_logs env) v of
        Err e \<Rightarrow> (Err e, v)
      | Ok None \<Rightarrow> (Ok (), v)
      | Ok (Some _) \<Rightarrow> (case recover (ce_json env) (ce_logs env) v of (Err e, w) \<Rightarrow> (Err e, w) | (Ok _, w) \<Rightarrow> (Ok (), w)))"

definition run_scoped_inner ::
  "CycleEnv \<Rightarrow> (TransactionScope \<Rightarrow> bool \<Rightarrow> Vault \<Rightarrow> (StageOutcome, string) result \<times> Vault) \<Rightarrow> Vault
   \<Rightarrow> ((StageOutcome, string) result \<times> Vault) option" where
  "run_scoped_inner env run_stages v =
     (case recover_first env v of
        (Err e, w) \<Rightarrow> Some (Err e, w)
      | (Ok _, w0) \<Rightarrow>
          let w1 = snd (replay_stale_transactions (ce_logs env) (ce_entries env) w0)
          in (case write_checkpoint (ce_json env) (ce_logs env) (checkpoint_of env ''started'' 0) w1 of
                (Err e, w) \<Rightarrow> Some (Err e, w)
              | (Ok _, w2) \<Rightarrow>
                  (case txn_begin (cycle_txn env) w2 of
                     (Err e, w) \<Rightarrow> Some (Err e, w)
                   | (Ok _, w3) \<Rightarrow>
                       (case sweep_dead_sources (ce_sweep env) (ce_is_dir env) (fst (ce_walks env)) (snd (ce_walks env)) (cycle_txn env) w3 of
                          None \<Rightarrow> None
                        | Some (_, w4) \<Rightarrow>
                            let snapshot = take_snapshot env w4;
                                (run, w5) = run_stages (cycle_txn env) (snapshot \<noteq> None) w4
                            in settle_cycle env snapshot run w5))))"

subsection \<open>When a cycle commits\<close>

lemma remove_deferred_files:
  "remove_deferred srcs v = removed_by v (set srcs)"
proof (induction srcs arbitrary: v)
  case (Cons s srcs)
  show ?case
  proof (cases "s \<in> frozen v")
    case True
    then show ?thesis using Cons [of v] by (simp add: remove_deferred_def removed_by_skip)
  next
    case False
    then show ?thesis using Cons [of "del_file s v"] by (simp add: remove_deferred_def removed_by_del)
  qed
qed (simp add: remove_deferred_def removed_by_empty)

lemma removed_by_union: "removed_by (removed_by v a) b = removed_by v (a \<union> b)"
  by (rule vault_eqI) (auto simp: fun_eq_iff)

lemma txn_commit_spec: "tracking_file t \<notin> frozen v \<Longrightarrow> txn_commit t v = (Ok (), removed_by v {tracking_file t})"
  by (auto simp: txn_commit_def path_exists_def fun_eq_iff intro!: vault_eqI)

text \<open>
  Claim C20. A cycle with a snapshot commits exactly when every page of the snapshot that changed is one
  the cycle tracked: then the tracking file and the deferred inbox notes go and nothing else changes.
  Otherwise the outcome names the pages others changed, every tracked file is removed and the inbox notes
  that are not tracked stay.
\<close>

theorem cycle_commit_exact:
  assumes "snapshot_capture hash v ps = Ok snap" "no_collision hash v w ps" "\<forall>p \<in> set ps. p \<notin> unreadable w"
    "read_to_string w (tracking_file t) \<noteq> None" "tracking_file t \<notin> frozen w"
  shows "case finish_cycle hash t (Some snap) oc w of
      (Ok (oc', True), u) \<Rightarrow> {p \<in> set ps. vfiles w p \<noteq> vfiles v p} \<subseteq> set (tracked_paths t w) \<and> oc' = oc
        \<and> u = removed_by w (insert (tracking_file t) (set (so_deferred oc)))
    | (Ok (oc', False), u) \<Rightarrow> so_rolled_back oc' \<and> so_drifted oc' \<noteq> []
        \<and> set (so_drifted oc') = {p \<in> set ps. vfiles w p \<noteq> vfiles v p} - set (tracked_paths t w)
        \<and> u = removed_by w (insert (tracking_file t) (set (tracked_paths t w)))
    | (Err e, u) \<Rightarrow> False"
proof -
  from verify_drift [OF assms(1-3)] obtain ds where
    ds: "snapshot_verify hash w snap = Ok ds" "set ds = {p \<in> set ps. vfiles w p \<noteq> vfiles v p}" by blast
  define ext where "ext = filter (\<lambda>p. p \<notin> set (tracked_paths t w)) ds"
  have s: "set ext = {p \<in> set ps. vfiles w p \<noteq> vfiles v p} - set (tracked_paths t w)" using ds(2) by (auto simp: ext_def)
  show ?thesis
  proof (cases "ext = []")
    case True
    have "txn_commit t (remove_deferred (so_deferred oc) w) = (Ok (), removed_by w (insert (tracking_file t) (set (so_deferred oc))))"
      using assms(5) by (simp add: txn_commit_spec remove_deferred_files removed_by_union)
    then have "finish_cycle hash t (Some snap) oc w = (Ok (oc, True), removed_by w (insert (tracking_file t) (set (so_deferred oc))))"
      using ds(1) True by (simp add: finish_cycle_def Let_def ext_def)
    moreover have "{p \<in> set ps. vfiles w p \<noteq> vfiles v p} \<subseteq> set (tracked_paths t w)" using s True by auto
    ultimately show ?thesis by simp
  next
    case False
    then have "finish_cycle hash t (Some snap) oc w = (Ok (oc\<lparr>so_rolled_back := True, so_drifted := ext\<rparr>, False),
        removed_by w (insert (tracking_file t) (set (tracked_paths t w))))"
      using ds(1) txn_rollback_spec [OF assms(4)] by (simp add: finish_cycle_def Let_def ext_def)
    then show ?thesis using s False by simp
  qed
qed

subsection \<open>What a rollback costs\<close>

definition tracking :: "TransactionScope \<Rightarrow> string list \<Rightarrow> Vault \<Rightarrow> bool" where
  "tracking t qs v \<longleftrightarrow> vfiles v (tracking_file t) = Some (lines_text qs) \<and> list_all plain qs
     \<and> tracking_file t \<notin> unreadable v"

lemma tracking_begin:
  "tracking_file t \<notin> frozen v \<Longrightarrow> tracking_file t \<notin> unreadable v \<Longrightarrow> tracking t [] (snd (txn_begin t v))"
  by (simp add: tracking_def txn_begin_def)

lemma tracking_rollback:
  assumes "tracking t qs v"
  shows "txn_rollback t v = (Ok (), removed_by v (insert (tracking_file t) (set qs)))"
proof -
  have "read_to_string v (tracking_file t) = Some (lines_text qs)" using assms by (simp add: tracking_def read_to_string_def)
  moreover have "line_paths (lines_text qs) = qs" using assms by (simp add: tracking_def line_paths_text)
  ultimately show ?thesis using txn_rollback_spec [of v t] by (simp add: tracked_paths_def)
qed

text \<open>What a transaction does to the files it tracks, up to the tracking file itself.\<close>

definition only_tracked :: "TransactionScope \<Rightarrow> string list \<Rightarrow> Vault \<Rightarrow> Vault \<Rightarrow> bool" where
  "only_tracked t qs v w \<longleftrightarrow> frozen w = frozen v \<and> unreadable w = unreadable v
     \<and> (\<forall>p. p \<noteq> tracking_file t \<and> p \<notin> set qs \<longrightarrow> vfiles w p = vfiles v p)"

lemma only_tracked_rollback:
  assumes "only_tracked t qs v w" "tracking t qs w" "frozen v = {}"
  shows "vfiles (snd (txn_rollback t w)) = vfiles v |` (- insert (tracking_file t) (set qs))"
  using assms by (auto simp: tracking_rollback only_tracked_def restrict_map_def fun_eq_iff)

definition captured_paths :: "CapturedIteration \<Rightarrow> string list" where
  "captured_paths c = ci_md_path c # (case ci_diff_path c of Some d \<Rightarrow> [d] | None \<Rightarrow> [])"

lemma track_captured_all: "track_captured t c v = track_all t (captured_paths c) v"
  by (simp add: track_captured_def track_all_def captured_paths_def Let_def split: option.split)

lemma capture_effect:
  assumes "iteration_capture patch root wiki page next_content now v = Some (Ok (Some c), w)"
  shows "frozen w = frozen v" "unreadable w = unreadable v" "p \<notin> set (captured_paths c) \<Longrightarrow> vfiles w p = vfiles v p"
    "p \<in> set (captured_paths c) \<Longrightarrow> \<exists>r. p = r @ ''.md'' \<or> p = r @ ''.diff''"
proof -
  obtain m rel prior where m: "c = \<lparr>ci_page_rel = rel, ci_md_path = version_file (version_dir_for root rel) m, ci_diff_path = ci_diff_path c\<rparr>"
    "ci_diff_path c = None \<and> w = put_file (ci_md_path c) prior v
     \<or> ci_diff_path c = Some (with_extension (ci_md_path c) ''diff'')
       \<and> w = put_file (with_extension (ci_md_path c) ''diff'') (patch prior next_content) (put_file (ci_md_path c) prior v)"
    using assms by (auto simp: iteration_capture_def Let_def split: option.splits if_splits)
  show "frozen w = frozen v" "unreadable w = unreadable v" using m(2) by auto
  show "p \<notin> set (captured_paths c) \<Longrightarrow> vfiles w p = vfiles v p" using m(2) by (auto simp: captured_paths_def)
  obtain r where "ci_md_path c = r @ ''.md''" using m(1) version_file_md by (metis CapturedIteration.select_convs(2))
  moreover have "\<exists>r. with_extension (ci_md_path c) ''diff'' = r @ ''.diff''" by (simp add: with_extension_def)
  ultimately show "p \<in> set (captured_paths c) \<Longrightarrow> \<exists>r. p = r @ ''.md'' \<or> p = r @ ''.diff''"
    using m(2) by (auto simp: captured_paths_def)
qed

text \<open>
  Claim C19. A page that was there before the cycle, and that the cycle rewrites, does not survive a
  rollback: the page is removed, and so is the prior version that was captured to restore it. No file
  is left that was not there before, with the same content.
\<close>

theorem rollback_loses_page_and_backup:
  assumes "frozen v = {}" "tracking t qs v" "\<And>r. tracking_file t \<noteq> r @ ''.md''" "\<And>r. tracking_file t \<noteq> r @ ''.diff''"
    "iteration_capture patch root wiki (q @ ''.md'') rewritten now v = Some (Ok (Some c), w)"
    "list_all plain (captured_paths c)" "plain (q @ ''.md'')"
  shows "\<exists>z. rewrite_page patch root wiki t (q @ ''.md'') rewritten now v = Some (Ok (), z)
    \<and> vfiles z (q @ ''.md'') = Some rewritten
    \<and> vfiles (snd (txn_rollback t z)) (q @ ''.md'') = None
    \<and> vfiles (snd (txn_rollback t z)) \<subseteq>\<^sub>m vfiles v"
proof -
  let ?page = "q @ ''.md''" and ?tf = "tracking_file t" and ?cs = "captured_paths c"
  let ?qs = "qs @ ?cs @ [?page]"
  note eff = capture_effect [OF assms(5)]
  have n: "?tf \<notin> set ?cs" "?tf \<noteq> ?page" using eff(4) [of ?tf] assms(3,4) by auto
  then have t: "vfiles w ?tf = Some (lines_text qs)" "frozen w = {}" using eff(1) eff(3) [of ?tf] assms(1,2) by (auto simp: tracking_def)
  define x where "x = put_file ?tf (lines_text (qs @ ?cs)) w"
  have x: "track_captured t c w = x" unfolding x_def track_captured_all using t by (intro track_all_file) simp_all
  define z where "z = put_file ?tf (lines_text ?qs) (put_file ?page rewritten x)"
  have "track_path t ?page (put_file ?page rewritten x) = (Ok (), z)"
    using n(2) t(2) by (auto simp: track_path_def x_def z_def)
  then have out: "rewrite_page patch root wiki t ?page rewritten now v = Some (Ok (), z)"
    using assms(5) x t(2) by (simp add: rewrite_page_def Let_def x_def)
  have "tracking t ?qs z" using assms(2,6,7) eff(2) by (simp add: tracking_def z_def x_def)
  moreover have "only_tracked t ?qs v z" using eff(1-3) by (auto simp: only_tracked_def z_def x_def)
  ultimately have "vfiles (snd (txn_rollback t z)) = vfiles v |` (- insert ?tf (set ?qs))"
    using assms(1) by (intro only_tracked_rollback)
  moreover have "vfiles z ?page = Some rewritten" using n(2) by (auto simp: z_def)
  ultimately show ?thesis using out by (intro exI [of _ z]) (auto simp: map_le_def restrict_map_def)
qed

text \<open>The same befalls every page that is tracked when it is rewritten.\<close>

lemma tracked_page_lost:
  assumes "tracking t qs v" "frozen v = {}" "plain p" "p \<noteq> tracking_file t"
  shows "vfiles (snd (txn_rollback t (put_file p content (snd (track_path t p v))))) p = None"
proof -
  have "tracking t (qs @ [p]) (put_file p content (snd (track_path t p v)))"
    using assms by (simp add: tracking_def track_path_def)
  then show ?thesis using assms(2) by (simp add: tracking_rollback track_path_def)
qed

text \<open>
  A hand-written page, one without the key for sources, is rewritten and tracked when it links to a
  deleted page, so a rollback removes it.
\<close>

theorem handwritten_page_lost:
  assumes "tracking t qs v" "frozen v = {}" "plain p" "p \<noteq> tracking_file t"
    "parse_sources content = None" "target \<in> set (extract_wikilinks content)" "link_dead u deleted target"
  shows "\<exists>new_content r'. clean_step u deleted t p content r v = Some (Some new_content, r', snd (track_path t p v))
    \<and> vfiles (snd (txn_rollback t (put_file p new_content (snd (track_path t p v))))) p = None"
proof -
  have "filter (link_dead u deleted) (extract_wikilinks content) \<noteq> []" using assms(6,7) by (auto simp: filter_empty_conv)
  then have "\<exists>new_content r'. clean_step u deleted t p content r v = Some (Some new_content, r', snd (track_path t p v))"
    by (simp add: clean_step_def Let_def)
  then show ?thesis using tracked_page_lost [OF assms(1-4)] by blast
qed

text \<open>
  The grace of two sweeps holds only for a page without prior versions: one that was ever captured is
  deleted the first time all its sources are missing.
\<close>

theorem orphan_deleted_at_once:
  assumes "parse_sources content = Some ss" "ss \<noteq> []" "\<forall>s \<in> set ss. \<not> path_exists v s" "p \<notin> frozen v"
    "se_store env = Some root" "versions_of (se_read_dir env) root (se_wiki env) p v \<noteq> []"
  shows "\<exists>s'. sweep_step env p content s v = Some (Some [], s', del_file p v)"
proof -
  have "filter (path_exists v) ss = []" using assms(3) by (simp add: filter_empty_conv)
  then show ?thesis using assms by (simp add: sweep_step_def sweep_orphan_def Let_def)
qed

text \<open>The sources the sweep strips are rewritten without being tracked.\<close>

lemma sweep_rewrite_untracked:
  "sweep_step env p content s v = Some (Some new_content, s', w) \<Longrightarrow> new_content \<noteq> [] \<Longrightarrow> w = v"
  by (auto simp: sweep_step_def sweep_orphan_def Let_def split: option.splits if_splits result.splits prod.splits)

text \<open>A cycle whose stages fail removes every file they tracked.\<close>

theorem failed_cycle_rolls_back:
  assumes "read_to_string v (tracking_file (cycle_txn env)) \<noteq> None"
  shows "settle_cycle env snapshot (Err e) v =
    Some (Err e, removed_by v (insert (tracking_file (cycle_txn env)) (set (tracked_paths (cycle_txn env) v))))"
  using txn_rollback_spec [OF assms] by (simp add: settle_cycle_def)

subsection \<open>Every cycle ends and closes its transaction\<close>

definition healthy :: "Vault \<Rightarrow> bool" where
  "healthy v \<longleftrightarrow> frozen v = {} \<and> unreadable v = {} \<and> finite (dom (vfiles v))"

lemma healthy_put [simp]: "healthy v \<Longrightarrow> healthy (put_file p c v)"
  by (simp add: healthy_def)

lemma healthy_del [simp]: "healthy v \<Longrightarrow> healthy (del_file p v)"
  by (simp add: healthy_def)

lemma healthy_removed [simp]: "healthy v \<Longrightarrow> healthy (removed_by v ps)"
  by (auto simp: healthy_def removed_by_def)

lemma healthy_track [simp]: "healthy v \<Longrightarrow> healthy (snd (track_path t p v))"
  by (simp add: track_path_def)

lemma healthy_rollback_file [simp]: "healthy v \<Longrightarrow> healthy (snd (rollback_tracking_file tf v))"
proof (cases "read_to_string v tf")
  case (Some c)
  then show "healthy v \<Longrightarrow> ?thesis" by (simp add: rollback_file_spec)
qed (simp add: rollback_tracking_file_def)

lemma healthy_replay_scan [simp]: "healthy v \<Longrightarrow> healthy (snd (replay_scan logs a es r v))"
proof (induction es arbitrary: r v)
  case (Cons e es)
  obtain y u where y: "rollback_tracking_file (path_join logs (fst e)) v = (y, u)" by fastforce
  have "healthy u" using healthy_rollback_file [OF Cons.prems, of "path_join logs (fst e)"] y by simp
  then show ?case using Cons y by (cases y) simp_all
qed simp

lemma for_each_page_ends:
  assumes "\<And>p content s v. healthy v \<Longrightarrow> \<exists>x s' v'. f p content s v = Some (x, s', v') \<and> healthy v'"
  shows "healthy v \<Longrightarrow> \<exists>r s' v'. for_each_page f ps s v = Some (r, s', v') \<and> healthy v'"
proof (induction ps arbitrary: s v)
  case (Cons p ps)
  show ?case
  proof (cases "cascade_page p \<and> read_to_string v p \<noteq> None")
    case True
    then obtain content where c: "cascade_page p" "read_to_string v p = Some content" by blast
    from assms [OF Cons.prems] obtain x s' v' where f: "f p content s v = Some (x, s', v')" "healthy v'" by blast
    then have "frozen v' = {}" by (simp add: healthy_def)
    then show ?thesis using c f Cons.IH [OF f(2)] Cons.IH [OF healthy_put [OF f(2)]] by (cases x) simp_all
  next
    case False
    then have "for_each_page f (p # ps) s v = for_each_page f ps s v" by auto
    then show ?thesis using Cons by simp
  qed
qed simp

lemma redirect_all_ends: "healthy v \<Longrightarrow> \<exists>w. redirect_all walk ms t v = Some w \<and> healthy w"
proof (induction ms arbitrary: v)
  case (Cons m ms)
  have "\<exists>x s' v'. redirect_step a b t p content s v = Some (x, s', v') \<and> healthy v'" if "healthy v" for a b p content s v
    using that by (auto simp: redirect_step_def split: option.split)
  from for_each_page_ends [of "redirect_step (fst m) (snd m) t", OF this Cons.prems] obtain r n w where
    "for_each_page (redirect_step (fst m) (snd m) t) walk 0 v = Some (r, n, w)" "healthy w" by blast
  then show ?case using Cons.IH [of w] by (cases m) (simp add: redirect_page_source_def)
qed simp

lemma capture_ends:
  assumes "healthy v" "0 \<le> now"
  shows "\<exists>r w. iteration_capture patch root wiki page next_content now v = Some (r, w) \<and> healthy w"
proof (cases "\<exists>rel prior. page_rel_of wiki page = Some rel \<and> read_to_string v page = Some prior \<and> prior \<noteq> next_content")
  case True
  then obtain rel prior where c: "page_rel_of wiki page = Some rel" "read_to_string v page = Some prior" "prior \<noteq> next_content" by blast
  have h: "frozen v = {}" "finite (dom (vfiles v))" using assms(1) by (simp_all add: healthy_def)
  from capture_readable [OF h assms(2) c, of root patch] obtain m d where
    "iteration_capture patch root wiki page next_content now v =
        Some (Ok (Some \<lparr>ci_page_rel = rel, ci_md_path = version_file (version_dir_for root rel) m, ci_diff_path = d\<rparr>),
          (case d of None \<Rightarrow> put_file (version_file (version_dir_for root rel) m) prior v
           | Some f \<Rightarrow> put_file f (patch prior next_content) (put_file (version_file (version_dir_for root rel) m) prior v)))" by blast
  then show ?thesis using assms(1) by (cases d) simp_all
next
  case False
  then have "iteration_capture patch root wiki page next_content now v = Some (Ok None, v)"
    by (cases "page_rel_of wiki page"; cases "read_to_string v page") (simp_all add: iteration_capture_def)
  then show ?thesis using assms(1) by simp
qed

lemma sweep_step_ends:
  assumes "0 \<le> se_now env" "healthy v"
  shows "\<exists>x s' w. sweep_step env p content s v = Some (x, s', w) \<and> healthy w"
proof -
  have "\<exists>x s' w. sweep_orphan env p content s v = Some (x, s', w) \<and> healthy w" for s
  proof (cases "se_store env")
    case (Some root)
    obtain r w where rw: "iteration_capture (se_patch env) root (se_wiki env) p [] (se_now env) v = Some (r, w)" "healthy w"
      using capture_ends [OF assms(2,1)] by blast
    then show ?thesis using Some assms(2) by (auto simp: sweep_orphan_def Let_def split: result.split option.split)
  qed (use assms(2) in \<open>simp add: sweep_orphan_def Let_def\<close>)
  then show ?thesis using assms(2) by (auto simp: sweep_step_def Let_def split: option.split)
qed

lemma track_each_healthy: "healthy v \<Longrightarrow> healthy (snd (track_each t ps v))"
proof (induction ps arbitrary: v)
  case (Cons p ps)
  then show ?case using Cons.IH [OF healthy_track [OF Cons.prems, of t p]]
    by (cases "track_path t p v") (auto simp: track_path_def split: if_splits)
qed simp

lemma sweep_ends:
  assumes "0 \<le> se_now env" "healthy v"
  shows "\<exists>r w. sweep_dead_sources env is_dir walk1 walk2 t v = Some (r, w) \<and> healthy w"
proof (cases is_dir)
  case True
  let ?s0 = "\<lparr>sw_report = cascade_zero, sw_deleted = [], sw_captured = []\<rparr>"
  from for_each_page_ends [of "sweep_step env", OF sweep_step_ends [OF assms(1)] assms(2)] obtain r s w where
    w: "for_each_page (sweep_step env) walk1 ?s0 v = Some (r, s, w)" "healthy w" by blast
  obtain y x where x: "track_each t (sw_captured s) w = (y, x)" by fastforce
  have hx: "healthy x" using track_each_healthy [OF w(2), of t "sw_captured s"] x by simp
  have "\<exists>a b c. clean_step u d t p content r v = Some (a, b, c) \<and> healthy c" if "healthy v" for u d p content r v
    using that by (simp add: clean_step_def Let_def)
  from for_each_page_ends [of "clean_step (se_unicode env) (sw_deleted s) t", OF this hx] obtain r2 s2 w2 where
    c: "for_each_page (clean_step (se_unicode env) (sw_deleted s) t) walk2 (sw_report s) x = Some (r2, s2, w2)" "healthy w2" by blast
  show ?thesis using w x hx c True
    by (cases r; cases y) (auto simp: sweep_dead_sources_def split: if_splits)
qed (use assms(2) in \<open>simp add: sweep_dead_sources_def\<close>)

lemma rollback_closes: "healthy v \<Longrightarrow> vfiles (snd (txn_rollback t v)) (tracking_file t) = None \<and> healthy (snd (txn_rollback t v))"
proof (cases "read_to_string v (tracking_file t)")
  case None
  moreover assume "healthy v"
  ultimately show ?thesis
    by (simp add: healthy_def txn_rollback_def rollback_tracking_file_def path_exists_def read_to_string_def)
next
  case (Some c)
  moreover assume "healthy v"
  ultimately show ?thesis using txn_rollback_spec [of v t] healthy_removed [of v] by (simp add: healthy_def)
qed

lemma finish_closes:
  assumes "healthy v"
  shows "vfiles (snd (finish_cycle hash t snapshot oc v)) (tracking_file t) = None"
proof -
  have f: "tracking_file t \<notin> frozen v" "tracking_file t \<notin> frozen (remove_deferred (so_deferred oc) v)"
    using assms by (simp_all add: healthy_def remove_deferred_files)
  note c = txn_commit_spec [OF f(1)] txn_commit_spec [OF f(2)]
  show ?thesis
  proof (cases snapshot)
    case None
    then show ?thesis using f by (simp add: finish_cycle_def c)
  next
    case (Some snap)
    then show ?thesis using f rollback_closes [OF assms, of t]
      by (simp add: finish_cycle_def c Let_def split: result.split)
  qed
qed

lemma settle_closes:
  assumes "healthy v" "tracking_file (cycle_txn env) \<noteq> checkpoint_path (ce_logs env)"
  shows "\<exists>r w. settle_cycle env snapshot run v = Some (r, w) \<and> vfiles w (tracking_file (cycle_txn env)) = None"
proof (cases run)
  case (Ok oc)
  from redirect_all_ends [OF assms(1)] obtain w where
    w: "redirect_all (ce_redirect_walk env) (so_migrated oc) (cycle_txn env) v = Some w" "healthy w" by blast
  obtain res x where x: "finish_cycle (ce_hash env) (cycle_txn env) snapshot oc w = (res, x)" by fastforce
  then have n: "vfiles x (tracking_file (cycle_txn env)) = None"
    using finish_closes [OF w(2), of "ce_hash env" "cycle_txn env" snapshot oc] by simp
  have p: "vfiles (snd (write_checkpoint j (ce_logs env) cp x)) (tracking_file (cycle_txn env)) = None" for j cp
    using n assms(2) by (simp add: write_checkpoint_def)
  show ?thesis
  proof (cases res)
    case res: (Ok oc')
    obtain o1 committed where oc': "oc' = (o1, committed)" by fastforce
    obtain y z where y: "write_checkpoint (ce_json env) (ce_logs env) (checkpoint_of env ''completed'' (so_processed o1)) x = (y, z)"
      by fastforce
    have "vfiles z (tracking_file (cycle_txn env)) = None" using p [of "ce_json env" "checkpoint_of env ''completed'' (so_processed o1)"] y by simp
    then show ?thesis using Ok w x res oc' y n by (cases y) (simp_all add: settle_cycle_def)
  qed (use Ok w x n in \<open>simp add: settle_cycle_def\<close>)
next
  case (Err e)
  then show ?thesis using rollback_closes [OF assms(1)] by (simp add: settle_cycle_def)
qed

lemma replay_healthy: "healthy v \<Longrightarrow> healthy (snd (replay_stale_transactions logs es v))"
  by (simp add: replay_stale_transactions_def replay_stale_transactions_older_than_def split: option.split)

lemma replay_creates_nothing: "vfiles v p = None \<Longrightarrow> vfiles (snd (replay_stale_transactions logs es v)) p = None"
proof (cases es)
  case (Some xs)
  assume n: "vfiles v p = None"
  let ?w = "snd (replay_scan logs STALE_TXN_MIN_AGE xs \<lparr>tracking_files = 0, files_removed = 0\<rparr> v)"
  have "shrinks v ?w" by (metis replay_scan_shrinks prod.collapse)
  moreover have "\<not> path_exists v p" using n by (simp add: path_exists_def)
  ultimately have "\<not> path_exists ?w p" using shrinks_exists by blast
  then show ?thesis using Some
    by (simp add: replay_stale_transactions_def replay_stale_transactions_older_than_def path_exists_def)
qed (simp add: replay_stale_transactions_def replay_stale_transactions_older_than_def)

lemma recover_first_effect:
  "snd (recover_first env v) = v \<or> snd (recover_first env v) = del_file (checkpoint_path (ce_logs env)) v"
  by (auto simp: recover_first_def recover_def clear_checkpoint_def split: result.splits option.splits)


subsection \<open>Instances\<close>

definition small_txn :: TransactionScope where "small_txn = new_for_logs ''l'' ''x''"

definition small_before :: Vault where
  "small_before = \<lparr>vfiles = [''w/p.md'' \<mapsto> ''old'', ''l/.txn-x.jsonl'' \<mapsto> ''n.md'' @ [CHR 10], ''n.md'' \<mapsto> ''new''],
     unreadable = {}, frozen = {}\<rparr>"

definition small_after :: Vault where
  "small_after = put_file ''w/p.md'' ''edited'' small_before"

definition small_snap :: VersionSnapshot where
  "small_snap = \<lparr>versions = [(''w/p.md'', Some ''old'')]\<rparr>"

definition small_outcome :: StageOutcome where
  "small_outcome = \<lparr>so_migrated = [], so_deferred = [''in.md''], so_processed = 1, so_rolled_back = False, so_drifted = []\<rparr>"

lemma small_tf: "tracking_file small_txn = ''l/.txn-x.jsonl''"
  by code_simp

lemma small_facts:
  "snapshot_capture (\<lambda>c. c) small_before [''w/p.md''] = Ok small_snap"
  "no_collision (\<lambda>c. c) small_before small_after [''w/p.md'']"
  "\<forall>p \<in> set [''w/p.md'']. p \<notin> unreadable small_after"
  "read_to_string small_after (tracking_file small_txn) \<noteq> None" "tracking_file small_txn \<notin> frozen small_after"
  by (simp_all add: snapshot_capture_def small_before_def small_after_def small_snap_def small_tf
      content_version_def no_collision_def read_to_string_def)

lemma small_changed: "vfiles small_after ''w/p.md'' = Some ''edited''" "vfiles small_before ''w/p.md'' = Some ''old''"
  by (simp_all add: small_after_def small_before_def)

text \<open>An edit by someone else.\<close>

lemma small_drift: "{p \<in> set [''w/p.md'']. vfiles small_after p \<noteq> vfiles small_before p} = {''w/p.md''}"
  using small_changed by auto

theorem cas_commit_exact_witness:
  "case commit_conditional (\<lambda>c. c) small_txn small_snap small_after of
     (Ok (CasRolledBack ds), u) \<Rightarrow> set ds = {''w/p.md''}
   | (Ok CasCommitted, u) \<Rightarrow> False
   | (Err e, u) \<Rightarrow> False"
proof -
  note res = cas_commit_exact [OF small_facts, unfolded small_drift]
  obtain r u where x: "commit_conditional (\<lambda>c. c) small_txn small_snap small_after = (r, u)" by fastforce
  show ?thesis
  proof (cases r)
    case (Ok a)
    then show ?thesis using res small_changed by (cases a) (simp_all add: x)
  qed (use res in \<open>simp add: x\<close>)
qed

lemma small_tracked: "tracked_paths small_txn small_after = [''n.md'']"
proof -
  have "read_to_string small_after (tracking_file small_txn) = Some (''n.md'' @ [CHR 10])"
    by (simp add: read_to_string_def small_after_def small_before_def small_tf)
  moreover have "line_paths (''n.md'' @ [CHR 10]) = [''n.md'']" by code_simp
  ultimately show ?thesis by (simp add: tracked_paths_def)
qed

theorem cycle_commit_exact_witness:
  "case finish_cycle (\<lambda>c. c) small_txn (Some small_snap) small_outcome small_after of
     (Ok (oc, False), u) \<Rightarrow> so_rolled_back oc
   | (Ok (oc, True), u) \<Rightarrow> False
   | (Err e, u) \<Rightarrow> False"
proof -
  note res = cycle_commit_exact [OF small_facts, of small_outcome, unfolded small_drift small_tracked]
  obtain r u where x: "finish_cycle (\<lambda>c. c) small_txn (Some small_snap) small_outcome small_after = (r, u)" by fastforce
  show ?thesis
  proof (cases r)
    case (Ok a)
    obtain oc b where "a = (oc, b)" by fastforce
    then show ?thesis using res Ok by (cases b) (simp_all add: x)
  qed (use res in \<open>simp add: x\<close>)
qed

text \<open>A tracking file an hour old.\<close>

definition crash_entries :: "log_entry list" where
  "crash_entries = [(''.txn-x.jsonl'', Some (3600 * NANOS))]"


theorem sources_read_back_witness:
  "parse_sources (write_sources (lines_text [''---'', ''sources: ['' @ [CHR 34] @ ''/in/a.md'' @ [CHR 34] @ '']'', ''---'', ''Body'']) [''/archive/a.md'', ''b, c''])
     = Some [''/archive/a.md'', ''b, c'']"
proof -
  have "parse_sources (lines_text [''---'', ''sources: ['' @ [CHR 34] @ ''/in/a.md'' @ [CHR 34] @ '']'', ''---'', ''Body'']) = Some [''/in/a.md'']"
    by code_simp
  moreover have "list_all source_ok [''/archive/a.md'', ''b, c'']" by code_simp
  ultimately show ?thesis by (rule sources_read_back)
qed

theorem captured_page_restored_witness:
  "\<exists>c w d u. iteration_capture (\<lambda>a b. []) ''i'' ''w'' ''w/p.md'' ''edited'' 1 small_before = Some (Ok (Some c), w)
     \<and> iteration_restore (\<lambda>a b. []) ''i'' ''w''
          \<lparr>iv_page_rel = ci_page_rel c, iv_millis = 1, iv_md_path = ci_md_path c, iv_diff_path = ci_diff_path c\<rparr> 2
          (put_file ''w/p.md'' ''edited'' w) = Some (Ok (Some d), u)
     \<and> vfiles u ''w/p.md'' = Some ''old''"
proof -
  have "frozen small_before = {}" "unreadable small_before = {}" "finite (dom (vfiles small_before))"
    "vfiles small_before (''w/p'' @ ''.md'') = Some ''old''" by (simp_all add: small_before_def)
  moreover have "page_rel_of ''w'' (''w/p'' @ ''.md'') = Some ''p.md''" "path_join ''w'' ''p.md'' = ''w/p'' @ ''.md''" by code_simp+
  moreover have "(0 :: int) \<le> 1" "(0 :: int) \<le> 2" "''old'' \<noteq> ''edited''" by simp_all
  ultimately have "\<exists>c w. iteration_capture (\<lambda>a b. []) ''i'' ''w'' (''w/p'' @ ''.md'') ''edited'' 1 small_before = Some (Ok (Some c), w)
     \<and> (\<exists>d u. iteration_restore (\<lambda>a b. []) ''i'' ''w''
          \<lparr>iv_page_rel = ci_page_rel c, iv_millis = 1, iv_md_path = ci_md_path c, iv_diff_path = ci_diff_path c\<rparr> 2
          (put_file (''w/p'' @ ''.md'') ''edited'' w) = Some (Ok (Some d), u)
        \<and> vfiles u (''w/p'' @ ''.md'') = Some ''old'' \<and> vfiles u (ci_md_path d) = Some ''edited'')"
    by (intro captured_page_restored)
  then show ?thesis unfolding append.simps by blast
qed

text \<open>The page of a vault, rewritten and rolled back.\<close>

theorem rollback_loses_page_and_backup_witness:
  "\<exists>z. rewrite_page (\<lambda>a b. []) ''i'' ''w'' small_txn ''w/p.md'' ''edited'' 1 small_before = Some (Ok (), z)
     \<and> vfiles z ''w/p.md'' = Some ''edited'' \<and> vfiles (snd (txn_rollback small_txn z)) ''w/p.md'' = None"
proof -
  let ?c = "\<lparr>ci_page_rel = ''p.md'', ci_md_path = ''i/p/1.md'', ci_diff_path = None\<rparr>"
  have v: "version_file (version_dir_for ''i'' ''p.md'') 1 = ''i/p/1.md''" by code_simp
  have f: "vfiles small_before ''w/p.md'' = Some ''old''" "unreadable small_before = {}" "frozen small_before = {}"
    "vfiles small_before ''i/p/1.md'' = None" by (simp_all add: small_before_def)
  then have free: "free_millis small_before (version_dir_for ''i'' ''p.md'') 1 = Some 1"
    by (simp add: free_millis.simps v path_exists_def)
  have cap: "iteration_capture (\<lambda>a b. []) ''i'' ''w'' (''w/p'' @ ''.md'') ''edited'' 1 small_before
      = Some (Ok (Some ?c), put_file ''i/p/1.md'' ''old'' small_before)"
    using free f by (simp add: iteration_capture_def page_rel_of_def strip_prefix_def read_to_string_def Let_def v)
  have tr: "tracking small_txn [''n.md''] small_before"
    by (simp add: tracking_def small_tf small_before_def) code_simp
  have "tracking_file small_txn \<noteq> r @ ''.md''" "tracking_file small_txn \<noteq> r @ ''.diff''" for r
    unfolding small_tf by (auto dest: arg_cong [of _ _ last])
  moreover have "list_all plain (captured_paths ?c)" "plain (''w/p'' @ ''.md'')" by code_simp+
  ultimately show ?thesis
    using rollback_loses_page_and_backup [OF _ tr _ _ cap] by (auto simp: small_before_def)
qed

text \<open>A cycle over a vault with one note.\<close>

definition small_env :: CycleEnv where
  "small_env = \<lparr>ce_json = \<lparr>ck_print = ck_status, ck_parse = (\<lambda>_. None)\<rparr>, ce_hash = (\<lambda>c. c),
     ce_sweep = \<lparr>se_unicode = \<lparr>u_nfc = (\<lambda>s. s), u_lower = to_lowercase, u_alnum = (\<lambda>ch. list_all is_lower ch)\<rparr>,
       se_read_dir = (\<lambda>_ _. None), se_patch = (\<lambda>_ _. []), se_now = 1, se_wiki = ''w'', se_store = Some ''i''\<rparr>,
     ce_logs = ''l'', ce_txn_logs = ''l'', ce_entries = None, ce_is_dir = True, ce_walks = ([''w/p.md''], [''w/p.md'']),
     ce_inventory = [''w/p.md''], ce_redirect_walk = [''w/p.md''], ce_cas = True, ce_cycle_id = ''c1'', ce_now = ''now''\<rparr>"


end
