(* ===== verification/Spec2Isabelle.thy ===== *)
theory Spec2Isabelle
  imports Plan_Graph Gateway_Guards Gateway_Approval Gateway_Connection Network_Policy_Model
    Role_Validate Secrets_Roundtrip Task_System Shell_Collect Tool_Calls Plan_Store
    Sandbox_Gate Stream_Restore Scheduler_Time Belief_Files Commitment_Laws
    Marker_State Tool_Hook Memory_Metrics Vault_Cycle
begin

text \<open>
  Zenspace is a personal agent workspace written in Rust: a gateway daemon that clients talk to over
  JSON-RPC, agents that call language models and tools, a plan executor, background workers, and a
  memory of markdown files. This library models the parts that decide something, function by function,
  and proves what they promise. Paths below are under src/crates/.

  \<^bold>\<open>How the parts interact.\<close> A client frame enters through the protocol and the dispatcher, which checks
  the handshake, the guards and the approvals and answers through the outbound queue of the
  connection. A turn collects tool calls, runs them behind the hooks, the sandbox and the network policy,
  and may delegate to sub-agents or run a plan; plans are layered, executed, checkpointed and resumed
  from the database. Prompts leave through the provider router, which chooses a provider by sensitivity
  and preference, redacts secrets and restores them in the reply or in the stream. Replies pass the
  review pipeline. Shell commands that outlive a turn live in the task registry. The scheduler runs the
  workers that maintain the memory: beliefs, commitments and the markers in their sidecars. The
  distillation turns notes into wiki pages inside a transaction over the vault.

  \<^bold>\<open>Theories and sources.\<close>
  \<^item> \<open>Rust_Prelude\<close>: results, UTF-8 strings, the string operations of the standard library, durations,
    runs of labelled step relations (\<open>steps\<close>) and the locales \<open>invariant_system\<close> and \<open>refinement\<close>, which
    every state machine below interprets. \<open>Json_Value\<close>: JSON values.
  \<^item> \<open>Plan_Graph\<close>: parsing and layering of plans (zen-agents/src/plan_task.rs). \<open>Plan_Execute\<close>,
    \<open>Plan_Run\<close>: execution of the layers, retries, halting. \<open>Workflow_Repo\<close>, \<open>Plan_Store\<close>: the plan tables
    (zen-repo/src/workflow_repo.rs), claims, checkpoints, resumption.
  \<^item> \<open>Rpc_Error\<close>, \<open>Gateway_Protocol\<close>: error catalogue, versions, envelope, method registry
    (zen-gateway/src/protocol). \<open>Gateway_Dispatch\<close>, \<open>Gateway_Guards\<close>, \<open>Gateway_Approval\<close>,
    \<open>Gateway_Connection\<close>: the server side (zen-gateway/src/server).
  \<^item> \<open>Network_Policy_Model\<close>, \<open>Sandbox_Gate\<close>, \<open>Env_Scrub_Model\<close>, \<open>Role_Validate\<close>, \<open>Sanitize\<close>, \<open>Tool_Hook\<close>:
    egress policy, file and command sandbox, child environments, role separation, the input sanitizer and
    the tool hook (zen-core/src, zen-agents/src/safety_hook.rs).
  \<^item> \<open>Secrets_Guard\<close>, \<open>Secrets_Roundtrip\<close>, \<open>Stream_Restore\<close>: the placeholder guard
    (zen-core/src/secrets_guard.rs) and its forwarder for streams.
  \<^item> \<open>Provider_Router\<close>, \<open>Router_Privacy\<close>, \<open>Provider_Stream\<close>, \<open>Model_Meta\<close>: routing, keys, metering,
    streaming and model metadata (zen-provider/src, zen-auth/src, zen-agents/src/completion_model.rs).
  \<^item> \<open>Review_Rubrics\<close>, \<open>Review_Pipeline\<close>: Zeus, Hermes, Metis, Momus and the quality pipeline
    (zen-core/src/review, zen-agents/src/review).
  \<^item> \<open>Task_Registry\<close>, \<open>Task_System\<close>, \<open>Shell_Collect\<close>: background tasks and the tool that waits for them
    (zen-plugin/src). \<open>Tool_Calls\<close>, \<open>Delegate_Task\<close>: the calls of a turn and delegation
    (zen-agents/src/orchestrator.rs, delegate_task.rs, registry.rs, delegate_tools.rs, agent_profile.rs).
  \<^item> \<open>Scheduler\<close>, \<open>Scheduler_Run\<close>, \<open>Scheduler_Time\<close>: registration, ticks, runs, triggers and the cost
    ledger (zen-agents/src/scheduler/mod.rs).
  \<^item> \<open>Memory_Markdown\<close>, \<open>Beliefs\<close>, \<open>Belief_Laws\<close>, \<open>Belief_Files\<close>, \<open>Commitments\<close>, \<open>Commitment_Laws\<close>,
    \<open>Memory_Metrics\<close>, \<open>Marker_State\<close>: front matter, beliefs, commitments, priorities, the figures and
    retention strength of the memory, and the workers' markers
    (zen-memory/src, zen-agents/src/scheduler/workers).
  \<^item> \<open>Vault_Txn\<close>, \<open>Vault_Cascade\<close>, \<open>Vault_Cycle\<close>: the transactions of the distillation with their snapshots,
    rollback and replay, the sources and stored versions of wiki pages, and the frame of a cycle
    (zen-vault/src/distill, zen-vault/src/wiki).

  \<^bold>\<open>State and operations.\<close> A struct is a record with the source's field names (prefixed where two records
  or a library constant would clash), an enum a datatype, a function or method one definition with the
  source's branches in the source's order. State is passed and returned; a concurrent component is a
  step relation with one label per atomic action, and its theorems hold for every interleaving.
  Errors are values of \<open>result\<close> with the source's messages; a panic is \<open>None\<close>.

  \<^bold>\<open>What the lemma groups show.\<close>
  \<^item> Invariants of reachable states by the locale \<open>invariant_system\<close>: requests answered once, approvals
    bound to their turn, the outbound queue, task entries and their mirror on disk, plan runs, workers
    that never overlap, beliefs within bounds, the lifecycle of commitments.
  \<^item> Refinement: the task registry implements the lifecycle pending, running, ended; a resumed plan run
    continues a fresh one.
  \<^item> Round trips: redaction and restoration for whole texts and for any framing of a stream, frames of the
    protocol, the file of a belief, the sources and the stored versions of a page.
  \<^item> Termination and totality: layering, plan invocation, the waiting tool, the loops of the sanitizer, all
    total functions or fuel with a proof that the fuel is enough, and the distillation cycle.
  \<^item> Places where the code does not do what its comments or callers expect are theorems too: they state
    the behaviour the source has.

  \<^bold>\<open>Bounds and fuel.\<close> Every loop that can be written by recursion on its data or on a measure is. Fuel
  appears where a loop polls: there the theorem says how much fuel gives the result.

  \<^bold>\<open>Parameters and idealizations.\<close> Strings are UTF-8 byte lists; case mapping is ASCII where the source
  calls Unicode tables, or an argument. Integers are unbounded unless a width matters; floats are
  rationals or reals, so rounding and NaN are outside the model. Third-party code (cron, chrono, serde,
  sqlite, the providers, the operating system's clock and files) is an argument of the definitions
  that use it; where a theorem relies on its behaviour the hypothesis is a named predicate with a
  witness. Directories map names to contents, writes either happen or not.

  \<^bold>\<open>Not modelled.\<close> The terminal interface and commands (zen-cli), HTTP providers, embeddings and the
  vector stores, the stages of the distillation and the vault's search, the wasm sandbox and MCP transports, the
  configuration loader beyond the fields used here, the daemon's hosting of turns, the agent loop
  around the parts above, and the bodies of most workers: they are I/O, prompts and glue around
  third-party code, and their own decisions are few.
\<close>

end
